(* ===== verification/Prelude.thy ===== *)
theory Prelude
  imports Complex_Main "HOL-Library.List_Lexorder" "HOL-Library.Char_ord"
begin

text \<open>
  The shared vocabulary of the development: results of fallible Go calls, the state-passing
  sequencing of such calls, the few operations of Go's \<^verbatim>\<open>strings\<close> package the sources use,
  and tables of rows with the statements (\<^verbatim>\<open>INSERT .. ON CONFLICT\<close>, \<^verbatim>\<open>UPDATE\<close>, \<^verbatim>\<open>DELETE\<close>)
  the stores issue against them.  The lemmas on these operations are what the component
  theories rewrite with; the collections below gather them.
\<close>

named_theorems res_simps \<open>unfolding of the sequencing of fallible calls\<close>
named_theorems table_simps \<open>rewriting of table statements\<close>
named_theorems str_simps \<open>rewriting of string operations\<close>

section \<open>Fallible, state-passing calls\<close>

text \<open>
  A Go method \<^verbatim>\<open>func (s *T) M(..) (A, error)\<close> is a function from the state to its result and
  the next state; \<open>Inl\<close> carries the error.  \<open>bindE\<close> is the idiom
  \<^verbatim>\<open>x, err := m(); if err != nil { return err }\<close>: the effects before the error stay.
\<close>

type_synonym ('s, 'e, 'a) call = "'s \<Rightarrow> ('e + 'a) \<times> 's"

definition returnE :: "'a \<Rightarrow> ('s, 'e, 'a) call" where
  "returnE x s = (Inr x, s)"

definition failE :: "'e \<Rightarrow> ('s, 'e, 'a) call" where
  "failE e s = (Inl e, s)"

definition bindE :: "('s, 'e, 'a) call \<Rightarrow> ('a \<Rightarrow> ('s, 'e, 'b) call) \<Rightarrow> ('s, 'e, 'b) call" where
  "bindE m f s = (case m s of (Inl e, s') \<Rightarrow> (Inl e, s') | (Inr x, s') \<Rightarrow> f x s')"

definition mapErr :: "('e \<Rightarrow> 'f) \<Rightarrow> ('s, 'e, 'a) call \<Rightarrow> ('s, 'f, 'a) call" where
  "mapErr w m s = (case m s of (Inl e, s') \<Rightarrow> (Inl (w e), s') | (Inr x, s') \<Rightarrow> (Inr x, s'))"

text \<open>A loop over a slice that stops at the first error.\<close>

primrec forE :: "'a list \<Rightarrow> ('a \<Rightarrow> ('s, 'e, unit) call) \<Rightarrow> ('s, 'e, unit) call" where
  "forE [] f = returnE ()"
| "forE (x # xs) f = bindE (f x) (\<lambda>_. forE xs f)"

lemmas call_defs = returnE_def failE_def bindE_def mapErr_def

lemma bindE_Inr [res_simps]: "m s = (Inr x, s') \<Longrightarrow> bindE m f s = f x s'"
  by (simp add: bindE_def)

lemma bindE_Inl [res_simps]: "m s = (Inl e, s') \<Longrightarrow> bindE m f s = (Inl e, s')"
  by (simp add: bindE_def)

lemma bindE_returnE [simp]: "bindE (returnE x) f = f x"
  by (rule ext) (simp add: bindE_def returnE_def)

lemma bindE_failE [simp]: "bindE (failE e) f = failE e"
  by (rule ext) (simp add: bindE_def failE_def)

lemma bindE_eq_Inr:
  "bindE m f s = (Inr y, t) \<longleftrightarrow> (\<exists>x s'. m s = (Inr x, s') \<and> f x s' = (Inr y, t))"
  by (auto simp: bindE_def split: prod.splits sum.splits)

lemma bindE_eq_Inl:
  "bindE m f s = (Inl e, t) \<longleftrightarrow>
     m s = (Inl e, t) \<or> (\<exists>x s'. m s = (Inr x, s') \<and> f x s' = (Inl e, t))"
  by (auto simp: bindE_def split: prod.splits sum.splits)

lemma mapErr_eq_Inr: "mapErr w m s = (Inr x, t) \<longleftrightarrow> m s = (Inr x, t)"
  by (auto simp: mapErr_def split: prod.splits sum.splits)

lemma mapErr_eq_Inl: "mapErr w m s = (Inl e, t) \<longleftrightarrow> (\<exists>e'. e = w e' \<and> m s = (Inl e', t))"
  by (auto simp: mapErr_def split: prod.splits sum.splits)

section \<open>Lists\<close>

text \<open>The \<^verbatim>\<open>for .. { if p(it) { *it = f(*it); return } }\<close> idiom on a slice of pointers.\<close>

fun update_first :: "('a \<Rightarrow> bool) \<Rightarrow> ('a \<Rightarrow> 'a) \<Rightarrow> 'a list \<Rightarrow> 'a list" where
  "update_first p f [] = []"
| "update_first p f (x # xs) = (if p x then f x # xs else x # update_first p f xs)"

lemma length_update_first [simp]: "length (update_first p f xs) = length xs"
  by (induction xs) auto

lemma update_first_none [simp]: "find p xs = None \<Longrightarrow> update_first p f xs = xs"
  by (induction xs) (auto split: if_splits)

lemma map_update_first [simp]: "(\<And>x. g (f x) = g x) \<Longrightarrow> map g (update_first p f xs) = map g xs"
  by (induction xs) auto

lemma update_first_split:
  assumes "find p xs = Some x"
  obtains ys zs where "xs = ys @ x # zs" "p x" "update_first p f xs = ys @ f x # zs"
  using assms
proof (induction xs arbitrary: thesis)
  case (Cons a xs)
  show ?case
  proof (cases "p a")
    case True
    with Cons.prems(2) show ?thesis by (intro Cons.prems(1) [of "[]" xs]) auto
  next
    case False
    with Cons.prems(2) have "find p xs = Some x" by simp
    then obtain ys zs where "xs = ys @ x # zs" "p x" "update_first p f xs = ys @ f x # zs"
      using Cons.IH by blast
    with False show ?thesis by (intro Cons.prems(1) [of "a # ys" zs]) auto
  qed
qed simp

lemma find_Some_iff_ex: "(\<exists>x. find p xs = Some x) \<longleftrightarrow> (\<exists>x\<in>set xs. p x)"
  by (induction xs) auto

lemma find_append [simp]: "find p (xs @ ys) = (case find p xs of None \<Rightarrow> find p ys | Some x \<Rightarrow> Some x)"
  by (induction xs) auto

lemma find_SomeD: "find p xs = Some x \<Longrightarrow> x \<in> set xs \<and> p x"
  by (induction xs) (auto split: if_splits)

text \<open>How many elements satisfy a predicate (\<^verbatim>\<open>count(*)\<close>, or a counter bumped in a loop).\<close>

definition count_if :: "('a \<Rightarrow> bool) \<Rightarrow> 'a list \<Rightarrow> nat" where
  "count_if p xs = length (filter p xs)"

lemma count_if_Nil [simp]: "count_if p [] = 0"
  by (simp add: count_if_def)

lemma count_if_Cons [simp]: "count_if p (x # xs) = (if p x then Suc (count_if p xs) else count_if p xs)"
  by (simp add: count_if_def)

lemma count_if_append [simp]: "count_if p (xs @ ys) = count_if p xs + count_if p ys"
  by (simp add: count_if_def)

lemma count_if_le_length: "count_if p xs \<le> length xs"
  by (simp add: count_if_def)

lemma count_if_map [simp]: "count_if p (map f xs) = count_if (p \<circ> f) xs"
  by (simp add: count_if_def filter_map)

lemma count_if_cong [fundef_cong]:
  "xs = ys \<Longrightarrow> (\<And>x. x \<in> set ys \<Longrightarrow> p x = q x) \<Longrightarrow> count_if p xs = count_if q ys"
  by (auto simp: count_if_def cong: filter_cong)

lemma count_if_disj:
  "(\<And>x. x \<in> set xs \<Longrightarrow> \<not> (p x \<and> q x)) \<Longrightarrow> count_if (\<lambda>x. p x \<or> q x) xs = count_if p xs + count_if q xs"
  by (induction xs) auto

lemma count_if_all: "count_if p xs = length xs \<longleftrightarrow> (\<forall>x\<in>set xs. p x)"
  by (simp add: count_if_def length_filter_conv_card [symmetric] filter_id_conv)
     (metis filter_True length_filter_less less_irrefl)

lemma count_if_zero: "count_if p xs = 0 \<longleftrightarrow> (\<forall>x\<in>set xs. \<not> p x)"
  by (simp add: count_if_def filter_empty_conv)

lemma count_if_mono: "(\<And>x. p x \<Longrightarrow> q x) \<Longrightarrow> count_if p xs \<le> count_if q xs"
  by (induction xs) (auto simp: le_Suc_eq)

lemma count_if_update:
  assumes "i < length xs"
  shows "int (count_if p (xs[i := y])) = int (count_if p xs) - of_bool (p (xs ! i)) + of_bool (p y)"
proof -
  have "xs = take i xs @ xs ! i # drop (Suc i) xs" using assms by (rule id_take_nth_drop)
  then have "count_if p xs = count_if p (take i xs @ xs ! i # drop (Suc i) xs)" by simp
  then show ?thesis using assms by (simp add: upd_conv_take_nth_drop)
qed

section \<open>Tables\<close>

text \<open>
  A database table is the list of its rows.  The physical order of the rows is arbitrary, so a
  statement whose \<^verbatim>\<open>ORDER BY\<close> leaves ties is modelled by a stable sort of that list.  \<open>upsert\<close> is
  \<^verbatim>\<open>INSERT .. ON CONFLICT (key) DO UPDATE\<close> (and, with \<open>\<lambda>old new. old\<close>, \<^verbatim>\<open>DO NOTHING\<close>).
\<close>

fun upsert :: "('r \<Rightarrow> 'k) \<Rightarrow> ('r \<Rightarrow> 'r \<Rightarrow> 'r) \<Rightarrow> 'r \<Rightarrow> 'r list \<Rightarrow> 'r list" where
  "upsert key upd r [] = [r]"
| "upsert key upd r (x # xs) = (if key x = key r then upd x r # xs else x # upsert key upd r xs)"

definition tupdate :: "('r \<Rightarrow> bool) \<Rightarrow> ('r \<Rightarrow> 'r) \<Rightarrow> 'r list \<Rightarrow> 'r list" where
  "tupdate p f = map (\<lambda>r. if p r then f r else r)"

definition tdelete :: "('r \<Rightarrow> bool) \<Rightarrow> 'r list \<Rightarrow> 'r list" where
  "tdelete p = filter (\<lambda>r. \<not> p r)"

lemma set_tdelete [table_simps]: "set (tdelete p xs) = {r \<in> set xs. \<not> p r}"
  by (auto simp: tdelete_def)

lemma set_tupdate [table_simps]: "set (tupdate p f xs) = (\<lambda>r. if p r then f r else r) ` set xs"
  by (simp add: tupdate_def)

lemma length_tupdate [simp]: "length (tupdate p f xs) = length xs"
  by (simp add: tupdate_def)

lemma map_tupdate [simp]: "(\<And>r. g (f r) = g r) \<Longrightarrow> map g (tupdate p f xs) = map g xs"
  by (simp add: tupdate_def)

lemma tupdate_none: "count_if p xs = 0 \<Longrightarrow> tupdate p f xs = xs"
  by (auto simp: tupdate_def count_if_zero intro!: map_idI)

lemma filter_tupdate_frame [table_simps]:
  "(\<And>r. p r \<Longrightarrow> q (f r) = q r) \<Longrightarrow> filter q (tupdate p f xs) = tupdate p f (filter q xs)"
  by (induction xs) (auto simp: tupdate_def)

lemma filter_tdelete_frame:
  "(\<And>r. q r \<Longrightarrow> \<not> p r) \<Longrightarrow> filter q (tdelete p xs) = filter q xs"
  by (induction xs) (auto simp: tdelete_def)

lemma image_tupdate: "(\<And>r. g (f r) = g r) \<Longrightarrow> g ` set (tupdate p f xs) = g ` set xs"
  by (metis list.set_map map_tupdate)

lemma find_tupdate:
  assumes "\<And>r. key (f r) = key r"
  shows "find (\<lambda>r. key r = k') (tupdate (\<lambda>r. key r = k) f xs) =
    (if k' = k then map_option f (find (\<lambda>r. key r = k) xs) else find (\<lambda>r. key r = k') xs)"
  using assms by (induction xs) (auto simp: tupdate_def)

lemma tupdate_distinct_key:
  "distinct (map key xs) \<Longrightarrow> tupdate (\<lambda>r. key r = k) f xs = update_first (\<lambda>r. key r = k) f xs"
proof (induction xs)
  case (Cons x xs)
  have "key x = k \<Longrightarrow> map (\<lambda>r. if key r = k then f r else r) xs = xs"
    using Cons.prems by (intro map_idI) (auto simp: image_iff)
  with Cons show ?case by (auto simp: tupdate_def)
qed (simp add: tupdate_def)

lemma update_first_at: "(\<And>x. x \<in> set xs \<Longrightarrow> \<not> p x) \<Longrightarrow> p y \<Longrightarrow> update_first p f (xs @ y # ys) = xs @ f y # ys"
  by (induction xs) auto

lemma find_at: "(\<And>x. x \<in> set xs \<Longrightarrow> \<not> p x) \<Longrightarrow> p y \<Longrightarrow> find p (xs @ y # ys) = Some y"
  by (induction xs) auto

lemma find_distinct_key:
  "distinct (map key xs) \<Longrightarrow> find (\<lambda>x. key x = k) xs = Some x \<longleftrightarrow> x \<in> set xs \<and> key x = k"
  by (induction xs) (auto simp: image_iff)

lemma distinct_key_eq: "distinct (map key xs) \<Longrightarrow> x \<in> set xs \<Longrightarrow> y \<in> set xs \<Longrightarrow> key x = key y \<Longrightarrow> x = y"
  by (simp add: distinct_map inj_on_def)

lemma find_map_hom: "(\<And>x. p (h x) = q x) \<Longrightarrow> find p (map h xs) = map_option h (find q xs)"
  by (induction xs) auto

lemma map_update_first_hom:
  assumes "\<And>x. h (f x) = g (h x)" and "\<And>x. p x = q (h x)"
  shows "map h (update_first p f xs) = update_first q g (map h xs)"
  using assms by (induction xs) auto

lemma distinct_map_tdelete: "distinct (map key xs) \<Longrightarrow> distinct (map key (tdelete p xs))"
  by (simp add: tdelete_def distinct_map_filter)

lemma set_upsert_new:
  "key r \<notin> key ` set xs \<Longrightarrow> upsert key upd r xs = xs @ [r]"
  by (induction xs) auto

lemma map_upsert:
  assumes "\<And>x. key x = key r \<Longrightarrow> key (upd x r) = key r"
  shows "map key (upsert key upd r xs) =
    (if key r \<in> key ` set xs then map key xs else map key xs @ [key r])"
  using assms by (induction xs) auto

lemma distinct_upsert:
  assumes "distinct (map key xs)" and "\<And>x. key x = key r \<Longrightarrow> key (upd x r) = key r"
  shows "distinct (map key (upsert key upd r xs))"
  using assms by (simp add: map_upsert)

lemma filter_upsert_frame:
  assumes "\<And>x. key x = key r \<Longrightarrow> \<not> q x \<and> \<not> q (upd x r)" and "\<not> q r"
  shows "filter q (upsert key upd r xs) = filter q xs"
  using assms by (induction xs) auto

lemma set_upsertD:
  "y \<in> set (upsert key upd r xs) \<Longrightarrow>
     y \<in> set xs \<or> y = r \<or> (\<exists>x\<in>set xs. key x = key r \<and> y = upd x r)"
  by (induction xs) (auto split: if_splits)

lemma upsert_other: "x \<in> set xs \<Longrightarrow> key x \<noteq> key r \<Longrightarrow> x \<in> set (upsert key upd r xs)"
  by (induction xs) auto

lemma upsert_keeps_key:
  assumes "\<And>x. key x = key r \<Longrightarrow> key (upd x r) = key r"
  shows "key ` set (upsert key upd r xs) = insert (key r) (key ` set xs)"
  using assms by (induction xs) (auto simp: insert_commute)

section \<open>Strings\<close>

text \<open>Go strings are byte sequences, as \<^typ>\<open>string\<close> is.\<close>

fun join :: "string \<Rightarrow> string list \<Rightarrow> string" where
  "join sep [] = ''''"
| "join sep [x] = x"
| "join sep (x # y # ys) = x @ sep @ join sep (y # ys)"

text \<open>\<^verbatim>\<open>strings.Split\<close> with a one-byte separator.\<close>

fun split_on :: "char \<Rightarrow> string \<Rightarrow> string list" where
  "split_on c [] = [[]]"
| "split_on c (x # xs) =
     (if x = c then [] # split_on c xs
      else case split_on c xs of [] \<Rightarrow> [[x]] | w # ws \<Rightarrow> (x # w) # ws)"

lemma split_on_not_Nil [simp]: "split_on c s \<noteq> []"
  by (induction s) (auto split: list.splits)

lemma split_on_no_sep [str_simps]: "c \<notin> set s \<Longrightarrow> split_on c s = [s]"
  by (induction s) auto

lemma split_on_append_sep [str_simps]: "c \<notin> set s \<Longrightarrow> split_on c (s @ c # t) = s # split_on c t"
  by (induction s) (auto split: list.splits)

lemma distinct_take_mem: "distinct xs \<Longrightarrow> i < length xs \<Longrightarrow> xs ! i \<in> set (take k xs) \<longleftrightarrow> i < k"
  by (auto simp: in_set_conv_nth nth_eq_iff_index_eq)

lemma join_Cons_Cons: "join sep ((c # x) # xs) = c # join sep (x # xs)"
  by (cases xs) simp_all

lemma join_split: "join [c] (split_on c s) = s"
  by (induction s) (auto simp: join_Cons_Cons split: list.splits)

lemma split_on_join [str_simps]:
  "ws \<noteq> [] \<Longrightarrow> (\<And>w. w \<in> set ws \<Longrightarrow> c \<notin> set w) \<Longrightarrow> split_on c (join [c] ws) = ws"
  by (induction "[c]" ws rule: join.induct) (auto simp: str_simps)

definition HasPrefix :: "string \<Rightarrow> string \<Rightarrow> bool" where
  "HasPrefix s p \<longleftrightarrow> take (length p) s = p"

text \<open>\<^verbatim>\<open>strings.Contains\<close>\<close>

fun str_contains :: "string \<Rightarrow> string \<Rightarrow> bool" where
  "str_contains [] n = (n = [])"
| "str_contains (c # s) n = (HasPrefix (c # s) n \<or> str_contains s n)"

text \<open>\<^verbatim>\<open>strings.ToLower\<close> on ASCII letters; bytes above 127 are left alone.\<close>

definition lower_char :: "char \<Rightarrow> char" where
  "lower_char c = (let n = of_char c :: nat in if 65 \<le> n \<and> n \<le> 90 then char_of (n + 32) else c)"

definition ToLower :: "string \<Rightarrow> string" where
  "ToLower = map lower_char"

lemma ToLower_append [str_simps]: "ToLower (s @ t) = ToLower s @ ToLower t"
  by (simp add: ToLower_def)

lemma ToLower_Nil [str_simps]: "ToLower [] = []"
  by (simp add: ToLower_def)

lemma ToLower_Cons [str_simps]: "ToLower (c # s) = lower_char c # ToLower s"
  by (simp add: ToLower_def)

text \<open>\<^verbatim>\<open>strings.TrimSpace\<close> on ASCII white space.\<close>

definition is_space :: "char \<Rightarrow> bool" where
  "is_space c \<longleftrightarrow> (of_char c :: nat) \<in> {9, 10, 11, 12, 13, 32}"

definition TrimSpace :: "string \<Rightarrow> string" where
  "TrimSpace s = rev (dropWhile is_space (rev (dropWhile is_space s)))"

text \<open>Reading a Go map: a missing key reads as the zero value.\<close>

definition mget :: "('k \<rightharpoonup> string) \<Rightarrow> 'k \<Rightarrow> string" where
  "mget m k = (case m k of None \<Rightarrow> '''' | Some v \<Rightarrow> v)"

text \<open>Decimal rendering of a natural number (\<^verbatim>\<open>%d\<close>, \<^verbatim>\<open>strconv.Itoa\<close>).\<close>

fun dec :: "nat \<Rightarrow> string" where
  "dec n = (if n < 10 then [char_of (48 + n)] else dec (n div 10) @ [char_of (48 + n mod 10)])"

declare dec.simps [simp del]

section \<open>Rows by key\<close>

text \<open>The row of a table with a given key.\<close>

definition lookup :: "('r \<Rightarrow> 'k) \<Rightarrow> 'k \<Rightarrow> 'r list \<Rightarrow> 'r option" where
  "lookup key k xs = find (\<lambda>r. key r = k) xs"

lemma lookup_Nil [simp]: "lookup key k [] = None"
  by (simp add: lookup_def)

lemma lookup_Cons [simp]: "lookup key k (x # xs) = (if key x = k then Some x else lookup key k xs)"
  by (simp add: lookup_def)

lemma lookup_None [table_simps]: "lookup key k xs = None \<longleftrightarrow> k \<notin> key ` set xs"
  by (induction xs) auto

lemma lookup_Some: "distinct (map key xs) \<Longrightarrow> lookup key k xs = Some r \<longleftrightarrow> r \<in> set xs \<and> key r = k"
  unfolding lookup_def by (rule find_distinct_key)

lemma lookup_upsert [table_simps]:
  assumes "\<And>x. key x = key r \<Longrightarrow> key (upd x r) = key r"
  shows "lookup key k (upsert key upd r xs) =
    (if k = key r then Some (case lookup key k xs of None \<Rightarrow> r | Some x \<Rightarrow> upd x r) else lookup key k xs)"
  using assms by (induction xs) auto

lemma lookup_tdelete:
  "distinct (map key xs) \<Longrightarrow>
     lookup key k (tdelete p xs) = (case lookup key k xs of None \<Rightarrow> None | Some r \<Rightarrow> if p r then None else Some r)"
  by (induction xs) (auto simp: tdelete_def lookup_None image_iff lookup_Some split: option.splits)

text \<open>
  A batch of upserts: the last row of a key wins over the earlier ones, and meets the row the table
  had before, if there was one.
\<close>

lemma lookup_upserts:
  assumes key: "\<And>x y. key x = key y \<Longrightarrow> key (upd x y) = key y"
    and twice: "\<And>x a b. upd (upd x a) b = upd x b"
    and fresh: "\<And>a b. a \<in> set rs \<Longrightarrow> b \<in> set rs \<Longrightarrow> upd a b = b"
  shows "lookup key k (fold (upsert key upd) rs xs) = (case find (\<lambda>r. key r = k) (rev rs) of
      None \<Rightarrow> lookup key k xs
    | Some r \<Rightarrow> Some (case lookup key k xs of None \<Rightarrow> r | Some x \<Rightarrow> upd x r))"
  using fresh
proof (induction rs rule: rev_induct)
  case (snoc r rs)
  have IH: "lookup key k (fold (upsert key upd) rs xs) = (case find (\<lambda>r. key r = k) (rev rs) of
      None \<Rightarrow> lookup key k xs | Some r \<Rightarrow> Some (case lookup key k xs of None \<Rightarrow> r | Some x \<Rightarrow> upd x r))"
    using snoc by simp
  show ?case
  proof (cases "key r = k")
    case True
    have "find (\<lambda>r. key r = k) (rev rs) = Some a \<Longrightarrow> upd a r = r" for a
      using snoc.prems [of a r] by (auto dest: find_SomeD)
    then show ?thesis
      using True IH key by (auto simp: lookup_upsert twice split: option.splits)
  next
    case False
    then show ?thesis using IH key by (simp add: lookup_upsert)
  qed
qed simp

lemma lookup_overwrites:
  "lookup key k (fold (upsert key (\<lambda>old new. new)) rs xs) =
     (case find (\<lambda>r. key r = k) (rev rs) of None \<Rightarrow> lookup key k xs | Some r \<Rightarrow> Some r)"
  by (subst lookup_upserts) (auto split: option.splits)

lemma distinct_upserts:
  "(\<And>x y. key x = key y \<Longrightarrow> key (upd x y) = key y) \<Longrightarrow> distinct (map key xs) \<Longrightarrow> distinct (map key (fold (upsert key upd) rs xs))"
  by (induction rs arbitrary: xs) (auto intro: distinct_upsert)

lemma tdelete_tdelete: "tdelete q (tdelete p t) = tdelete (\<lambda>r. p r \<or> q r) t"
  by (simp add: tdelete_def conj_commute)

lemma tdelete_none: "tdelete (\<lambda>r. False) t = t"
  by (simp add: tdelete_def)

lemma fold_tdelete: "fold (\<lambda>x. tdelete (p x)) xs t = tdelete (\<lambda>r. \<exists>x\<in>set xs. p x r) t"
proof (induction xs arbitrary: t)
  case Nil
  show ?case by (simp add: tdelete_def)
next
  case (Cons x xs)
  then show ?case by (simp add: tdelete_def)
qed

text \<open>Reading one column of a state through a fold of updates.\<close>

lemma fold_field: "(\<And>x d. sel (f x d) = g x (sel d)) \<Longrightarrow> sel (fold f xs d) = fold g xs (sel d)"
  by (induction xs arbitrary: d) auto

lemma fold_field_frame: "(\<And>x d. sel (f x d) = sel d) \<Longrightarrow> sel (fold f xs d) = sel d"
  by (induction xs arbitrary: d) auto

end
