(* ===== verification/Go_Errors.thy ===== *)
theory Go_Errors
  imports Prelude
begin

text \<open>
  Go error values and the database connection every store talks through.

  An error is a value of \<open>err\<close>: the sentinels the packages export, the typed errors of
  \<^verbatim>\<open>internal/lightrag\<close> and of the database driver, and the two ways the sources wrap
  one: \<open>Wrap s e\<close> is \<^verbatim>\<open>fmt.Errorf("s: %w", e)\<close> and \<open>Suffix e s\<close> is
  \<^verbatim>\<open>fmt.Errorf("%w: ..", e)\<close>, whose message ends in \<open>s\<close>.  An error formatted with \<^verbatim>\<open>%v\<close>
  leaves only its text behind, so it is not in the chain \<open>Is\<close> and the \<open>As\<close> functions search.

  A connection carries the tables and a script with the outcome of the driver calls to come:
  \<open>Some e\<close> makes the next call fail with \<open>e\<close>.  A statement quantified over the script holds for
  every pattern of failures (a lost connection, a fired deadline, a cancelled context).
\<close>

section \<open>Error values\<close>

datatype err =
    ErrNotFound | ErrUpstream | ErrTransient | ErrBusy | ErrInvalid
  | ErrEntityNotFound | ErrInvalidScope
  | ErrJobExists | ErrJobNotFound | ErrDuplicateKey
  | ErrNoRows | ErrBadConn | ErrConnDone
  | DeadlineExceeded | Canceled
  | BusyError string nat int
  | HTTPError int string string
  | LogicalError string string string
  | PgError string string
  | ConnectError string err
  | NetError string
  | UrlError string err
  | Opaque string
  | Wrap string err
  | Suffix err string

primrec chain :: "err \<Rightarrow> err list" where
  "chain ErrNotFound = [ErrNotFound]"
| "chain ErrUpstream = [ErrUpstream]"
| "chain ErrTransient = [ErrTransient]"
| "chain ErrBusy = [ErrBusy]"
| "chain ErrInvalid = [ErrInvalid]"
| "chain ErrEntityNotFound = [ErrEntityNotFound]"
| "chain ErrInvalidScope = [ErrInvalidScope]"
| "chain ErrJobExists = [ErrJobExists]"
| "chain ErrJobNotFound = [ErrJobNotFound]"
| "chain ErrDuplicateKey = [ErrDuplicateKey]"
| "chain ErrNoRows = [ErrNoRows]"
| "chain ErrBadConn = [ErrBadConn]"
| "chain ErrConnDone = [ErrConnDone]"
| "chain DeadlineExceeded = [DeadlineExceeded]"
| "chain Canceled = [Canceled]"
| "chain (BusyError op n w) = [BusyError op n w]"
| "chain (HTTPError st b p) = [HTTPError st b p]"
| "chain (LogicalError op st m) = [LogicalError op st m]"
| "chain (PgError c m) = [PgError c m]"
| "chain (ConnectError s e) = ConnectError s e # chain e"
| "chain (NetError s) = [NetError s]"
| "chain (UrlError s e) = UrlError s e # chain e"
| "chain (Opaque s) = [Opaque s]"
| "chain (Wrap s e) = Wrap s e # chain e"
| "chain (Suffix e s) = Suffix e s # chain e"

text \<open>\<^verbatim>\<open>errors.Is\<close>, and \<^verbatim>\<open>errors.As\<close> at each target type the sources ask for.\<close>

definition Is :: "err \<Rightarrow> err \<Rightarrow> bool" where
  "Is e target \<longleftrightarrow> target \<in> set (chain e)"

definition AsBusy :: "err \<Rightarrow> err option" where
  "AsBusy e = find (\<lambda>x. case x of BusyError _ _ _ \<Rightarrow> True | _ \<Rightarrow> False) (chain e)"

fun http_status :: "err \<Rightarrow> int option" where
  "http_status (HTTPError st b p) = Some st"
| "http_status e = None"

fun pg_code :: "err \<Rightarrow> string option" where
  "pg_code (PgError c m) = Some c"
| "pg_code e = None"

definition AsHTTP :: "err \<Rightarrow> int option" where
  "AsHTTP e = Option.bind (find (\<lambda>x. http_status x \<noteq> None) (chain e)) http_status"

definition AsPg :: "err \<Rightarrow> string option" where
  "AsPg e = Option.bind (find (\<lambda>x. pg_code x \<noteq> None) (chain e)) pg_code"

definition AsConnect :: "err \<Rightarrow> bool" where
  "AsConnect e \<longleftrightarrow> list_ex (\<lambda>x. case x of ConnectError _ _ \<Rightarrow> True | _ \<Rightarrow> False) (chain e)"

text \<open>
  \<^verbatim>\<open>net.Error\<close> is an interface: socket errors, \<^verbatim>\<open>*url.Error\<close> and also
  \<^verbatim>\<open>context.DeadlineExceeded\<close> implement it.
\<close>

definition AsNet :: "err \<Rightarrow> bool" where
  "AsNet e \<longleftrightarrow> list_ex (\<lambda>x. case x of NetError _ \<Rightarrow> True | UrlError _ _ \<Rightarrow> True
     | DeadlineExceeded \<Rightarrow> True | _ \<Rightarrow> False) (chain e)"

definition isNotFoundHTTP :: "err \<Rightarrow> bool" where
  "isNotFoundHTTP e \<longleftrightarrow> AsHTTP e = Some 404"

lemma Is_refl [simp]: "Is e e"
  by (cases e) (simp_all add: Is_def)

lemma Is_Wrap [simp]: "Is (Wrap s e) t \<longleftrightarrow> t = Wrap s e \<or> Is e t"
  by (auto simp: Is_def)

lemma Is_Suffix [simp]: "Is (Suffix e s) t \<longleftrightarrow> t = Suffix e s \<or> Is e t"
  by (auto simp: Is_def)

lemma As_Wrap [simp]:
  "AsBusy (Wrap s e) = AsBusy e" "AsHTTP (Wrap s e) = AsHTTP e" "AsPg (Wrap s e) = AsPg e"
  "AsConnect (Wrap s e) = AsConnect e" "AsNet (Wrap s e) = AsNet e"
  by (simp_all add: AsBusy_def AsHTTP_def AsPg_def AsConnect_def AsNet_def)

lemma As_Suffix [simp]:
  "AsBusy (Suffix e s) = AsBusy e" "AsHTTP (Suffix e s) = AsHTTP e" "AsPg (Suffix e s) = AsPg e"
  "AsConnect (Suffix e s) = AsConnect e" "AsNet (Suffix e s) = AsNet e"
  by (simp_all add: AsBusy_def AsHTTP_def AsPg_def AsConnect_def AsNet_def)

lemma AsHTTP_HTTPError [simp]: "AsHTTP (HTTPError st b p) = Some st"
  by (simp add: AsHTTP_def)

lemma AsPg_PgError [simp]: "AsPg (PgError c m) = Some c"
  by (simp add: AsPg_def)

text \<open>The evaluation of \<open>Is\<close> and the \<open>As\<close> functions on a concrete error.\<close>

lemmas err_eval = Is_def AsBusy_def AsHTTP_def AsPg_def AsConnect_def AsNet_def isNotFoundHTTP_def

section \<open>Messages\<close>

text \<open>
  \<^verbatim>\<open>%q\<close>: quotes, backslashes and control characters are escaped, bytes from 128 on are taken to
  be printable UTF-8 and kept.
\<close>

definition hex_digit :: "nat \<Rightarrow> char" where
  "hex_digit n = (if n < 10 then char_of (48 + n) else char_of (87 + n))"

definition quote_char :: "char \<Rightarrow> string" where
  "quote_char c = (let n = of_char c :: nat in
     if n = 34 then [CHR 0x5C, CHR 0x22] else if n = 92 then [CHR 0x5C, CHR 0x5C]
     else if n = 7 then [CHR 0x5C, CHR ''a''] else if n = 8 then [CHR 0x5C, CHR ''b'']
     else if n = 12 then [CHR 0x5C, CHR ''f''] else if n = 10 then [CHR 0x5C, CHR ''n'']
     else if n = 13 then [CHR 0x5C, CHR ''r''] else if n = 9 then [CHR 0x5C, CHR ''t'']
     else if n = 11 then [CHR 0x5C, CHR ''v'']
     else if n < 32 \<or> n = 127 then [CHR 0x5C, CHR ''x'', hex_digit (n div 16), hex_digit (n mod 16)]
     else [c])"

definition quoteq :: "string \<Rightarrow> string" where
  "quoteq s = CHR 0x22 # concat (map quote_char s) @ [CHR 0x22]"

definition dec_int :: "int \<Rightarrow> string" where
  "dec_int i = (if i < 0 then CHR ''-'' # dec (nat (- i)) else dec (nat i))"

text \<open>
  \<^verbatim>\<open>err.Error()\<close>.  A driver or network error carries its text; the \<open>int\<close> of a \<open>BusyError\<close> is
  printed in milliseconds, where Go prints it as a \<^verbatim>\<open>time.Duration\<close>.
\<close>

primrec Error :: "err \<Rightarrow> string" where
  "Error ErrNotFound = ''memory: not found''"
| "Error ErrUpstream = ''memory: upstream error''"
| "Error ErrTransient = ''memory: transient upstream error''"
| "Error ErrBusy = ''memory: upstream busy''"
| "Error ErrInvalid = ''memory: invalid input''"
| "Error ErrEntityNotFound = ''codegraph: entity not found''"
| "Error ErrInvalidScope = ''codegraph: invalid push scope''"
| "Error ErrJobExists = ''ingest: job already exists''"
| "Error ErrJobNotFound = ''ingest: job not found''"
| "Error ErrDuplicateKey = ''ingest: duplicate idempotency key in batch''"
| "Error ErrNoRows = ''sql: no rows in result set''"
| "Error ErrBadConn = ''driver: bad connection''"
| "Error ErrConnDone = ''sql: connection is already closed''"
| "Error DeadlineExceeded = ''context deadline exceeded''"
| "Error Canceled = ''context canceled''"
| "Error (BusyError op n w) = ''lightrag: '' @ op @ '': pipeline lock still busy after ''
     @ dec n @ '' attempts over '' @ dec_int (w div 1000000) @ ''ms''"
| "Error (HTTPError st b p) = ''lightrag: '' @ p @ '' -> '' @ dec_int st @ '': '' @ b"
| "Error (LogicalError op st m) =
     ''lightrag: '' @ op @ '': logical failure: status='' @ quoteq st @ '' message='' @ quoteq m"
| "Error (PgError c m) = m"
| "Error (ConnectError s e) = s @ '': '' @ Error e"
| "Error (NetError s) = s"
| "Error (UrlError s e) = s @ '': '' @ Error e"
| "Error (Opaque s) = s"
| "Error (Wrap s e) = s @ '': '' @ Error e"
| "Error (Suffix e s) = Error e @ '': '' @ s"

section \<open>Database connections\<close>

record 'db conn =
  tables :: 'db
  script :: "err option list"

definition next_outcome :: "'db conn \<Rightarrow> err option \<times> 'db conn" where
  "next_outcome c = (case script c of [] \<Rightarrow> (None, c) | o1 # os \<Rightarrow> (o1, c\<lparr>script := os\<rparr>))"

text \<open>
  One driver call: it fails as scripted, or runs the statement, which may itself fail on the data
  (a constraint) and then leaves the tables alone.
\<close>

definition db_call :: "('db \<Rightarrow> (err + 'a) \<times> 'db) \<Rightarrow> ('db conn, err, 'a) call" where
  "db_call f c = (case next_outcome c of
     (Some e, c') \<Rightarrow> (Inl e, c')
   | (None, c') \<Rightarrow>
       (case f (tables c') of
          (Inl e, d) \<Rightarrow> (Inl e, c')
        | (Inr x, d) \<Rightarrow> (Inr x, c'\<lparr>tables := d\<rparr>)))"

definition db_query :: "('db \<Rightarrow> 'a) \<Rightarrow> ('db conn, err, 'a) call" where
  "db_query q = db_call (\<lambda>d. (Inr (q d), d))"

definition db_exec :: "('db \<Rightarrow> 'a \<times> 'db) \<Rightarrow> ('db conn, err, 'a) call" where
  "db_exec f = db_call (\<lambda>d. (Inr (fst (f d)), snd (f d)))"

definition commit :: "('db conn, err, unit) call" where
  "commit = db_query (\<lambda>_. ())"

text \<open>
  \<^verbatim>\<open>tx, err := db.BeginTx(..)\<close> with \<^verbatim>\<open>defer tx.Rollback()\<close>: unless the body gets through its
  commit, the tables are those of the start.
\<close>

definition with_tx :: "(err \<Rightarrow> err) \<Rightarrow> ('db conn, err, 'a) call \<Rightarrow> ('db conn, err, 'a) call" where
  "with_tx w body c = (case mapErr w (db_query (\<lambda>_. ())) c of
     (Inl e, c') \<Rightarrow> (Inl e, c')
   | (Inr _, c') \<Rightarrow>
       (case body c' of
          (Inl e, c'') \<Rightarrow> (Inl e, c''\<lparr>tables := tables c'\<rparr>)
        | (Inr x, c'') \<Rightarrow> (Inr x, c'')))"

definition unique_violation :: err where
  "unique_violation = PgError ''23505'' ''duplicate key value violates unique constraint''"

lemma next_outcome_tables: "next_outcome c = (r, c') \<Longrightarrow> tables c' = tables c"
  by (auto simp: next_outcome_def split: list.splits)

lemma db_call_Inl: "db_call f c = (Inl e, c') \<Longrightarrow> tables c' = tables c"
  by (auto simp: db_call_def split: prod.splits option.splits sum.splits dest: next_outcome_tables)

lemma db_call_Inr: "db_call f c = (Inr x, c') \<Longrightarrow> f (tables c) = (Inr x, tables c')"
  by (auto simp: db_call_def split: prod.splits option.splits sum.splits dest: next_outcome_tables)

lemma db_query_Inl: "db_query q c = (Inl e, c') \<Longrightarrow> tables c' = tables c"
  unfolding db_query_def by (rule db_call_Inl)

lemma db_query_Inr: "db_query q c = (Inr x, c') \<Longrightarrow> x = q (tables c) \<and> tables c' = tables c"
  unfolding db_query_def by (drule db_call_Inr) auto

lemma db_exec_Inl: "db_exec f c = (Inl e, c') \<Longrightarrow> tables c' = tables c"
  unfolding db_exec_def by (rule db_call_Inl)

lemma db_exec_Inr: "db_exec f c = (Inr x, c') \<Longrightarrow> f (tables c) = (x, tables c')"
  unfolding db_exec_def by (drule db_call_Inr) (auto intro: prod_eqI)

lemma commit_tables: "commit c = (r, c') \<Longrightarrow> tables c' = tables c"
  unfolding commit_def by (cases r) (auto dest: db_query_Inl db_query_Inr)

lemma with_tx_cases:
  obtains (no_begin) e c' where "with_tx w body c = (Inl (w e), c')" "tables c' = tables c"
  | (failed) b e c' where "tables b = tables c" "body b = (Inl e, c')"
      "with_tx w body c = (Inl e, c'\<lparr>tables := tables c\<rparr>)"
  | (committed) b x c' where "tables b = tables c" "body b = (Inr x, c')" "with_tx w body c = (Inr x, c')"
proof (cases "db_query (\<lambda>_. ()) c")
  case (Pair r b)
  show thesis
  proof (cases r)
    case (Inl e)
    with Pair have "with_tx w body c = (Inl (w e), b)" by (simp add: with_tx_def mapErr_def)
    moreover have "tables b = tables c" using Pair Inl by (auto dest: db_query_Inl)
    ultimately show thesis by (rule no_begin)
  next
    case (Inr u)
    have tb: "tables b = tables c" using Pair Inr by (auto dest: db_query_Inr)
    obtain r' c' where body: "body b = (r', c')" by fastforce
    with Pair Inr have tx: "with_tx w body c =
        (case r' of Inl e \<Rightarrow> (Inl e, c'\<lparr>tables := tables b\<rparr>) | Inr x \<Rightarrow> (Inr x, c'))"
      by (simp add: with_tx_def mapErr_def split: sum.splits)
    show thesis
    proof (cases r')
      case (Inl e)
      with body tx tb show thesis by (intro failed [of b e c']) simp_all
    next
      case (Inr x)
      with body tx tb show thesis by (intro committed [of b x c']) simp_all
    qed
  qed
qed

lemma with_tx_Inl: "with_tx w body c = (Inl e, c') \<Longrightarrow> tables c' = tables c"
  by (rule with_tx_cases [of w body c]) auto

lemma with_tx_Inr:
  assumes "with_tx w body c = (Inr x, c')"
  obtains b where "tables b = tables c" "body b = (Inr x, c')"
  using assms by (cases rule: with_tx_cases [of w body c]) auto

text \<open>On a connection whose remaining calls all succeed, every call is its effect on the tables.\<close>

definition healthy :: "'db conn \<Rightarrow> bool" where
  "healthy c \<longleftrightarrow> script c = []"

lemma db_call_healthy [simp]:
  "healthy c \<Longrightarrow> db_call f c = (case f (tables c) of (Inl e, d) \<Rightarrow> (Inl e, c) | (Inr x, d) \<Rightarrow> (Inr x, c\<lparr>tables := d\<rparr>))"
  by (simp add: db_call_def next_outcome_def healthy_def)

lemma db_query_healthy [simp]: "healthy c \<Longrightarrow> db_query q c = (Inr (q (tables c)), c)"
  by (simp add: db_query_def)

lemma db_exec_healthy [simp]:
  "healthy c \<Longrightarrow> db_exec f c = (Inr (fst (f (tables c))), c\<lparr>tables := snd (f (tables c))\<rparr>)"
  by (simp add: db_exec_def)

lemma commit_healthy [simp]: "healthy c \<Longrightarrow> commit c = (Inr (), c)"
  by (simp add: commit_def)

lemma healthy_tables [simp]: "healthy (c\<lparr>tables := d\<rparr>) = healthy c"
  by (simp add: healthy_def)

lemma with_tx_healthy:
  "healthy c \<Longrightarrow> with_tx w body c = (case body c of
     (Inl e, c'') \<Rightarrow> (Inl e, c''\<lparr>tables := tables c\<rparr>) | (Inr x, c'') \<Rightarrow> (Inr x, c''))"
  by (simp add: with_tx_def mapErr_def)

lemmas db_dest = db_call_Inl db_call_Inr db_query_Inl db_query_Inr db_exec_Inl db_exec_Inr commit_tables

end
