(* ===== verification/Memory_Types.thy ===== *)
theory Memory_Types
  imports Go_Errors
begin

text \<open>
  The domain types of \<^verbatim>\<open>internal/memory/types.go\<close>.  A struct is a record whose field names carry
  a prefix for the struct; a Go \<^verbatim>\<open>map[string]string\<close> is a finite map (a nil map reads like an
  empty one); \<^verbatim>\<open>time.Time\<close> is a number of nanoseconds, its zero value 0; a relevance score is an
  exact fraction, where the code has a \<^verbatim>\<open>float64\<close>.
\<close>

type_synonym smap = "string \<rightharpoonup> string"
type_synonym Time = int

record Memory =
  mID :: string
  mText :: string
  mMetadata :: smap
  mCreatedAt :: Time

record Entity =
  eID :: string
  eName :: string
  eType :: string
  eDescription :: string
  eProperties :: smap

record Edge =
  gID :: string
  gFrom :: string
  gTo :: string
  gRelation :: string
  gProperties :: smap

text \<open>\<^verbatim>\<open>QueryMode\<close> is a string; four of them are valid.\<close>

type_synonym QueryMode = string

definition QueryMode_Valid :: "QueryMode \<Rightarrow> bool" where
  "QueryMode_Valid m \<longleftrightarrow> m \<in> {''hybrid'', ''local'', ''global'', ''naive''}"

record Query =
  qMode :: QueryMode
  qText :: string
  qTopK :: int

record QueryMatch =
  maID :: string
  maScore :: rat
  maText :: string

type_synonym QueryResult = "QueryMatch list"

record DescribeResult =
  dResponse :: string
  dSources :: "string list"

section \<open>Ingest jobs\<close>

text \<open>\<^verbatim>\<open>JobStatus\<close> is a string read back from the database; \<open>OtherStatus\<close> is any other text.\<close>

datatype JobStatus =
    JobStatusQueued | JobStatusRunning | JobStatusSucceeded | JobStatusFailed | JobStatusPartial
  | OtherStatus string

fun Terminal :: "JobStatus \<Rightarrow> bool" where
  "Terminal JobStatusSucceeded = True"
| "Terminal JobStatusFailed = True"
| "Terminal JobStatusPartial = True"
| "Terminal _ = False"

text \<open>Queued or running: what \<^verbatim>\<open>ListUnfinishedJobs\<close> and \<^verbatim>\<open>ResetRunningItems\<close> select.\<close>

definition Unfinished :: "JobStatus \<Rightarrow> bool" where
  "Unfinished st \<longleftrightarrow> st = JobStatusQueued \<or> st = JobStatusRunning"

lemma Unfinished_not_Terminal: "Unfinished st \<Longrightarrow> \<not> Terminal st"
  by (auto simp: Unfinished_def)

record IngestItemError =
  ieKey :: string
  ieError :: string

record IngestJob =
  jID :: string
  jStatus :: JobStatus
  jTotal :: int
  jDone :: int
  jFailed :: int
  jErrors :: "IngestItemError list"
  jCreatedAt :: Time
  jUpdatedAt :: Time

record IngestItem =
  iKey :: string
  iText :: string
  iMetadata :: smap
  iTrackID :: string

text \<open>The stored state of an item; both job stores keep these four strings.\<close>

datatype ItemStatus = Pending | Running | Done | Failed

definition item_terminal :: "ItemStatus \<Rightarrow> bool" where
  "item_terminal st \<longleftrightarrow> st = Done \<or> st = Failed"

lemma item_terminal_simps [simp]:
  "item_terminal Done" "item_terminal Failed" "\<not> item_terminal Pending" "\<not> item_terminal Running"
  by (simp_all add: item_terminal_def)

lemma not_item_terminal: "\<not> item_terminal st \<longleftrightarrow> st = Pending \<or> st = Running"
  by (cases st) simp_all

end
