(* ===== verification/Edge_ID.thy ===== *)
theory Edge_ID
  imports Memory_Types
begin

text \<open>
  The opaque edge identifiers of \<^verbatim>\<open>internal/memory/edgeid.go\<close>: the two entity names joined by a
  NUL byte, in unpadded URL-safe base64.  The base64 of Go's standard library is modelled as it
  behaves: decoding skips carriage returns and newlines, and ignores the unused bits of a last
  partial quantum.
\<close>

section \<open>Base64, \<^verbatim>\<open>base64.RawURLEncoding\<close>\<close>

definition b64_char :: "nat \<Rightarrow> char" where
  "b64_char n = char_of (if n < 26 then 65 + n else if n < 52 then 71 + n
     else if n < 62 then n - 4 else if n = 62 then 45 else 95 :: nat)"

definition b64_value :: "char \<Rightarrow> nat option" where
  "b64_value c = (let n = of_char c :: nat in
     if 65 \<le> n \<and> n \<le> 90 then Some (n - 65) else if 97 \<le> n \<and> n \<le> 122 then Some (n - 71)
     else if 48 \<le> n \<and> n \<le> 57 then Some (n + 4) else if n = 45 then Some 62
     else if n = 95 then Some 63 else None)"

fun sextets :: "nat list \<Rightarrow> nat list" where
  "sextets [] = []"
| "sextets [a] = [a div 4, a mod 4 * 16]"
| "sextets [a, b] = [a div 4, a mod 4 * 16 + b div 16, b mod 16 * 4]"
| "sextets (a # b # c # r) =
     a div 4 # (a mod 4 * 16 + b div 16) # (b mod 16 * 4 + c div 64) # c mod 64 # sextets r"

fun octets :: "nat list \<Rightarrow> nat list option" where
  "octets [] = Some []"
| "octets [w] = None"
| "octets [w, x] = Some [w * 4 + x div 16]"
| "octets [w, x, y] = Some [w * 4 + x div 16, x mod 16 * 16 + y div 4]"
| "octets (w # x # y # z # r) =
     map_option (\<lambda>t. (w * 4 + x div 16) # (x mod 16 * 16 + y div 4) # (y mod 4 * 64 + z) # t) (octets r)"

definition b64_encode :: "string \<Rightarrow> string" where
  "b64_encode s = map b64_char (sextets (map of_char s))"

fun b64_values :: "string \<Rightarrow> nat list option" where
  "b64_values [] = Some []"
| "b64_values (c # cs) =
     (if c = CHR 0x0A \<or> c = CHR 0x0D then b64_values cs
      else case b64_value c of None \<Rightarrow> None | Some v \<Rightarrow> map_option ((#) v) (b64_values cs))"

definition b64_decode :: "string \<Rightarrow> string option" where
  "b64_decode s = (case b64_values s of None \<Rightarrow> None
     | Some vs \<Rightarrow> map_option (map char_of) (octets vs))"

lemma of_b64_char:
  "n < 64 \<Longrightarrow> (of_char (b64_char n) :: nat) = (if n < 26 then 65 + n else if n < 52 then 71 + n
     else if n < 62 then n - 4 else if n = 62 then 45 else 95)"
  by (simp add: b64_char_def)

lemma b64_value_char:
  "n < 64 \<Longrightarrow> b64_value (b64_char n) = Some n"
  by (auto simp: b64_value_def of_b64_char Let_def)

lemma b64_char_no_newline:
  assumes "n < 64"
  shows "b64_char n \<noteq> CHR 0x0A" "b64_char n \<noteq> CHR 0x0D"
  using of_b64_char [OF assms] by (auto split: if_splits)

lemma sextet_sum: "x * 16 + y div 16 < 64" if "x < (4::nat)" "y < 256" for x y
proof -
  have "y div 16 < 16" using that(2) by (simp add: div_less_iff_less_mult)
  then show ?thesis using that(1) by linarith
qed

lemma sextet_sum': "x * 4 + y div 64 < 64" if "x < (16::nat)" "y < 256" for x y
proof -
  have "y div 64 < 4" using that(2) by (simp add: div_less_iff_less_mult)
  then show ?thesis using that(1) by linarith
qed

lemma sextets_bound: "\<forall>b\<in>set bs. b < 256 \<Longrightarrow> \<forall>v\<in>set (sextets bs). v < 64"
  by (induction bs rule: sextets.induct)
     (auto simp: sextet_sum sextet_sum' div_less_iff_less_mult intro: less_le_trans [OF mult_strict_right_mono])

lemma octet_join: "a div 4 * 4 + (a mod 4 * 16 + b div 16) div 16 = a" if "b < 256" for a b :: nat
  using that by (simp add: div_less_iff_less_mult)

lemma octet_join':
  "(a mod 4 * 16 + b div 16) mod 16 * 16 + (b mod 16 * 4 + c div 64) div 4 = b"
  if "b < 256" "c < 256" for a b c :: nat
proof -
  have "b div 16 < 16" "c div 64 < 4" using that by (simp_all add: div_less_iff_less_mult)
  then show ?thesis by simp
qed

lemma octet_join'': "(b mod 16 * 4 + c div 64) mod 4 * 64 + c mod 64 = c" if "c < 256" for b c :: nat
proof -
  have "c div 64 < 4" using that by (simp add: div_less_iff_less_mult)
  then show ?thesis by simp
qed

lemma octets_sextets: "\<forall>b\<in>set bs. b < 256 \<Longrightarrow> octets (sextets bs) = Some bs"
proof (induction bs rule: sextets.induct)
  case (2 a)
  then show ?case by simp
next
  case (3 a b)
  then show ?case using octet_join [of b a] octet_join' [of b 0 a] by simp
next
  case (4 a b c r)
  then show ?case using octet_join [of b a] octet_join' [of b c a] octet_join'' [of c b] by simp
qed simp

lemma b64_values_encode: "\<forall>v\<in>set vs. v < 64 \<Longrightarrow> b64_values (map b64_char vs) = Some vs"
  by (induction vs) (simp_all add: b64_value_char b64_char_no_newline)

lemma b64_round_trip: "b64_decode (b64_encode s) = Some s"
proof -
  have bytes: "\<forall>b\<in>set (map of_char s :: nat list). b < 256" by (auto simp: nat_of_char_less_256)
  then have "b64_values (b64_encode s) = Some (sextets (map of_char s))"
    unfolding b64_encode_def by (intro b64_values_encode sextets_bound)
  then show ?thesis
    using octets_sextets [OF bytes] by (simp add: b64_decode_def comp_def)
qed

section \<open>Edge identifiers\<close>

definition edgeIDNulSep :: char where
  "edgeIDNulSep = CHR 0x00"

definition EncodeEdgeID :: "string \<Rightarrow> string \<Rightarrow> string" where
  "EncodeEdgeID from to = b64_encode (from @ [edgeIDNulSep] @ to)"

definition DecodeEdgeID :: "string \<Rightarrow> err + string \<times> string" where
  "DecodeEdgeID ident = (case b64_decode ident of
     None \<Rightarrow> Inl (Opaque ''illegal base64 data'')
   | Some s \<Rightarrow>
       if edgeIDNulSep \<in> set s
       then Inr (takeWhile (\<lambda>c. c \<noteq> edgeIDNulSep) s, tl (dropWhile (\<lambda>c. c \<noteq> edgeIDNulSep) s))
       else Inl (Opaque ''edge id: missing separator''))"

lemma DecodeEdgeID_Encode:
  assumes "edgeIDNulSep \<notin> set from"
  shows "DecodeEdgeID (EncodeEdgeID from to) = Inr (from, to)"
proof -
  have "takeWhile (\<lambda>c. c \<noteq> edgeIDNulSep) (from @ edgeIDNulSep # to) = from"
    and "dropWhile (\<lambda>c. c \<noteq> edgeIDNulSep) (from @ edgeIDNulSep # to) = edgeIDNulSep # to"
    using assms by (auto simp: takeWhile_append dropWhile_append)
  then show ?thesis by (simp add: DecodeEdgeID_def EncodeEdgeID_def b64_round_trip)
qed

text \<open>
  C18: an edge ID decodes to the pair of names it was made from, whenever the first name has no
  NUL byte.
\<close>

theorem edge_id_round_trip:
  "edgeIDNulSep \<notin> set from \<Longrightarrow> DecodeEdgeID (EncodeEdgeID from to) = Inr (from, to)"
  by (rule DecodeEdgeID_Encode)

theorem edge_id_round_trip_witness:
  "edgeIDNulSep \<notin> set ''svc'' \<and> DecodeEdgeID (EncodeEdgeID ''svc'' ''db'') = Inr (''svc'', ''db'')"
  using edge_id_round_trip [of "''svc''" "''db''"] by (simp add: edgeIDNulSep_def)

end
