(* ===== verification/Ingest_Store.thy ===== *)
theory Ingest_Store
  imports Memory_Types
begin

text \<open>
  The persistence interface of the ingest queue (\<^verbatim>\<open>internal/ingest/store.go\<close>).  \<open>JobStore\<close> is the
  Go interface as a record of operations on a store state \<open>'s\<close>; an operation that reads the
  clock takes the time as an argument.  The locale \<open>job_store\<close> is the contract its clients rely
  on, stated over an abstract view: the jobs by ID, each with its status, counters, error list
  and items.  Timestamps are not part of that view.
\<close>

section \<open>The interface\<close>

definition maxErrors :: nat where
  "maxErrors = 50"

record 's JobStore =
  CreateJob :: "Time \<Rightarrow> IngestJob \<Rightarrow> IngestItem list \<Rightarrow> ('s, err, unit) call"
  GetJob :: "string \<Rightarrow> ('s, err, IngestJob) call"
  UpdateJob :: "Time \<Rightarrow> IngestJob \<Rightarrow> ('s, err, unit) call"
  ClaimNextItem :: "string \<Rightarrow> ('s, err, IngestItem option) call"
  SetItemTrackID :: "string \<Rightarrow> string \<Rightarrow> string \<Rightarrow> ('s, err, unit) call"
  MarkItemDone :: "string \<Rightarrow> string \<Rightarrow> err option \<Rightarrow> ('s, err, unit) call"
  IncrementJobProgress :: "Time \<Rightarrow> string \<Rightarrow> IngestItemError option \<Rightarrow> ('s, err, unit) call"
  MarkItemDoneAndProgress :: "Time \<Rightarrow> string \<Rightarrow> string \<Rightarrow> err option \<Rightarrow> ('s, err, unit) call"
  ListUnfinishedJobs :: "('s, err, string list) call"
  ResetRunningItems :: "('s, err, nat) call"

section \<open>The abstract view\<close>

record job_view =
  vStatus :: JobStatus
  vTotal :: int
  vDone :: int
  vFailed :: int
  vErrors :: "IngestItemError list"
  vItems :: "(IngestItem \<times> ItemStatus) list"

type_synonym jobs = "string \<rightharpoonup> job_view"

definition view_of :: "IngestJob \<Rightarrow> (IngestItem \<times> ItemStatus) list \<Rightarrow> job_view" where
  "view_of j its = \<lparr>vStatus = jStatus j, vTotal = jTotal j, vDone = jDone j, vFailed = jFailed j,
     vErrors = jErrors j, vItems = its\<rparr>"

lemma view_of_simps [simp]:
  "vStatus (view_of j its) = jStatus j" "vTotal (view_of j its) = jTotal j"
  "vDone (view_of j its) = jDone j" "vFailed (view_of j its) = jFailed j"
  "vErrors (view_of j its) = jErrors j" "vItems (view_of j its) = its"
  by (simp_all add: view_of_def)

lemma view_of_eqD: "v = view_of j its \<Longrightarrow> jStatus j = vStatus v \<and> jTotal j = vTotal v \<and>
    jDone j = vDone v \<and> jFailed j = vFailed v \<and> jErrors j = vErrors v \<and> its = vItems v"
  by simp

definition fresh_items :: "IngestItem list \<Rightarrow> (IngestItem \<times> ItemStatus) list" where
  "fresh_items its = map (\<lambda>it. (it\<lparr>iTrackID := ''''\<rparr>, Pending)) its"

definition item_key :: "IngestItem \<times> ItemStatus \<Rightarrow> string" where
  "item_key p = iKey (fst p)"

definition on_job :: "jobs \<Rightarrow> string \<Rightarrow> (job_view \<Rightarrow> job_view) \<Rightarrow> jobs" where
  "on_job m k f = (case m k of None \<Rightarrow> m | Some v \<Rightarrow> m(k \<mapsto> f v))"

definition set_track :: "string \<Rightarrow> string \<Rightarrow> job_view \<Rightarrow> job_view" where
  "set_track key t v = v\<lparr>vItems := update_first (\<lambda>p. item_key p = key)
     (\<lambda>(it, st). (it\<lparr>iTrackID := t\<rparr>, st)) (vItems v)\<rparr>"

definition outcome :: "err option \<Rightarrow> ItemStatus" where
  "outcome runErr = (if runErr = None then Done else Failed)"

definition set_status :: "string \<Rightarrow> ItemStatus \<Rightarrow> job_view \<Rightarrow> job_view" where
  "set_status key st v = v\<lparr>vItems := update_first (\<lambda>p. item_key p = key) (\<lambda>(it, _). (it, st)) (vItems v)\<rparr>"

text \<open>One processed item on the counters: done or failed plus one, the error list capped.\<close>

definition add_error :: "IngestItemError \<Rightarrow> IngestItemError list \<Rightarrow> IngestItemError list" where
  "add_error e es = (if length es < maxErrors then es @ [e] else es)"

definition bump :: "IngestItemError option \<Rightarrow> job_view \<Rightarrow> job_view" where
  "bump ie v = (case ie of
     None \<Rightarrow> v\<lparr>vDone := vDone v + 1\<rparr>
   | Some e \<Rightarrow> v\<lparr>vFailed := vFailed v + 1, vErrors := add_error e (vErrors v)\<rparr>)"

definition item_error :: "string \<Rightarrow> err option \<Rightarrow> IngestItemError option" where
  "item_error key runErr = map_option (\<lambda>e. \<lparr>ieKey = key, ieError = Error e\<rparr>) runErr"

definition mark :: "string \<Rightarrow> err option \<Rightarrow> job_view \<Rightarrow> job_view" where
  "mark key runErr v = (case find (\<lambda>p. item_key p = key) (vItems v) of
     None \<Rightarrow> v
   | Some p \<Rightarrow> if item_terminal (snd p) then v
               else bump (item_error key runErr) (set_status key (outcome runErr) v))"

definition reset_item :: "IngestItem \<times> ItemStatus \<Rightarrow> IngestItem \<times> ItemStatus" where
  "reset_item p = (if snd p = Running then (fst p, Pending) else p)"

definition reset_view :: "job_view \<Rightarrow> job_view" where
  "reset_view v = (if Unfinished (vStatus v) then v\<lparr>vItems := map reset_item (vItems v)\<rparr> else v)"

definition claims :: "IngestItem \<Rightarrow> job_view \<Rightarrow> job_view \<Rightarrow> bool" where
  "claims it v v' \<longleftrightarrow> (\<exists>xs ys. vItems v = xs @ (it, Pending) # ys
     \<and> v' = v\<lparr>vItems := xs @ (it, Running) # ys\<rparr>)"

section \<open>The contract\<close>

text \<open>
  \<open>inv\<close> is the store's own invariant and \<open>jobs_of\<close> its abstraction.  Item keys are distinct
  within a job (the unique index of the database, and what \<^verbatim>\<open>Enqueue\<close> checks), which the creator
  of a job has to guarantee.  Every operation that fails leaves the view as it was.
\<close>

locale job_store =
  fixes S :: "'s JobStore" and inv :: "'s \<Rightarrow> bool" and jobs_of :: "'s \<Rightarrow> jobs"
  assumes create_ok: "inv s \<Longrightarrow> CreateJob S now j its s = (Inr (), s') \<Longrightarrow> distinct (map iKey its) \<Longrightarrow>
      inv s' \<and> jobs_of s (jID j) = None \<and> jobs_of s' = (jobs_of s)(jID j \<mapsto> view_of j (fresh_items its))"
    and create_err: "inv s \<Longrightarrow> CreateJob S now j its s = (Inl e, s') \<Longrightarrow> inv s' \<and> jobs_of s' = jobs_of s"
    and get_ok: "inv s \<Longrightarrow> GetJob S k s = (Inr j, s') \<Longrightarrow>
      inv s' \<and> jobs_of s' = jobs_of s \<and> jID j = k \<and> (\<exists>its. jobs_of s k = Some (view_of j its))"
    and get_err: "inv s \<Longrightarrow> GetJob S k s = (Inl e, s') \<Longrightarrow> inv s' \<and> jobs_of s' = jobs_of s"
    and update_ok: "inv s \<Longrightarrow> UpdateJob S now j s = (Inr (), s') \<Longrightarrow>
      inv s' \<and> (\<exists>v. jobs_of s (jID j) = Some v \<and> jobs_of s' = (jobs_of s)(jID j \<mapsto> view_of j (vItems v)))"
    and update_err: "inv s \<Longrightarrow> UpdateJob S now j s = (Inl e, s') \<Longrightarrow> inv s' \<and> jobs_of s' = jobs_of s"
    and claim_some: "inv s \<Longrightarrow> ClaimNextItem S k s = (Inr (Some it), s') \<Longrightarrow>
      inv s' \<and> (\<exists>v v'. jobs_of s k = Some v \<and> claims it v v' \<and> jobs_of s' = (jobs_of s)(k \<mapsto> v'))"
    and claim_none: "inv s \<Longrightarrow> ClaimNextItem S k s = (Inr None, s') \<Longrightarrow> inv s' \<and> jobs_of s' = jobs_of s"
    and claim_err: "inv s \<Longrightarrow> ClaimNextItem S k s = (Inl e, s') \<Longrightarrow> inv s' \<and> jobs_of s' = jobs_of s"
    and track_ok: "inv s \<Longrightarrow> SetItemTrackID S k key t s = (Inr (), s') \<Longrightarrow>
      inv s' \<and> jobs_of s' = on_job (jobs_of s) k (set_track key t)"
    and track_err: "inv s \<Longrightarrow> SetItemTrackID S k key t s = (Inl e, s') \<Longrightarrow> inv s' \<and> jobs_of s' = jobs_of s"
    and markdone_ok: "inv s \<Longrightarrow> MarkItemDone S k key r s = (Inr (), s') \<Longrightarrow>
      inv s' \<and> jobs_of s' = on_job (jobs_of s) k (set_status key (outcome r))"
    and markdone_err: "inv s \<Longrightarrow> MarkItemDone S k key r s = (Inl e, s') \<Longrightarrow> inv s' \<and> jobs_of s' = jobs_of s"
    and incr_ok: "inv s \<Longrightarrow> IncrementJobProgress S now k ie s = (Inr (), s') \<Longrightarrow>
      inv s' \<and> jobs_of s' = on_job (jobs_of s) k (bump ie) \<and> jobs_of s k \<noteq> None"
    and incr_err: "inv s \<Longrightarrow> IncrementJobProgress S now k ie s = (Inl e, s') \<Longrightarrow> inv s' \<and> jobs_of s' = jobs_of s"
    and mark_ok: "inv s \<Longrightarrow> MarkItemDoneAndProgress S now k key r s = (Inr (), s') \<Longrightarrow>
      inv s' \<and> jobs_of s' = on_job (jobs_of s) k (mark key r)"
    and mark_err: "inv s \<Longrightarrow> MarkItemDoneAndProgress S now k key r s = (Inl e, s') \<Longrightarrow>
      inv s' \<and> jobs_of s' = jobs_of s"
    and list_ok: "inv s \<Longrightarrow> ListUnfinishedJobs S s = (Inr ks, s') \<Longrightarrow>
      inv s' \<and> jobs_of s' = jobs_of s \<and> distinct ks \<and>
      set ks = {k. \<exists>v. jobs_of s k = Some v \<and> Unfinished (vStatus v)}"
    and list_err: "inv s \<Longrightarrow> ListUnfinishedJobs S s = (Inl e, s') \<Longrightarrow> inv s' \<and> jobs_of s' = jobs_of s"
    and reset_ok: "inv s \<Longrightarrow> ResetRunningItems S s = (Inr n, s') \<Longrightarrow>
      inv s' \<and> jobs_of s' = (\<lambda>k. map_option reset_view (jobs_of s k))"
    and reset_err: "inv s \<Longrightarrow> ResetRunningItems S s = (Inl e, s') \<Longrightarrow> inv s' \<and> jobs_of s' = jobs_of s"

section \<open>Counting items\<close>

definition n_status :: "ItemStatus \<Rightarrow> job_view \<Rightarrow> int" where
  "n_status st v = int (count_if (\<lambda>p. snd p = st) (vItems v))"

definition items_terminal :: "job_view \<Rightarrow> bool" where
  "items_terminal v \<longleftrightarrow> (\<forall>p\<in>set (vItems v). item_terminal (snd p))"

lemma n_status_nonneg [simp]: "0 \<le> n_status st v"
  by (simp add: n_status_def)

lemma n_status_total:
  "n_status Pending v + n_status Running v + n_status Done v + n_status Failed v = int (length (vItems v))"
proof -
  have "count_if (\<lambda>p. snd p = Pending) xs + count_if (\<lambda>p. snd p = Running) xs
      + count_if (\<lambda>p. snd p = Done) xs + count_if (\<lambda>p. snd p = Failed) xs = length xs"
    for xs :: "(IngestItem \<times> ItemStatus) list"
  proof (induction xs)
    case (Cons p xs)
    then show ?case by (cases "snd p") simp_all
  qed simp
  from this [of "vItems v"] show ?thesis by (simp only: n_status_def of_nat_add [symmetric])
qed

lemma items_terminal_iff: "items_terminal v \<longleftrightarrow> n_status Pending v = 0 \<and> n_status Running v = 0"
proof -
  have "items_terminal v \<longleftrightarrow> (\<forall>p\<in>set (vItems v). snd p \<noteq> Pending) \<and> (\<forall>p\<in>set (vItems v). snd p \<noteq> Running)"
    unfolding items_terminal_def using not_item_terminal by blast
  then show ?thesis by (simp add: n_status_def count_if_zero)
qed

lemma n_status_zero: "n_status st v = 0 \<longleftrightarrow> (\<forall>p\<in>set (vItems v). snd p \<noteq> st)"
  by (simp add: n_status_def count_if_zero)

text \<open>The effect of marking a first item with a key on the counts.\<close>

lemma mark_unchanged:
  assumes "find (\<lambda>p. item_key p = key) (vItems v) = None \<or>
    (\<exists>p. find (\<lambda>p. item_key p = key) (vItems v) = Some p \<and> item_terminal (snd p))"
  shows "mark key r v = v"
  using assms by (auto simp: mark_def)

lemma bump_items [simp]: "vItems (bump ie v) = vItems v" "vStatus (bump ie v) = vStatus v" "vTotal (bump ie v) = vTotal v"
  by (simp_all add: bump_def split: option.splits)

lemma set_status_fields [simp]:
  "vStatus (set_status key st v) = vStatus v" "vTotal (set_status key st v) = vTotal v"
  "vDone (set_status key st v) = vDone v" "vFailed (set_status key st v) = vFailed v"
  by (simp_all add: set_status_def)

lemma mark_status [simp]: "vStatus (mark key r v) = vStatus v" "vTotal (mark key r v) = vTotal v"
  by (auto simp: mark_def split: option.splits)

text \<open>Either nothing happens, or one non-terminal item takes the outcome and one counter moves.\<close>

lemma mark_cases:
  obtains (same) "mark key r v = v"
  | (moved) xs it st ys where "vItems v = xs @ (it, st) # ys" "\<not> item_terminal st" "iKey it = key"
      "vItems (mark key r v) = xs @ (it, outcome r) # ys"
      "vDone (mark key r v) = vDone v + (if r = None then 1 else 0)"
      "vFailed (mark key r v) = vFailed v + (if r = None then 0 else 1)"
proof (cases "find (\<lambda>p. item_key p = key) (vItems v)")
  case None
  then show thesis by (intro same) (simp add: mark_unchanged)
next
  case (Some p)
  obtain it st where p: "p = (it, st)" by fastforce
  show thesis
  proof (cases "item_terminal st")
    case True
    with Some p show thesis by (intro same) (simp add: mark_unchanged)
  next
    case False
    obtain xs ys where xs: "vItems v = xs @ (it, st) # ys" "iKey it = key"
      "update_first (\<lambda>p. item_key p = key) (\<lambda>(it, _). (it, outcome r)) (vItems v) = xs @ (it, outcome r) # ys"
      using Some p
      by (auto elim!: update_first_split [where f = "\<lambda>(it, _). (it, outcome r)"] simp: item_key_def)
    have m: "mark key r v = bump (item_error key r) (set_status key (outcome r) v)"
      using Some p False by (simp add: mark_def)
    show thesis
      by (rule moved [OF xs(1) False xs(2)])
         (simp_all add: m set_status_def xs(3), simp_all add: bump_def item_error_def split: option.splits)
  qed
qed

lemma n_status_split:
  "vItems v = xs @ (it, st') # ys \<Longrightarrow>
   n_status st v = int (count_if (\<lambda>p. snd p = st) xs) + (if st' = st then 1 else 0)
     + int (count_if (\<lambda>p. snd p = st) ys)"
  by (simp add: n_status_def)

lemma length_mark [simp]: "length (vItems (mark key r v)) = length (vItems v)"
  by (rule mark_cases [of key r v]) auto

lemma keys_mark [simp]: "map item_key (vItems (mark key r v)) = map item_key (vItems v)"
  by (rule mark_cases [of key r v]) (auto simp: item_key_def)

lemma set_track_items [simp]:
  "map snd (vItems (set_track key t v)) = map snd (vItems v)"
  "map item_key (vItems (set_track key t v)) = map item_key (vItems v)"
  by (simp_all add: set_track_def case_prod_beta item_key_def)

lemma set_track_fields [simp]:
  "vStatus (set_track key t v) = vStatus v" "vTotal (set_track key t v) = vTotal v"
  "vDone (set_track key t v) = vDone v" "vFailed (set_track key t v) = vFailed v"
  by (simp_all add: set_track_def)

lemma n_status_cong: "map snd (vItems v) = map snd (vItems w) \<Longrightarrow> n_status st v = n_status st w"
proof -
  have "count_if (\<lambda>p. snd p = st) xs = count_if (\<lambda>x. x = st) (map snd xs)"
    for xs :: "(IngestItem \<times> ItemStatus) list"
    by (simp add: comp_def)
  then show "map snd (vItems v) = map snd (vItems w) \<Longrightarrow> n_status st v = n_status st w"
    by (simp only: n_status_def)
qed

lemma reset_fields [simp]:
  "vStatus (reset_view v) = vStatus v" "vTotal (reset_view v) = vTotal v"
  "vDone (reset_view v) = vDone v" "vFailed (reset_view v) = vFailed v"
  "length (vItems (reset_view v)) = length (vItems v)"
  "map item_key (vItems (reset_view v)) = map item_key (vItems v)"
  by (simp_all add: reset_view_def reset_item_def item_key_def)

lemma n_status_reset [simp]:
  "st = Done \<or> st = Failed \<Longrightarrow> n_status st (reset_view v) = n_status st v"
  by (auto simp: n_status_def reset_view_def reset_item_def comp_def intro!: count_if_cong)

lemma reset_running: "Unfinished (vStatus v) \<Longrightarrow> n_status Running (reset_view v) = 0"
  by (auto simp: n_status_zero reset_view_def reset_item_def)

lemma reset_pending:
  "Unfinished (vStatus v) \<Longrightarrow> n_status Pending (reset_view v) = n_status Pending v + n_status Running v"
  using n_status_total [of v] n_status_total [of "reset_view v"] reset_running [of v] by simp

lemma claims_fields:
  assumes "claims it v v'"
  shows "vStatus v' = vStatus v" "vTotal v' = vTotal v" "vDone v' = vDone v" "vFailed v' = vFailed v"
    "vErrors v' = vErrors v" "length (vItems v') = length (vItems v)"
    "map item_key (vItems v') = map item_key (vItems v)"
    "n_status Done v' = n_status Done v" "n_status Failed v' = n_status Failed v"
    "n_status Pending v' = n_status Pending v - 1" "n_status Running v' = n_status Running v + 1"
  using assms by (auto simp: claims_def n_status_def item_key_def)

end
