(* ===== verification/Mem_Store.thy ===== *)
theory Mem_Store
  imports Ingest_Store "HOL-Library.AList"
begin

text \<open>
  The in-memory job store (\<^verbatim>\<open>internal/ingest/memstore.go\<close>).  Each operation runs under the
  store's mutex, so it is one step on the map of job bundles; the map is an association list
  whose order stands for Go's arbitrary iteration order.
\<close>

record memItem =
  miItem :: IngestItem
  miStatus :: ItemStatus
  miErr :: string
  miTrackID :: string

record memJobBundle =
  mbJob :: IngestJob
  mbItems :: "memItem list"

type_synonym MemStore = "(string \<times> memJobBundle) list"

definition NewMemStore :: MemStore where
  "NewMemStore = []"

definition Mem_CreateJob :: "Time \<Rightarrow> IngestJob \<Rightarrow> IngestItem list \<Rightarrow> (MemStore, err, unit) call" where
  "Mem_CreateJob _ j its s = (case map_of s (jID j) of
     Some _ \<Rightarrow> (Inl ErrJobExists, s)
   | None \<Rightarrow> (Inr (), AList.update (jID j)
       \<lparr>mbJob = j, mbItems = map (\<lambda>it. \<lparr>miItem = it, miStatus = Pending, miErr = '''', miTrackID = ''''\<rparr>) its\<rparr> s))"

definition Mem_GetJob :: "string \<Rightarrow> (MemStore, err, IngestJob) call" where
  "Mem_GetJob k s = (case map_of s k of None \<Rightarrow> (Inl ErrJobNotFound, s) | Some b \<Rightarrow> (Inr (mbJob b), s))"

definition Mem_UpdateJob :: "Time \<Rightarrow> IngestJob \<Rightarrow> (MemStore, err, unit) call" where
  "Mem_UpdateJob now j s = (case map_of s (jID j) of
     None \<Rightarrow> (Inl ErrJobNotFound, s)
   | Some b \<Rightarrow> (Inr (), AList.update (jID j) (b\<lparr>mbJob := j\<lparr>jUpdatedAt := now\<rparr>\<rparr>) s))"

definition Mem_ClaimNextItem :: "string \<Rightarrow> (MemStore, err, IngestItem option) call" where
  "Mem_ClaimNextItem k s = (case map_of s k of
     None \<Rightarrow> (Inl ErrJobNotFound, s)
   | Some b \<Rightarrow>
       (case find (\<lambda>it. miStatus it = Pending) (mbItems b) of
          None \<Rightarrow> (Inr None, s)
        | Some it \<Rightarrow> (Inr (Some ((miItem it)\<lparr>iTrackID := miTrackID it\<rparr>)),
            AList.update k (b\<lparr>mbItems := update_first (\<lambda>it. miStatus it = Pending)
              (\<lambda>it. it\<lparr>miStatus := Running\<rparr>) (mbItems b)\<rparr>) s)))"

definition with_key :: "string \<Rightarrow> memItem \<Rightarrow> bool" where
  "with_key key it \<longleftrightarrow> iKey (miItem it) = key"

definition Mem_SetItemTrackID :: "string \<Rightarrow> string \<Rightarrow> string \<Rightarrow> (MemStore, err, unit) call" where
  "Mem_SetItemTrackID k key t s = (case map_of s k of
     None \<Rightarrow> (Inl ErrJobNotFound, s)
   | Some b \<Rightarrow> (Inr (), AList.update k
       (b\<lparr>mbItems := update_first (with_key key) (\<lambda>it. it\<lparr>miTrackID := t\<rparr>) (mbItems b)\<rparr>) s))"

text \<open>What both mark operations write into the item.\<close>

definition finish_item :: "err option \<Rightarrow> memItem \<Rightarrow> memItem" where
  "finish_item runErr it = (case runErr of
     None \<Rightarrow> it\<lparr>miStatus := Done\<rparr>
   | Some e \<Rightarrow> it\<lparr>miStatus := Failed, miErr := Error e\<rparr>)"

definition Mem_MarkItemDone :: "string \<Rightarrow> string \<Rightarrow> err option \<Rightarrow> (MemStore, err, unit) call" where
  "Mem_MarkItemDone k key runErr s = (case map_of s k of
     None \<Rightarrow> (Inl ErrJobNotFound, s)
   | Some b \<Rightarrow> (Inr (), AList.update k
       (b\<lparr>mbItems := update_first (with_key key) (finish_item runErr) (mbItems b)\<rparr>) s))"

text \<open>The counter bump shared by the two progress operations.\<close>

definition bump_job :: "Time \<Rightarrow> IngestItemError option \<Rightarrow> IngestJob \<Rightarrow> IngestJob" where
  "bump_job now itemErr j = (case itemErr of
     Some e \<Rightarrow> j\<lparr>jFailed := jFailed j + 1,
                 jErrors := (if length (jErrors j) < maxErrors then jErrors j @ [e] else jErrors j),
                 jUpdatedAt := now\<rparr>
   | None \<Rightarrow> j\<lparr>jDone := jDone j + 1, jUpdatedAt := now\<rparr>)"

definition Mem_MarkItemDoneAndProgress ::
  "Time \<Rightarrow> string \<Rightarrow> string \<Rightarrow> err option \<Rightarrow> (MemStore, err, unit) call" where
  "Mem_MarkItemDoneAndProgress now k key runErr s = (case map_of s k of
     None \<Rightarrow> (Inl ErrJobNotFound, s)
   | Some b \<Rightarrow>
       (case find (with_key key) (mbItems b) of
          None \<Rightarrow> (Inr (), s)
        | Some it \<Rightarrow>
            if miStatus it = Done \<or> miStatus it = Failed then (Inr (), s)
            else (Inr (), AList.update k
              \<lparr>mbJob = bump_job now (map_option (\<lambda>e. \<lparr>ieKey = key, ieError = Error e\<rparr>) runErr) (mbJob b),
               mbItems = update_first (with_key key) (finish_item runErr) (mbItems b)\<rparr> s)))"

definition Mem_IncrementJobProgress ::
  "Time \<Rightarrow> string \<Rightarrow> IngestItemError option \<Rightarrow> (MemStore, err, unit) call" where
  "Mem_IncrementJobProgress now k itemErr s = (case map_of s k of
     None \<Rightarrow> (Inl ErrJobNotFound, s)
   | Some b \<Rightarrow> (Inr (), AList.update k (b\<lparr>mbJob := bump_job now itemErr (mbJob b)\<rparr>) s))"

definition resettable :: "memJobBundle \<Rightarrow> bool" where
  "resettable b \<longleftrightarrow> \<not> (jStatus (mbJob b) \<noteq> JobStatusQueued \<and> jStatus (mbJob b) \<noteq> JobStatusRunning)"

definition reset_bundle :: "memJobBundle \<Rightarrow> memJobBundle" where
  "reset_bundle b = (if \<not> resettable b then b
     else b\<lparr>mbItems := map (\<lambda>it. if miStatus it = Running then it\<lparr>miStatus := Pending\<rparr> else it) (mbItems b)\<rparr>)"

definition Mem_ResetRunningItems :: "(MemStore, err, nat) call" where
  "Mem_ResetRunningItems s =
     (Inr (sum_list (map (\<lambda>(_, b). if resettable b then count_if (\<lambda>it. miStatus it = Running) (mbItems b) else 0) s)),
      map (\<lambda>(k, b). (k, reset_bundle b)) s)"

definition Mem_ListUnfinishedJobs :: "(MemStore, err, string list) call" where
  "Mem_ListUnfinishedJobs s =
     (Inr (map fst (filter (\<lambda>(_, b). jStatus (mbJob b) = JobStatusQueued \<or> jStatus (mbJob b) = JobStatusRunning) s)), s)"

definition MemStore_ops :: "MemStore JobStore" where
  "MemStore_ops = \<lparr>CreateJob = Mem_CreateJob, GetJob = Mem_GetJob, UpdateJob = Mem_UpdateJob,
     ClaimNextItem = Mem_ClaimNextItem, SetItemTrackID = Mem_SetItemTrackID,
     MarkItemDone = Mem_MarkItemDone, IncrementJobProgress = Mem_IncrementJobProgress,
     MarkItemDoneAndProgress = Mem_MarkItemDoneAndProgress,
     ListUnfinishedJobs = Mem_ListUnfinishedJobs, ResetRunningItems = Mem_ResetRunningItems\<rparr>"

section \<open>Abstraction and invariant\<close>

definition mem_item_view :: "memItem \<Rightarrow> IngestItem \<times> ItemStatus" where
  "mem_item_view it = ((miItem it)\<lparr>iTrackID := miTrackID it\<rparr>, miStatus it)"

definition mem_view :: "memJobBundle \<Rightarrow> job_view" where
  "mem_view b = view_of (mbJob b) (map mem_item_view (mbItems b))"

definition mem_jobs :: "MemStore \<Rightarrow> jobs" where
  "mem_jobs s k = map_option mem_view (map_of s k)"

definition mem_inv :: "MemStore \<Rightarrow> bool" where
  "mem_inv s \<longleftrightarrow> distinct (map fst s) \<and> (\<forall>(k, b)\<in>set s. jID (mbJob b) = k)"

lemma mem_inv_update:
  assumes "mem_inv s" and "jID (mbJob b) = k"
  shows "mem_inv (AList.update k b s)"
proof -
  have "set (AList.update k b s) \<subseteq> insert (k, b) (set s)"
    by (induction s) auto
  with assms show ?thesis
    by (auto simp: mem_inv_def distinct_update)
qed

lemma mem_inv_job: "mem_inv s \<Longrightarrow> map_of s k = Some b \<Longrightarrow> jID (mbJob b) = k"
  by (auto simp: mem_inv_def dest!: map_of_SomeD)

lemma mem_jobs_update [simp]: "mem_jobs (AList.update k b s) = (mem_jobs s)(k \<mapsto> mem_view b)"
  by (rule ext) (simp add: mem_jobs_def update_conv')

lemma update_first_view:
  assumes "\<And>it. mem_item_view (f it) = g (mem_item_view it)" and "\<And>it. p it = q (mem_item_view it)"
  shows "map mem_item_view (update_first p f its) = update_first q g (map mem_item_view its)"
  using assms by (induction its) auto

lemma mem_item_key [simp]: "item_key (mem_item_view it) = iKey (miItem it)"
  by (simp add: item_key_def mem_item_view_def)

lemma find_view:
  "find (\<lambda>p. item_key p = key) (map mem_item_view its) = map_option mem_item_view (find (with_key key) its)"
  by (induction its) (auto simp: with_key_def)

lemma finish_item_view: "mem_item_view (finish_item r it) = (fst (mem_item_view it), outcome r)"
  by (cases r) (simp_all add: finish_item_def mem_item_view_def outcome_def)

lemma mem_view_finish:
  "map mem_item_view (update_first (with_key key) (finish_item r) its) =
   update_first (\<lambda>p. item_key p = key) (\<lambda>(it, _). (it, outcome r)) (map mem_item_view its)"
  by (rule update_first_view) (auto simp: finish_item_view case_prod_beta with_key_def)

lemma bump_job_view: "view_of (bump_job now ie j) its = bump ie (view_of j its)"
  by (auto simp: view_of_def bump_job_def bump_def add_error_def split: option.splits)

lemma mem_mark_view:
  assumes "find (with_key key) (mbItems b) = Some it" "\<not> item_terminal (miStatus it)"
  shows "mem_view \<lparr>mbJob = bump_job now (item_error key r) (mbJob b),
       mbItems = update_first (with_key key) (finish_item r) (mbItems b)\<rparr> = mark key r (mem_view b)"
  using assms
  by (simp add: mem_view_def mark_def find_view bump_job_view mem_view_finish set_status_def)
     (simp add: mem_item_view_def view_of_def bump_def)

lemma mem_reset_view: "mem_view (reset_bundle b) = reset_view (mem_view b)"
  by (auto simp: mem_view_def reset_bundle_def reset_view_def resettable_def Unfinished_def
      view_of_def reset_item_def mem_item_view_def)

lemma mem_claim_view:
  assumes "find (\<lambda>it. miStatus it = Pending) (mbItems b) = Some it"
  shows "claims ((miItem it)\<lparr>iTrackID := miTrackID it\<rparr>) (mem_view b)
    (mem_view (b\<lparr>mbItems := update_first (\<lambda>it. miStatus it = Pending) (\<lambda>it. it\<lparr>miStatus := Running\<rparr>) (mbItems b)\<rparr>))"
proof -
  obtain xs ys where "mbItems b = xs @ it # ys" "miStatus it = Pending"
    "update_first (\<lambda>it. miStatus it = Pending) (\<lambda>it. it\<lparr>miStatus := Running\<rparr>) (mbItems b) =
       xs @ it\<lparr>miStatus := Running\<rparr> # ys"
    using update_first_split [OF assms, where f = "\<lambda>it. it\<lparr>miStatus := Running\<rparr>"] by metis
  then show ?thesis
    unfolding claims_def
    by (intro exI [of _ "map mem_item_view xs"] exI [of _ "map mem_item_view ys"])
       (simp add: mem_view_def view_of_def mem_item_view_def)
qed

lemma mem_jobs_Some: "mem_jobs s k = Some v \<longleftrightarrow> (\<exists>b. map_of s k = Some b \<and> v = mem_view b)"
  by (auto simp: mem_jobs_def)

lemma mem_list_set:
  "mem_inv s \<Longrightarrow> set (map fst (filter (\<lambda>(_, b). Unfinished (jStatus (mbJob b))) s)) =
     {k. \<exists>v. mem_jobs s k = Some v \<and> Unfinished (vStatus v)}"
  by (force simp: mem_inv_def mem_jobs_Some mem_view_def dest: map_of_SomeD intro: map_of_is_SomeI)

section \<open>The store keeps the contract\<close>

lemmas mem_ops = MemStore_ops_def Mem_CreateJob_def Mem_GetJob_def Mem_UpdateJob_def
  Mem_ClaimNextItem_def Mem_SetItemTrackID_def Mem_MarkItemDone_def Mem_IncrementJobProgress_def
  Mem_MarkItemDoneAndProgress_def Mem_ListUnfinishedJobs_def Mem_ResetRunningItems_def

lemma mem_create:
  assumes "mem_inv s" "Mem_CreateJob now j its s = (Inr (), s')"
  shows "mem_inv s' \<and> mem_jobs s (jID j) = None \<and>
    mem_jobs s' = (mem_jobs s)(jID j \<mapsto> view_of j (fresh_items its))"
  using assms
  by (auto simp: Mem_CreateJob_def mem_inv_update mem_jobs_def [of s] mem_view_def fresh_items_def
      mem_item_view_def comp_def split: option.splits)

lemma mem_update:
  assumes "mem_inv s" "Mem_UpdateJob now j s = (Inr (), s')"
  shows "mem_inv s' \<and> (\<exists>v. mem_jobs s (jID j) = Some v \<and>
    mem_jobs s' = (mem_jobs s)(jID j \<mapsto> view_of j (vItems v)))"
  using assms
  by (auto simp: Mem_UpdateJob_def mem_inv_update mem_jobs_Some mem_view_def view_of_def split: option.splits)

lemma mem_claim:
  assumes "mem_inv s" "Mem_ClaimNextItem k s = (Inr (Some it), s')"
  shows "mem_inv s' \<and> (\<exists>v v'. mem_jobs s k = Some v \<and> claims it v v' \<and> mem_jobs s' = (mem_jobs s)(k \<mapsto> v'))"
  using assms
  by (auto simp: Mem_ClaimNextItem_def mem_jobs_Some mem_inv_job
      split: option.splits intro!: mem_inv_update mem_claim_view)

lemma mem_track:
  assumes "mem_inv s" "Mem_SetItemTrackID k key t s = (Inr (), s')"
  shows "mem_inv s' \<and> mem_jobs s' = on_job (mem_jobs s) k (set_track key t)"
proof -
  from assms(2) obtain b where b: "map_of s k = Some b" and s': "s' = AList.update k
       (b\<lparr>mbItems := update_first (with_key key) (\<lambda>it. it\<lparr>miTrackID := t\<rparr>) (mbItems b)\<rparr>) s"
    by (auto simp: Mem_SetItemTrackID_def split: option.splits)
  have "map mem_item_view (update_first (with_key key) (\<lambda>it. it\<lparr>miTrackID := t\<rparr>) (mbItems b)) =
      update_first (\<lambda>p. item_key p = key) (\<lambda>(it, st). (it\<lparr>iTrackID := t\<rparr>, st)) (map mem_item_view (mbItems b))"
    by (rule update_first_view) (auto simp: mem_item_view_def with_key_def item_key_def)
  with b have "mem_jobs s' = on_job (mem_jobs s) k (set_track key t)"
    by (simp add: s' on_job_def mem_jobs_def [of s] mem_view_def set_track_def view_of_def)
  moreover have "mem_inv s'" unfolding s' using assms(1) b by (intro mem_inv_update) (auto simp: mem_inv_job)
  ultimately show ?thesis by blast
qed

lemma mem_markdone:
  assumes "mem_inv s" "Mem_MarkItemDone k key r s = (Inr (), s')"
  shows "mem_inv s' \<and> mem_jobs s' = on_job (mem_jobs s) k (set_status key (outcome r))"
  using assms
  by (auto simp: Mem_MarkItemDone_def mem_inv_job on_job_def mem_jobs_def [of s] mem_view_def
      mem_view_finish set_status_def view_of_def split: option.splits intro!: mem_inv_update)

lemma bump_job_ID [simp]: "jID (bump_job now ie j) = jID j"
  by (simp add: bump_job_def split: option.splits)

lemma mem_incr:
  assumes "mem_inv s" "Mem_IncrementJobProgress now k ie s = (Inr (), s')"
  shows "mem_inv s' \<and> mem_jobs s' = on_job (mem_jobs s) k (bump ie) \<and> mem_jobs s k \<noteq> None"
  using assms
  by (auto simp: Mem_IncrementJobProgress_def mem_inv_job on_job_def mem_jobs_def [of s] mem_view_def
      bump_job_view split: option.splits intro!: mem_inv_update)

lemma mem_mark:
  assumes inv: "mem_inv s" and op: "Mem_MarkItemDoneAndProgress now k key r s = (Inr (), s')"
  shows "mem_inv s' \<and> mem_jobs s' = on_job (mem_jobs s) k (mark key r)"
proof -
  from op obtain b where b: "map_of s k = Some b"
    by (auto simp: Mem_MarkItemDoneAndProgress_def split: option.splits)
  then have view: "mem_jobs s k = Some (mem_view b)" by (simp add: mem_jobs_def)
  show ?thesis
  proof (cases "\<exists>it. find (with_key key) (mbItems b) = Some it \<and> \<not> item_terminal (miStatus it)")
    case True
    then obtain it where it: "find (with_key key) (mbItems b) = Some it" "\<not> item_terminal (miStatus it)" by blast
    with op b have s': "s' = AList.update k \<lparr>mbJob = bump_job now (item_error key r) (mbJob b),
        mbItems = update_first (with_key key) (finish_item r) (mbItems b)\<rparr> s"
      by (auto simp: Mem_MarkItemDoneAndProgress_def item_error_def not_item_terminal)
    show ?thesis
      using inv mem_inv_job [OF inv b] view
      by (simp add: s' on_job_def mem_mark_view [OF it] mem_inv_update)
  next
    case False
    then have "s' = s" using op b
      by (auto simp: Mem_MarkItemDoneAndProgress_def item_terminal_def split: option.splits if_splits)
    moreover have "mark key r (mem_view b) = mem_view b"
      using False by (cases "find (with_key key) (mbItems b)")
        (auto simp: mark_def mem_view_def find_view mem_item_view_def)
    ultimately show ?thesis using inv view by (auto simp: on_job_def fun_upd_idem)
  qed
qed

lemma mem_reset:
  assumes "mem_inv s" "Mem_ResetRunningItems s = (Inr n, s')"
  shows "mem_inv s' \<and> mem_jobs s' = (\<lambda>k. map_option reset_view (mem_jobs s k))"
proof -
  have s': "s' = map (\<lambda>(k, b). (k, reset_bundle b)) s" using assms(2) by (simp add: Mem_ResetRunningItems_def)
  have "jID (mbJob (reset_bundle b)) = jID (mbJob b)" for b by (simp add: reset_bundle_def)
  then have "mem_inv s'" using assms(1) unfolding s' mem_inv_def by (force simp: case_prod_beta comp_def)
  moreover have "mem_jobs s' k = map_option reset_view (mem_jobs s k)" for k
    by (simp add: mem_jobs_def s' map_of_map option.map_comp comp_def mem_reset_view)
  ultimately show ?thesis by blast
qed

lemma mem_list:
  assumes "mem_inv s" "Mem_ListUnfinishedJobs s = (Inr ks, s')"
  shows "mem_inv s' \<and> mem_jobs s' = mem_jobs s \<and> distinct ks \<and>
    set ks = {k. \<exists>v. mem_jobs s k = Some v \<and> Unfinished (vStatus v)}"
proof -
  have ks: "ks = map fst (filter (\<lambda>(_, b). Unfinished (jStatus (mbJob b))) s)" and "s' = s"
    using assms(2) by (auto simp: Mem_ListUnfinishedJobs_def Unfinished_def)
  moreover have "distinct ks" using assms(1) by (simp add: ks mem_inv_def distinct_map_filter)
  ultimately show ?thesis using assms(1) mem_list_set by blast
qed

text \<open>A failing operation, and a claim that finds nothing, leave the store alone.\<close>

lemma mem_err_same:
  "Mem_CreateJob now j its s = (Inl e, s') \<Longrightarrow> s' = s"
  "Mem_GetJob k s = (r, s') \<Longrightarrow> s' = s"
  "Mem_UpdateJob now j s = (Inl e, s') \<Longrightarrow> s' = s"
  "Mem_ClaimNextItem k s = (Inl e, s') \<Longrightarrow> s' = s"
  "Mem_ClaimNextItem k s = (Inr None, s') \<Longrightarrow> s' = s"
  "Mem_SetItemTrackID k key t s = (Inl e, s') \<Longrightarrow> s' = s"
  "Mem_MarkItemDone k key r' s = (Inl e, s') \<Longrightarrow> s' = s"
  "Mem_IncrementJobProgress now k ie s = (Inl e, s') \<Longrightarrow> s' = s"
  "Mem_MarkItemDoneAndProgress now k key r' s = (Inl e, s') \<Longrightarrow> s' = s"
  "Mem_ListUnfinishedJobs s = (Inl e, s') \<Longrightarrow> s' = s"
  "Mem_ResetRunningItems s = (Inl e, s') \<Longrightarrow> s' = s"
  by (simp_all add: mem_ops split: option.splits if_splits)

lemma mem_get:
  assumes "mem_inv s" "Mem_GetJob k s = (Inr j, s')"
  shows "mem_inv s' \<and> mem_jobs s' = mem_jobs s \<and> jID j = k \<and> (\<exists>its. mem_jobs s k = Some (view_of j its))"
  using assms by (auto simp: Mem_GetJob_def mem_jobs_Some mem_inv_job mem_view_def split: option.splits)

interpretation mem: job_store MemStore_ops mem_inv mem_jobs
  unfolding MemStore_ops_def
  by unfold_locales
     (simp_all only: JobStore.select_convs, (erule (1) mem_create mem_get mem_update mem_claim mem_track mem_markdone mem_incr
        mem_mark mem_list mem_reset | drule mem_err_same, simp)+)

end
