(* ===== verification/PG_Store.thy ===== *)
theory PG_Store
  imports Ingest_Store
begin

text \<open>
  The PostgreSQL job store (\<^verbatim>\<open>internal/ingest/pgstore.go\<close>): the tables \<^verbatim>\<open>ingest_jobs\<close> and
  \<^verbatim>\<open>ingest_job_items\<close> of its migrations, and the statements of each operation in their
  transactions.  \<^verbatim>\<open>errors_json\<close> holds the parsed error list, \<open>None\<close> where the text is not JSON.
  \<open>locked_items\<close> are the item rows other transactions hold a lock on; a claim skips them.
  Serialised transactions are assumed: one operation's statements are not interleaved with
  another's on the same rows, which is what the row locks give.
\<close>

record ingest_job_row =
  rjID :: string
  rjStatus :: JobStatus
  rjTotal :: int
  rjDone :: int
  rjFailed :: int
  rjErrorsJSON :: "IngestItemError list option"
  rjCreatedAt :: Time
  rjUpdatedAt :: Time

record ingest_item_row =
  riID :: string
  riJob :: string
  riKey :: string
  riStatus :: ItemStatus
  riError :: string
  riText :: string
  riMetadata :: smap
  riTrackID :: string
  riCreatedAt :: Time

record ingest_db =
  ingest_jobs :: "ingest_job_row list"
  ingest_job_items :: "ingest_item_row list"
  locked_items :: "string list"

type_synonym pg_conn = "ingest_db conn"

section \<open>Statements\<close>

definition isUniqueViolation :: "err \<Rightarrow> bool" where
  "isUniqueViolation e \<longleftrightarrow> AsPg e = Some ''23505''"

definition job_row :: "IngestJob \<Rightarrow> ingest_job_row" where
  "job_row j = \<lparr>rjID = jID j, rjStatus = jStatus j, rjTotal = jTotal j, rjDone = jDone j, rjFailed = jFailed j,
     rjErrorsJSON = Some (jErrors j), rjCreatedAt = jCreatedAt j, rjUpdatedAt = jUpdatedAt j\<rparr>"

definition insert_job :: "IngestJob \<Rightarrow> (pg_conn, err, unit) call" where
  "insert_job j = db_call (\<lambda>d.
     if jID j \<in> rjID ` set (ingest_jobs d) then (Inl unique_violation, d)
     else (Inr (), d\<lparr>ingest_jobs := ingest_jobs d @ [job_row j]\<rparr>))"

definition insert_item :: "string \<Rightarrow> Time \<Rightarrow> string \<Rightarrow> IngestItem \<Rightarrow> (pg_conn, err, unit) call" where
  "insert_item rowID now job it = db_call (\<lambda>d.
     if rowID \<in> riID ` set (ingest_job_items d)
        \<or> (job, iKey it) \<in> (\<lambda>r. (riJob r, riKey r)) ` set (ingest_job_items d)
     then (Inl unique_violation, d)
     else (Inr (), d\<lparr>ingest_job_items := ingest_job_items d @
       [\<lparr>riID = rowID, riJob = job, riKey = iKey it, riStatus = Pending, riError = '''',
         riText = iText it, riMetadata = iMetadata it, riTrackID = '''', riCreatedAt = now\<rparr>]\<rparr>))"

text \<open>\<^verbatim>\<open>UPDATE\<close> of the rows a condition selects, returning how many there were.\<close>

definition update_jobs :: "(ingest_job_row \<Rightarrow> bool) \<Rightarrow> (ingest_job_row \<Rightarrow> ingest_job_row) \<Rightarrow> (pg_conn, err, nat) call" where
  "update_jobs p f = db_exec (\<lambda>d. (count_if p (ingest_jobs d), d\<lparr>ingest_jobs := tupdate p f (ingest_jobs d)\<rparr>))"

definition update_items :: "(ingest_item_row \<Rightarrow> bool) \<Rightarrow> (ingest_item_row \<Rightarrow> ingest_item_row) \<Rightarrow> (pg_conn, err, nat) call" where
  "update_items p f = db_exec (\<lambda>d. (count_if p (ingest_job_items d),
     d\<lparr>ingest_job_items := tupdate p f (ingest_job_items d)\<rparr>))"

section \<open>Operations\<close>

definition PG_CreateJob :: "(string \<Rightarrow> nat \<Rightarrow> string) \<Rightarrow> Time \<Rightarrow> IngestJob \<Rightarrow> IngestItem list \<Rightarrow> (pg_conn, err, unit) call" where
  "PG_CreateJob newItemID now j its = with_tx (Wrap ''ingest: create job: begin tx'')
     (bindE (mapErr (\<lambda>e. if isUniqueViolation e then ErrJobExists
                          else Wrap ''ingest: create job: insert job'' e) (insert_job j))
     (\<lambda>_. bindE (forE (enumerate 0 its) (\<lambda>(i, it).
         mapErr (Wrap (''ingest: create job: insert item '' @ quoteq (iKey it)))
           (insert_item (newItemID (jID j) i) now (jID j) it)))
     (\<lambda>_. mapErr (Wrap ''ingest: create job: commit'') commit)))"

definition job_of_row :: "ingest_job_row \<Rightarrow> IngestItemError list \<Rightarrow> IngestJob" where
  "job_of_row r errs = \<lparr>jID = rjID r, jStatus = rjStatus r, jTotal = rjTotal r, jDone = rjDone r,
     jFailed = rjFailed r, jErrors = errs, jCreatedAt = rjCreatedAt r, jUpdatedAt = rjUpdatedAt r\<rparr>"

text \<open>\<^verbatim>\<open>QueryRow(..).Scan(..)\<close>: no row is \<^verbatim>\<open>sql.ErrNoRows\<close>.\<close>

definition query_row :: "(ingest_db \<Rightarrow> 'a option) \<Rightarrow> (pg_conn, err, 'a) call" where
  "query_row q = db_call (\<lambda>d. (case q d of None \<Rightarrow> Inl ErrNoRows | Some x \<Rightarrow> Inr x, d))"

definition PG_GetJob :: "string \<Rightarrow> (pg_conn, err, IngestJob) call" where
  "PG_GetJob k = bindE
     (mapErr (\<lambda>e. if Is e ErrNoRows then ErrJobNotFound else Wrap (''ingest: get job '' @ quoteq k) e)
       (query_row (\<lambda>d. find (\<lambda>r. rjID r = k) (ingest_jobs d))))
     (\<lambda>r. case rjErrorsJSON r of
        None \<Rightarrow> failE (Wrap (''ingest: get job '' @ quoteq k @ '': unmarshal errors_json'') (Opaque ''invalid JSON''))
      | Some errs \<Rightarrow> returnE (job_of_row r errs))"

definition PG_UpdateJob :: "Time \<Rightarrow> IngestJob \<Rightarrow> (pg_conn, err, unit) call" where
  "PG_UpdateJob now j = bindE
     (mapErr (Wrap (''ingest: update job '' @ quoteq (jID j)))
       (update_jobs (\<lambda>r. rjID r = jID j)
         (\<lambda>r. r\<lparr>rjStatus := jStatus j, rjTotal := jTotal j, rjDone := jDone j, rjFailed := jFailed j,
                rjErrorsJSON := Some (jErrors j), rjUpdatedAt := now\<rparr>)))
     (\<lambda>n. if n = 0 then failE ErrJobNotFound else returnE ())"

definition claimable :: "string \<Rightarrow> ingest_db \<Rightarrow> ingest_item_row list" where
  "claimable k d = sort_key riCreatedAt
     (filter (\<lambda>r. riJob r = k \<and> riStatus r = Pending \<and> riID r \<notin> set (locked_items d)) (ingest_job_items d))"

definition item_of_row :: "ingest_item_row \<Rightarrow> IngestItem" where
  "item_of_row r = \<lparr>iKey = riKey r, iText = riText r, iMetadata = riMetadata r, iTrackID = riTrackID r\<rparr>"

definition PG_ClaimNextItem :: "string \<Rightarrow> (pg_conn, err, IngestItem option) call" where
  "PG_ClaimNextItem k = with_tx (Wrap ''ingest: claim next item: begin tx'')
     (bindE (mapErr (Wrap ''ingest: claim next item: scan'')
        (db_query (\<lambda>d. case claimable k d of [] \<Rightarrow> None | r # _ \<Rightarrow> Some r)))
     (\<lambda>row. case row of
        None \<Rightarrow> bindE commit (\<lambda>_. returnE None)
      | Some r \<Rightarrow>
          bindE (mapErr (Wrap ''ingest: claim next item: mark running'')
            (update_items (\<lambda>x. riID x = riID r) (\<lambda>x. x\<lparr>riStatus := Running\<rparr>)))
          (\<lambda>_. bindE (mapErr (Wrap ''ingest: claim next item: commit'') commit)
          (\<lambda>_. returnE (Some (item_of_row r))))))"

definition job_key :: "string \<Rightarrow> string \<Rightarrow> ingest_item_row \<Rightarrow> bool" where
  "job_key k key r \<longleftrightarrow> riJob r = k \<and> riKey r = key"

definition PG_SetItemTrackID :: "string \<Rightarrow> string \<Rightarrow> string \<Rightarrow> (pg_conn, err, unit) call" where
  "PG_SetItemTrackID k key t = bindE
     (mapErr (Wrap (''ingest: set item track_id '' @ quoteq k @ ''/'' @ quoteq key))
       (update_items (job_key k key) (\<lambda>r. r\<lparr>riTrackID := t\<rparr>)))
     (\<lambda>_. returnE ())"

definition finish_row :: "err option \<Rightarrow> ingest_item_row \<Rightarrow> ingest_item_row" where
  "finish_row runErr r = (case runErr of
     None \<Rightarrow> r\<lparr>riStatus := Done, riError := ''''\<rparr>
   | Some e \<Rightarrow> r\<lparr>riStatus := Failed, riError := Error e\<rparr>)"

definition PG_MarkItemDone :: "string \<Rightarrow> string \<Rightarrow> err option \<Rightarrow> (pg_conn, err, unit) call" where
  "PG_MarkItemDone k key runErr = bindE
     (mapErr (Wrap (''ingest: mark item done '' @ quoteq k @ ''/'' @ quoteq key))
       (update_items (job_key k key) (finish_row runErr)))
     (\<lambda>_. returnE ())"

definition bump_done :: "Time \<Rightarrow> string \<Rightarrow> (pg_conn, err, nat) call" where
  "bump_done now k = update_jobs (\<lambda>r. rjID r = k) (\<lambda>r. r\<lparr>rjDone := rjDone r + 1, rjUpdatedAt := now\<rparr>)"

text \<open>
  The failure path both progress operations share: read \<^verbatim>\<open>errors_json\<close> under a row lock (text that
  does not parse counts as no errors), append up to \<^verbatim>\<open>maxErrors\<close>, bump \<^verbatim>\<open>failed\<close>.
\<close>

definition bump_failed :: "string \<Rightarrow> string \<Rightarrow> string \<Rightarrow> Time \<Rightarrow> string \<Rightarrow> IngestItemError \<Rightarrow> (pg_conn, err, unit) call" where
  "bump_failed what scanning updating now k e = bindE
     (mapErr (\<lambda>e. if Is e ErrNoRows then ErrJobNotFound else Wrap (what @ '': '' @ scanning) e)
       (query_row (\<lambda>d. map_option rjErrorsJSON (find (\<lambda>r. rjID r = k) (ingest_jobs d)))))
     (\<lambda>errsJSON. let errs = (case errsJSON of None \<Rightarrow> [] | Some es \<Rightarrow> es);
                     out = (if length errs < maxErrors then errs @ [e] else errs) in
       bindE (mapErr (Wrap (what @ '': '' @ updating))
         (update_jobs (\<lambda>r. rjID r = k)
           (\<lambda>r. r\<lparr>rjFailed := rjFailed r + 1, rjErrorsJSON := Some out, rjUpdatedAt := now\<rparr>)))
       (\<lambda>_. mapErr (Wrap (what @ '': commit'')) commit))"

definition PG_MarkItemDoneAndProgress :: "Time \<Rightarrow> string \<Rightarrow> string \<Rightarrow> err option \<Rightarrow> (pg_conn, err, unit) call" where
  "PG_MarkItemDoneAndProgress now k key runErr =
     (let what = ''ingest: mark done and progress '' @ quoteq k in
      with_tx (Wrap (what @ ''/'' @ quoteq key @ '': begin tx''))
       (bindE (mapErr (Wrap (what @ ''/'' @ quoteq key @ '': item update''))
          (update_items (\<lambda>r. job_key k key r \<and> riStatus r \<notin> {Done, Failed}) (finish_row runErr)))
       (\<lambda>n. if n = 0 then commit
            else (case runErr of
              None \<Rightarrow> bindE (mapErr (Wrap (what @ '': bump done'')) (bump_done now k)) (\<lambda>_. commit)
            | Some e \<Rightarrow> bump_failed what ''scan errors_json'' ''bump failed'' now k \<lparr>ieKey = key, ieError = Error e\<rparr>))))"

definition PG_IncrementJobProgress :: "Time \<Rightarrow> string \<Rightarrow> IngestItemError option \<Rightarrow> (pg_conn, err, unit) call" where
  "PG_IncrementJobProgress now k itemErr = (case itemErr of
     None \<Rightarrow> bindE (mapErr (Wrap (''ingest: increment done '' @ quoteq k)) (bump_done now k))
       (\<lambda>n. if n = 0 then failE ErrJobNotFound else returnE ())
   | Some e \<Rightarrow> with_tx (Wrap (''ingest: increment failed '' @ quoteq k @ '': begin tx''))
       (bump_failed (''ingest: increment failed '' @ quoteq k) ''scan'' ''update'' now k e))"

definition PG_ListUnfinishedJobs :: "(pg_conn, err, string list) call" where
  "PG_ListUnfinishedJobs = mapErr (Wrap ''ingest: list unfinished jobs'')
     (db_query (\<lambda>d. map rjID (sort_key rjCreatedAt
        (filter (\<lambda>r. rjStatus r \<in> {JobStatusQueued, JobStatusRunning}) (ingest_jobs d)))))"

definition PG_ResetRunningItems :: "(pg_conn, err, nat) call" where
  "PG_ResetRunningItems = mapErr (Wrap ''ingest: reset running items'')
     (db_exec (\<lambda>d.
        let open = set (map rjID (filter (\<lambda>r. rjStatus r \<in> {JobStatusQueued, JobStatusRunning}) (ingest_jobs d)));
            p = (\<lambda>r. riStatus r = Running \<and> riJob r \<in> open)
        in (count_if p (ingest_job_items d),
            d\<lparr>ingest_job_items := tupdate p (\<lambda>r. r\<lparr>riStatus := Pending\<rparr>) (ingest_job_items d)\<rparr>)))"

definition PGStore_ops :: "(string \<Rightarrow> nat \<Rightarrow> string) \<Rightarrow> pg_conn JobStore" where
  "PGStore_ops newItemID = \<lparr>CreateJob = PG_CreateJob newItemID, GetJob = PG_GetJob, UpdateJob = PG_UpdateJob,
     ClaimNextItem = PG_ClaimNextItem, SetItemTrackID = PG_SetItemTrackID,
     MarkItemDone = PG_MarkItemDone, IncrementJobProgress = PG_IncrementJobProgress,
     MarkItemDoneAndProgress = PG_MarkItemDoneAndProgress,
     ListUnfinishedJobs = PG_ListUnfinishedJobs, ResetRunningItems = PG_ResetRunningItems\<rparr>"

section \<open>Abstraction and invariant\<close>

definition row_item :: "ingest_item_row \<Rightarrow> IngestItem \<times> ItemStatus" where
  "row_item r = (item_of_row r, riStatus r)"

definition job_items :: "string \<Rightarrow> ingest_db \<Rightarrow> (IngestItem \<times> ItemStatus) list" where
  "job_items k d = map row_item (filter (\<lambda>r. riJob r = k) (ingest_job_items d))"

definition row_view :: "ingest_db \<Rightarrow> ingest_job_row \<Rightarrow> job_view" where
  "row_view d r = view_of (job_of_row r (case rjErrorsJSON r of None \<Rightarrow> [] | Some es \<Rightarrow> es)) (job_items (rjID r) d)"

definition db_jobs :: "ingest_db \<Rightarrow> jobs" where
  "db_jobs d k = map_option (row_view d) (find (\<lambda>r. rjID r = k) (ingest_jobs d))"

definition pg_jobs :: "pg_conn \<Rightarrow> jobs" where
  "pg_jobs c = db_jobs (tables c)"

definition db_inv :: "ingest_db \<Rightarrow> bool" where
  "db_inv d \<longleftrightarrow> distinct (map rjID (ingest_jobs d)) \<and> distinct (map riID (ingest_job_items d))
     \<and> distinct (map (\<lambda>r. (riJob r, riKey r)) (ingest_job_items d))
     \<and> riJob ` set (ingest_job_items d) \<subseteq> rjID ` set (ingest_jobs d)
     \<and> (\<forall>r\<in>set (ingest_jobs d). rjErrorsJSON r \<noteq> None)"

definition pg_inv :: "pg_conn \<Rightarrow> bool" where
  "pg_inv c \<longleftrightarrow> db_inv (tables c)"

lemma db_inv_tables: "pg_inv c \<Longrightarrow> tables c' = tables c \<Longrightarrow> pg_inv c' \<and> pg_jobs c' = pg_jobs c"
  by (simp add: pg_inv_def pg_jobs_def)

section \<open>Rows and views\<close>

lemma row_item_key [simp]: "item_key (row_item r) = riKey r"
  by (simp add: item_key_def row_item_def item_of_row_def)

text \<open>Updating job rows keeps the invariant when it keeps IDs and leaves parsed error lists.\<close>

lemma db_inv_update_jobs:
  assumes "db_inv d" and "\<And>r. rjID (f r) = rjID r" and "\<And>r. rjErrorsJSON r \<noteq> None \<Longrightarrow> rjErrorsJSON (f r) \<noteq> None"
  shows "db_inv (d\<lparr>ingest_jobs := tupdate p f (ingest_jobs d)\<rparr>)"
proof -
  have "rjID ` set (tupdate p f (ingest_jobs d)) = rjID ` set (ingest_jobs d)"
    by (rule image_tupdate) (rule assms(2))
  with assms show ?thesis by (auto simp: db_inv_def set_tupdate)
qed

lemma db_inv_update_items:
  assumes "db_inv d" and "\<And>r. riID (f r) = riID r" "\<And>r. riJob (f r) = riJob r" "\<And>r. riKey (f r) = riKey r"
  shows "db_inv (d\<lparr>ingest_job_items := tupdate p f (ingest_job_items d)\<rparr>)"
proof -
  have "riJob ` set (tupdate p f (ingest_job_items d)) = riJob ` set (ingest_job_items d)"
    by (rule image_tupdate) (rule assms(3))
  with assms show ?thesis by (auto simp: db_inv_def)
qed

lemma job_items_jobs [simp]: "job_items k (d\<lparr>ingest_jobs := x\<rparr>) = job_items k d"
  by (simp add: job_items_def)

lemma row_view_jobs [simp]: "row_view (d\<lparr>ingest_jobs := x\<rparr>) = row_view d"
  by (rule ext) (simp add: row_view_def)

lemma db_jobs_update_job:
  assumes "\<And>r. rjID (f r) = rjID r"
    and "\<And>r. r \<in> set (ingest_jobs d) \<Longrightarrow> rjID r = k \<Longrightarrow> row_view d (f r) = g (row_view d r)"
  shows "db_jobs (d\<lparr>ingest_jobs := tupdate (\<lambda>r. rjID r = k) f (ingest_jobs d)\<rparr>) = on_job (db_jobs d) k g"
proof (rule ext)
  fix k'
  have "find (\<lambda>r. rjID r = k) (ingest_jobs d) = Some r \<Longrightarrow> row_view d (f r) = g (row_view d r)" for r
    by (drule find_SomeD) (auto intro: assms(2))
  then show "db_jobs (d\<lparr>ingest_jobs := tupdate (\<lambda>r. rjID r = k) f (ingest_jobs d)\<rparr>) k' = on_job (db_jobs d) k g k'"
    by (auto simp: db_jobs_def on_job_def find_tupdate [where key = rjID] assms(1) split: option.splits)
qed

lemma db_jobs_update_items:
  assumes "\<And>k. job_items k d' = h k (job_items k d)" and "ingest_jobs d' = ingest_jobs d"
  shows "db_jobs d' = (\<lambda>k. map_option (\<lambda>v. v\<lparr>vItems := h k (vItems v)\<rparr>) (db_jobs d k))"
proof (rule ext)
  fix k
  have "row_view d' r = (row_view d r)\<lparr>vItems := h k (vItems (row_view d r))\<rparr>"
    if "find (\<lambda>r. rjID r = k) (ingest_jobs d) = Some r" for r
    using find_SomeD [OF that] assms(1) by (simp add: row_view_def view_of_def)
  then show "db_jobs d' k = map_option (\<lambda>v. v\<lparr>vItems := h k (vItems v)\<rparr>) (db_jobs d k)"
    using assms(2) by (cases "find (\<lambda>r. rjID r = k) (ingest_jobs d)") (simp_all add: db_jobs_def)
qed

lemma map_option_on_job:
  assumes "\<And>k' v. k' \<noteq> k \<Longrightarrow> m k' = Some v \<Longrightarrow> h k' v = v" and "\<And>v. m k = Some v \<Longrightarrow> h k v = g v"
  shows "(\<lambda>k'. map_option (h k') (m k')) = on_job m k g"
proof (rule ext)
  show "map_option (h k') (m k') = on_job m k g k'" for k'
    by (cases "k' = k"; cases "m k'") (auto simp: on_job_def assms split: option.splits)
qed

lemma job_keys_distinct: "db_inv d \<Longrightarrow> distinct (map riKey (filter (\<lambda>r. riJob r = k) (ingest_job_items d)))"
proof -
  assume "db_inv d"
  then have "distinct (map (\<lambda>r. (riJob r, riKey r)) (filter (\<lambda>r. riJob r = k) (ingest_job_items d)))"
    by (simp add: db_inv_def distinct_map_filter)
  then show ?thesis by (auto simp: distinct_map inj_on_def)
qed

lemma job_items_key_update:
  assumes inv: "db_inv d" and f: "\<And>r. riJob (f r) = riJob r"
    and g: "\<And>r. row_item (f r) = g (row_item r)"
  shows "job_items k' (d\<lparr>ingest_job_items := tupdate (job_key k key) f (ingest_job_items d)\<rparr>) =
    (if k' = k then update_first (\<lambda>p. item_key p = key) g (job_items k d) else job_items k' d)"
proof -
  let ?rows = "filter (\<lambda>r. riJob r = k) (ingest_job_items d)"
  have rows: "filter (\<lambda>r. riJob r = k') (tupdate (job_key k key) f (ingest_job_items d)) =
      tupdate (job_key k key) f (filter (\<lambda>r. riJob r = k') (ingest_job_items d))"
    by (rule filter_tupdate_frame) (simp add: f)
  show ?thesis
  proof (cases "k' = k")
    case True
    have "tupdate (job_key k key) f ?rows = tupdate (\<lambda>r. riKey r = key) f ?rows"
      by (auto simp: tupdate_def job_key_def)
    also have "\<dots> = update_first (\<lambda>r. riKey r = key) f ?rows"
      by (rule tupdate_distinct_key) (rule job_keys_distinct [OF inv])
    finally have "map row_item (tupdate (job_key k key) f ?rows) = update_first (\<lambda>p. item_key p = key) g (map row_item ?rows)"
      by (simp add: map_update_first_hom [where g = g and q = "\<lambda>p. item_key p = key"] g)
    with True show ?thesis using rows by (simp add: job_items_def)
  next
    case False
    have "tupdate (job_key k key) f (filter (\<lambda>r. riJob r = k') (ingest_job_items d)) =
        filter (\<lambda>r. riJob r = k') (ingest_job_items d)"
      using False by (auto simp: tupdate_def job_key_def intro!: map_idI)
    with False show ?thesis using rows by (simp add: job_items_def)
  qed
qed

section \<open>Creating a job\<close>

lemma insert_item_ok:
  assumes "insert_item rowID now k it b = (Inr (), c)" and inv: "db_inv (tables b)"
    and "k \<in> rjID ` set (ingest_jobs (tables b))"
  shows "db_inv (tables c)" "ingest_jobs (tables c) = ingest_jobs (tables b)"
    "job_items k' (tables c) = job_items k' (tables b) @ (if k' = k then [(it\<lparr>iTrackID := ''''\<rparr>, Pending)] else [])"
proof -
  from db_call_Inr [OF assms(1) [unfolded insert_item_def]]
  have new: "rowID \<notin> riID ` set (ingest_job_items (tables b))"
      "(k, iKey it) \<notin> (\<lambda>r. (riJob r, riKey r)) ` set (ingest_job_items (tables b))"
    and c: "tables c = (tables b)\<lparr>ingest_job_items := ingest_job_items (tables b) @
       [\<lparr>riID = rowID, riJob = k, riKey = iKey it, riStatus = Pending, riError = '''',
         riText = iText it, riMetadata = iMetadata it, riTrackID = '''', riCreatedAt = now\<rparr>]\<rparr>"
    by (auto split: if_splits)
  show "db_inv (tables c)" using new inv assms(3) by (auto simp: db_inv_def c)
  show "ingest_jobs (tables c) = ingest_jobs (tables b)" by (simp add: c)
  show "job_items k' (tables c) = job_items k' (tables b) @ (if k' = k then [(it\<lparr>iTrackID := ''''\<rparr>, Pending)] else [])"
    by (simp add: job_items_def c row_item_def item_of_row_def)
qed

lemma insert_items_ok:
  assumes "forE (enumerate n its) (\<lambda>(i, it). mapErr (w it) (insert_item (ids i) now k it)) b = (Inr (), c)"
    and "db_inv (tables b)" and "k \<in> rjID ` set (ingest_jobs (tables b))"
  shows "db_inv (tables c) \<and> ingest_jobs (tables c) = ingest_jobs (tables b) \<and>
    (\<forall>k'. job_items k' (tables c) = job_items k' (tables b) @ (if k' = k then fresh_items its else []))"
  using assms
proof (induction its arbitrary: n b)
  case Nil
  then show ?case by (simp add: returnE_def fresh_items_def)
next
  case (Cons it its)
  from Cons.prems(1) obtain b' where ins: "insert_item (ids n) now k it b = (Inr (), b')"
    and rest: "forE (enumerate (Suc n) its) (\<lambda>(i, it). mapErr (w it) (insert_item (ids i) now k it)) b' = (Inr (), c)"
    by (auto simp: bindE_eq_Inr mapErr_eq_Inr)
  note step = insert_item_ok [OF ins Cons.prems(2,3)]
  show ?case
    using Cons.IH [OF rest] step Cons.prems(3) by (simp add: fresh_items_def)
qed

lemma pg_create:
  assumes "pg_inv c" "PG_CreateJob newItemID now j its c = (Inr (), c')"
  shows "pg_inv c' \<and> pg_jobs c (jID j) = None \<and> pg_jobs c' = (pg_jobs c)(jID j \<mapsto> view_of j (fresh_items its))"
proof -
  let ?k = "jID j"
  from assms(2) [unfolded PG_CreateJob_def] obtain b b1 b2 where b: "tables b = tables c"
    and job: "insert_job j b = (Inr (), b1)"
    and items: "forE (enumerate 0 its) (\<lambda>(i, it).
         mapErr (Wrap (''ingest: create job: insert item '' @ quoteq (iKey it)))
           (insert_item (newItemID ?k i) now ?k it)) b1 = (Inr (), b2)"
    and com: "commit b2 = (Inr (), c')"
    by (elim with_tx_Inr) (auto simp: bindE_eq_Inr mapErr_eq_Inr)
  from db_call_Inr [OF job [unfolded insert_job_def]]
  have new: "?k \<notin> rjID ` set (ingest_jobs (tables c))"
    and b1: "tables b1 = (tables c)\<lparr>ingest_jobs := ingest_jobs (tables c) @ [job_row j]\<rparr>"
    by (auto simp: b split: if_splits)
  have row: "rjID (job_row j) = ?k" "rjErrorsJSON (job_row j) = Some (jErrors j)" "job_of_row (job_row j) (jErrors j) = j"
    by (simp_all add: job_row_def job_of_row_def)
  have inv: "db_inv (tables c)" using assms(1) by (simp add: pg_inv_def)
  have inv1: "db_inv (tables b1)" using inv new row by (auto simp: db_inv_def b1)
  have c': "tables c' = tables b2" using com by (rule commit_tables)
  have res: "db_inv (tables b2)" "ingest_jobs (tables b2) = ingest_jobs (tables c) @ [job_row j]"
    "job_items k' (tables b2) = job_items k' (tables c) @ (if k' = ?k then fresh_items its else [])" for k'
    using insert_items_ok [OF items inv1] row by (auto simp: b1)
  have none: "job_items ?k (tables c) = []"
    using inv new by (force simp: job_items_def db_inv_def filter_empty_conv)
  have find_new: "find (\<lambda>r. rjID r = ?k) (ingest_jobs (tables c)) = None"
    using new by (force simp: find_None_iff)
  have view: "row_view (tables b2) r = row_view (tables c) r" if "rjID r \<noteq> ?k" for r
    using that by (simp add: row_view_def res(3))
  have "pg_jobs c' k = ((pg_jobs c)(?k \<mapsto> view_of j (fresh_items its))) k" for k
  proof (cases "k = ?k")
    case True
    then show ?thesis
      by (simp add: pg_jobs_def db_jobs_def c' res(2,3) row_view_def row none find_new)
  next
    case False
    with row(1) show ?thesis
      by (cases "find (\<lambda>r. rjID r = k) (ingest_jobs (tables c))")
         (auto simp: pg_jobs_def db_jobs_def c' res(2) dest!: find_SomeD intro!: view)
  qed
  then have "pg_jobs c' = (pg_jobs c)(?k \<mapsto> view_of j (fresh_items its))" by (rule ext)
  moreover have "pg_jobs c ?k = None" by (simp add: pg_jobs_def db_jobs_def find_new)
  ultimately show ?thesis using res(1) by (simp add: pg_inv_def c')
qed

text \<open>On a connection that answers, a job with a new ID and new, distinct item keys and row IDs is stored.\<close>

definition fresh_rows :: "(nat \<Rightarrow> string) \<Rightarrow> nat \<Rightarrow> ingest_db \<Rightarrow> bool" where
  "fresh_rows ids n d \<longleftrightarrow> distinct (map ids [0..<n]) \<and> set (map ids [0..<n]) \<inter> riID ` set (ingest_job_items d) = {}"

lemma insert_items_live:
  assumes "healthy b" "distinct (map iKey its)"
    and "\<forall>it\<in>set its. (k, iKey it) \<notin> (\<lambda>r. (riJob r, riKey r)) ` set (ingest_job_items (tables b))"
    and "distinct (map ids [n..<n + length its])" "set (map ids [n..<n + length its]) \<inter> riID ` set (ingest_job_items (tables b)) = {}"
  shows "\<exists>c. forE (enumerate n its) (\<lambda>(i, it). mapErr (w it) (insert_item (ids i) now k it)) b = (Inr (), c) \<and> healthy c"
  using assms
proof (induction its arbitrary: n b)
  case (Cons it its)
  have up: "[n..<n + length (it # its)] = n # [Suc n..<Suc n + length its]" by (simp add: upt_rec)
  let ?d = "tables b"
  let ?row = "\<lparr>riID = ids n, riJob = k, riKey = iKey it, riStatus = Pending, riError = '''',
         riText = iText it, riMetadata = iMetadata it, riTrackID = '''', riCreatedAt = now\<rparr>"
  let ?b = "b\<lparr>tables := ?d\<lparr>ingest_job_items := ingest_job_items ?d @ [?row]\<rparr>\<rparr>"
  have fr: "ids n \<notin> riID ` set (ingest_job_items ?d)" "(k, iKey it) \<notin> (\<lambda>r. (riJob r, riKey r)) ` set (ingest_job_items ?d)"
    "ids n \<notin> set (map ids [Suc n..<Suc n + length its])" "iKey it \<notin> iKey ` set its"
    using Cons.prems(2-5) unfolding up by auto
  have i: "mapErr (w it) (insert_item (ids n) now k it) b = (Inr (), ?b)"
    using Cons.prems(1) fr(1,2) by (simp add: insert_item_def mapErr_def)
  have "\<exists>c. forE (enumerate (Suc n) its) (\<lambda>(i, it). mapErr (w it) (insert_item (ids i) now k it)) ?b = (Inr (), c) \<and> healthy c"
  proof (rule Cons.IH)
    show "\<forall>x\<in>set its. (k, iKey x) \<notin> (\<lambda>r. (riJob r, riKey r)) ` set (ingest_job_items (tables ?b))"
      using Cons.prems(3) fr(4) by (auto simp: image_iff)
    show "set (map ids [Suc n..<Suc n + length its]) \<inter> riID ` set (ingest_job_items (tables ?b)) = {}"
      using Cons.prems(5) fr(3) unfolding up by auto
    show "distinct (map ids [Suc n..<Suc n + length its])" using Cons.prems(4) unfolding up by simp
  qed (use Cons.prems(1,2) in simp_all)
  then show ?case using i by (simp add: bindE_def)
qed (simp add: returnE_def)

lemma pg_create_live:
  assumes "healthy c" "pg_inv c" "pg_jobs c (jID j) = None" "distinct (map iKey its)" "fresh_rows (newItemID (jID j)) (length its) (tables c)"
  shows "\<exists>c'. PG_CreateJob newItemID now j its c = (Inr (), c')"
proof -
  let ?b = "c\<lparr>tables := (tables c)\<lparr>ingest_jobs := ingest_jobs (tables c) @ [job_row j]\<rparr>\<rparr>"
  have new: "jID j \<notin> rjID ` set (ingest_jobs (tables c))"
    using assms(3) by (auto simp: pg_jobs_def db_jobs_def find_None_iff split: option.splits)
  then have "\<forall>it\<in>set its. (jID j, iKey it) \<notin> (\<lambda>r. (riJob r, riKey r)) ` set (ingest_job_items (tables ?b))"
    using assms(2) by (auto simp: pg_inv_def db_inv_def)
  with insert_items_live [of ?b its "jID j" "newItemID (jID j)" 0 "\<lambda>it. Wrap (''ingest: create job: insert item '' @ quoteq (iKey it))" now]
  obtain c2 where c2: "forE (enumerate 0 its) (\<lambda>(i, it). mapErr (Wrap (''ingest: create job: insert item '' @ quoteq (iKey it)))
      (insert_item (newItemID (jID j) i) now (jID j) it)) ?b = (Inr (), c2)" "healthy c2"
    using assms by (auto simp: fresh_rows_def)
  have "insert_job j c = (Inr (), ?b)" using new assms(1) by (simp add: insert_job_def)
  then show ?thesis using c2 assms(1) by (simp add: PG_CreateJob_def with_tx_healthy bindE_def mapErr_def)
qed

section \<open>The other operations\<close>

lemma query_row_Inl: "query_row q c = (Inl e, c') \<Longrightarrow> tables c' = tables c"
  unfolding query_row_def by (rule db_call_Inl)

lemma query_row_Inr: "query_row q c = (Inr x, c') \<Longrightarrow> q (tables c) = Some x \<and> tables c' = tables c"
  unfolding query_row_def by (drule db_call_Inr) (auto split: option.splits)

lemma update_jobs_Inr:
  "update_jobs p f c = (Inr n, c') \<Longrightarrow> n = count_if p (ingest_jobs (tables c)) \<and>
     tables c' = (tables c)\<lparr>ingest_jobs := tupdate p f (ingest_jobs (tables c))\<rparr>"
  unfolding update_jobs_def by (drule db_exec_Inr) simp

lemma update_items_Inr:
  "update_items p f c = (Inr n, c') \<Longrightarrow> n = count_if p (ingest_job_items (tables c)) \<and>
     tables c' = (tables c)\<lparr>ingest_job_items := tupdate p f (ingest_job_items (tables c))\<rparr>"
  unfolding update_items_def by (drule db_exec_Inr) simp

lemma update_Inl:
  "update_jobs p f c = (Inl e, c') \<Longrightarrow> tables c' = tables c"
  "update_items p' f' c = (Inl e, c') \<Longrightarrow> tables c' = tables c"
  unfolding update_jobs_def update_items_def by (rule db_exec_Inl, assumption)+

lemma pg_get:
  assumes "pg_inv c" "PG_GetJob k c = (Inr j, c')"
  shows "pg_inv c' \<and> pg_jobs c' = pg_jobs c \<and> jID j = k \<and> (\<exists>its. pg_jobs c k = Some (view_of j its))"
proof -
  from assms(2) obtain b r errs where q: "query_row (\<lambda>d. find (\<lambda>r. rjID r = k) (ingest_jobs d)) c = (Inr r, b)"
    and r: "rjErrorsJSON r = Some errs" "j = job_of_row r errs" and c': "c' = b"
    by (auto simp: PG_GetJob_def bindE_eq_Inr mapErr_eq_Inr returnE_def failE_def split: option.splits)
  have row: "find (\<lambda>r. rjID r = k) (ingest_jobs (tables c)) = Some r" "tables b = tables c"
    using query_row_Inr [OF q] by auto
  have "pg_jobs c k = Some (view_of j (job_items k (tables c)))"
    using row(1) r find_SomeD [OF row(1)] by (auto simp: pg_jobs_def db_jobs_def row_view_def)
  moreover have "jID j = k" using find_SomeD [OF row(1)] by (simp add: r job_of_row_def)
  ultimately show ?thesis using db_inv_tables [OF assms(1)] row(2) c' by blast
qed

lemma pg_update:
  assumes "pg_inv c" "PG_UpdateJob now j c = (Inr (), c')"
  shows "pg_inv c' \<and> (\<exists>v. pg_jobs c (jID j) = Some v \<and> pg_jobs c' = (pg_jobs c)(jID j \<mapsto> view_of j (vItems v)))"
proof -
  let ?f = "\<lambda>r. r\<lparr>rjStatus := jStatus j, rjTotal := jTotal j, rjDone := jDone j, rjFailed := jFailed j,
                rjErrorsJSON := Some (jErrors j), rjUpdatedAt := now\<rparr>"
  let ?g = "\<lambda>v. view_of j (vItems v)"
  from assms(2) obtain n where n: "n \<noteq> 0" and u: "update_jobs (\<lambda>r. rjID r = jID j) ?f c = (Inr n, c')"
    by (auto simp: PG_UpdateJob_def bindE_eq_Inr mapErr_eq_Inr returnE_def failE_def split: if_splits)
  note u = update_jobs_Inr [OF u]
  have jobs: "pg_jobs c' = on_job (pg_jobs c) (jID j) ?g"
    unfolding pg_jobs_def using u
    by (simp add: db_jobs_update_job [where f = ?f and g = ?g] row_view_def job_of_row_def view_of_def)
  have "find (\<lambda>r. rjID r = jID j) (ingest_jobs (tables c)) \<noteq> None"
    using u n by (auto simp: count_if_zero find_None_iff)
  then obtain v where "pg_jobs c (jID j) = Some v" by (auto simp: pg_jobs_def db_jobs_def)
  moreover have "pg_inv c'"
    using assms(1) u by (simp add: pg_inv_def db_inv_update_jobs)
  ultimately show ?thesis using jobs by (simp add: on_job_def)
qed

lemma claimable_hd:
  assumes "claimable k d = r # rs"
  shows "r \<in> set (ingest_job_items d)" "riJob r = k" "riStatus r = Pending"
proof -
  have "r \<in> set (claimable k d)" using assms by simp
  then show "r \<in> set (ingest_job_items d)" "riJob r = k" "riStatus r = Pending"
    by (auto simp: claimable_def)
qed

lemma db_claim:
  assumes inv: "db_inv d" and r: "r \<in> set (ingest_job_items d)" "riJob r = k" "riStatus r = Pending"
  defines "d' \<equiv> d\<lparr>ingest_job_items := tupdate (\<lambda>x. riID x = riID r) (\<lambda>x. x\<lparr>riStatus := Running\<rparr>) (ingest_job_items d)\<rparr>"
  shows "\<exists>v v'. db_jobs d k = Some v \<and> claims (item_of_row r) v v' \<and> db_jobs d' = (db_jobs d)(k \<mapsto> v')"
proof -
  obtain as bs where split: "ingest_job_items d = as @ r # bs" using r(1) by (meson split_list)
  have ids: "riID x \<noteq> riID r" if "x \<in> set as \<union> set bs" for x
  proof -
    have "distinct (map riID as @ riID r # map riID bs)" using inv by (simp add: db_inv_def split)
    then have "riID r \<notin> riID ` (set as \<union> set bs)" by auto
    with that show ?thesis by (metis imageI)
  qed
  have other: "tupdate (\<lambda>x. riID x = riID r) (\<lambda>x. x\<lparr>riStatus := Running\<rparr>) xs = xs" if "set xs \<subseteq> set as \<union> set bs" for xs
    using ids that by (auto simp: tupdate_def intro!: map_idI)
  have items': "ingest_job_items d' = as @ r\<lparr>riStatus := Running\<rparr> # bs"
    using other [of as] other [of bs] by (simp add: d'_def split tupdate_def)
  obtain jr where jr: "find (\<lambda>x. rjID x = k) (ingest_jobs d) = Some jr"
  proof (cases "find (\<lambda>x. rjID x = k) (ingest_jobs d)")
    case None
    have "k \<in> rjID ` set (ingest_jobs d)" using inv r unfolding db_inv_def by blast
    with None show thesis by (auto simp: find_None_iff)
  qed simp
  let ?v = "row_view d jr"
  let ?xs = "map row_item (filter (\<lambda>x. riJob x = k) as)" and ?ys = "map row_item (filter (\<lambda>x. riJob x = k) bs)"
  have v: "vItems ?v = ?xs @ (item_of_row r, Pending) # ?ys"
    using find_SomeD [OF jr] r(2,3) by (simp add: row_view_def job_items_def split row_item_def)
  have "job_items k' d' = (if k' = k then ?xs @ (item_of_row r, Running) # ?ys else job_items k' d)" for k'
    using r(2) by (auto simp: job_items_def items' split row_item_def item_of_row_def)
  then have "db_jobs d' = (\<lambda>k'. map_option (\<lambda>v. v\<lparr>vItems := (if k' = k then ?xs @ (item_of_row r, Running) # ?ys else vItems v)\<rparr>) (db_jobs d k'))"
    by (intro db_jobs_update_items) (auto simp: d'_def)
  also have "\<dots> = (db_jobs d)(k \<mapsto> ?v\<lparr>vItems := ?xs @ (item_of_row r, Running) # ?ys\<rparr>)"
    using jr by (auto simp: db_jobs_def fun_eq_iff option.map_ident_strong)
  finally show ?thesis
    using v jr by (auto simp: db_jobs_def claims_def)
qed

lemma pg_claim:
  assumes "pg_inv c" "PG_ClaimNextItem k c = (Inr (Some it), c')"
  shows "pg_inv c' \<and> (\<exists>v v'. pg_jobs c k = Some v \<and> claims it v v' \<and> pg_jobs c' = (pg_jobs c)(k \<mapsto> v'))"
proof -
  from assms(2) [unfolded PG_ClaimNextItem_def] obtain b1 b2 n r rs where
    q: "claimable k (tables c) = r # rs" "tables b1 = tables c" "it = item_of_row r"
    and u: "update_items (\<lambda>x. riID x = riID r) (\<lambda>x. x\<lparr>riStatus := Running\<rparr>) b1 = (Inr n, b2)"
    and com: "commit b2 = (Inr (), c')"
    by (elim with_tx_Inr)
       (auto simp: bindE_eq_Inr mapErr_eq_Inr returnE_def split: option.splits list.splits dest!: db_query_Inr)
  have c': "tables c' = (tables c)\<lparr>ingest_job_items :=
      tupdate (\<lambda>x. riID x = riID r) (\<lambda>x. x\<lparr>riStatus := Running\<rparr>) (ingest_job_items (tables c))\<rparr>"
    using update_items_Inr [OF u] commit_tables [OF com] q(2) by simp
  have inv: "db_inv (tables c)" using assms(1) by (simp add: pg_inv_def)
  have "pg_inv c'" by (simp add: pg_inv_def c' db_inv_update_items inv)
  then show ?thesis
    using db_claim [OF inv] claimable_hd [OF q(1)] by (simp add: pg_jobs_def c' q(3))
qed

lemma pg_claim_none:
  assumes "PG_ClaimNextItem k c = (Inr None, c')"
  shows "tables c' = tables c"
proof -
  from assms [unfolded PG_ClaimNextItem_def] obtain b1 where "tables b1 = tables c"
    "commit b1 = (Inr (), c')"
    by (elim with_tx_Inr)
       (auto simp: bindE_eq_Inr mapErr_eq_Inr returnE_def split: option.splits list.splits dest!: db_query_Inr)
  then show ?thesis by (auto dest: commit_tables)
qed

lemma pg_key_update:
  assumes inv: "pg_inv c" and u: "update_items (job_key k key) f c = (Inr n, c')"
    and f: "\<And>r. riID (f r) = riID r" "\<And>r. riJob (f r) = riJob r" "\<And>r. riKey (f r) = riKey r"
    and g: "\<And>r. row_item (f r) = g (row_item r)"
  shows "pg_inv c' \<and> pg_jobs c' = on_job (pg_jobs c) k
    (\<lambda>v. v\<lparr>vItems := update_first (\<lambda>p. item_key p = key) g (vItems v)\<rparr>)"
proof -
  have db: "db_inv (tables c)" using inv by (simp add: pg_inv_def)
  have c': "tables c' = (tables c)\<lparr>ingest_job_items := tupdate (job_key k key) f (ingest_job_items (tables c))\<rparr>"
    using update_items_Inr [OF u] by simp
  let ?h = "\<lambda>k' its. if k' = k then update_first (\<lambda>p. item_key p = key) g its else its"
  have "db_jobs (tables c') = (\<lambda>k'. map_option (\<lambda>v. v\<lparr>vItems := ?h k' (vItems v)\<rparr>) (db_jobs (tables c) k'))"
    by (rule db_jobs_update_items) (simp_all add: c' job_items_key_update [OF db f(2) g])
  also have "\<dots> = on_job (db_jobs (tables c)) k (\<lambda>v. v\<lparr>vItems := update_first (\<lambda>p. item_key p = key) g (vItems v)\<rparr>)"
    by (rule map_option_on_job) simp_all
  finally show ?thesis by (simp add: pg_jobs_def pg_inv_def c' db_inv_update_items [OF db f])
qed

lemma pg_track:
  assumes "pg_inv c" "PG_SetItemTrackID k key t c = (Inr (), c')"
  shows "pg_inv c' \<and> pg_jobs c' = on_job (pg_jobs c) k (set_track key t)"
proof -
  from assms(2) obtain n where "update_items (job_key k key) (\<lambda>r. r\<lparr>riTrackID := t\<rparr>) c = (Inr n, c')"
    by (auto simp: PG_SetItemTrackID_def bindE_eq_Inr mapErr_eq_Inr returnE_def)
  from pg_key_update [OF assms(1) this, where g = "\<lambda>(it, st). (it\<lparr>iTrackID := t\<rparr>, st)"]
  show ?thesis by (simp add: set_track_def [abs_def] row_item_def item_of_row_def)
qed

lemma finish_row_fields [simp]:
  "riID (finish_row e r) = riID r" "riJob (finish_row e r) = riJob r" "riKey (finish_row e r) = riKey r"
  "row_item (finish_row e r) = (fst (row_item r), outcome e)"
  by (simp_all add: finish_row_def row_item_def item_of_row_def outcome_def split: option.splits)

lemma pg_markdone:
  assumes "pg_inv c" "PG_MarkItemDone k key r c = (Inr (), c')"
  shows "pg_inv c' \<and> pg_jobs c' = on_job (pg_jobs c) k (set_status key (outcome r))"
proof -
  from assms(2) obtain n where "update_items (job_key k key) (finish_row r) c = (Inr n, c')"
    by (auto simp: PG_MarkItemDone_def bindE_eq_Inr mapErr_eq_Inr returnE_def)
  from pg_key_update [OF assms(1) this, where g = "\<lambda>(it, _). (it, outcome r)"]
  show ?thesis by (simp add: set_status_def [abs_def] case_prod_beta)
qed

subsection \<open>Progress\<close>

lemma bump_done_jobs:
  assumes "pg_inv c" "bump_done now k c = (Inr n, c')"
  shows "pg_inv c' \<and> pg_jobs c' = on_job (pg_jobs c) k (bump None) \<and> (n \<noteq> 0 \<longleftrightarrow> pg_jobs c k \<noteq> None)"
proof -
  let ?f = "\<lambda>r. r\<lparr>rjDone := rjDone r + 1, rjUpdatedAt := now\<rparr>"
  note u = update_jobs_Inr [OF assms(2) [unfolded bump_done_def]]
  have "pg_jobs c' = on_job (pg_jobs c) k (bump None)"
    unfolding pg_jobs_def using u
    by (simp add: db_jobs_update_job [where f = ?f and g = "bump None"] row_view_def job_of_row_def view_of_def bump_def)
  moreover have "n \<noteq> 0 \<longleftrightarrow> pg_jobs c k \<noteq> None"
    using u by (auto simp: pg_jobs_def db_jobs_def count_if_zero find_None_iff)
  ultimately show ?thesis using assms(1) u by (simp add: pg_inv_def db_inv_update_jobs)
qed

lemma bump_failed_jobs:
  assumes inv: "pg_inv c" and op: "bump_failed what sc up now k e c = (Inr (), c')"
  shows "pg_inv c' \<and> pg_jobs c' = on_job (pg_jobs c) k (bump (Some e)) \<and> pg_jobs c k \<noteq> None"
proof -
  have db: "db_inv (tables c)" using inv by (simp add: pg_inv_def)
  from op obtain b b' n r where r: "find (\<lambda>r. rjID r = k) (ingest_jobs (tables c)) = Some r" and b: "tables b = tables c"
    and u: "update_jobs (\<lambda>r. rjID r = k) (\<lambda>x. x\<lparr>rjFailed := rjFailed x + 1,
        rjErrorsJSON := Some (add_error e (case rjErrorsJSON r of None \<Rightarrow> [] | Some es \<Rightarrow> es)), rjUpdatedAt := now\<rparr>) b = (Inr n, b')"
    and com: "commit b' = (Inr (), c')"
    unfolding bump_failed_def add_error_def
    by (auto simp: bindE_eq_Inr mapErr_eq_Inr Let_def dest!: query_row_Inr)
  let ?f = "\<lambda>x. x\<lparr>rjFailed := rjFailed x + 1,
        rjErrorsJSON := Some (add_error e (case rjErrorsJSON r of None \<Rightarrow> [] | Some es \<Rightarrow> es)), rjUpdatedAt := now\<rparr>"
  have c': "tables c' = (tables c)\<lparr>ingest_jobs := tupdate (\<lambda>r. rjID r = k) ?f (ingest_jobs (tables c))\<rparr>"
    using update_jobs_Inr [OF u] commit_tables [OF com] b by simp
  have same: "x = r" if "x \<in> set (ingest_jobs (tables c))" "rjID x = k" for x
    using db find_SomeD [OF r] that unfolding db_inv_def by (metis (no_types, lifting) distinct_map inj_onD)
  have "db_jobs (tables c') = on_job (db_jobs (tables c)) k (bump (Some e))"
    unfolding c'
    by (rule db_jobs_update_job) (auto dest!: same simp: row_view_def job_of_row_def view_of_def bump_def)
  moreover have "pg_jobs c k \<noteq> None" using r by (simp add: pg_jobs_def db_jobs_def)
  ultimately show ?thesis using db by (simp add: pg_jobs_def pg_inv_def c' db_inv_update_jobs)
qed

lemma pg_incr:
  assumes "pg_inv c" "PG_IncrementJobProgress now k ie c = (Inr (), c')"
  shows "pg_inv c' \<and> pg_jobs c' = on_job (pg_jobs c) k (bump ie) \<and> pg_jobs c k \<noteq> None"
proof (cases ie)
  case None
  with assms(2) obtain n where "bump_done now k c = (Inr n, c')" "n \<noteq> 0"
    by (auto simp: PG_IncrementJobProgress_def bindE_eq_Inr mapErr_eq_Inr returnE_def failE_def split: if_splits)
  with None show ?thesis using bump_done_jobs [OF assms(1)] by blast
next
  case (Some e)
  with assms(2) obtain b where b: "tables b = tables c"
    and f: "bump_failed (''ingest: increment failed '' @ quoteq k) ''scan'' ''update'' now k e b = (Inr (), c')"
    by (auto simp: PG_IncrementJobProgress_def elim: with_tx_Inr)
  have "pg_inv b" "pg_jobs b = pg_jobs c" using db_inv_tables [OF assms(1) b] by auto
  with Some show ?thesis using bump_failed_jobs [OF _ f] by simp
qed

lemma view_items: "pg_jobs c k = Some v \<Longrightarrow> vItems v = job_items k (tables c)"
  by (auto simp: pg_jobs_def db_jobs_def row_view_def dest!: find_SomeD)

lemma find_job_items:
  "find (\<lambda>p. item_key p = key) (job_items k d) =
   map_option row_item (find (\<lambda>r. riKey r = key) (filter (\<lambda>r. riJob r = k) (ingest_job_items d)))"
  unfolding job_items_def by (rule find_map_hom) simp

lemma mark_of_row:
  assumes "pg_jobs c k = Some v"
  shows "mark key e v = (case find (\<lambda>r. riKey r = key) (filter (\<lambda>r. riJob r = k) (ingest_job_items (tables c))) of
     None \<Rightarrow> v
   | Some r \<Rightarrow> if item_terminal (riStatus r) then v else bump (item_error key e) (set_status key (outcome e) v))"
  by (simp add: mark_def view_items [OF assms] find_job_items row_item_def split: option.split)

lemma guarded_miss:
  assumes "\<And>r. r \<in> set (ingest_job_items (tables c)) \<Longrightarrow> job_key k key r \<Longrightarrow> riStatus r \<in> {Done, Failed}"
  shows "on_job (pg_jobs c) k (mark key e) = pg_jobs c"
proof -
  have "item_terminal (riStatus r)" if "find (\<lambda>r. riKey r = key) (filter (\<lambda>r. riJob r = k) (ingest_job_items (tables c))) = Some r" for r
    using assms [of r] find_SomeD [OF that] by (auto simp: job_key_def item_terminal_def)
  then have "mark key e v = v" if "pg_jobs c k = Some v" for v
    unfolding mark_of_row [OF that] by (simp split: option.split)
  then show ?thesis by (auto simp: on_job_def fun_upd_idem split: option.splits)
qed

lemma row_of_key:
  assumes "db_inv d" "r \<in> set (ingest_job_items d)" "job_key k key r"
  shows "x \<in> set (ingest_job_items d) \<Longrightarrow> job_key k key x \<Longrightarrow> x = r"
    and "find (\<lambda>r. riKey r = key) (filter (\<lambda>r. riJob r = k) (ingest_job_items d)) = Some r"
    and "\<exists>v. db_jobs d k = Some v"
proof -
  show uniq: "x = r" if "x \<in> set (ingest_job_items d)" "job_key k key x" for x
    using assms that unfolding db_inv_def job_key_def distinct_map inj_on_def by (metis (mono_tags, lifting))
  show "find (\<lambda>r. riKey r = key) (filter (\<lambda>r. riJob r = k) (ingest_job_items d)) = Some r"
  proof (cases "find (\<lambda>r. riKey r = key) (filter (\<lambda>r. riJob r = k) (ingest_job_items d))")
    case None
    with assms(2,3) show ?thesis by (auto simp: find_None_iff job_key_def)
  next
    case (Some x)
    with uniq find_SomeD [OF Some] show ?thesis by (auto simp: job_key_def)
  qed
  have "k \<in> rjID ` set (ingest_jobs d)" using assms unfolding db_inv_def job_key_def by blast
  then show "\<exists>v. db_jobs d k = Some v"
    by (cases "find (\<lambda>r. rjID r = k) (ingest_jobs d)") (force simp: find_None_iff, simp add: db_jobs_def)
qed

lemma guarded_hit:
  assumes db: "db_inv (tables c)" and r: "r \<in> set (ingest_job_items (tables c))" "job_key k key r" "riStatus r \<notin> {Done, Failed}"
    and c': "tables c' = (tables c)\<lparr>ingest_job_items := tupdate (\<lambda>r. job_key k key r \<and> riStatus r \<notin> {Done, Failed}) (finish_row e)
      (ingest_job_items (tables c))\<rparr>"
  shows "pg_inv c' \<and> pg_jobs c k \<noteq> None \<and> on_job (pg_jobs c') k (bump (item_error key e)) = on_job (pg_jobs c) k (mark key e)"
proof -
  note row = row_of_key [OF db r(1,2)]
  have same: "tupdate (\<lambda>r. job_key k key r \<and> riStatus r \<notin> {Done, Failed}) (finish_row e) (ingest_job_items (tables c)) =
      tupdate (job_key k key) (finish_row e) (ingest_job_items (tables c))"
    unfolding tupdate_def by (rule map_cong) (use row(1) r(3) in auto)
  note c' = c' [unfolded same]
  let ?h = "\<lambda>k' its. if k' = k then update_first (\<lambda>p. item_key p = key) (\<lambda>(it, _). (it, outcome e)) its else its"
  have "db_jobs (tables c') = (\<lambda>k'. map_option (\<lambda>v. v\<lparr>vItems := ?h k' (vItems v)\<rparr>) (db_jobs (tables c) k'))"
    by (intro db_jobs_update_items)
      (simp_all add: c' job_items_key_update [OF db, where g = "\<lambda>(it, _). (it, outcome e)"] split_beta')
  also have "\<dots> = on_job (db_jobs (tables c)) k (set_status key (outcome e))"
    by (rule map_option_on_job) (simp_all add: set_status_def)
  finally have jobs: "pg_jobs c' = on_job (pg_jobs c) k (set_status key (outcome e))"
    by (simp add: pg_jobs_def)
  obtain v where v: "pg_jobs c k = Some v" using row(3) by (auto simp: pg_jobs_def)
  have "mark key e v = bump (item_error key e) (set_status key (outcome e) v)"
    using r(3) by (simp add: mark_of_row [OF v] row(2) item_terminal_def)
  moreover have "pg_inv c'" using db by (simp add: pg_inv_def c' db_inv_update_items)
  ultimately show ?thesis by (simp add: jobs v on_job_def)
qed

text \<open>
  The guarded item update of \<^verbatim>\<open>MarkItemDoneAndProgress\<close>: it hits the item with the key exactly when
  that item is not terminal yet.
\<close>

lemma guarded_update:
  assumes inv: "pg_inv c"
    and u: "update_items (\<lambda>r. job_key k key r \<and> riStatus r \<notin> {Done, Failed}) (finish_row e) c = (Inr n, c')"
  shows "n = 0 \<Longrightarrow> tables c' = tables c \<and> on_job (pg_jobs c) k (mark key e) = pg_jobs c"
    and "n \<noteq> 0 \<Longrightarrow> pg_inv c' \<and> pg_jobs c k \<noteq> None \<and>
      on_job (pg_jobs c') k (bump (item_error key e)) = on_job (pg_jobs c) k (mark key e)"
proof -
  note u = update_items_Inr [OF u]
  have db: "db_inv (tables c)" using inv by (simp add: pg_inv_def)
  show "tables c' = tables c \<and> on_job (pg_jobs c) k (mark key e) = pg_jobs c" if "n = 0"
  proof -
    have "on_job (pg_jobs c) k (mark key e) = pg_jobs c"
      by (rule guarded_miss) (use u that in \<open>auto simp: count_if_zero\<close>)
    then show ?thesis using u that by (simp add: tupdate_none)
  qed
  show "pg_inv c' \<and> pg_jobs c k \<noteq> None \<and>
      on_job (pg_jobs c') k (bump (item_error key e)) = on_job (pg_jobs c) k (mark key e)" if hits: "n \<noteq> 0"
  proof -
    obtain r where "r \<in> set (ingest_job_items (tables c))" "job_key k key r" "riStatus r \<notin> {Done, Failed}"
      using hits unfolding u [THEN conjunct1] count_if_zero by blast
    with guarded_hit [OF db] u show ?thesis by blast
  qed
qed

lemma pg_mark:
  assumes inv: "pg_inv c" and op: "PG_MarkItemDoneAndProgress now k key r c = (Inr (), c')"
  shows "pg_inv c' \<and> pg_jobs c' = on_job (pg_jobs c) k (mark key r)"
proof -
  let ?what = "''ingest: mark done and progress '' @ quoteq k"
  from op [unfolded PG_MarkItemDoneAndProgress_def Let_def] obtain b b1 n where b: "tables b = tables c"
    and u: "update_items (\<lambda>x. job_key k key x \<and> riStatus x \<notin> {Done, Failed}) (finish_row r) b = (Inr n, b1)"
    and rest: "(if n = 0 then commit else case r of
        None \<Rightarrow> bindE (mapErr (Wrap (?what @ '': bump done'')) (bump_done now k)) (\<lambda>_. commit)
      | Some e \<Rightarrow> bump_failed ?what ''scan errors_json'' ''bump failed'' now k \<lparr>ieKey = key, ieError = Error e\<rparr>) b1 = (Inr (), c')"
    by (elim with_tx_Inr) (auto simp: bindE_eq_Inr mapErr_eq_Inr simp del: append_assoc)
  have b': "pg_inv b" "pg_jobs b = pg_jobs c" using db_inv_tables [OF inv b] by auto
  show ?thesis
  proof (cases "n = 0")
    case True
    with rest guarded_update(1) [OF b'(1) u True] b have "tables c' = tables c" by (auto dest: commit_tables)
    then show ?thesis using guarded_update(1) [OF b'(1) u True] db_inv_tables [OF inv] b' by metis
  next
    case False
    note g = guarded_update(2) [OF b'(1) u False]
    have "pg_inv c' \<and> pg_jobs c' = on_job (pg_jobs b1) k (bump (item_error key r))"
    proof (cases r)
      case None
      with rest False obtain b2 m where d: "bump_done now k b1 = (Inr m, b2)" and com: "commit b2 = (Inr (), c')"
        by (auto simp: bindE_eq_Inr mapErr_eq_Inr)
      have "pg_inv b2 \<and> pg_jobs b2 = on_job (pg_jobs b1) k (bump None)"
        using bump_done_jobs [OF _ d] g by blast
      with None show ?thesis using db_inv_tables [OF _ commit_tables [OF com]] by (simp add: item_error_def)
    next
      case (Some e)
      with rest False have "bump_failed ?what ''scan errors_json'' ''bump failed'' now k
          \<lparr>ieKey = key, ieError = Error e\<rparr> b1 = (Inr (), c')" by simp
      from bump_failed_jobs [OF _ this] g Some show ?thesis by (simp add: item_error_def)
    qed
    with g b' show ?thesis by simp
  qed
qed

subsection \<open>Sweeps\<close>

lemma pg_list:
  assumes "pg_inv c" "PG_ListUnfinishedJobs c = (Inr ks, c')"
  shows "pg_inv c' \<and> pg_jobs c' = pg_jobs c \<and> distinct ks \<and>
    set ks = {k. \<exists>v. pg_jobs c k = Some v \<and> Unfinished (vStatus v)}"
proof -
  let ?open = "filter (\<lambda>r. rjStatus r \<in> {JobStatusQueued, JobStatusRunning}) (ingest_jobs (tables c))"
  have db: "db_inv (tables c)" using assms(1) by (simp add: pg_inv_def)
  from assms(2) have ks: "ks = map rjID (sort_key rjCreatedAt ?open)" and c': "tables c' = tables c"
    by (auto simp: PG_ListUnfinishedJobs_def mapErr_eq_Inr dest!: db_query_Inr)
  have lookup: "find (\<lambda>r. rjID r = k) (ingest_jobs (tables c)) = Some r \<longleftrightarrow>
      r \<in> set (ingest_jobs (tables c)) \<and> rjID r = k" for k r
    using db unfolding db_inv_def by (simp add: find_distinct_key)
  have "distinct (map rjID ?open)" using db by (simp add: db_inv_def distinct_map_filter)
  then have "distinct ks" by (simp add: ks distinct_map)
  moreover have "set ks = {k. \<exists>v. pg_jobs c k = Some v \<and> Unfinished (vStatus v)}"
    by (auto simp: ks pg_jobs_def db_jobs_def lookup Unfinished_def row_view_def job_of_row_def)
  ultimately show ?thesis using db_inv_tables [OF assms(1) c'] by blast
qed

lemma pg_reset:
  assumes "pg_inv c" "PG_ResetRunningItems c = (Inr n, c')"
  shows "pg_inv c' \<and> pg_jobs c' = (\<lambda>k. map_option reset_view (pg_jobs c k))"
proof -
  let ?d = "tables c"
  let ?open = "set (map rjID (filter (\<lambda>r. rjStatus r \<in> {JobStatusQueued, JobStatusRunning}) (ingest_jobs ?d)))"
  let ?p = "\<lambda>r. riStatus r = Running \<and> riJob r \<in> ?open"
  have db: "db_inv ?d" using assms(1) by (simp add: pg_inv_def)
  from assms(2) have c': "tables c' = ?d\<lparr>ingest_job_items := tupdate ?p (\<lambda>r. r\<lparr>riStatus := Pending\<rparr>) (ingest_job_items ?d)\<rparr>"
    by (auto simp: PG_ResetRunningItems_def mapErr_eq_Inr Let_def dest!: db_exec_Inr)
  have rows: "job_items k (tables c') = (if k \<in> ?open then map reset_item (job_items k ?d) else job_items k ?d)" for k
  proof -
    have "filter (\<lambda>r. riJob r = k) (tupdate ?p (\<lambda>r. r\<lparr>riStatus := Pending\<rparr>) (ingest_job_items ?d)) =
        tupdate ?p (\<lambda>r. r\<lparr>riStatus := Pending\<rparr>) (filter (\<lambda>r. riJob r = k) (ingest_job_items ?d))"
      by (rule filter_tupdate_frame) simp
    then show ?thesis
      by (auto simp: job_items_def c' tupdate_def reset_item_def row_item_def item_of_row_def)
  qed
  have "pg_jobs c' = (\<lambda>k. map_option (\<lambda>v. v\<lparr>vItems := (if k \<in> ?open then map reset_item (vItems v) else vItems v)\<rparr>) (pg_jobs c k))"
    unfolding pg_jobs_def by (rule db_jobs_update_items) (simp_all add: rows, simp add: c')
  also have "\<dots> = (\<lambda>k. map_option reset_view (pg_jobs c k))"
  proof (rule ext)
    fix k
    have "k \<in> ?open \<longleftrightarrow> Unfinished (rjStatus r)" if "find (\<lambda>r. rjID r = k) (ingest_jobs ?d) = Some r" for r
      using db that unfolding db_inv_def by (auto simp: find_distinct_key Unfinished_def dest: distinct_key_eq)
    then show "map_option (\<lambda>v. v\<lparr>vItems := (if k \<in> ?open then map reset_item (vItems v) else vItems v)\<rparr>) (pg_jobs c k) =
        map_option reset_view (pg_jobs c k)"
      by (cases "find (\<lambda>r. rjID r = k) (ingest_jobs ?d)")
         (simp_all add: pg_jobs_def db_jobs_def reset_view_def row_view_def job_of_row_def)
  qed
  finally show ?thesis by (simp add: pg_inv_def c' db_inv_update_items db)
qed

section \<open>The store keeps the contract\<close>

text \<open>Whatever call of an operation fails, the tables are those of before.\<close>

lemma pg_err_same:
  "PG_CreateJob newItemID now j its c = (Inl e, c') \<Longrightarrow> tables c' = tables c"
  "PG_GetJob k c = (Inl e, c') \<Longrightarrow> tables c' = tables c"
  "PG_UpdateJob now j c = (Inl e, c') \<Longrightarrow> tables c' = tables c"
  "PG_ClaimNextItem k c = (Inl e, c') \<Longrightarrow> tables c' = tables c"
  "PG_SetItemTrackID k key t c = (Inl e, c') \<Longrightarrow> tables c' = tables c"
  "PG_MarkItemDone k key r c = (Inl e, c') \<Longrightarrow> tables c' = tables c"
  "PG_IncrementJobProgress now k ie c = (Inl e, c') \<Longrightarrow> tables c' = tables c"
  "PG_MarkItemDoneAndProgress now k key r c = (Inl e, c') \<Longrightarrow> tables c' = tables c"
  "PG_ListUnfinishedJobs c = (Inl e, c') \<Longrightarrow> tables c' = tables c"
  "PG_ResetRunningItems c = (Inl e, c') \<Longrightarrow> tables c' = tables c"
proof -
  show "PG_CreateJob newItemID now j its c = (Inl e, c') \<Longrightarrow> tables c' = tables c"
    unfolding PG_CreateJob_def by (rule with_tx_Inl)
  show "PG_GetJob k c = (Inl e, c') \<Longrightarrow> tables c' = tables c"
    by (auto simp: PG_GetJob_def bindE_eq_Inl mapErr_eq_Inl mapErr_eq_Inr failE_def returnE_def
        split: option.splits dest!: query_row_Inl query_row_Inr)
  show "PG_UpdateJob now j c = (Inl e, c') \<Longrightarrow> tables c' = tables c"
    by (auto simp: PG_UpdateJob_def bindE_eq_Inl mapErr_eq_Inl mapErr_eq_Inr failE_def returnE_def tupdate_none
        split: if_splits dest!: update_Inl update_jobs_Inr)
  show "PG_ClaimNextItem k c = (Inl e, c') \<Longrightarrow> tables c' = tables c"
    unfolding PG_ClaimNextItem_def by (rule with_tx_Inl)
  show "PG_SetItemTrackID k key t c = (Inl e, c') \<Longrightarrow> tables c' = tables c"
    by (auto simp: PG_SetItemTrackID_def bindE_eq_Inl mapErr_eq_Inl returnE_def dest!: update_Inl)
  show "PG_MarkItemDone k key r c = (Inl e, c') \<Longrightarrow> tables c' = tables c"
    by (auto simp: PG_MarkItemDone_def bindE_eq_Inl mapErr_eq_Inl returnE_def dest!: update_Inl)
  show "PG_IncrementJobProgress now k ie c = (Inl e, c') \<Longrightarrow> tables c' = tables c"
    by (auto simp: PG_IncrementJobProgress_def bump_done_def bindE_eq_Inl mapErr_eq_Inl mapErr_eq_Inr failE_def
        returnE_def tupdate_none split: option.splits if_splits dest!: update_Inl update_jobs_Inr with_tx_Inl)
  show "PG_MarkItemDoneAndProgress now k key r c = (Inl e, c') \<Longrightarrow> tables c' = tables c"
    unfolding PG_MarkItemDoneAndProgress_def Let_def by (rule with_tx_Inl)
  show "PG_ListUnfinishedJobs c = (Inl e, c') \<Longrightarrow> tables c' = tables c"
    by (auto simp: PG_ListUnfinishedJobs_def mapErr_eq_Inl dest!: db_query_Inl)
  show "PG_ResetRunningItems c = (Inl e, c') \<Longrightarrow> tables c' = tables c"
    by (auto simp: PG_ResetRunningItems_def mapErr_eq_Inl dest!: db_exec_Inl)
qed

interpretation pg: job_store "PGStore_ops newItemID" pg_inv pg_jobs for newItemID
  unfolding PGStore_ops_def
  by unfold_locales
     (simp_all only: JobStore.select_convs, (erule (1) pg_create pg_get pg_update pg_claim pg_track
        pg_markdone pg_incr pg_mark pg_list pg_reset
        | (rule db_inv_tables, assumption, erule pg_err_same pg_claim_none))+)

end
