(* ===== verification/Ingest_Pool.thy ===== *)
theory Ingest_Pool
  imports Mem_Store PG_Store
begin

text \<open>
  The ingest worker pool (\<^verbatim>\<open>internal/ingest/pool.go\<close>) and the enqueuer
  (\<^verbatim>\<open>internal/ingest/enqueue.go\<close>), over any job store.

  A worker is a program counter \<open>pc\<close>; \<open>worker_step\<close> runs it to its next call of the store, the
  runner or the source sink, so that the steps of several workers interleave exactly at those
  calls.  What \<^verbatim>\<open>CreateMemory\<close> and \<^verbatim>\<open>sources.Add\<close> answer is an input of the step (a fired item
  deadline is the answer \<^verbatim>\<open>context.DeadlineExceeded\<close>).  The sweeper goroutine is a second kind of
  program counter.  \<open>exec\<close> performs one action of a schedule, and \<open>reach\<close> collects the pool states
  that any schedule can produce.
\<close>

section \<open>Metrics\<close>

record metrics =
  inFlight :: int
  items_total :: "string list"
  jobs_total :: "JobStatus list"
  notify_dropped :: nat
  source_index_errors :: nat
  store_op_errors :: nat
  resume_failures :: nat

definition newMetrics :: metrics where
  "newMetrics = \<lparr>inFlight = 0, items_total = [], jobs_total = [], notify_dropped = 0,
     source_index_errors = 0, store_op_errors = 0, resume_failures = 0\<rparr>"

definition itemResult :: "err option \<Rightarrow> string" where
  "itemResult e = (case e of
     None \<Rightarrow> ''success''
   | Some x \<Rightarrow> if Is x DeadlineExceeded then ''timeout'' else ''error'')"

section \<open>The pool\<close>

text \<open>Where a worker is: the call it makes next, with the local variables it still needs.\<close>

datatype pc =
    WIdle
  | WGet string
  | WUpd IngestJob
  | WLoop string
  | WItem string IngestItem
  | WTrack string IngestItem
  | WSource string IngestItem
  | WMark string string "err option"
  | WFin string
  | WFinUpd IngestJob
  | WExit

datatype sweep = SIdle | SList | SSend "string list"

record 's pool =
  pStore :: 's
  pSize :: nat
  pBuf :: nat
  pSources :: bool
  pNotify :: "string list"
  pStarted :: bool
  pStopped :: bool
  pWorkers :: "pc list"
  pSweep :: sweep
  pMetrics :: metrics

definition newPool :: "'s \<Rightarrow> int \<Rightarrow> int \<Rightarrow> bool \<Rightarrow> 's pool" where
  "newPool s workers buf sources =
     \<lparr>pStore = s, pSize = nat (if workers < 1 then 1 else workers), pBuf = nat (if buf < 1 then 1 else buf),
      pSources = sources, pNotify = [], pStarted = False, pStopped = False, pWorkers = [],
      pSweep = SIdle, pMetrics = newMetrics\<rparr>"

definition Start :: "'s pool \<Rightarrow> 's pool" where
  "Start p = (if pStarted p then p else p\<lparr>pStarted := True, pWorkers := replicate (pSize p) WIdle\<rparr>)"

definition Stop :: "'s pool \<Rightarrow> 's pool" where
  "Stop p = (if \<not> pStarted p \<or> pStopped p then p else p\<lparr>pStopped := True\<rparr>)"

definition Notify :: "string \<Rightarrow> 's pool \<Rightarrow> 's pool" where
  "Notify k p = (if length (pNotify p) < pBuf p then p\<lparr>pNotify := pNotify p @ [k]\<rparr>
     else p\<lparr>pMetrics := (pMetrics p)\<lparr>notify_dropped := notify_dropped (pMetrics p) + 1\<rparr>\<rparr>)"

definition incStoreOpError :: "'s pool \<Rightarrow> 's pool" where
  "incStoreOpError p = p\<lparr>pMetrics := (pMetrics p)\<lparr>store_op_errors := store_op_errors (pMetrics p) + 1\<rparr>\<rparr>"

definition incSourceIndexError :: "'s pool \<Rightarrow> 's pool" where
  "incSourceIndexError p = p\<lparr>pMetrics := (pMetrics p)\<lparr>source_index_errors := source_index_errors (pMetrics p) + 1\<rparr>\<rparr>"

definition incInFlight :: "int \<Rightarrow> 's pool \<Rightarrow> 's pool" where
  "incInFlight d p = p\<lparr>pMetrics := (pMetrics p)\<lparr>inFlight := inFlight (pMetrics p) + d\<rparr>\<rparr>"

definition observeItem :: "string \<Rightarrow> 's pool \<Rightarrow> 's pool" where
  "observeItem r p = p\<lparr>pMetrics := (pMetrics p)\<lparr>items_total := items_total (pMetrics p) @ [r]\<rparr>\<rparr>"

definition incJob :: "JobStatus \<Rightarrow> 's pool \<Rightarrow> 's pool" where
  "incJob st p = p\<lparr>pMetrics := (pMetrics p)\<lparr>jobs_total := jobs_total (pMetrics p) @ [st]\<rparr>\<rparr>"

definition incResumeFailure :: "'s pool \<Rightarrow> 's pool" where
  "incResumeFailure p = p\<lparr>pMetrics := (pMetrics p)\<lparr>resume_failures := resume_failures (pMetrics p) + 1\<rparr>\<rparr>"

section \<open>A worker\<close>

text \<open>The inputs of one step: the clock, and the answers of the runner and of the source sink.\<close>

record env =
  eNow :: Time
  eCreate :: "err + Memory"
  eAdd :: "err option"

text \<open>The status \<^verbatim>\<open>runJob\<close> gives a job whose items are all accounted for.\<close>

definition final_status :: "IngestJob \<Rightarrow> JobStatus" where
  "final_status j = (if jFailed j = 0 then JobStatusSucceeded
     else if jDone j = 0 then JobStatusFailed else JobStatusPartial)"

text \<open>The steps of \<^verbatim>\<open>runJob\<close> and of \<^verbatim>\<open>processItem\<close>, one for each call they make.\<close>

definition runJob_get :: "'s JobStore \<Rightarrow> env \<Rightarrow> string \<Rightarrow> 's pool \<Rightarrow> pc \<times> 's pool" where [simp]:
  "runJob_get S env k p = (case GetJob S k (pStore p) of
     (Inl e, s) \<Rightarrow> (WIdle, p\<lparr>pStore := s\<rparr>)
   | (Inr j, s) \<Rightarrow>
       if Terminal (jStatus j) then (WIdle, p\<lparr>pStore := s\<rparr>)
       else if jStatus j = JobStatusQueued
       then (WUpd (j\<lparr>jStatus := JobStatusRunning, jUpdatedAt := eNow env\<rparr>), p\<lparr>pStore := s\<rparr>)
       else (WLoop k, p\<lparr>pStore := s\<rparr>))"

definition runJob_running :: "'s JobStore \<Rightarrow> env \<Rightarrow> IngestJob \<Rightarrow> 's pool \<Rightarrow> pc \<times> 's pool" where [simp]:
  "runJob_running S env j p = (case UpdateJob S (eNow env) j (pStore p) of
     (Inl e, s) \<Rightarrow> (WLoop (jID j), incStoreOpError (p\<lparr>pStore := s\<rparr>))
   | (Inr _, s) \<Rightarrow> (WLoop (jID j), p\<lparr>pStore := s\<rparr>))"

definition runJob_claim :: "'s JobStore \<Rightarrow> string \<Rightarrow> 's pool \<Rightarrow> pc \<times> 's pool" where [simp]:
  "runJob_claim S k p =
     (if pStopped p then (WIdle, p)
      else case ClaimNextItem S k (pStore p) of
        (Inl e, s) \<Rightarrow> (WFin k, p\<lparr>pStore := s\<rparr>)
      | (Inr None, s) \<Rightarrow> (WFin k, p\<lparr>pStore := s\<rparr>)
      | (Inr (Some it), s) \<Rightarrow> (WItem k it, incInFlight 1 (p\<lparr>pStore := s\<rparr>)))"

definition processItem_create :: "env \<Rightarrow> string \<Rightarrow> IngestItem \<Rightarrow> 's pool \<Rightarrow> pc \<times> 's pool" where [simp]:
  "processItem_create env k it p =
     (if iTrackID it \<noteq> '''' then (WSource k it, p)
      else case eCreate env of
        Inl e \<Rightarrow> (WMark k (iKey it) (Some e), p)
      | Inr m \<Rightarrow> (WTrack k (it\<lparr>iTrackID := mID m\<rparr>), p))"

definition processItem_track :: "'s JobStore \<Rightarrow> string \<Rightarrow> IngestItem \<Rightarrow> 's pool \<Rightarrow> pc \<times> 's pool" where [simp]:
  "processItem_track S k it p =
     (case SetItemTrackID S k (iKey it) (iTrackID it) (pStore p) of
        (_, s) \<Rightarrow> (WSource k it, p\<lparr>pStore := s\<rparr>))"

definition processItem_source :: "env \<Rightarrow> string \<Rightarrow> IngestItem \<Rightarrow> 's pool \<Rightarrow> pc \<times> 's pool" where [simp]:
  "processItem_source env k it p =
     (WMark k (iKey it) None,
      if pSources p \<and> mget (iMetadata it) ''repo'' \<noteq> '''' \<and> mget (iMetadata it) ''file_path'' \<noteq> ''''
         \<and> iTrackID it \<noteq> '''' \<and> eAdd env \<noteq> None
      then incSourceIndexError p else p)"

definition runJob_mark :: "'s JobStore \<Rightarrow> env \<Rightarrow> string \<Rightarrow> string \<Rightarrow> err option \<Rightarrow> 's pool \<Rightarrow> pc \<times> 's pool" where [simp]:
  "runJob_mark S env k key r p =
     (case MarkItemDoneAndProgress S (eNow env) k key r (pStore p) of
        (Inl e, s) \<Rightarrow> (WLoop k, observeItem (itemResult r) (incInFlight (- 1) (incStoreOpError (p\<lparr>pStore := s\<rparr>))))
      | (Inr _, s) \<Rightarrow> (WLoop k, observeItem (itemResult r) (incInFlight (- 1) (p\<lparr>pStore := s\<rparr>))))"

definition runJob_final :: "'s JobStore \<Rightarrow> env \<Rightarrow> string \<Rightarrow> 's pool \<Rightarrow> pc \<times> 's pool" where [simp]:
  "runJob_final S env k p = (case GetJob S k (pStore p) of
     (Inl e, s) \<Rightarrow> (WIdle, p\<lparr>pStore := s\<rparr>)
   | (Inr j, s) \<Rightarrow>
       if Terminal (jStatus j) then (WIdle, p\<lparr>pStore := s\<rparr>)
       else if jDone j + jFailed j < jTotal j then (WIdle, p\<lparr>pStore := s\<rparr>)
       else (WFinUpd (j\<lparr>jStatus := final_status j, jUpdatedAt := eNow env\<rparr>),
             incJob (final_status j) (p\<lparr>pStore := s\<rparr>)))"

definition runJob_finish :: "'s JobStore \<Rightarrow> env \<Rightarrow> IngestJob \<Rightarrow> 's pool \<Rightarrow> pc \<times> 's pool" where [simp]:
  "runJob_finish S env j p = (case UpdateJob S (eNow env) j (pStore p) of
     (Inl e, s) \<Rightarrow> (WIdle, incStoreOpError (p\<lparr>pStore := s\<rparr>))
   | (Inr _, s) \<Rightarrow> (WIdle, p\<lparr>pStore := s\<rparr>))"

fun worker_step :: "'s JobStore \<Rightarrow> env \<Rightarrow> pc \<Rightarrow> 's pool \<Rightarrow> pc \<times> 's pool" where
  "worker_step S env (WGet k) p = runJob_get S env k p"
| "worker_step S env (WUpd j) p = runJob_running S env j p"
| "worker_step S env (WLoop k) p = runJob_claim S k p"
| "worker_step S env (WItem k it) p = processItem_create env k it p"
| "worker_step S env (WTrack k it) p = processItem_track S k it p"
| "worker_step S env (WSource k it) p = processItem_source env k it p"
| "worker_step S env (WMark k key r) p = runJob_mark S env k key r p"
| "worker_step S env (WFin k) p = runJob_final S env k p"
| "worker_step S env (WFinUpd j) p = runJob_finish S env j p"
| "worker_step S env WIdle p = (WIdle, p)"
| "worker_step S env WExit p = (WExit, p)"

section \<open>Enqueuing\<close>

definition assignKeys :: "(nat \<Rightarrow> string) \<Rightarrow> IngestItem list \<Rightarrow> IngestItem list" where
  "assignKeys newItemID its =
     map (\<lambda>(i, it). if iKey it = '''' then it\<lparr>iKey := newItemID i\<rparr> else it) (enumerate 0 its)"

definition queued_job :: "string \<Rightarrow> Time \<Rightarrow> IngestItem list \<Rightarrow> IngestJob" where
  "queued_job k now its = \<lparr>jID = k, jStatus = JobStatusQueued, jTotal = int (length its), jDone = 0,
     jFailed = 0, jErrors = [], jCreatedAt = now, jUpdatedAt = now\<rparr>"

text \<open>\<open>newJobID\<close> and \<open>newItemID\<close> are what the random generators return during the call.\<close>

definition Enqueue :: "'s JobStore \<Rightarrow> (nat \<Rightarrow> string) \<Rightarrow> string \<Rightarrow> Time \<Rightarrow> IngestItem list \<Rightarrow> 's pool \<Rightarrow> (err + IngestJob) \<times> 's pool" where
  "Enqueue S newItemID newJobID now items p =
     (if items = [] then (Inl (Opaque ''ingest: empty items''), p)
      else let its = assignKeys newItemID items in
        if \<not> distinct (map iKey its) then (Inl ErrDuplicateKey, p)
        else let job = queued_job newJobID now its in
          case CreateJob S now job its (pStore p) of
            (Inl e, s) \<Rightarrow> (Inl e, p\<lparr>pStore := s\<rparr>)
          | (Inr _, s) \<Rightarrow> (Inr job, Notify newJobID (p\<lparr>pStore := s\<rparr>)))"

section \<open>The sweeper\<close>

text \<open>
  \<^verbatim>\<open>Resume\<close>: reset the running items, list the unfinished jobs, send each to the channel.  A send
  on a full channel blocks: there is no step until a worker takes a job or the pool stops.  Once the
  pool is stopped the \<^verbatim>\<open>select\<close> around a send may also take the stop channel, even when the
  channel has room: \<open>sweep_stop\<close> is that other branch.
\<close>

definition sweep_step :: "'s JobStore \<Rightarrow> 's pool \<Rightarrow> 's pool option" where
  "sweep_step S p = (case pSweep p of
     SIdle \<Rightarrow> (case ResetRunningItems S (pStore p) of
        (Inl e, s) \<Rightarrow> Some (incResumeFailure (p\<lparr>pStore := s\<rparr>))
      | (Inr _, s) \<Rightarrow> Some (p\<lparr>pStore := s, pSweep := SList\<rparr>))
   | SList \<Rightarrow> (case ListUnfinishedJobs S (pStore p) of
        (Inl e, s) \<Rightarrow> Some (incResumeFailure (p\<lparr>pStore := s, pSweep := SIdle\<rparr>))
      | (Inr ks, s) \<Rightarrow> Some (p\<lparr>pStore := s, pSweep := SSend ks\<rparr>))
   | SSend [] \<Rightarrow> Some (p\<lparr>pSweep := SIdle\<rparr>)
   | SSend (k # ks) \<Rightarrow>
       if length (pNotify p) < pBuf p then Some (p\<lparr>pNotify := pNotify p @ [k], pSweep := SSend ks\<rparr>)
       else None)"

definition sweep_stop :: "'s pool \<Rightarrow> 's pool option" where
  "sweep_stop p = (case pSweep p of
     SSend (k # ks) \<Rightarrow> if pStopped p then Some (p\<lparr>pSweep := SIdle\<rparr>) else None
   | _ \<Rightarrow> None)"

section \<open>Schedules\<close>

datatype action =
    AStart | AStop | ANotify string | ATake nat | AWork nat env | AExit nat | ASweep | ASweepStop
  | AEnqueue "nat \<Rightarrow> string" string Time "IngestItem list" | ARestart

fun idle :: "pc \<Rightarrow> bool" where
  "idle WIdle = True"
| "idle _ = False"

fun busy :: "pc \<Rightarrow> bool" where
  "busy WIdle = False"
| "busy WExit = False"
| "busy _ = True"

lemma idle_iff [simp]: "idle w \<longleftrightarrow> w = WIdle"
  by (cases w) simp_all

text \<open>A restart of the process: only the store survives.\<close>

definition restart :: "'s pool \<Rightarrow> 's pool" where
  "restart p = p\<lparr>pNotify := [], pStarted := False, pStopped := False, pWorkers := [], pSweep := SIdle,
     pMetrics := newMetrics\<rparr>"

fun exec :: "'s JobStore \<Rightarrow> action \<Rightarrow> 's pool \<Rightarrow> 's pool option" where
  "exec S AStart p = Some (Start p)"
| "exec S AStop p = Some (Stop p)"
| "exec S (ANotify k) p = Some (Notify k p)"
| "exec S (ATake i) p =
     (if i < length (pWorkers p) \<and> idle (pWorkers p ! i)
      then case pNotify p of [] \<Rightarrow> None
         | k # ks \<Rightarrow> Some (p\<lparr>pNotify := ks, pWorkers := (pWorkers p)[i := WGet k]\<rparr>)
      else None)"
| "exec S (AWork i env) p =
     (if i < length (pWorkers p) \<and> busy (pWorkers p ! i)
      then case worker_step S env (pWorkers p ! i) p of
             (w, p') \<Rightarrow> Some (p'\<lparr>pWorkers := (pWorkers p')[i := w]\<rparr>)
      else None)"
| "exec S (AExit i) p =
     (if i < length (pWorkers p) \<and> idle (pWorkers p ! i) \<and> pStopped p
      then Some (p\<lparr>pWorkers := (pWorkers p)[i := WExit]\<rparr>) else None)"
| "exec S ASweep p = (if pStarted p then sweep_step S p else None)"
| "exec S ASweepStop p = sweep_stop p"
| "exec S (AEnqueue ids k now its) p = Some (snd (Enqueue S ids k now its p))"
| "exec S ARestart p = Some (restart p)"

fun run_schedule :: "'s JobStore \<Rightarrow> action list \<Rightarrow> 's pool \<Rightarrow> 's pool option" where
  "run_schedule S [] p = Some p"
| "run_schedule S (a # as) p = (case exec S a p of None \<Rightarrow> None | Some p' \<Rightarrow> run_schedule S as p')"

text \<open>\<open>E\<close> is what else may happen to the store between actions, such as locks coming and going.\<close>

inductive reach :: "'s JobStore \<Rightarrow> ('s \<Rightarrow> 's \<Rightarrow> bool) \<Rightarrow> 's pool \<Rightarrow> 's pool \<Rightarrow> bool" for S E p0 where
  init: "reach S E p0 p0"
| act: "reach S E p0 p \<Longrightarrow> exec S a p = Some p' \<Longrightarrow> reach S E p0 p'"
| store: "reach S E p0 p \<Longrightarrow> E (pStore p) s' \<Longrightarrow> reach S E p0 (p\<lparr>pStore := s'\<rparr>)"

lemma reach_schedule: "run_schedule S as p = Some q \<Longrightarrow> reach S E p0 p \<Longrightarrow> reach S E p0 q"
  by (induction as arbitrary: p) (auto split: option.splits intro: reach.act)

section \<open>What every schedule keeps\<close>

text \<open>
  The counters of a job never run ahead of its items (a stale snapshot can only set them back),
  and a terminal status is exact: all items are terminal, the counters are the true numbers, and
  the status is the one those numbers call for.
\<close>

definition counts_ok :: "int \<Rightarrow> int \<Rightarrow> int \<Rightarrow> job_view \<Rightarrow> bool" where
  "counts_ok t d f v \<longleftrightarrow> t = int (length (vItems v)) \<and> 0 \<le> d \<and> d \<le> n_status Done v
     \<and> 0 \<le> f \<and> f \<le> n_status Failed v"

definition status_ok :: "JobStatus \<Rightarrow> int \<Rightarrow> int \<Rightarrow> job_view \<Rightarrow> bool" where
  "status_ok st d f v \<longleftrightarrow> Terminal st \<longrightarrow>
     items_terminal v \<and> d = n_status Done v \<and> f = n_status Failed v
     \<and> (st = JobStatusSucceeded \<longleftrightarrow> f = 0) \<and> (st = JobStatusFailed \<longleftrightarrow> f \<noteq> 0 \<and> d = 0)"

definition job_ok :: "job_view \<Rightarrow> bool" where
  "job_ok v \<longleftrightarrow> counts_ok (vTotal v) (vDone v) (vFailed v) v
     \<and> status_ok (vStatus v) (vDone v) (vFailed v) v \<and> distinct (map item_key (vItems v))"

definition jobs_ok :: "jobs \<Rightarrow> bool" where
  "jobs_ok m \<longleftrightarrow> (\<forall>k v. m k = Some v \<longrightarrow> job_ok v)"

definition snap_ok :: "jobs \<Rightarrow> IngestJob \<Rightarrow> bool" where
  "snap_ok m j \<longleftrightarrow> (\<exists>v. m (jID j) = Some v \<and> counts_ok (jTotal j) (jDone j) (jFailed j) v
     \<and> status_ok (jStatus j) (jDone j) (jFailed j) v)"

fun pc_ok :: "jobs \<Rightarrow> pc \<Rightarrow> bool" where
  "pc_ok m (WUpd j) = snap_ok m j"
| "pc_ok m (WFinUpd j) = snap_ok m j"
| "pc_ok m _ = True"

text \<open>Items only move towards a terminal state, and a finished job's items stay put.\<close>

definition advances :: "job_view \<Rightarrow> job_view \<Rightarrow> bool" where
  "advances v v' \<longleftrightarrow> length (vItems v') = length (vItems v)
     \<and> n_status Done v \<le> n_status Done v' \<and> n_status Failed v \<le> n_status Failed v'
     \<and> (items_terminal v \<longrightarrow> items_terminal v' \<and> n_status Done v' = n_status Done v \<and> n_status Failed v' = n_status Failed v)"

definition grows :: "jobs \<Rightarrow> jobs \<Rightarrow> bool" where
  "grows m m' \<longleftrightarrow> (\<forall>k v. m k = Some v \<longrightarrow> (\<exists>v'. m' k = Some v' \<and> advances v v'))"

lemma advances_refl [simp]: "advances v v"
  by (simp add: advances_def)

lemma grows_refl [simp]: "grows m m"
  by (simp add: grows_def)

lemma grows_upd: "(\<And>v. m k = Some v \<Longrightarrow> advances v v') \<Longrightarrow> grows m (m(k \<mapsto> v'))"
  by (auto simp: grows_def)

lemma grows_on_job: "(\<And>v. m k = Some v \<Longrightarrow> advances v (f v)) \<Longrightarrow> grows m (on_job m k f)"
  by (auto simp: grows_def on_job_def split: option.splits)

lemma jobs_ok_upd: "jobs_ok m \<Longrightarrow> job_ok v \<Longrightarrow> jobs_ok (m(k \<mapsto> v))"
  by (auto simp: jobs_ok_def)

lemma jobs_ok_on_job: "jobs_ok m \<Longrightarrow> (\<And>v. m k = Some v \<Longrightarrow> job_ok (f v)) \<Longrightarrow> jobs_ok (on_job m k f)"
  by (auto simp: jobs_ok_def on_job_def split: option.splits)

lemma counts_ok_advances: "counts_ok t d f v \<Longrightarrow> advances v v' \<Longrightarrow> counts_ok t d f v'"
  by (auto simp: counts_ok_def advances_def)

lemma status_ok_advances: "status_ok st d f v \<Longrightarrow> advances v v' \<Longrightarrow> status_ok st d f v'"
  by (auto simp: status_ok_def advances_def)

lemma snap_ok_grows: "snap_ok m j \<Longrightarrow> grows m m' \<Longrightarrow> snap_ok m' j"
  unfolding snap_ok_def grows_def by (meson counts_ok_advances status_ok_advances)

lemma pc_ok_grows: "pc_ok m w \<Longrightarrow> grows m m' \<Longrightarrow> pc_ok m' w"
  by (cases w) (auto intro: snap_ok_grows)

lemma job_ok_advances:
  "job_ok v \<Longrightarrow> advances v v' \<Longrightarrow> vTotal v' = vTotal v \<Longrightarrow> vDone v' = vDone v \<Longrightarrow> vFailed v' = vFailed v \<Longrightarrow>
   vStatus v' = vStatus v \<Longrightarrow> map item_key (vItems v') = map item_key (vItems v) \<Longrightarrow> job_ok v'"
  by (auto simp: job_ok_def intro: counts_ok_advances status_ok_advances)

subsection \<open>The transformations of the view\<close>

lemma claims_advances: "claims it v v' \<Longrightarrow> advances v v'"
  using claims_fields [of it v v'] n_status_nonneg [of Running v] n_status_nonneg [of Pending v']
  by (auto simp: advances_def items_terminal_iff)

lemma claims_job_ok: "job_ok v \<Longrightarrow> claims it v v' \<Longrightarrow> job_ok v'"
  using claims_fields [of it v v'] claims_advances [of it v v'] by (auto intro: job_ok_advances)

lemma set_track_advances: "advances v (set_track key t v)"
proof -
  have "map snd (vItems (set_track key t v)) = map snd (vItems v)" by simp
  then have n: "n_status st (set_track key t v) = n_status st v" for st by (rule n_status_cong)
  moreover have "length (vItems (set_track key t v)) = length (vItems v)" by (simp add: set_track_def)
  ultimately show ?thesis by (simp add: advances_def items_terminal_iff)
qed

lemma set_track_job_ok: "job_ok v \<Longrightarrow> job_ok (set_track key t v)"
  by (rule job_ok_advances [OF _ set_track_advances]) simp_all

lemma reset_advances: "advances v (reset_view v)"
proof -
  have "items_terminal v \<Longrightarrow> map reset_item (vItems v) = vItems v"
    by (rule map_idI) (auto simp: reset_item_def items_terminal_def)
  then have "items_terminal v \<Longrightarrow> reset_view v = v" by (simp add: reset_view_def)
  then show ?thesis by (auto simp: advances_def)
qed

lemma reset_job_ok: "job_ok v \<Longrightarrow> job_ok (reset_view v)"
  by (rule job_ok_advances [OF _ reset_advances]) simp_all

lemma mark_moved_counts:
  assumes "vItems v = xs @ (it, st) # ys" "\<not> item_terminal st" "vItems v' = xs @ (it, outcome r) # ys"
  shows "n_status Done v' = n_status Done v + (if r = None then 1 else 0)"
    "n_status Failed v' = n_status Failed v + (if r = None then 0 else 1)"
  using assms by (auto simp: n_status_split outcome_def not_item_terminal)

lemma mark_advances: "advances v (mark key r v)"
proof (cases rule: mark_cases [of key r v])
  case (moved xs it st ys)
  then show ?thesis
    using mark_moved_counts [OF moved(1,2,4)] by (auto simp: advances_def items_terminal_def)
qed simp

lemma mark_job_ok:
  assumes "job_ok v"
  shows "job_ok (mark key r v)"
proof (cases rule: mark_cases [of key r v])
  case same
  then show ?thesis using assms by simp
next
  case (moved xs it st ys)
  have "\<not> items_terminal v" using moved(1,2) by (auto simp: items_terminal_def)
  then have "\<not> Terminal (vStatus v)" using assms by (auto simp: job_ok_def status_ok_def)
  then show ?thesis
    using assms moved(5,6) mark_moved_counts [OF moved(1,2,4)]
    by (auto simp: job_ok_def counts_ok_def status_ok_def)
qed

lemma fresh_job_ok:
  "distinct (map iKey its) \<Longrightarrow> job_ok (view_of (queued_job k now its) (fresh_items its))"
  by (simp add: job_ok_def counts_ok_def status_ok_def queued_job_def fresh_items_def comp_def item_key_def)

lemma snap_update:
  assumes "jobs_ok m" "snap_ok m j" "m (jID j) = Some v"
  shows "jobs_ok (m(jID j \<mapsto> view_of j (vItems v))) \<and> grows m (m(jID j \<mapsto> view_of j (vItems v)))"
proof -
  have same: "n_status st (view_of j (vItems v)) = n_status st v" for st by (simp add: n_status_def)
  have "job_ok v" using assms by (auto simp: jobs_ok_def)
  with assms(2,3) have "job_ok (view_of j (vItems v))"
    by (auto simp: snap_ok_def job_ok_def counts_ok_def status_ok_def same items_terminal_def)
  moreover have "advances v (view_of j (vItems v))"
    by (simp add: advances_def same items_terminal_def)
  ultimately show ?thesis using assms by (auto intro: jobs_ok_upd grows_upd)
qed

lemma final_snap:
  assumes "job_ok (view_of j its)" "\<not> jDone j + jFailed j < jTotal j" "m (jID j) = Some (view_of j its)"
  shows "snap_ok m (j\<lparr>jStatus := final_status j, jUpdatedAt := now\<rparr>)"
proof -
  let ?v = "view_of j its"
  have c: "counts_ok (jTotal j) (jDone j) (jFailed j) ?v" using assms(1) by (simp add: job_ok_def)
  have "n_status Pending ?v + n_status Running ?v = 0 \<and> jDone j = n_status Done ?v \<and> jFailed j = n_status Failed ?v"
    using c assms(2) n_status_total [of ?v] n_status_nonneg [of Pending ?v] n_status_nonneg [of Running ?v]
    unfolding counts_ok_def by linarith
  then have "items_terminal ?v" "jDone j = n_status Done ?v" "jFailed j = n_status Failed ?v"
    using n_status_nonneg [of Pending ?v] n_status_nonneg [of Running ?v]
    by (auto simp: items_terminal_iff simp del: n_status_nonneg)
  with c assms(3) show ?thesis
    by (auto simp: snap_ok_def status_ok_def final_status_def)
qed

subsection \<open>The pool over a store that keeps the contract\<close>

definition gauge :: "pc list \<Rightarrow> int" where
  "gauge ws = int (count_if (\<lambda>w. case w of WItem _ _ \<Rightarrow> True | WTrack _ _ \<Rightarrow> True | WSource _ _ \<Rightarrow> True
     | WMark _ _ _ \<Rightarrow> True | _ \<Rightarrow> False) ws)"

lemmas pool_updates = incStoreOpError_def incSourceIndexError_def incInFlight_def observeItem_def incJob_def
  incResumeFailure_def

lemma worker_step_workers: "worker_step S env w p = (w', p') \<Longrightarrow> pWorkers p' = pWorkers p"
  by (cases w) (auto simp: pool_updates split: sum.splits prod.splits if_splits option.splits)

lemma exec_workE:
  assumes "exec S (AWork i env) p = Some p'"
  obtains w' p1 where "i < length (pWorkers p)" "worker_step S env (pWorkers p ! i) p = (w', p1)" "p' = p1\<lparr>pWorkers := (pWorkers p1)[i := w']\<rparr>"
  using assms by (auto split: if_splits prod.splits)

lemma exec_workers:
  assumes "exec S a p = Some p'" "length (pWorkers p) \<le> pSize p"
  shows "pSize p' = pSize p \<and> length (pWorkers p') \<le> pSize p'"
proof (cases a)
  case (AWork i env)
  from assms(1) [unfolded AWork] obtain w' p1 where step: "worker_step S env (pWorkers p ! i) p = (w', p1)" and p': "p' = p1\<lparr>pWorkers := (pWorkers p1)[i := w']\<rparr>"
    by (rule exec_workE)
  have "pSize p1 = pSize p" using step by (cases "pWorkers p ! i") (auto simp: pool_updates split: sum.splits prod.splits if_splits option.splits)
  with worker_step_workers [OF step] p' assms(2) show ?thesis by simp
qed (use assms in \<open>auto simp: Start_def Stop_def Notify_def Enqueue_def restart_def sweep_step_def sweep_stop_def pool_updates Let_def
      split: if_splits list.splits sum.splits prod.splits sweep.splits\<close>)

lemma reach_workers:
  assumes "reach S E p0 p" "length (pWorkers p0) \<le> pSize p0"
  shows "pSize p = pSize p0 \<and> length (pWorkers p) \<le> pSize p0"
  using assms by (induction rule: reach.induct) (auto dest: exec_workers)

locale pool_store = job_store S inv jobs_of
  for S :: "'s JobStore" and inv :: "'s \<Rightarrow> bool" and jobs_of :: "'s \<Rightarrow> jobs" +
  fixes E :: "'s \<Rightarrow> 's \<Rightarrow> bool"
  assumes env_keeps: "inv s \<Longrightarrow> E s s' \<Longrightarrow> inv s' \<and> jobs_of s' = jobs_of s"
begin

definition store_ok :: "'s \<Rightarrow> bool" where
  "store_ok s \<longleftrightarrow> inv s \<and> jobs_ok (jobs_of s)"

definition evolves :: "'s \<Rightarrow> 's \<Rightarrow> bool" where
  "evolves s s' \<longleftrightarrow> store_ok s' \<and> grows (jobs_of s) (jobs_of s')"

definition pool_ok :: "'s pool \<Rightarrow> bool" where
  "pool_ok p \<longleftrightarrow> store_ok (pStore p) \<and> (\<forall>w\<in>set (pWorkers p). pc_ok (jobs_of (pStore p)) w)"

lemma evolves_same: "store_ok s \<Longrightarrow> inv s' \<Longrightarrow> jobs_of s' = jobs_of s \<Longrightarrow> evolves s s'"
  by (simp add: evolves_def store_ok_def)

lemma get_evolves: "store_ok s \<Longrightarrow> GetJob S k s = (r, s') \<Longrightarrow> evolves s s'"
  using get_ok [of s k _ s'] get_err [of s k _ s'] by (cases r) (auto simp: store_ok_def intro!: evolves_same)

lemma get_view:
  assumes "store_ok s" "GetJob S k s = (Inr j, s')"
  obtains its where "jobs_of s' (jID j) = Some (view_of j its)" "job_ok (view_of j its)" "jID j = k"
  using get_ok [of s k j s'] assms by (auto simp: store_ok_def jobs_ok_def)

lemma update_evolves:
  assumes "store_ok s" "snap_ok (jobs_of s) j" "UpdateJob S now j s = (r, s')"
  shows "evolves s s'"
proof (cases r)
  case (Inl e)
  then show ?thesis using assms update_err [of s now j e s'] by (auto simp: store_ok_def intro!: evolves_same)
next
  case (Inr u)
  then obtain v where "inv s'" "jobs_of s (jID j) = Some v" "jobs_of s' = (jobs_of s)(jID j \<mapsto> view_of j (vItems v))"
    using assms update_ok [of s now j s'] by (auto simp: store_ok_def)
  then show ?thesis using snap_update [of "jobs_of s" j v] assms by (simp add: evolves_def store_ok_def)
qed

lemma claim_evolves:
  assumes "store_ok s" "ClaimNextItem S k s = (r, s')"
  shows "evolves s s'"
proof (cases "\<exists>it. r = Inr (Some it)")
  case False
  then consider e where "r = Inl e" | "r = Inr None" by (cases r) auto
  then show ?thesis
    using assms claim_err [of s k _ s'] claim_none [of s k s'] by cases (auto simp: store_ok_def intro!: evolves_same)
next
  case True
  then obtain it v v' where "inv s'" "jobs_of s k = Some v" "claims it v v'" "jobs_of s' = (jobs_of s)(k \<mapsto> v')"
    using assms claim_some [of s k _ s'] by (auto simp: store_ok_def)
  then show ?thesis using assms
    by (auto simp: evolves_def store_ok_def jobs_ok_def intro!: grows_upd intro: claims_advances claims_job_ok split: if_splits)
qed

lemma on_job_evolves:
  assumes "store_ok s" "inv s'" "jobs_of s' = on_job (jobs_of s) k f" "\<And>v. advances v (f v)" "\<And>v. job_ok v \<Longrightarrow> job_ok (f v)"
  shows "evolves s s'"
  using assms by (auto simp: evolves_def store_ok_def jobs_ok_def [of "jobs_of s"] intro!: jobs_ok_on_job grows_on_job)

lemma track_evolves:
  assumes "store_ok s" "SetItemTrackID S k key t s = (r, s')"
  shows "evolves s s'"
proof (cases r)
  case (Inl e)
  then show ?thesis using assms track_err [of s k key t e s'] by (auto simp: store_ok_def intro!: evolves_same)
next
  case (Inr u)
  then have "inv s' \<and> jobs_of s' = on_job (jobs_of s) k (set_track key t)"
    using assms track_ok [of s k key t s'] by (simp add: store_ok_def)
  then show ?thesis using assms(1) set_track_advances set_track_job_ok by (blast intro: on_job_evolves)
qed

lemma mark_evolves:
  assumes "store_ok s" "MarkItemDoneAndProgress S now k key e s = (r, s')"
  shows "evolves s s'"
proof (cases r)
  case (Inl e')
  then show ?thesis using assms mark_err [of s now k key e e' s'] by (auto simp: store_ok_def intro!: evolves_same)
next
  case (Inr u)
  then have "inv s' \<and> jobs_of s' = on_job (jobs_of s) k (mark key e)"
    using assms mark_ok [of s now k key e s'] by (simp add: store_ok_def)
  then show ?thesis using assms(1) mark_advances mark_job_ok by (blast intro: on_job_evolves)
qed

lemma reset_evolves:
  assumes "store_ok s" "ResetRunningItems S s = (r, s')"
  shows "evolves s s'"
proof (cases r)
  case (Inl e)
  then show ?thesis using assms reset_err [of s e s'] by (auto simp: store_ok_def intro!: evolves_same)
next
  case (Inr n)
  then have "inv s' \<and> jobs_of s' = (\<lambda>k. map_option reset_view (jobs_of s k))"
    using assms reset_ok [of s n s'] by (simp add: store_ok_def)
  then show ?thesis
    using assms(1) by (auto simp: evolves_def store_ok_def jobs_ok_def grows_def reset_advances reset_job_ok)
qed

lemma list_evolves:
  "store_ok s \<Longrightarrow> ListUnfinishedJobs S s = (r, s') \<Longrightarrow> evolves s s'"
  using list_ok [of s _ s'] list_err [of s _ s'] by (cases r) (auto simp: store_ok_def intro!: evolves_same)

lemma create_evolves:
  assumes "store_ok s" "distinct (map iKey its)" "CreateJob S now (queued_job k now its) its s = (r, s')"
  shows "evolves s s'"
proof (cases r)
  case (Inl e)
  then show ?thesis using assms create_err [of s now _ its e s'] by (auto simp: store_ok_def intro!: evolves_same)
next
  case (Inr u)
  then have "inv s'" "jobs_of s (jID (queued_job k now its)) = None"
    "jobs_of s' = (jobs_of s)(jID (queued_job k now its) \<mapsto> view_of (queued_job k now its) (fresh_items its))"
    using assms create_ok [of s now "queued_job k now its" its s'] by (auto simp: store_ok_def)
  then show ?thesis
    using assms(1,2) by (auto simp: evolves_def store_ok_def intro!: jobs_ok_upd grows_upd fresh_job_ok)
qed

lemma pool_ok_evolves:
  assumes "pool_ok p" "evolves (pStore p) (pStore p')" "pWorkers p' = pWorkers p"
  shows "pool_ok p'"
  using assms by (auto simp: pool_ok_def evolves_def intro: pc_ok_grows)

lemma worker_step_ok:
  assumes ok: "store_ok (pStore p)" and pc: "pc_ok (jobs_of (pStore p)) w"
    and step: "worker_step S env w p = (w', p')"
  shows "evolves (pStore p) (pStore p') \<and> pc_ok (jobs_of (pStore p')) w'"
proof (cases w)
  case (WGet k)
  obtain r s where g: "GetJob S k (pStore p) = (r, s)" by fastforce
  have ev: "evolves (pStore p) s" by (rule get_evolves [OF ok g])
  have "snap_ok (jobs_of s) (j\<lparr>jStatus := JobStatusRunning, jUpdatedAt := eNow env\<rparr>)" if "r = Inr j" for j
    using get_view [OF ok g [unfolded that]] by (force simp: snap_ok_def job_ok_def status_ok_def)
  with WGet step g ev show ?thesis by (auto split: sum.splits if_splits)
next
  case (WFin k)
  obtain r s where g: "GetJob S k (pStore p) = (r, s)" by fastforce
  have ev: "evolves (pStore p) s" by (rule get_evolves [OF ok g])
  have "snap_ok (jobs_of s) (j\<lparr>jStatus := final_status j, jUpdatedAt := eNow env\<rparr>)"
    if "r = Inr j" "\<not> jDone j + jFailed j < jTotal j" for j
    using get_view [OF ok g [unfolded that]] final_snap [OF _ that(2)] by metis
  with WFin step g ev show ?thesis by (auto simp: pool_updates split: sum.splits if_splits)
next
  case (WUpd j)
  with step pc show ?thesis
    using update_evolves [OF ok] by (auto simp: pool_updates split: sum.splits prod.splits)
next
  case (WFinUpd j)
  with step pc show ?thesis
    using update_evolves [OF ok] by (auto simp: pool_updates split: sum.splits prod.splits)
next
  case (WLoop k)
  have "evolves (pStore p) (pStore p)" using ok by (simp add: evolves_def)
  with WLoop step show ?thesis
    using claim_evolves [OF ok] by (auto simp: pool_updates split: sum.splits prod.splits if_splits option.splits)
next
  case (WMark k key r)
  with step show ?thesis
    using mark_evolves [OF ok] by (auto simp: pool_updates split: sum.splits prod.splits)
next
  case (WTrack k it)
  with step show ?thesis using track_evolves [OF ok] by (auto split: prod.splits)
qed (use step ok in \<open>auto simp: pool_updates evolves_def split: sum.splits if_splits\<close>)

lemma exec_ok:
  assumes ok: "pool_ok p" and ex: "exec S a p = Some p'"
  shows "pool_ok p'"
proof -
  have st: "store_ok (pStore p)" using ok by (simp add: pool_ok_def)
  have refl: "evolves (pStore p) (pStore p)" using st by (simp add: evolves_def)
  show ?thesis
  proof (cases a)
    case (AWork i env)
    from ex [unfolded AWork] obtain w' p1 where i: "i < length (pWorkers p)" and step: "worker_step S env (pWorkers p ! i) p = (w', p1)"
      and p': "p' = p1\<lparr>pWorkers := (pWorkers p1)[i := w']\<rparr>" by (rule exec_workE)
    have "pc_ok (jobs_of (pStore p)) (pWorkers p ! i)" using ok i by (simp add: pool_ok_def)
    from worker_step_ok [OF st this step] have ev: "evolves (pStore p) (pStore p1)" and w': "pc_ok (jobs_of (pStore p1)) w'"
      by auto
    have "pool_ok p1" by (rule pool_ok_evolves [OF ok ev worker_step_workers [OF step]])
    with w' show ?thesis by (auto simp: pool_ok_def p' dest!: set_update_subset_insert [THEN subsetD])
  next
    case ASweep
    with ex have "evolves (pStore p) (pStore p') \<and> pWorkers p' = pWorkers p"
      using refl reset_evolves [OF st] list_evolves [OF st]
      by (auto simp: sweep_step_def pool_updates split: if_splits sweep.splits sum.splits prod.splits list.splits)
    then show ?thesis using ok pool_ok_evolves by blast
  next
    case (AEnqueue ids k now its)
    with ex have "evolves (pStore p) (pStore p') \<and> pWorkers p' = pWorkers p"
      using refl create_evolves [OF st]
      by (auto simp: Enqueue_def Let_def Notify_def split: if_splits sum.splits prod.splits)
    then show ?thesis using ok pool_ok_evolves by blast
  next
    case (ATake i)
    with ok ex show ?thesis
      by (auto simp: pool_ok_def split: if_splits list.splits dest!: set_update_subset_insert [THEN subsetD])
  next
    case (AExit i)
    with ok ex show ?thesis
      by (auto simp: pool_ok_def split: if_splits dest!: set_update_subset_insert [THEN subsetD])
  next
    case AStart
    with ok ex show ?thesis by (auto simp: pool_ok_def Start_def split: if_splits)
  next
    case AStop
    with ok ex show ?thesis by (auto simp: pool_ok_def Stop_def split: if_splits)
  next
    case (ANotify k)
    with ok ex show ?thesis by (auto simp: pool_ok_def Notify_def split: if_splits)
  next
    case ASweepStop
    with ok ex show ?thesis
      by (auto simp: pool_ok_def sweep_stop_def split: if_splits sweep.splits list.splits)
  next
    case ARestart
    with ok ex show ?thesis by (auto simp: pool_ok_def restart_def)
  qed
qed

lemma reach_ok: "reach S E p0 p \<Longrightarrow> pool_ok p0 \<Longrightarrow> pool_ok p"
proof (induction rule: reach.induct)
  case (store p s')
  then have "evolves (pStore p) s'"
    using env_keeps [of "pStore p" s'] by (auto simp: pool_ok_def store_ok_def intro!: evolves_same)
  with store show ?case using pool_ok_evolves [of p "p\<lparr>pStore := s'\<rparr>"] by simp
qed (auto intro: exec_ok)

lemma reach_job_ok:
  assumes "inv s" "jobs_ok (jobs_of s)" "reach S E (newPool s n buf src) p" "jobs_of (pStore p) k = Some v"
  shows "job_ok v"
proof -
  have "pool_ok (newPool s n buf src)" using assms(1,2) by (simp add: pool_ok_def store_ok_def newPool_def)
  from reach_ok [OF assms(3) this] assms(4) show ?thesis by (auto simp: pool_ok_def store_ok_def jobs_ok_def)
qed

end

section \<open>A worker left alone finishes its job\<close>

text \<open>The in-flight gauge counts the workers that hold an item, in every schedule.\<close>

lemma worker_step_gauge:
  "worker_step S env w p = (w', p') \<Longrightarrow>
   inFlight (pMetrics p') + gauge [w] = inFlight (pMetrics p) + gauge [w']"
  by (cases w) (auto simp: gauge_def pool_updates split: sum.splits prod.splits if_splits option.splits)

lemma gauge_append: "gauge (xs @ ys) = gauge xs + gauge ys"
  by (simp add: gauge_def)

lemma gauge_update: "i < length ws \<Longrightarrow> gauge (ws[i := w]) + gauge [ws ! i] = gauge ws + gauge [w]"
proof -
  assume "i < length ws"
  then have "ws = take i ws @ [ws ! i] @ drop (Suc i) ws" "ws[i := w] = take i ws @ [w] @ drop (Suc i) ws"
    by (simp_all add: id_take_nth_drop [symmetric] upd_conv_take_nth_drop)
  then have "gauge ws = gauge (take i ws) + (gauge [ws ! i] + gauge (drop (Suc i) ws))"
    "gauge (ws[i := w]) = gauge (take i ws) + (gauge [w] + gauge (drop (Suc i) ws))"
    by (metis gauge_append)+
  then show ?thesis by simp
qed

lemma exec_gauge:
  assumes "exec S a p = Some p'" and "inFlight (pMetrics p) = gauge (pWorkers p)"
    and "\<not> pStarted p \<longrightarrow> pWorkers p = []"
  shows "inFlight (pMetrics p') = gauge (pWorkers p') \<and> (\<not> pStarted p' \<longrightarrow> pWorkers p' = [])"
proof (cases a)
  case (AWork i env)
  from assms(1) [unfolded AWork] obtain w' p1 where i: "i < length (pWorkers p)" and step: "worker_step S env (pWorkers p ! i) p = (w', p1)"
    and p': "p' = p1\<lparr>pWorkers := (pWorkers p1)[i := w']\<rparr>" by (rule exec_workE)
  have "pWorkers p1 = pWorkers p \<and> pStarted p1 = pStarted p"
    using step by (cases "pWorkers p ! i")
      (auto simp: pool_updates split: sum.splits prod.splits if_splits option.splits)
  then show ?thesis
    using worker_step_gauge [OF step] gauge_update [OF i, of w'] assms(2,3) by (auto simp: p')
next
  case (ATake i)
  with assms show ?thesis
    using gauge_update [of i "pWorkers p"] by (auto simp: gauge_def split: if_splits list.splits)
next
  case (AExit i)
  with assms show ?thesis
    using gauge_update [of i "pWorkers p" WExit] by (auto simp: gauge_def split: if_splits)
next
  case ASweep
  with assms show ?thesis
    by (auto simp: sweep_step_def pool_updates split: if_splits sweep.splits sum.splits prod.splits list.splits)
next
  case ASweepStop
  with assms show ?thesis by (auto simp: sweep_stop_def split: if_splits sweep.splits list.splits)
next
  case AStart
  with assms show ?thesis by (auto simp: Start_def gauge_def count_if_zero split: if_splits)
qed (use assms in \<open>auto simp: Stop_def Notify_def restart_def newMetrics_def gauge_def Enqueue_def Let_def
      split: if_splits sum.splits prod.splits\<close>)

lemma reach_gauge:
  assumes "reach S E (newPool s n buf src) p"
  shows "inFlight (pMetrics p) = gauge (pWorkers p)"
proof -
  from assms have "inFlight (pMetrics p) = gauge (pWorkers p) \<and> (\<not> pStarted p \<longrightarrow> pWorkers p = [])"
    by induction (auto simp: newPool_def newMetrics_def gauge_def dest!: exec_gauge)
  then show ?thesis ..
qed

fun run_worker :: "'s JobStore \<Rightarrow> (nat \<Rightarrow> env) \<Rightarrow> nat \<Rightarrow> pc \<times> 's pool \<Rightarrow> pc \<times> 's pool" where
  "run_worker S env 0 c = c"
| "run_worker S env (Suc n) c = run_worker S (\<lambda>i. env (Suc i)) n (worker_step S (env 0) (fst c) (snd c))"

lemma run_worker_add: "run_worker S env (m + n) c = run_worker S (\<lambda>i. env (m + i)) n (run_worker S env m c)"
  by (induction m arbitrary: env c) simp_all

text \<open>A view whose counters are exact and whose only unfinished items are pending.\<close>

definition exact :: "job_view \<Rightarrow> bool" where
  "exact v \<longleftrightarrow> vDone v = n_status Done v \<and> vFailed v = n_status Failed v \<and> vTotal v = int (length (vItems v))
     \<and> distinct (map item_key (vItems v))"

lemma prefix_keys: "distinct (map item_key (xs @ (it, st) # ys)) \<Longrightarrow> x \<in> set xs \<Longrightarrow> item_key x \<noteq> iKey it"
proof -
  assume d: "distinct (map item_key (xs @ (it, st) # ys))" and x: "x \<in> set xs"
  have "iKey it \<notin> item_key ` set xs" using d by (auto simp: item_key_def)
  with x show ?thesis by (metis imageI)
qed

lemma mark_at:
  assumes "distinct (map item_key (vItems v))" "vItems v = xs @ (it, st) # ys" "\<not> item_terminal st"
  shows "vItems (mark (iKey it) r v) = xs @ (it, outcome r) # ys"
    "vDone (mark (iKey it) r v) = vDone v + (if r = None then 1 else 0)"
    "vFailed (mark (iKey it) r v) = vFailed v + (if r = None then 0 else 1)"
proof -
  note no = prefix_keys [OF assms(1) [unfolded assms(2)]]
  have f: "find (\<lambda>p. item_key p = iKey it) (vItems v) = Some (it, st)"
    unfolding assms(2) by (rule find_at) (auto simp: no, simp add: item_key_def)
  have u: "update_first (\<lambda>p. item_key p = iKey it) (\<lambda>(it, _). (it, outcome r)) (vItems v) = xs @ (it, outcome r) # ys"
    unfolding assms(2) by (subst update_first_at) (auto simp: no, simp_all add: item_key_def)
  have m: "mark (iKey it) r v = bump (item_error (iKey it) r) (set_status (iKey it) (outcome r) v)"
    using f assms(3) by (simp add: mark_def)
  show "vItems (mark (iKey it) r v) = xs @ (it, outcome r) # ys"
    "vDone (mark (iKey it) r v) = vDone v + (if r = None then 1 else 0)"
    "vFailed (mark (iKey it) r v) = vFailed v + (if r = None then 0 else 1)"
    using u by (simp_all add: m set_status_def) (simp_all add: bump_def item_error_def split: option.splits)
qed

lemma set_track_at:
  assumes "distinct (map item_key (vItems v))" "vItems v = xs @ (it, st) # ys"
  shows "set_track (iKey it) t v = v\<lparr>vItems := xs @ (it\<lparr>iTrackID := t\<rparr>, st) # ys\<rparr>"
proof -
  note no = prefix_keys [OF assms(1) [unfolded assms(2)]]
  have "update_first (\<lambda>p. item_key p = iKey it) (\<lambda>(it, st). (it\<lparr>iTrackID := t\<rparr>, st)) (vItems v) =
      xs @ (it\<lparr>iTrackID := t\<rparr>, st) # ys"
    unfolding assms(2) by (subst update_first_at) (auto simp: no, simp_all add: item_key_def)
  then show ?thesis by (simp add: set_track_def)
qed

text \<open>The whole pass of one item over the view: claimed, perhaps tracked, marked.\<close>

lemma item_pass:
  assumes v: "exact v" "n_status Running v = 0" "claims it v v1"
    and v2: "v2 = v1 \<or> v2 = set_track (iKey it) t v1"
  shows "exact (mark (iKey it) r v2) \<and> n_status Running (mark (iKey it) r v2) = 0
    \<and> n_status Pending (mark (iKey it) r v2) = n_status Pending v - 1
    \<and> vStatus (mark (iKey it) r v2) = vStatus v \<and> length (vItems (mark (iKey it) r v2)) = length (vItems v)"
proof -
  obtain xs ys where xs: "vItems v = xs @ (it, Pending) # ys" "v1 = v\<lparr>vItems := xs @ (it, Running) # ys\<rparr>"
    using v(3) by (auto simp: claims_def)
  have d1: "distinct (map item_key (vItems v1))" using v claims_fields [OF v(3)] by (simp add: exact_def)
  obtain it' where v2': "vItems v2 = xs @ (it', Running) # ys" "iKey it' = iKey it"
    "vDone v2 = vDone v" "vFailed v2 = vFailed v" "vTotal v2 = vTotal v" "vStatus v2 = vStatus v"
    using v2 xs set_track_at [OF d1, of xs it Running ys t] by auto
  have d2: "distinct (map item_key (vItems v2))" using v2 d1 by auto
  note m = mark_at [OF d2 v2'(1), of r, unfolded v2'(2)]
  let ?m = "mark (iKey it) r v2"
  have n: "n_status st ?m = n_status st v + (if outcome r = st then 1 else 0) - (if st = Pending then 1 else 0)" for st
    using m(1) xs(1) by (auto simp: n_status_split)
  have "map item_key (vItems ?m) = map item_key (vItems v)"
    using v2 claims_fields(7) [OF v(3)] by auto
  moreover have "vTotal ?m = vTotal v" "vStatus ?m = vStatus v" using v2' by simp_all
  moreover have "length (vItems ?m) = length (vItems v)" using m(1) xs(1) by simp
  ultimately show ?thesis
    using v(1,2) m(2,3) n v2'(3,4) by (auto simp: exact_def outcome_def)
qed

text \<open>
  A store in a state \<open>live\<close> answers every call about a job it has and every reset of the running
  items, and a claim finds a pending item whenever there is one.
\<close>

locale reliable_store = job_store S inv jobs_of
  for S :: "'s JobStore" and inv :: "'s \<Rightarrow> bool" and jobs_of :: "'s \<Rightarrow> jobs" +
  fixes live :: "'s \<Rightarrow> bool"
  assumes live_get: "live s \<Longrightarrow> inv s \<Longrightarrow> jobs_of s k = Some v \<Longrightarrow>
      \<exists>j s'. GetJob S k s = (Inr j, s') \<and> live s'"
    and live_update: "live s \<Longrightarrow> inv s \<Longrightarrow> jobs_of s (jID j) = Some v \<Longrightarrow>
      \<exists>s'. UpdateJob S now j s = (Inr (), s') \<and> live s'"
    and live_claim: "live s \<Longrightarrow> inv s \<Longrightarrow> jobs_of s k = Some v \<Longrightarrow>
      \<exists>r s'. ClaimNextItem S k s = (Inr r, s') \<and> live s' \<and> (r = None \<longrightarrow> n_status Pending v = 0)"
    and live_track: "live s \<Longrightarrow> inv s \<Longrightarrow> jobs_of s k = Some v \<Longrightarrow>
      \<exists>s'. SetItemTrackID S k key t s = (Inr (), s') \<and> live s'"
    and live_mark: "live s \<Longrightarrow> inv s \<Longrightarrow> jobs_of s k = Some v \<Longrightarrow>
      \<exists>s'. MarkItemDoneAndProgress S now k key r s = (Inr (), s') \<and> live s'"
    and live_reset: "live s \<Longrightarrow> inv s \<Longrightarrow> \<exists>n s'. ResetRunningItems S s = (Inr n, s') \<and> live s'"
begin

definition sees :: "'s pool \<Rightarrow> string \<Rightarrow> job_view \<Rightarrow> bool" where
  "sees p k v \<longleftrightarrow> live (pStore p) \<and> inv (pStore p) \<and> \<not> pStopped p \<and> jobs_of (pStore p) k = Some v"

lemma sees_I: "live s \<Longrightarrow> inv s \<Longrightarrow> \<not> pStopped p' \<Longrightarrow> pStore p' = s \<Longrightarrow> jobs_of s k = Some v \<Longrightarrow> sees p' k v"
  by (simp add: sees_def)

lemma get_sees:
  assumes "sees p k v"
  obtains j s where "GetJob S k (pStore p) = (Inr j, s)" "sees (p\<lparr>pStore := s\<rparr>) k v"
    "v = view_of j (vItems v)" "jID j = k"
proof -
  obtain j s where g: "GetJob S k (pStore p) = (Inr j, s)" "live s"
    using assms live_get [of "pStore p" k v] by (auto simp: sees_def)
  with assms get_ok [of "pStore p" k j s] show thesis by (auto simp: sees_def intro!: that)
qed

lemma update_sees:
  assumes "sees p (jID j) v"
  obtains s where "UpdateJob S now j (pStore p) = (Inr (), s)" "sees (p\<lparr>pStore := s\<rparr>) (jID j) (view_of j (vItems v))"
proof -
  obtain s where u: "UpdateJob S now j (pStore p) = (Inr (), s)" "live s"
    using assms live_update [of "pStore p" j v now] by (auto simp: sees_def)
  with assms update_ok [of "pStore p" now j s] show thesis by (auto simp: sees_def intro!: that)
qed

lemma mark_sees:
  assumes "sees p k v"
  obtains s where "MarkItemDoneAndProgress S now k key r (pStore p) = (Inr (), s)" "sees (p\<lparr>pStore := s\<rparr>) k (mark key r v)"
proof -
  obtain s where m: "MarkItemDoneAndProgress S now k key r (pStore p) = (Inr (), s)" "live s"
    using assms live_mark by (fastforce simp: sees_def)
  with assms mark_ok [OF _ m(1)] show thesis by (auto simp: sees_def on_job_def intro!: that)
qed

lemma track_sees:
  assumes "sees p k v"
  obtains s where "SetItemTrackID S k key t (pStore p) = (Inr (), s)" "sees (p\<lparr>pStore := s\<rparr>) k (set_track key t v)"
proof -
  obtain s where m: "SetItemTrackID S k key t (pStore p) = (Inr (), s)" "live s"
    using assms live_track by (fastforce simp: sees_def)
  with assms track_ok [OF _ m(1)] show thesis by (auto simp: sees_def on_job_def intro!: that)
qed

lemma sees_gauges [simp]:
  "sees (incInFlight n p) = sees p" "sees (observeItem x p) = sees p"
  by (auto simp: sees_def pool_updates fun_eq_iff)

text \<open>From a claimed item to its mark takes at most three steps, which set its track at most.\<close>

lemma item_to_mark:
  assumes "sees p k v"
  obtains m r p' v' t where "m \<le> 3" "run_worker S env m (WItem k it, p) = (WMark k (iKey it) r, p')" "sees p' k v'"
    "v' = v \<or> v' = set_track (iKey it) t v"
proof (cases "iTrackID it = ''''")
  case False
  have "run_worker S env 2 (WItem k it, p) = (WMark k (iKey it) None, snd (worker_step S (env 1) (WSource k it) p))"
    using False by (simp add: numeral_2_eq_2)
  moreover have "sees (snd (worker_step S (env 1) (WSource k it) p)) k v" using assms by (auto simp: sees_def pool_updates)
  ultimately show thesis by (intro that [of 2]) auto
next
  case True
  show thesis
  proof (cases "eCreate (env 0)")
    case (Inl e)
    then have "run_worker S env 1 (WItem k it, p) = (WMark k (iKey it) (Some e), p)" using True by simp
    with assms show thesis by (intro that [of 1]) auto
  next
    case (Inr m)
    obtain s where s: "SetItemTrackID S k (iKey it) (mID m) (pStore p) = (Inr (), s)" "sees (p\<lparr>pStore := s\<rparr>) k (set_track (iKey it) (mID m) v)"
      using track_sees [OF assms] by blast
    define p' where "p' = snd (worker_step S (env 2) (WSource k (it\<lparr>iTrackID := mID m\<rparr>)) (p\<lparr>pStore := s\<rparr>))"
    have "run_worker S env 3 (WItem k it, p) = (WMark k (iKey it) None, p')"
      using True Inr s(1) by (simp add: eval_nat_numeral p'_def)
    moreover have "sees p' k (set_track (iKey it) (mID m) v)" using s(2) by (auto simp: sees_def p'_def pool_updates)
    ultimately show thesis by (intro that [of 3]) auto
  qed
qed

text \<open>From the claim of an item to the next visit of the loop head takes at most four more steps.\<close>

lemma item_steps:
  assumes at: "sees p k v" and v: "exact v" "n_status Running v = 0"
    and claim: "ClaimNextItem S k (pStore p) = (Inr (Some it), s)" "live s"
  obtains n p' v' where "n \<le> 5" "run_worker S env n (WLoop k, p) = (WLoop k, p')" "sees p' k v'" "exact v'"
    "n_status Running v' = 0" "n_status Pending v' = n_status Pending v - 1" "vStatus v' = vStatus v"
proof -
  obtain v1 where s: "inv s" "jobs_of s k = Some v1" and c: "claims it v v1"
    using at claim claim_some [of "pStore p" k it s] by (auto simp: sees_def)
  define p1 where "p1 = incInFlight 1 (p\<lparr>pStore := s\<rparr>)"
  have "sees p1 k v1" using at s claim(2) by (auto simp: p1_def sees_def)
  then obtain m r p2 v2 t where m: "m \<le> 3" "run_worker S (\<lambda>i. env (i + 1)) m (WItem k it, p1) = (WMark k (iKey it) r, p2)"
    and p2: "sees p2 k v2" "v2 = v1 \<or> v2 = set_track (iKey it) t v1"
    by (rule item_to_mark)
  obtain s3 where mk: "MarkItemDoneAndProgress S (eNow (env (m + 1))) k (iKey it) r (pStore p2) = (Inr (), s3)"
    "sees (p2\<lparr>pStore := s3\<rparr>) k (mark (iKey it) r v2)" using mark_sees [OF p2(1)] by blast
  let ?p3 = "observeItem (itemResult r) (incInFlight (- 1) (p2\<lparr>pStore := s3\<rparr>))"
  have "run_worker S env 1 (WLoop k, p) = (WItem k it, p1)" using at claim(1) by (simp add: sees_def p1_def)
  then have "run_worker S env (1 + m) (WLoop k, p) = (WMark k (iKey it) r, p2)"
    unfolding run_worker_add using m(2) by (simp add: add.commute)
  then have run: "run_worker S env (1 + m + 1) (WLoop k, p) = (WLoop k, ?p3)"
    unfolding run_worker_add [of _ _ "1 + m" 1] using mk(1) by simp
  show thesis by (rule that [OF _ run, of "mark (iKey it) r v2"]) (use m(1) mk(2) item_pass [OF v c p2(2), of r] in auto)
qed

text \<open>At the loop head: every pending item is processed, then the job is finalised.\<close>

lemma finish_steps:
  assumes sees: "sees p k v" and v: "exact v" "n_status Running v = 0" "n_status Pending v = 0" "\<not> Terminal (vStatus v)"
    and none: "ClaimNextItem S k (pStore p) = (Inr None, s)" "live s"
  obtains p' v' where "run_worker S env 3 (WLoop k, p) = (WIdle, p')" "sees p' k v'" "Terminal (vStatus v')"
    "exact v'" "items_terminal v'"
proof -
  define p1 where "p1 = p\<lparr>pStore := s\<rparr>"
  have p1: "sees p1 k v" using sees none claim_none [of "pStore p" k s] by (auto simp: sees_def p1_def)
  obtain j s2 where g: "GetJob S k (pStore p1) = (Inr j, s2)" "sees (p1\<lparr>pStore := s2\<rparr>) k v"
    "v = view_of j (vItems v)" "jID j = k" by (rule get_sees [OF p1])
  have j: "jStatus j = vStatus v" "jDone j = vDone v" "jFailed j = vFailed v" "jTotal j = vTotal v"
    using g(3) by (metis view_of_simps)+
  have all: "\<not> jDone j + jFailed j < jTotal j"
    using v n_status_total [of v] by (simp add: j exact_def)
  define j' where "j' = j\<lparr>jStatus := final_status j, jUpdatedAt := eNow (env 1)\<rparr>"
  define p2 where "p2 = incJob (final_status j) (p1\<lparr>pStore := s2\<rparr>)"
  have p2: "sees p2 (jID j') v" using g(2,4) by (simp add: p2_def sees_def pool_updates j'_def)
  obtain s3 where u: "UpdateJob S (eNow (env 2)) j' (pStore p2) = (Inr (), s3)"
    "sees (p2\<lparr>pStore := s3\<rparr>) (jID j') (view_of j' (vItems v))" by (rule update_sees [OF p2])
  have "run_worker S env 3 (WLoop k, p) = (WIdle, p2\<lparr>pStore := s3\<rparr>)"
  proof -
    have "worker_step S (env 0) (WLoop k) p = (WFin k, p1)" using sees none(1) by (simp add: sees_def p1_def)
    moreover have "worker_step S (env 1) (WFin k) p1 = (WFinUpd j', p2)"
      using g(1) all v(4) by (simp add: j(1) j'_def p2_def)
    moreover have "worker_step S (env 2) (WFinUpd j') p2 = (WIdle, p2\<lparr>pStore := s3\<rparr>)" using u(1) by simp
    ultimately show ?thesis by (simp add: numeral_3_eq_3 numeral_2_eq_2 del: worker_step.simps)
  qed
  moreover have "Terminal (vStatus (view_of j' (vItems v)))" by (simp add: j'_def final_status_def)
  moreover have "n_status st (view_of j' (vItems v)) = n_status st v" for st by (simp add: n_status_def)
  then have "exact (view_of j' (vItems v))" "items_terminal (view_of j' (vItems v))"
    using v by (simp_all add: exact_def j'_def j items_terminal_iff)
  ultimately show thesis using u(2) g(4) by (intro that) (auto simp: j'_def)
qed

lemma loop_finishes:
  assumes "sees p k v" "exact v" "n_status Running v = 0" "\<not> Terminal (vStatus v)"
  shows "\<exists>n p' v'. n \<le> 5 * nat (n_status Pending v) + 3 \<and> run_worker S env n (WLoop k, p) = (WIdle, p') \<and>
    sees p' k v' \<and> Terminal (vStatus v') \<and> exact v' \<and> items_terminal v'"
  using assms
proof (induction "nat (n_status Pending v)" arbitrary: p v env)
  case 0
  then obtain r s where c: "ClaimNextItem S k (pStore p) = (Inr r, s)" "live s" "r = None \<longrightarrow> n_status Pending v = 0"
    using live_claim [of "pStore p" k v] by (auto simp: sees_def)
  have zero: "n_status Pending v = 0" using 0(1) n_status_nonneg [of Pending v] by simp
  have "r = None"
  proof (cases r)
    case (Some it)
    then show ?thesis
      using c(1,2) item_steps [OF 0(2,3,4), of it s env] zero n_status_nonneg by (metis add_diff_cancel diff_0 neg_0_le_iff_le not_one_le_zero)
  qed simp
  with finish_steps [OF 0(2,3,4) zero 0(5), of s env] c(1,2) show ?case by (metis add.commute le_add1)
next
  case (Suc m)
  obtain r s where c: "ClaimNextItem S k (pStore p) = (Inr r, s)" "live s" "r = None \<longrightarrow> n_status Pending v = 0"
    using live_claim [of "pStore p" k v] Suc.prems(1) by (auto simp: sees_def)
  then obtain it where it: "r = Some it" using Suc.hyps(2) by (cases r) auto
  obtain n p1 v1 where n: "n \<le> 5" "run_worker S env n (WLoop k, p) = (WLoop k, p1)" "sees p1 k v1" "exact v1"
    "n_status Running v1 = 0" "n_status Pending v1 = n_status Pending v - 1" "vStatus v1 = vStatus v"
    using item_steps [OF Suc.prems(1,2,3) c(1) [unfolded it] c(2), of env] by blast
  have m: "m = nat (n_status Pending v1)" using Suc.hyps(2) n(6) by simp
  obtain n' p' v' where n': "n' \<le> 5 * nat (n_status Pending v1) + 3"
    "run_worker S (\<lambda>i. env (n + i)) n' (WLoop k, p1) = (WIdle, p')"
    "sees p' k v'" "Terminal (vStatus v')" "exact v'" "items_terminal v'"
    using Suc.hyps(1) [OF m n(3,4,5), of "\<lambda>i. env (n + i)"] Suc.prems(4) n(7) by auto
  have "n + n' \<le> 5 * nat (n_status Pending v) + 3" using n(1) n'(1) Suc.hyps(2) m by simp
  moreover have "run_worker S env (n + n') (WLoop k, p) = (WIdle, p')" by (simp add: run_worker_add n(2) n'(2))
  ultimately show ?case using n'(3-6) by blast
qed

text \<open>A whole \<^verbatim>\<open>runJob\<close>, from its notification.\<close>

lemma run_job_finishes:
  assumes sees: "sees p k v" and v: "exact v" "n_status Running v = 0" "\<not> Terminal (vStatus v)"
  shows "\<exists>n p' v'. n \<le> 5 * nat (n_status Pending v) + 5 \<and> run_worker S env n (WGet k, p) = (WIdle, p') \<and>
    jobs_of (pStore p') k = Some v' \<and> Terminal (vStatus v') \<and> exact v' \<and> items_terminal v'"
proof -
  obtain j s where g: "GetJob S k (pStore p) = (Inr j, s)" "sees (p\<lparr>pStore := s\<rparr>) k v"
    "v = view_of j (vItems v)" "jID j = k" by (rule get_sees [OF sees])
  have st: "jStatus j = vStatus v" using g(3) by (metis view_of_simps(1))
  have "\<exists>m p1 v1. m \<le> 2 \<and> run_worker S env m (WGet k, p) = (WLoop k, p1) \<and> sees p1 k v1 \<and> exact v1
    \<and> n_status Running v1 = 0 \<and> n_status Pending v1 = n_status Pending v \<and> \<not> Terminal (vStatus v1)"
  proof (cases "vStatus v = JobStatusQueued")
    case False
    then have "run_worker S env 1 (WGet k, p) = (WLoop k, p\<lparr>pStore := s\<rparr>)" using g(1) v(3) st by simp
    with g(2) v show ?thesis by (intro exI [of _ 1]) auto
  next
    case True
    define j' where "j' = j\<lparr>jStatus := JobStatusRunning, jUpdatedAt := eNow (env 0)\<rparr>"
    have k: "jID j' = k" using g(4) by (simp add: j'_def)
    obtain s2 where u: "UpdateJob S (eNow (env 1)) j' s = (Inr (), s2)"
      "sees (p\<lparr>pStore := s2\<rparr>) k (view_of j' (vItems v))"
      using update_sees [of "p\<lparr>pStore := s\<rparr>" j' v] g(2) k by (metis pool.select_convs(1) pool.surjective pool.update_convs(1))
    have "run_worker S env 2 (WGet k, p) = (WLoop k, p\<lparr>pStore := s2\<rparr>)"
      using g(1) st True u(1) k by (simp add: numeral_2_eq_2 j'_def)
    moreover have "n_status st (view_of j' (vItems v)) = n_status st v" for st by (simp add: n_status_def)
    moreover have "jDone j = vDone v" "jFailed j = vFailed v" "jTotal j = vTotal v" using g(3) by (metis view_of_simps)+
    ultimately show ?thesis using u(2) v by (intro exI [of _ 2]) (auto simp: exact_def j'_def)
  qed
  then obtain m p1 v1 where m: "m \<le> 2" "run_worker S env m (WGet k, p) = (WLoop k, p1)" "sees p1 k v1" "exact v1"
    "n_status Running v1 = 0" "n_status Pending v1 = n_status Pending v" "\<not> Terminal (vStatus v1)" by blast
  obtain n p' v' where n: "n \<le> 5 * nat (n_status Pending v1) + 3"
    "run_worker S (\<lambda>i. env (m + i)) n (WLoop k, p1) = (WIdle, p')"
    "sees p' k v'" "Terminal (vStatus v')" "exact v'" "items_terminal v'"
    using loop_finishes [OF m(3,4,5,7), of "\<lambda>i. env (m + i)"] by blast
  have "run_worker S env (m + n) (WGet k, p) = (WIdle, p')" by (simp add: run_worker_add m(2) n(2))
  moreover have "m + n \<le> 5 * nat (n_status Pending v) + 5" using m(1,6) n(1) by simp
  ultimately show ?thesis using n(3-6) by (auto simp: sees_def)
qed

text \<open>The same after the first step of a sweep, for a job that may have items left running.\<close>

lemma swept_job_finishes:
  assumes sees: "sees p k v" and v: "exact v" "Unfinished (vStatus v)" and p: "pStarted p" "pSweep p = SIdle"
  shows "\<exists>p0 n p' v'. exec S ASweep p = Some p0 \<and> n \<le> 5 * nat (n_status Pending v + n_status Running v) + 5 \<and>
    run_worker S env n (WGet k, p0) = (WIdle, p') \<and>
    jobs_of (pStore p') k = Some v' \<and> Terminal (vStatus v') \<and> exact v' \<and> items_terminal v'"
proof -
  obtain m s' where r: "ResetRunningItems S (pStore p) = (Inr m, s')" "live s'"
    using sees live_reset [of "pStore p"] by (auto simp: sees_def)
  let ?p = "p\<lparr>pStore := s', pSweep := SList\<rparr>"
  have x: "exec S ASweep p = Some ?p" using p r(1) by (simp add: sweep_step_def)
  have s: "sees ?p k (reset_view v)"
    using sees r reset_ok [of "pStore p" m s'] by (simp add: sees_def)
  have e: "exact (reset_view v)" using v(1) by (simp add: exact_def)
  show ?thesis
    using run_job_finishes [OF s e reset_running [OF v(2)], of env] x v(2)
    by (simp add: reset_pending Unfinished_not_Terminal)
qed

end

section \<open>Both stores\<close>

text \<open>Between its calls the database may change which rows are locked and how calls will go.\<close>

definition pg_env :: "pg_conn \<Rightarrow> pg_conn \<Rightarrow> bool" where
  "pg_env c c' \<longleftrightarrow> (\<exists>l. tables c' = (tables c)\<lparr>locked_items := l\<rparr>)"

lemma db_jobs_locked [simp]: "db_jobs (d\<lparr>locked_items := l\<rparr>) = db_jobs d"
proof -
  have "row_view (d\<lparr>locked_items := l\<rparr>) = row_view d" by (rule ext) (simp add: row_view_def job_items_def)
  then show ?thesis by (simp add: db_jobs_def [abs_def])
qed

lemma db_inv_locked [simp]: "db_inv (d\<lparr>locked_items := l\<rparr>) = db_inv d"
  by (simp add: db_inv_def)

interpretation mem_pool: pool_store MemStore_ops mem_inv mem_jobs "\<lambda>s s'. s' = s"
  by unfold_locales simp

interpretation pg_pool: pool_store "PGStore_ops newItemID" pg_inv pg_jobs pg_env for newItemID
  by unfold_locales (auto simp: pg_env_def pg_inv_def pg_jobs_def)

interpretation mem_live: reliable_store MemStore_ops mem_inv mem_jobs "\<lambda>s. True"
proof (unfold_locales, goal_cases)
  case (3 s k v)
  then obtain b where b: "map_of s k = Some b" "v = mem_view b" by (auto simp: mem_jobs_Some)
  have "n_status Pending v = 0" if "find (\<lambda>it. miStatus it = Pending) (mbItems b) = None"
    using that by (auto simp: b n_status_zero find_None_iff mem_view_def mem_item_view_def)
  with b show ?case by (auto simp: mem_ops split: option.splits)
next
  case (5 s k v now key r)
  then show ?case by (auto simp: mem_ops mem_jobs_Some split: option.splits)
qed (auto simp: mem_ops mem_jobs_Some)

definition pg_live :: "pg_conn \<Rightarrow> bool" where
  "pg_live c \<longleftrightarrow> healthy c \<and> locked_items (tables c) = []"

lemma pg_live_tables: "pg_live c \<Longrightarrow> locked_items d = [] \<Longrightarrow> pg_live (c\<lparr>tables := d\<rparr>)"
  by (simp add: pg_live_def)

lemma pg_jobs_row: "pg_jobs c k = Some v \<Longrightarrow>
    \<exists>r. find (\<lambda>r. rjID r = k) (ingest_jobs (tables c)) = Some r \<and> v = row_view (tables c) r"
  by (auto simp: pg_jobs_def db_jobs_def)

lemma live_row_count: "find (\<lambda>r. rjID r = k) xs = Some r \<Longrightarrow> count_if (\<lambda>r. rjID r = k) xs \<noteq> 0"
  by (auto simp: count_if_zero dest!: find_SomeD)

lemma pg_live_get:
  assumes "pg_live c" "pg_inv c" "pg_jobs c k = Some v"
  shows "\<exists>j c'. PG_GetJob k c = (Inr j, c') \<and> pg_live c'"
proof -
  obtain r where r: "find (\<lambda>r. rjID r = k) (ingest_jobs (tables c)) = Some r" using pg_jobs_row [OF assms(3)] by blast
  then obtain es where "rjErrorsJSON r = Some es"
    using assms(2) find_SomeD [OF r] by (auto simp: pg_inv_def db_inv_def)
  with r assms(1) show ?thesis
    by (simp add: PG_GetJob_def bindE_def mapErr_def query_row_def returnE_def pg_live_def)
qed

lemma pg_live_claim:
  assumes "pg_live c" "pg_inv c" "pg_jobs c k = Some v"
  shows "\<exists>r c'. PG_ClaimNextItem k c = (Inr r, c') \<and> pg_live c' \<and> (r = None \<longrightarrow> n_status Pending v = 0)"
proof (cases "claimable k (tables c)")
  case Nil
  obtain r where r: "find (\<lambda>r. rjID r = k) (ingest_jobs (tables c)) = Some r" "v = row_view (tables c) r"
    using pg_jobs_row [OF assms(3)] by blast
  have "set (claimable k (tables c)) = {}" using Nil by simp
  then have "n_status Pending v = 0"
    using assms(1) find_SomeD [OF r(1)]
    by (auto simp: n_status_zero r(2) row_view_def job_items_def row_item_def claimable_def pg_live_def)
  with Nil assms(1) show ?thesis
    by (simp add: PG_ClaimNextItem_def with_tx_healthy bindE_def mapErr_def returnE_def pg_live_def)
next
  case (Cons r rs)
  with assms(1) show ?thesis
    by (simp add: PG_ClaimNextItem_def with_tx_healthy bindE_def mapErr_def returnE_def pg_live_def update_items_def)
qed

lemma pg_live_mark:
  assumes "pg_live c" "pg_inv c" "pg_jobs c k = Some v"
  shows "\<exists>c'. PG_MarkItemDoneAndProgress now k key r c = (Inr (), c') \<and> pg_live c'"
proof -
  obtain row where row: "find (\<lambda>r. rjID r = k) (ingest_jobs (tables c)) = Some row" using pg_jobs_row [OF assms(3)] by blast
  with assms(1) show ?thesis
    by (cases r) (auto simp: PG_MarkItemDoneAndProgress_def with_tx_healthy bindE_def mapErr_def pg_live_def
        update_items_def bump_done_def update_jobs_def bump_failed_def query_row_def Let_def)
qed

interpretation pg_live: reliable_store "PGStore_ops newItemID" pg_inv pg_jobs pg_live for newItemID
proof (unfold_locales, goal_cases)
  case (2 s j v now)
  then obtain r where "find (\<lambda>r. rjID r = jID j) (ingest_jobs (tables s)) = Some r" using pg_jobs_row by blast
  from live_row_count [OF this] 2 show ?case
    by (simp add: PGStore_ops_def PG_UpdateJob_def bindE_def mapErr_def update_jobs_def returnE_def pg_live_def)
next
  case (4 s k v key t)
  then show ?case
    by (simp add: PGStore_ops_def PG_SetItemTrackID_def bindE_def mapErr_def update_items_def returnE_def pg_live_def)
next
  case (6 s)
  then show ?case by (simp add: PGStore_ops_def PG_ResetRunningItems_def mapErr_def db_exec_healthy Let_def pg_live_def)
qed (simp_all add: PGStore_ops_def pg_live_get pg_live_claim pg_live_mark)

end
