(* ===== verification/Ingest_Correct.thy ===== *)
theory Ingest_Correct
  imports Ingest_Pool
begin

text \<open>
  The correctness of the ingest queue on the PostgreSQL store, for every schedule of workers,
  sweeper, clients, restarts and database failures, and what a stale snapshot can do to a job.
\<close>

definition empty_pg :: "err option list \<Rightarrow> pg_conn" where
  "empty_pg sc = \<lparr>tables = \<lparr>ingest_jobs = [], ingest_job_items = [], locked_items = []\<rparr>, script = sc\<rparr>"

lemma empty_pg_ok [simp]: "pg_inv (empty_pg sc)" "pg_jobs (empty_pg sc) = Map.empty"
  by (auto simp: pg_inv_def db_inv_def empty_pg_def pg_jobs_def db_jobs_def)

section \<open>A concrete run\<close>

definition item_a :: IngestItem where
  "item_a = \<lparr>iKey = ''a'', iText = ''hello'', iMetadata = Map.empty, iTrackID = ''''\<rparr>"

definition env_ok :: env where
  "env_ok = \<lparr>eNow = 1, eCreate = Inr \<lparr>mID = ''t1'', mText = ''hello'', mMetadata = Map.empty, mCreatedAt = 1\<rparr>, eAdd = None\<rparr>"

definition ids0 :: "string \<Rightarrow> nat \<Rightarrow> string" where
  "ids0 k i = k @ dec i"

definition run_one :: "action list" where
  "run_one = [AStart, AEnqueue (\<lambda>i. ''k'') ''j1'' 1 [item_a], ATake 0] @ replicate 10 (AWork 0 env_ok)"

lemma run_one_pg:
  "map_option (\<lambda>p. (map_option vStatus (pg_jobs (pStore p) ''j1''), list_all idle (pWorkers p)))
     (run_schedule (PGStore_ops ids0) run_one (newPool (empty_pg []) 1 8 False)) =
   Some (Some JobStatusSucceeded, True)"
  by code_simp

definition final_pool :: "pg_conn pool" where
  "final_pool = the (run_schedule (PGStore_ops ids0) run_one (newPool (empty_pg []) 1 8 False))"

lemma final_pool_reach: "reach (PGStore_ops ids0) pg_env (newPool (empty_pg []) 1 8 False) final_pool"
  and final_pool_status: "map_option vStatus (pg_jobs (pStore final_pool) ''j1'') = Some JobStatusSucceeded"
proof -
  obtain q where q: "run_schedule (PGStore_ops ids0) run_one (newPool (empty_pg []) 1 8 False) = Some q"
    "map_option vStatus (pg_jobs (pStore q) ''j1'') = Some JobStatusSucceeded"
    using run_one_pg by auto
  then show "reach (PGStore_ops ids0) pg_env (newPool (empty_pg []) 1 8 False) final_pool"
    and "map_option vStatus (pg_jobs (pStore final_pool) ''j1'') = Some JobStatusSucceeded"
    by (auto simp: final_pool_def intro: reach_schedule reach.init)
qed

section \<open>Every schedule\<close>

text \<open>
  C1: in every state any schedule reaches (any number of workers, duplicate notifications,
  sweeps during work, restarts, failing database calls), a job with a terminal status has all its
  items terminal, counters equal to the true numbers of done and failed items, and the status
  those numbers call for: succeeded iff none failed, failed iff none is done and some failed.
\<close>

theorem pool_terminal_exact:
  assumes "reach (PGStore_ops newItemID) pg_env (newPool (empty_pg sc) n buf src) p"
    and "pg_jobs (pStore p) k = Some v" and "Terminal (vStatus v)"
  shows "items_terminal v \<and> vDone v = n_status Done v \<and> vFailed v = n_status Failed v
    \<and> vDone v + vFailed v = vTotal v
    \<and> (vStatus v = JobStatusSucceeded \<longleftrightarrow> n_status Failed v = 0)
    \<and> (vStatus v = JobStatusFailed \<longleftrightarrow> n_status Failed v \<noteq> 0 \<and> n_status Done v = 0)"
proof -
  have "job_ok v" by (rule pg_pool.reach_job_ok [OF _ _ assms(1,2)]) (simp_all add: jobs_ok_def)
  with assms(3) have ok: "items_terminal v" "vDone v = n_status Done v" "vFailed v = n_status Failed v"
    "vTotal v = int (length (vItems v))"
    "vStatus v = JobStatusSucceeded \<longleftrightarrow> vFailed v = 0" "vStatus v = JobStatusFailed \<longleftrightarrow> vFailed v \<noteq> 0 \<and> vDone v = 0"
    by (auto simp: job_ok_def status_ok_def counts_ok_def)
  then show ?thesis using n_status_total [of v] by (simp add: items_terminal_iff)
qed

theorem pool_terminal_exact_witness:
  "\<exists>v. pg_jobs (pStore final_pool) ''j1'' = Some v \<and> vStatus v = JobStatusSucceeded \<and> items_terminal v \<and> n_status Failed v = 0"
proof -
  obtain v where v: "pg_jobs (pStore final_pool) ''j1'' = Some v" "vStatus v = JobStatusSucceeded"
    using final_pool_status by auto
  have "Terminal (vStatus v)" by (simp add: v(2))
  from pool_terminal_exact [OF final_pool_reach v(1) this] v show ?thesis by auto
qed

text \<open>
  In every reachable state, whatever a job's status, its counters never exceed the true
  numbers of done and failed items, its total is the number of its items, and its item keys are
  distinct.
\<close>

theorem pool_counters_bounded:
  assumes "reach (PGStore_ops newItemID) pg_env (newPool (empty_pg sc) n buf src) p"
    and "pg_jobs (pStore p) k = Some v"
  shows "0 \<le> vDone v \<and> vDone v \<le> n_status Done v \<and> 0 \<le> vFailed v \<and> vFailed v \<le> n_status Failed v
    \<and> vTotal v = int (length (vItems v)) \<and> distinct (map item_key (vItems v))"
proof -
  have "job_ok v" by (rule pg_pool.reach_job_ok [OF _ _ assms]) (simp_all add: jobs_ok_def)
  then show ?thesis by (simp add: job_ok_def counts_ok_def)
qed

theorem pool_counters_bounded_witness:
  "\<exists>v. pg_jobs (pStore final_pool) ''j1'' = Some v \<and> vDone v \<le> n_status Done v \<and> vTotal v = int (length (vItems v))"
proof -
  obtain v where v: "pg_jobs (pStore final_pool) ''j1'' = Some v" using final_pool_status by auto
  from pool_counters_bounded [OF final_pool_reach v] v show ?thesis by auto
qed

text \<open>
  In every reachable state the in-flight gauge is the number of workers that hold a claimed
  item: each claim's increment is matched by one decrement, on every error path too.
\<close>

theorem pool_inflight_gauge:
  assumes "reach (PGStore_ops newItemID) pg_env (newPool c n buf src) p"
  shows "inFlight (pMetrics p) = gauge (pWorkers p)"
  using assms by (rule reach_gauge)

theorem pool_inflight_gauge_witness: "inFlight (pMetrics final_pool) = gauge (pWorkers final_pool)"
  by (rule pool_inflight_gauge [OF final_pool_reach])

section \<open>A job is finished\<close>

text \<open>
  A worker that is notified of the job \<open>k\<close> and runs alone returns within \<open>b\<close> steps and leaves
  the job terminal, its items terminal and its counters exact.
\<close>

definition finishes_within :: "(string \<Rightarrow> nat \<Rightarrow> string) \<Rightarrow> (nat \<Rightarrow> env) \<Rightarrow> string \<Rightarrow> nat \<Rightarrow> pg_conn pool \<Rightarrow> bool" where
  "finishes_within newItemID env k b p \<longleftrightarrow> (\<exists>n p' v'. n \<le> b
     \<and> run_worker (PGStore_ops newItemID) env n (WGet k, p) = (WIdle, p')
     \<and> pg_jobs (pStore p') k = Some v' \<and> Terminal (vStatus v') \<and> exact v' \<and> items_terminal v')"

text \<open>
  C2: let the database answer every call, no row be locked by another transaction, the pool not
  be stopped, and take a job in the database that is not terminal and whose counters are exact.  If no item of
  the job is left running, a worker that is notified of the job and runs alone finishes it within
  five steps for each pending item plus five, whatever the runner answers for each item.  If items are
  left running, by a crash say, and the job is queued or running, then the first step of a resume
  sweep of the started pool succeeds, and after it such a worker finishes the job within five steps for each
  pending or running item plus five.
\<close>

theorem run_job_completes:
  assumes "healthy (pStore p)" "locked_items (tables (pStore p)) = []" "pg_inv (pStore p)" "\<not> pStopped p"
    and "pg_jobs (pStore p) k = Some v" "exact v" "\<not> Terminal (vStatus v)"
  shows "(n_status Running v = 0 \<longrightarrow> finishes_within newItemID env k (5 * nat (n_status Pending v) + 5) p)
    \<and> (Unfinished (vStatus v) \<and> pStarted p \<and> pSweep p = SIdle \<longrightarrow>
        (\<exists>p0. exec (PGStore_ops newItemID) ASweep p = Some p0
          \<and> finishes_within newItemID env k (5 * nat (n_status Pending v + n_status Running v) + 5) p0))"
proof -
  have "pg_live.sees p k v" using assms by (simp add: pg_live.sees_def pg_live_def)
  with assms show ?thesis
    using pg_live.run_job_finishes [of p k v newItemID env] pg_live.swept_job_finishes [of p k v newItemID env]
    by (auto simp: finishes_within_def)
qed

definition queued_pool :: "pg_conn pool" where
  "queued_pool = newPool \<lparr>tables = \<lparr>ingest_jobs = [job_row (queued_job ''j1'' 1 [item_a])],
     ingest_job_items = [\<lparr>riID = ''r'', riJob = ''j1'', riKey = ''a'', riStatus = Pending, riError = '''',
       riText = ''hello'', riMetadata = Map.empty, riTrackID = '''', riCreatedAt = 1\<rparr>], locked_items = []\<rparr>, script = []\<rparr> 1 8 False"

text \<open>The same job after a crash that left its item running.\<close>

definition orphaned_pool :: "pg_conn pool" where
  "orphaned_pool = Start (queued_pool\<lparr>pStore := (pStore queued_pool)\<lparr>tables := (tables (pStore queued_pool))
     \<lparr>ingest_job_items := map (\<lambda>r. r\<lparr>riStatus := Running\<rparr>) (ingest_job_items (tables (pStore queued_pool)))\<rparr>\<rparr>\<rparr>)"

theorem run_job_completes_witness:
  "finishes_within ids0 (\<lambda>i. env_ok) ''j1'' 10 queued_pool
   \<and> (\<exists>p0. exec (PGStore_ops ids0) ASweep orphaned_pool = Some p0 \<and> finishes_within ids0 (\<lambda>i. env_ok) ''j1'' 10 p0)"
proof -
  note defs = orphaned_pool_def queued_pool_def newPool_def Start_def
  have j: "pg_jobs (pStore p) ''j1'' = Some v \<Longrightarrow> exact v \<and> vStatus v = JobStatusQueued \<and> n_status Pending v = a \<and> n_status Running v = 1 - a"
    if "(p, a) \<in> {(queued_pool, 1), (orphaned_pool, 0)}" for p a v
    using that by (auto simp: defs pg_jobs_def db_jobs_def job_row_def queued_job_def row_view_def
        job_of_row_def job_items_def row_item_def exact_def n_status_def view_of_def)
  have x: "pg_jobs (pStore p) ''j1'' \<noteq> None" if "p \<in> {queued_pool, orphaned_pool}" for p
    using that by (auto simp: defs pg_jobs_def db_jobs_def job_row_def queued_job_def)
  obtain v w where v: "pg_jobs (pStore queued_pool) ''j1'' = Some v" and w: "pg_jobs (pStore orphaned_pool) ''j1'' = Some w"
    using x [of queued_pool] x [of orphaned_pool] by auto
  have inv: "pg_inv (pStore p) \<and> healthy (pStore p) \<and> locked_items (tables (pStore p)) = [] \<and> \<not> pStopped p"
    if "p \<in> {queued_pool, orphaned_pool}" for p
    using that by (auto simp: defs healthy_def pg_inv_def db_inv_def job_row_def queued_job_def)
  have "finishes_within ids0 (\<lambda>i. env_ok) ''j1'' 10 queued_pool"
    using run_job_completes [of queued_pool "''j1''" v ids0 "\<lambda>i. env_ok"] inv [of queued_pool] v j [of queued_pool 1 v] by auto
  moreover have "pStarted orphaned_pool \<and> pSweep orphaned_pool = SIdle" by (simp add: defs)
  ultimately show ?thesis
    using run_job_completes [of orphaned_pool "''j1''" w ids0 "\<lambda>i. env_ok"] inv [of orphaned_pool] w j [of orphaned_pool 0 w]
    by (auto simp: Unfinished_def)
qed

section \<open>The store operations\<close>

text \<open>
  C3: \<^verbatim>\<open>MarkItemDoneAndProgress\<close> is atomic under every pattern of failing driver calls: on an error
  the jobs and items are untouched, on success the item with the key, if not yet terminal, has
  taken the outcome and exactly one counter of its job has moved by one.
\<close>

theorem pg_mark_atomic:
  assumes "pg_inv c" and "PG_MarkItemDoneAndProgress now k key runErr c = (r, c')"
  shows "pg_inv c' \<and> pg_jobs c' = (case r of Inl e \<Rightarrow> pg_jobs c | Inr _ \<Rightarrow> on_job (pg_jobs c) k (mark key runErr))"
proof (cases r)
  case (Inl e)
  with assms show ?thesis using db_inv_tables [OF assms(1) pg_err_same(8)] by auto
next
  case (Inr u)
  with assms show ?thesis using pg_mark by auto
qed

theorem pg_mark_atomic_witness:
  "fst (PG_MarkItemDoneAndProgress 1 ''j1'' ''a'' None ((pStore queued_pool)\<lparr>script := [None, None, Some ErrBadConn]\<rparr>)) \<noteq> Inr ()
   \<and> pg_jobs (snd (PG_MarkItemDoneAndProgress 1 ''j1'' ''a'' None ((pStore queued_pool)\<lparr>script := [None, None, Some ErrBadConn]\<rparr>)))
     = pg_jobs (pStore queued_pool)"
proof -
  let ?c = "(pStore queued_pool)\<lparr>script := [None, None, Some ErrBadConn]\<rparr>"
  let ?m = "PG_MarkItemDoneAndProgress 1 ''j1'' ''a'' None ?c"
  have inv: "pg_inv ?c"
    by (simp add: queued_pool_def newPool_def pg_inv_def db_inv_def job_row_def queued_job_def)
  have "isl (fst ?m)" by code_simp
  then obtain e c' where m: "?m = (Inl e, c')" by (cases ?m) (auto simp: isl_def)
  from pg_mark_atomic [OF inv m] m show ?thesis by (simp add: pg_jobs_def)
qed

text \<open>
  C16: \<^verbatim>\<open>ClaimNextItem\<close> hands out a pending item of the job and moves exactly that item to running;
  when it returns no item or an error nothing changes.  When the database answers every call and
  no row is locked by another transaction, a claim on a job of the database succeeds, and it
  returns an item exactly if one is pending.
\<close>

theorem pg_claim_outcome:
  assumes "pg_inv c" and "PG_ClaimNextItem k c = (r, c')"
  shows "(case r of
      Inr (Some it) \<Rightarrow> \<exists>v v'. pg_jobs c k = Some v \<and> claims it v v' \<and> pg_jobs c' = (pg_jobs c)(k \<mapsto> v')
    | Inr None \<Rightarrow> pg_jobs c' = pg_jobs c
    | Inl e \<Rightarrow> pg_jobs c' = pg_jobs c)
    \<and> (healthy c \<and> locked_items (tables c) = [] \<longrightarrow>
        (\<forall>v. pg_jobs c k = Some v \<longrightarrow> (if n_status Pending v = 0 then r = Inr None else \<exists>it. r = Inr (Some it))))"
proof (rule conjI)
  show "case r of
      Inr (Some it) \<Rightarrow> \<exists>v v'. pg_jobs c k = Some v \<and> claims it v v' \<and> pg_jobs c' = (pg_jobs c)(k \<mapsto> v')
    | Inr None \<Rightarrow> pg_jobs c' = pg_jobs c
    | Inl e \<Rightarrow> pg_jobs c' = pg_jobs c"
    using assms db_inv_tables [OF assms(1) pg_err_same(4)] db_inv_tables [OF assms(1) pg_claim_none]
      pg_claim [OF assms(1), of k _ c'] by (auto split: sum.splits option.splits)
  show "healthy c \<and> locked_items (tables c) = [] \<longrightarrow>
      (\<forall>v. pg_jobs c k = Some v \<longrightarrow> (if n_status Pending v = 0 then r = Inr None else \<exists>it. r = Inr (Some it)))"
  proof (intro impI allI)
    fix v
    assume h: "healthy c \<and> locked_items (tables c) = []" and v: "pg_jobs c k = Some v"
    obtain x where x: "r = Inr x" "x = None \<longrightarrow> n_status Pending v = 0"
      using pg_live_claim [of c k v] h v assms by (auto simp: pg_live_def)
    have "n_status Pending v \<noteq> 0" if it: "x = Some it" for it
    proof -
      obtain v' where "claims it v v'" using pg_claim [OF assms(1), of k it c'] assms(2) x(1) v it by auto
      then show ?thesis using claims_fields(10) [of it v v'] n_status_nonneg [of Pending v'] by simp
    qed
    with x show "if n_status Pending v = 0 then r = Inr None else \<exists>it. r = Inr (Some it)" by (cases x) auto
  qed
qed

theorem pg_claim_outcome_witness:
  "\<exists>it v v'. iKey it = ''a'' \<and> pg_jobs (pStore queued_pool) ''j1'' = Some v \<and> claims it v v'"
proof -
  let ?c = "PG_ClaimNextItem ''j1'' (pStore queued_pool)"
  have inv: "pg_inv (pStore queued_pool)"
    by (simp add: queued_pool_def newPool_def pg_inv_def db_inv_def job_row_def queued_job_def)
  have "(case fst ?c of Inr (Some it) \<Rightarrow> iKey it = ''a'' | _ \<Rightarrow> False)" by code_simp
  then obtain it c' where c: "?c = (Inr (Some it), c')" "iKey it = ''a''"
    by (cases ?c) (auto split: sum.splits option.splits)
  from pg_claim_outcome [OF inv c(1)] c(2) show ?thesis by auto
qed

section \<open>Enqueuing\<close>

lemma enqueue_effect:
  assumes "pg_inv (pStore p)" and "Enqueue (PGStore_ops newItemID) ids k now items p = (r, p')"
  shows "(case r of
      Inl e \<Rightarrow> pg_jobs (pStore p') = pg_jobs (pStore p) \<and> pNotify p' = pNotify p
        \<and> (items \<noteq> [] \<longrightarrow> \<not> distinct (map iKey (assignKeys ids items)) \<longrightarrow> e = ErrDuplicateKey)
    | Inr job \<Rightarrow> items \<noteq> [] \<and> job = queued_job k now (assignKeys ids items)
        \<and> distinct (map iKey (assignKeys ids items)) \<and> pg_jobs (pStore p) k = None
        \<and> pg_jobs (pStore p') = (pg_jobs (pStore p))(k \<mapsto> view_of job (fresh_items (assignKeys ids items)))
        \<and> (pNotify p' = pNotify p @ [k] \<or>
            pNotify p' = pNotify p \<and> notify_dropped (pMetrics p') = notify_dropped (pMetrics p) + 1))"
proof -
  let ?its = "assignKeys ids items"
  let ?j = "queued_job k now ?its"
  have k: "jID ?j = k" by (simp add: queued_job_def)
  show ?thesis
  proof (cases "items = [] \<or> \<not> distinct (map iKey ?its)")
    case True
    with assms(2) show ?thesis by (auto simp: Enqueue_def Let_def split: if_splits)
  next
    case False
    obtain x s where c: "PG_CreateJob newItemID now ?j ?its (pStore p) = (x, s)" by fastforce
    show ?thesis
    proof (cases x)
      case (Inl e)
      with c have "pg_jobs s = pg_jobs (pStore p)" using db_inv_tables [OF assms(1) pg_err_same(1)] by auto
      with False c Inl assms(2) show ?thesis by (auto simp: Enqueue_def Let_def PGStore_ops_def)
    next
      case (Inr u)
      then have "pg_jobs (pStore p) k = None \<and> pg_jobs s = (pg_jobs (pStore p))(k \<mapsto> view_of ?j (fresh_items ?its))"
        using pg_create [OF assms(1), of newItemID now ?j ?its s] c k by auto
      with False c Inr assms(2) show ?thesis
        by (auto simp: Enqueue_def Let_def PGStore_ops_def Notify_def split: if_splits)
    qed
  qed
qed

text \<open>
  \<^verbatim>\<open>Enqueue\<close> rejects an empty batch and a batch with a repeated key without touching the store;
  a store error leaves the jobs as they were; otherwise the job is stored queued, all its items
  pending under distinct keys, and it is in the notification channel unless that was full, which
  is counted.
\<close>

theorem enqueue_outcome:
  assumes "pg_inv (pStore p)" and "Enqueue (PGStore_ops newItemID) ids k now items p = (r, p')"
  shows "(case r of
      Inl e \<Rightarrow> pg_jobs (pStore p') = pg_jobs (pStore p) \<and> pNotify p' = pNotify p
        \<and> (items \<noteq> [] \<longrightarrow> \<not> distinct (map iKey (assignKeys ids items)) \<longrightarrow> e = ErrDuplicateKey)
    | Inr job \<Rightarrow> items \<noteq> [] \<and> job = queued_job k now (assignKeys ids items)
        \<and> distinct (map iKey (assignKeys ids items)) \<and> pg_jobs (pStore p) k = None
        \<and> pg_jobs (pStore p') = (pg_jobs (pStore p))(k \<mapsto> view_of job (fresh_items (assignKeys ids items)))
        \<and> (pNotify p' = pNotify p @ [k] \<or>
            pNotify p' = pNotify p \<and> notify_dropped (pMetrics p') = notify_dropped (pMetrics p) + 1))"
  using assms by (rule enqueue_effect)

theorem enqueue_outcome_witness:
  "\<exists>job p'. Enqueue (PGStore_ops ids0) (\<lambda>i. ''x'') ''j1'' 1 [item_a] (newPool (empty_pg []) 1 8 False) = (Inr job, p')
     \<and> jTotal job = 1 \<and> pg_jobs (pStore p') ''j1'' \<noteq> None"
proof -
  let ?e = "Enqueue (PGStore_ops ids0) (\<lambda>i. ''x'') ''j1'' 1 [item_a] (newPool (empty_pg []) 1 8 False)"
  have "\<not> isl (fst ?e)" by code_simp
  then obtain job p' where e: "?e = (Inr job, p')" by (cases ?e; cases "fst ?e") auto
  have "pg_inv (pStore (newPool (empty_pg []) 1 8 False))" by (simp add: newPool_def)
  from enqueue_outcome [OF this e] e show ?thesis
    by (auto simp: queued_job_def assignKeys_def item_a_def)
qed

section \<open>Two workers on one job\<close>

text \<open>What an observer sees of a job: its status, counters and item states, with the metrics.\<close>

definition observe :: "string \<Rightarrow> pg_conn pool \<Rightarrow> (JobStatus \<times> int \<times> int \<times> ItemStatus list) option \<times> JobStatus list \<times> nat \<times> bool" where
  "observe k p = (map_option (\<lambda>v. (vStatus v, vDone v, vTotal v, map snd (vItems v))) (pg_jobs (pStore p) k),
     jobs_total (pMetrics p), length (items_total (pMetrics p)), list_all idle (pWorkers p))"

definition two_workers :: "pg_conn pool" where
  "two_workers = newPool (empty_pg []) 2 8 False"

definition works :: "nat \<Rightarrow> nat \<Rightarrow> action list" where
  "works i n = replicate n (AWork i env_ok)"

definition start_both :: "action list" where
  "start_both = [AStart, AEnqueue (\<lambda>i. ''k'') ''j1'' 1 [item_a], ANotify ''j1'', ATake 0, ATake 1]"

text \<open>
  A duplicate notification can undo a finished job.  Worker 0 reads the queued job; worker 1
  runs the job to its end, after which it is succeeded; worker 0 then writes the snapshot it read
  back as running with counters zero, finds nothing to claim and returns.  The job is left running
  for good, with every item done and the done counter at zero.
\<close>

theorem stale_snapshot_reopens_job:
  "map_option (observe ''j1'') (run_schedule (PGStore_ops ids0) (start_both @ works 0 1 @ works 1 10) two_workers) =
     Some (Some (JobStatusSucceeded, 1, 1, [Done]), [JobStatusSucceeded], 1, False) \<and>
   map_option (observe ''j1'') (run_schedule (PGStore_ops ids0) (start_both @ works 0 1 @ works 1 10 @ works 0 3) two_workers) =
     Some (Some (JobStatusRunning, 0, 1, [Done]), [JobStatusSucceeded], 1, True)"
  by (rule conjI; code_simp)

text \<open>
  Two workers that reach the end of a job together both count it: each reads the running job
  before the other writes its terminal status, and \<^verbatim>\<open>ingest_jobs_total\<close> is incremented twice.
\<close>

theorem double_finalize:
  "map_option (observe ''j1'') (run_schedule (PGStore_ops ids0)
     (start_both @ works 0 2 @ works 1 1 @ works 0 6 @ works 1 1 @ works 0 1 @ works 1 1 @ works 0 1 @ works 1 1) two_workers) =
   Some (Some (JobStatusSucceeded, 1, 1, [Done]), [JobStatusSucceeded, JobStatusSucceeded], 1, True)"
  by code_simp

text \<open>
  A sweep while a worker holds an item gives the item to a second worker: it is processed
  twice (two observations for a job of one item), though the counter moves once.
\<close>

theorem sweep_reprocesses_item:
  "map_option (observe ''j1'') (run_schedule (PGStore_ops ids0)
     ([AStart, AEnqueue (\<lambda>i. ''k'') ''j1'' 1 [item_a], ATake 0] @ works 0 3 @ [ASweep, ASweep, ASweep, ATake 1]
      @ works 1 6 @ works 0 4) two_workers) =
   Some (Some (JobStatusRunning, 1, 1, [Done]), [], 2, False)"
  by code_simp

end
