(* ===== verification/Http_Errors.thy ===== *)
theory Http_Errors
  imports Go_Errors
begin

text \<open>
  How the HTTP layer answers an error: \<^verbatim>\<open>internal/httpapi/errmap.go\<close>, \<^verbatim>\<open>dberrors.go\<close> and
  \<^verbatim>\<open>errors.go\<close>.  A response is the status, the message of the error envelope, the
  \<^verbatim>\<open>Retry-After\<close> header and the level of the log line, if one is written.
\<close>

datatype level = LevelDebug | LevelInfo | LevelWarn | LevelError

record err_response =
  rsStatus :: int
  rsMessage :: string
  rsRequestID :: string
  rsRetryAfter :: "string option"
  rsLog :: "level option"

definition WriteError :: "int \<Rightarrow> string \<Rightarrow> string \<Rightarrow> err_response" where
  "WriteError status msg reqID =
     \<lparr>rsStatus = status, rsMessage = msg, rsRequestID = reqID, rsRetryAfter = None, rsLog = None\<rparr>"

text \<open>
  What a handler answers: an error envelope, a status with a JSON body, or a status alone.  \<open>marshal\<close>
  is \<^verbatim>\<open>encoding/json\<close> on the value: it may refuse it.
\<close>

datatype response = Failure err_response | Body int string | Bare int

definition WriteJSON :: "('a \<Rightarrow> string option) \<Rightarrow> int \<Rightarrow> 'a \<Rightarrow> response" where
  "WriteJSON marshal status body = (case marshal body of
     None \<Rightarrow> Failure (WriteError 500 ''internal error'' '''')
   | Some s \<Rightarrow> Body status s)"

fun status_of :: "response \<Rightarrow> int" where
  "status_of (Failure r) = rsStatus r"
| "status_of (Body status s) = status"
| "status_of (Bare status) = status"

definition sqlStateTooManyConnections :: string where "sqlStateTooManyConnections = ''53300''"
definition sqlStateConfigLimit :: string where "sqlStateConfigLimit = ''53400''"
definition sqlStateAdminShutdown :: string where "sqlStateAdminShutdown = ''57P01''"
definition sqlStateCrashShutdown :: string where "sqlStateCrashShutdown = ''57P02''"
definition sqlStateCannotConnectNow :: string where "sqlStateCannotConnectNow = ''57P03''"
definition sqlStateLockNotAvailable :: string where "sqlStateLockNotAvailable = ''55P03''"

lemmas sql_states = sqlStateTooManyConnections_def sqlStateConfigLimit_def sqlStateAdminShutdown_def
  sqlStateCrashShutdown_def sqlStateCannotConnectNow_def sqlStateLockNotAvailable_def

definition unavailable_code :: "string \<Rightarrow> bool" where
  "unavailable_code code \<longleftrightarrow> HasPrefix code ''08'' \<or> code \<in> {sqlStateTooManyConnections, sqlStateConfigLimit,
     sqlStateAdminShutdown, sqlStateCrashShutdown, sqlStateCannotConnectNow}"

definition isDBUnavailable :: "err \<Rightarrow> bool" where
  "isDBUnavailable e =
     (if Is e ErrBadConn \<or> Is e ErrConnDone then True
      else case AsPg e of
        Some code \<Rightarrow> unavailable_code code
      | None \<Rightarrow> if AsConnect e then True else AsNet e)"

definition isDBLockContention :: "err \<Rightarrow> bool" where
  "isDBLockContention e \<longleftrightarrow> AsPg e = Some sqlStateLockNotAvailable"

definition mapServiceError :: "string \<Rightarrow> err \<Rightarrow> err_response" where
  "mapServiceError reqID e =
     (if Is e ErrEntityNotFound then WriteError 404 ''not found'' reqID
      else if Is e ErrInvalidScope then WriteError 400 (Error e) reqID
      else if Is e ErrInvalid then WriteError 400 ''invalid input'' reqID
      else if Is e ErrNotFound then WriteError 404 ''not found'' reqID
      else if Is e ErrBusy \<or> Is e DeadlineExceeded \<or> isDBLockContention e
        then (WriteError 429 ''overloaded, retry after backoff'' reqID)\<lparr>rsRetryAfter := Some ''5''\<rparr>
      else if Is e ErrTransient
        then (WriteError 503 ''upstream temporarily unavailable'' reqID)\<lparr>rsRetryAfter := Some ''5''\<rparr>
      else if isDBUnavailable e
        then (WriteError 503 ''database temporarily unavailable'' reqID)\<lparr>rsRetryAfter := Some ''5'', rsLog := Some LevelWarn\<rparr>
      else if Is e Canceled then WriteError 499 ''client closed request'' reqID
      else if Is e ErrUpstream then (WriteError 502 ''upstream error'' reqID)\<lparr>rsLog := Some LevelError\<rparr>
      else if Is e ErrDuplicateKey then WriteError 400 ''duplicate idempotency key in batch'' reqID
      else (WriteError 500 ''internal error'' reqID)\<lparr>rsLog := Some LevelError\<rparr>)"

section \<open>Properties\<close>

lemma Is_wraps:
  assumes "\<And>s e. t \<noteq> Wrap s e"
  shows "Is (foldr Wrap ss e) t = Is e t"
  using assms by (induction ss) auto

lemma AsPg_wraps [simp]: "AsPg (foldr Wrap ss e) = AsPg e"
  by (induction ss) simp_all

lemma As_wraps [simp]:
  "AsConnect (foldr Wrap ss e) = AsConnect e" "AsNet (foldr Wrap ss e) = AsNet e"
  by (induction ss) simp_all

text \<open>The sentinels that \<open>mapServiceError\<close> asks for.\<close>

abbreviation sentinels :: "err list" where
  "sentinels \<equiv> [ErrEntityNotFound, ErrInvalidScope, ErrInvalid, ErrNotFound, ErrBusy, DeadlineExceeded, ErrTransient,
     ErrBadConn, ErrConnDone, Canceled, ErrUpstream, ErrDuplicateKey]"

text \<open>
  Context added by \<^verbatim>\<open>fmt.Errorf("...: %w", err)\<close> never changes the answer, unless the answer shows the
  text of the error, which only the one to \<^verbatim>\<open>ErrInvalidScope\<close> does.
\<close>

lemma map_wrapped:
  assumes "\<not> Is e ErrInvalidScope"
  shows "mapServiceError reqID (foldr Wrap ss e) = mapServiceError reqID e"
proof -
  have "\<forall>t\<in>set sentinels. Is (foldr Wrap ss e) t = Is e t" by (simp add: Is_wraps)
  then have eq: "Is (foldr Wrap ss e) t = Is e t" if "t \<in> set sentinels" for t using that by blast
  show ?thesis
    by (simp only: mapServiceError_def isDBLockContention_def isDBUnavailable_def eq assms list.set insertI1 insertI2
        As_wraps AsPg_wraps if_False)
qed

lemma Is_PgError: "Is (PgError code msg) t \<longleftrightarrow> t = PgError code msg"
  by (simp add: Is_def)

lemma map_wrapped_pg: "mapServiceError reqID (foldr Wrap ss (PgError code msg)) = mapServiceError reqID (PgError code msg)"
  by (rule map_wrapped) (simp add: Is_PgError)

text \<open>
  A bare PostgreSQL error, under any number of \<^verbatim>\<open>%w\<close> wrappers, is backpressure (429) when it is a
  lock timeout, unavailability (503) when its SQLSTATE says the server is down, restarting or out of
  connections, and otherwise a fault of the service (500), never an invitation to retry.
\<close>

theorem pg_error_status:
  "rsStatus (mapServiceError reqID (foldr Wrap ss (PgError code msg))) =
     (if code = sqlStateLockNotAvailable then 429 else if unavailable_code code then 503 else 500)"
  unfolding map_wrapped_pg
  by (simp add: mapServiceError_def WriteError_def isDBLockContention_def isDBUnavailable_def Is_PgError)

end
