(* ===== verification/Http_Request.thy ===== *)
theory Http_Request
  imports Http_Errors
begin

text \<open>
  A request as the handlers read it, and the parameter parsing they share: the path variable \<^verbatim>\<open>id\<close>,
  the query parameters in order (\<^verbatim>\<open>r.URL.Query().Get\<close> is the first value of a key, or the empty
  string), the body, the request identifier and the subject from the context.  Decoding JSON and floating point numbers are parameters
  of the handlers that use them.
\<close>

section \<open>Requests\<close>

record http_request =
  hqMethod :: string
  hqHeader :: "(string \<times> string) list"
  hqPathID :: string
  hqQuery :: "(string \<times> string) list"
  hqBody :: string
  hqID :: string
  hqSubject :: "string option"

definition Get :: "(string \<times> string) list \<Rightarrow> string \<Rightarrow> string" where
  "Get kvs k = (case map_of kvs k of None \<Rightarrow> '''' | Some v \<Rightarrow> v)"

definition claimSubject :: "http_request \<Rightarrow> string" where
  "claimSubject r = (case hqSubject r of Some s \<Rightarrow> s | None \<Rightarrow> '''')"

definition bad_request :: "http_request \<Rightarrow> string \<Rightarrow> response" where
  "bad_request r msg = Failure (WriteError 400 msg (hqID r))"

definition service_error :: "http_request \<Rightarrow> err \<Rightarrow> response" where
  "service_error r e = Failure (mapServiceError (hqID r) e)"

lemma status_bad_request [simp]: "status_of (bad_request r msg) = 400"
  by (simp add: bad_request_def WriteError_def)

lemma bad_request_neq [simp]: "bad_request r msg \<noteq> Body st s" "bad_request r msg \<noteq> Bare st"
  by (simp_all add: bad_request_def)

lemma service_error_neq [simp]: "service_error r e \<noteq> Body st s" "service_error r e \<noteq> Bare st"
  by (simp_all add: service_error_def)

section \<open>Numbers\<close>

text \<open>\<^verbatim>\<open>strconv.Atoi\<close> on a 64-bit platform: an optional sign and decimal digits, in the range of an \<^verbatim>\<open>int\<close>.\<close>

definition is_digit :: "char \<Rightarrow> bool" where
  "is_digit c \<longleftrightarrow> (let n = of_char c :: nat in 48 \<le> n \<and> n \<le> 57)"

definition digits_value :: "string \<Rightarrow> nat" where
  "digits_value s = foldl (\<lambda>n c. 10 * n + (of_char c - 48)) 0 s"

definition in_int64 :: "int \<Rightarrow> bool" where
  "in_int64 n \<longleftrightarrow> - (2 ^ 63) \<le> n \<and> n < 2 ^ 63"

definition unsigned_digits :: "string \<Rightarrow> int option" where
  "unsigned_digits s = (if s \<noteq> [] \<and> list_all is_digit s then Some (int (digits_value s)) else None)"

definition Atoi :: "string \<Rightarrow> int option" where
  "Atoi s =
     (case (case s of
              [] \<Rightarrow> None
            | c # cs \<Rightarrow> if c = CHR ''-'' then map_option uminus (unsigned_digits cs)
                       else if c = CHR ''+'' then unsigned_digits cs
                       else unsigned_digits s) of
        None \<Rightarrow> None
      | Some n \<Rightarrow> if in_int64 n then Some n else None)"

lemma digit_char: "k < 10 \<Longrightarrow> is_digit (char_of (48 + k)) \<and> (of_char (char_of (48 + k)) :: nat) = 48 + k"
  by (simp add: is_digit_def)

lemma dec_digits: "list_all is_digit (dec n) \<and> dec n \<noteq> [] \<and> digits_value (dec n) = n"
proof (induction n rule: dec.induct)
  case (1 n)
  then show ?case using digit_char [of "n mod 10"] digit_char [of n] dec.simps [of n] by (auto simp: digits_value_def is_digit_def)
qed

text \<open>Printing and parsing a number.\<close>

lemma Atoi_dec_int: "in_int64 n \<Longrightarrow> Atoi (dec_int n) = Some n"
proof -
  assume n: "in_int64 n"
  have u: "unsigned_digits (dec k) = Some (int k)" for k using dec_digits [of k] by (simp add: unsigned_digits_def)
  show ?thesis
  proof (cases "n < 0")
    case True
    then show ?thesis using n u [of "nat (- n)"] by (simp add: Atoi_def dec_int_def)
  next
    case False
    obtain c cs where c: "dec (nat n) = c # cs" using dec_digits [of "nat n"] by (cases "dec (nat n)") auto
    then have "is_digit c" using dec_digits [of "nat n"] by simp
    then have "c \<noteq> CHR ''-''" "c \<noteq> CHR ''+''" by (auto simp: is_digit_def)
    then show ?thesis using False n u [of "nat n"] by (simp add: Atoi_def dec_int_def c)
  qed
qed

section \<open>Parameters\<close>

text \<open>\<open>Inl\<close> is the answer that was written; the caller returns.\<close>

definition parsePosInt :: "http_request \<Rightarrow> string \<Rightarrow> response + int" where
  "parsePosInt r key =
     (let s = Get (hqQuery r) key in
      if s = '''' then Inr 0
      else case Atoi s of
        None \<Rightarrow> Inl (bad_request r (key @ '' must be a non-negative integer''))
      | Some n \<Rightarrow> if n < 0 then Inl (bad_request r (key @ '' must be a non-negative integer'')) else Inr n)"

definition depthParam :: "http_request \<Rightarrow> response + int" where
  "depthParam r = parsePosInt r ''depth''"

definition limitParam :: "http_request \<Rightarrow> response + int" where
  "limitParam r = parsePosInt r ''limit''"

definition required :: "http_request \<Rightarrow> string \<Rightarrow> response + string" where
  "required r key = (let v = Get (hqQuery r) key in
     if v = '''' then Inl (bad_request r (key @ '' query parameter required'')) else Inr v)"

definition reqRepo :: "http_request \<Rightarrow> response + string" where
  "reqRepo r = required r ''repo''"

definition reqIDParam :: "http_request \<Rightarrow> response + string" where
  "reqIDParam r = required r ''id''"

lemma required_Inl: "required r key = Inl resp \<Longrightarrow> status_of resp = 400"
  by (auto simp: required_def Let_def split: if_splits)

lemma parsePosInt_Inl: "parsePosInt r key = Inl resp \<Longrightarrow> status_of resp = 400"
  by (auto simp: parsePosInt_def Let_def split: if_splits option.splits)

lemma parsePosInt_Inr: "parsePosInt r key = Inr n \<Longrightarrow> 0 \<le> n \<and> n < 2 ^ 63"
  by (auto simp: parsePosInt_def Let_def Atoi_def in_int64_def split: if_splits option.splits)

lemma parsePosInt_dec: "0 \<le> n \<Longrightarrow> n < 2 ^ 63 \<Longrightarrow> Get (hqQuery r) key = dec_int n \<Longrightarrow> parsePosInt r key = Inr n"
  using Atoi_dec_int [of n] dec_digits [of "nat n"] by (simp add: parsePosInt_def Let_def in_int64_def dec_int_def)

section \<open>Bodies\<close>

definition maxSmallBody :: nat where "maxSmallBody = 2 ^ 20"
definition maxBulkBody :: nat where "maxBulkBody = 32 * 2 ^ 20"

text \<open>
  A strict decoder behind \<^verbatim>\<open>http.MaxBytesReader\<close>: it reads the first value of the body and no more than
  \<open>limit\<close> bytes; \<open>decode\<close> is \<open>None\<close> on a prefix that holds no complete value of the type.
\<close>

definition decode_limited :: "nat \<Rightarrow> (string \<Rightarrow> 'a option) \<Rightarrow> http_request \<Rightarrow> response + 'a" where
  "decode_limited limit decode r = (case decode (take limit (hqBody r)) of
     None \<Rightarrow> Inl (bad_request r ''invalid json'')
   | Some v \<Rightarrow> Inr v)"

definition decodeStrict :: "(string \<Rightarrow> 'a option) \<Rightarrow> http_request \<Rightarrow> response + 'a" where
  "decodeStrict = decode_limited maxSmallBody"

lemma decode_limited_Inl: "decode_limited limit decode r = Inl resp \<Longrightarrow> status_of resp = 400"
  by (auto simp: decode_limited_def split: option.splits)

section \<open>Handlers\<close>

text \<open>
  A handler runs against the state of its service.  \<open>withParam\<close> is \<^verbatim>\<open>x, ok := param(w, r); if !ok { return }\<close>,
  \<open>reply\<close> the end of every handler: the error of the service or its result as JSON.
\<close>

type_synonym 's handler = "http_request \<Rightarrow> 's \<Rightarrow> response \<times> 's"

definition withParam :: "response + 'a \<Rightarrow> ('a \<Rightarrow> 's \<Rightarrow> response \<times> 's) \<Rightarrow> 's \<Rightarrow> response \<times> 's" where
  "withParam p k s = (case p of Inl resp \<Rightarrow> (resp, s) | Inr x \<Rightarrow> k x s)"

definition reply :: "http_request \<Rightarrow> ('s, err, 'a) call \<Rightarrow> ('a \<Rightarrow> response) \<Rightarrow> 's \<Rightarrow> response \<times> 's" where
  "reply r m ok s = (case m s of (Inl e, s') \<Rightarrow> (service_error r e, s') | (Inr x, s') \<Rightarrow> (ok x, s'))"

lemma withParam_simps [simp]: "withParam (Inl resp) k s = (resp, s)" "withParam (Inr x) k s = k x s"
  by (simp_all add: withParam_def)

end
