(* ===== verification/Lightrag_Types.thy ===== *)
theory Lightrag_Types
  imports Memory_Types
begin

text \<open>
  The wire types of \<^verbatim>\<open>internal/lightrag/types.go\<close> and the client interface of
  \<^verbatim>\<open>internal/lightrag/client.go\<close>.  A decoded JSON value is an \<open>any\<close>; a JSON number is kept by the
  text Go prints for it.  A \<^verbatim>\<open>map[string]any\<close> is a finite map, inside a value the list of its entries.
\<close>

section \<open>JSON values\<close>

datatype any = AStr string | ANum string | ABool bool | ANull | AList "any list" | AObj "(string \<times> any) list"

type_synonym amap = "string \<rightharpoonup> any"

text \<open>\<^verbatim>\<open>fmt.Sprint\<close>: lists in brackets, maps as \<^verbatim>\<open>map[k:v ..]\<close> in key order.\<close>

fun sprint :: "any \<Rightarrow> string" where
  "sprint (AStr s) = s"
| "sprint (ANum s) = s"
| "sprint (ABool b) = (if b then ''true'' else ''false'')"
| "sprint ANull = ''<nil>''"
| "sprint (AList xs) = ''['' @ join '' '' (map sprint xs) @ '']''"
| "sprint (AObj kvs) = ''map['' @ join '' '' (map (\<lambda>(k, s). k @ '':'' @ s)
     (sort_key fst (map (\<lambda>(k, v). (k, sprint v)) kvs))) @ '']''"

section \<open>Requests and responses\<close>

type_synonym LQueryMode = string

definition LQueryMode_Valid :: "LQueryMode \<Rightarrow> bool" where
  "LQueryMode_Valid m \<longleftrightarrow> m \<in> {''local'', ''global'', ''hybrid'', ''naive'', ''mix'', ''bypass''}"

record InsertTextRequest =
  itText :: string
  itFileSource :: string

record InsertResponse =
  irStatus :: string
  irMessage :: string
  irTrackID :: string

record DocStatusResponse =
  dsID :: string
  dsContentSummary :: string
  dsContentLength :: int
  dsStatus :: string
  dsCreatedAt :: string
  dsUpdatedAt :: string
  dsTrackID :: string
  dsChunksCount :: int
  dsErrorMsg :: string
  dsMetadata :: amap
  dsFilePath :: string

record TrackStatusResponse =
  tsTrackID :: string
  tsDocuments :: "DocStatusResponse list"
  tsTotalCount :: int
  tsStatusSummary :: "(string \<times> int) list"

record DeleteDocRequest =
  ddDocIDs :: "string list"
  ddDeleteFile :: bool
  ddDeleteLLMCache :: bool

record DeleteDocByIdResponse =
  drStatus :: string
  drMessage :: string
  drDocID :: string

record QueryRequest =
  qrQuery :: string
  qrMode :: LQueryMode
  qrOnlyNeedContext :: "bool option"
  qrOnlyNeedPrompt :: "bool option"
  qrResponseType :: string
  qrTopK :: int
  qrChunkTopK :: int
  qrMaxEntityTokens :: int
  qrMaxRelationTokens :: int
  qrMaxTotalTokens :: int
  qrHLKeywords :: "string list"
  qrLLKeywords :: "string list"
  qrUserPrompt :: string
  qrEnableRerank :: "bool option"
  qrIncludeReferences :: "bool option"
  qrIncludeChunks :: "bool option"
  qrStream :: "bool option"

text \<open>The zero value, from which a Go composite literal sets its named fields.\<close>

definition zeroQueryRequest :: QueryRequest where
  "zeroQueryRequest = \<lparr>qrQuery = '''', qrMode = '''', qrOnlyNeedContext = None, qrOnlyNeedPrompt = None,
     qrResponseType = '''', qrTopK = 0, qrChunkTopK = 0, qrMaxEntityTokens = 0, qrMaxRelationTokens = 0,
     qrMaxTotalTokens = 0, qrHLKeywords = [], qrLLKeywords = [], qrUserPrompt = '''', qrEnableRerank = None,
     qrIncludeReferences = None, qrIncludeChunks = None, qrStream = None\<rparr>"

record ReferenceItem =
  rfReferenceID :: string
  rfFilePath :: string
  rfContent :: "string list"

record QueryResponse =
  qsResponse :: string
  qsReferences :: "ReferenceItem list"

record QueryDataResponse =
  qdStatus :: string
  qdMessage :: string
  qdData :: amap
  qdMetadata :: amap

record EntityCreateRequest =
  ecEntityName :: string
  ecEntityData :: amap

record EntityUpdateRequest =
  euEntityName :: string
  euUpdatedData :: amap
  euAllowRename :: bool
  euAllowMerge :: bool

record EntityResponse =
  erStatus :: string
  erMessage :: string
  erData :: amap
  erOperationSummary :: amap

record DeleteEntityRequest =
  deEntityName :: string

record RelationCreateRequest =
  rcSourceEntity :: string
  rcTargetEntity :: string
  rcRelationData :: amap

record DeleteRelationRequest =
  dlSourceEntity :: string
  dlTargetEntity :: string

record RelationResponse =
  rrStatus :: string
  rrMessage :: string
  rrData :: amap

record GraphNode =
  gnID :: string
  gnLabels :: "string list"
  gnProperties :: amap

record GraphEdge =
  geID :: string
  geSource :: string
  geTarget :: string
  geType :: string
  geProperties :: amap

record KnowledgeGraph =
  kgNodes :: "GraphNode list"
  kgEdges :: "GraphEdge list"

section \<open>The client\<close>

record 'l Client =
  InsertText :: "InsertTextRequest \<Rightarrow> ('l, err, InsertResponse) call"
  TrackStatus :: "string \<Rightarrow> ('l, err, TrackStatusResponse) call"
  DeleteDocs :: "DeleteDocRequest \<Rightarrow> ('l, err, DeleteDocByIdResponse) call"
  LRQuery :: "QueryRequest \<Rightarrow> ('l, err, QueryResponse) call"
  LRQueryData :: "QueryRequest \<Rightarrow> ('l, err, QueryDataResponse) call"
  EntityExists :: "string \<Rightarrow> ('l, err, bool) call"
  CreateEntity :: "EntityCreateRequest \<Rightarrow> ('l, err, EntityResponse) call"
  UpdateEntity :: "EntityUpdateRequest \<Rightarrow> ('l, err, EntityResponse) call"
  DeleteEntity :: "DeleteEntityRequest \<Rightarrow> ('l, err, unit) call"
  LabelSearch :: "string \<Rightarrow> ('l, err, string list) call"
  Graph :: "string \<Rightarrow> int \<Rightarrow> int \<Rightarrow> ('l, err, KnowledgeGraph) call"
  CreateRelation :: "RelationCreateRequest \<Rightarrow> ('l, err, RelationResponse) call"
  DeleteRelation :: "DeleteRelationRequest \<Rightarrow> ('l, err, unit) call"
  Health :: "('l, err, unit) call"

end
