(* ===== verification/Lightrag_Http.thy ===== *)
theory Lightrag_Http
  imports Lightrag_Types "HOL-Library.Word"
begin

text \<open>
  The HTTP client of LightRAG (\<^verbatim>\<open>internal/lightrag/http.go\<close>): one request with its retries, the
  wait for a held pipeline lock, and the client methods built on them.

  The server is a function \<open>srv\<close> from the number of the request and the request to how long it
  takes and what comes back, so a statement for every \<open>srv\<close> covers every behaviour of the upstream.
  \<open>net\<close> is the client's view of the world: how many requests it has sent, the clock in
  nanoseconds, and the calls its metrics have counted.  JSON encoding and decoding of the bodies is
  the parameter \<open>codec\<close>.
\<close>

section \<open>Constants\<close>

definition second :: int where "second = 1000000000"
definition millisecond :: int where "millisecond = 1000000"

definition maxBodyBytes :: nat where "maxBodyBytes = 4 * 1024 * 1024"
definition maxErrBodyDisplay :: nat where "maxErrBodyDisplay = 512"
definition retryMax :: nat where "retryMax = 3"
definition retryBaseDelay :: int where "retryBaseDelay = 200 * millisecond"
definition maxRetryAfter :: int where "maxRetryAfter = 30 * second"
definition busyRetryMaxDelay :: int where "busyRetryMaxDelay = 2 * second"
definition defaultBusyRetryBudget :: int where "defaultBusyRetryBudget = 45 * second"

lemmas http_consts = second_def millisecond_def retryMax_def retryBaseDelay_def maxRetryAfter_def
  busyRetryMaxDelay_def defaultBusyRetryBudget_def

section \<open>The world\<close>

text \<open>A \<^verbatim>\<open>Retry-After\<close> header as \<^verbatim>\<open>strconv.Atoi\<close> and \<^verbatim>\<open>http.ParseTime\<close> read it.\<close>

datatype retry_after = RANone | RASecs int | RADate Time | RAOther

datatype http_outcome =
    TransportErr err
  | Resp (resp_status: int) (resp_retry: retry_after) (resp_body: string)

record request =
  rqMethod :: string
  rqPath :: string
  rqBody :: "string option"

record net =
  hSent :: nat
  hClock :: Time
  hCalls :: "(string \<times> string) list"

type_synonym server = "nat \<Rightarrow> request \<Rightarrow> nat \<times> http_outcome"

text \<open>A context: when it is done, if ever, and with which error.\<close>

record ctx =
  cxDeadline :: "Time option"
  cxCancelAt :: "Time option"

definition ctx_done :: "ctx \<Rightarrow> Time \<Rightarrow> (Time \<times> err) option" where
  "ctx_done cx t = (case (cxDeadline cx, cxCancelAt cx) of
     (None, None) \<Rightarrow> None
   | (Some d, None) \<Rightarrow> if d \<le> t then Some (d, DeadlineExceeded) else None
   | (None, Some c) \<Rightarrow> if c \<le> t then Some (c, Canceled) else None
   | (Some d, Some c) \<Rightarrow> if d \<le> t \<and> d \<le> c then Some (d, DeadlineExceeded)
       else if c \<le> t then Some (c, Canceled) else None)"

text \<open>\<^verbatim>\<open>select { case <-ctx.Done(): .. case <-time.After(d): .. }\<close>\<close>

definition sleep :: "ctx \<Rightarrow> int \<Rightarrow> net \<Rightarrow> err option \<times> net" where
  "sleep cx d n = (case ctx_done cx (hClock n + d) of
     Some (t, e) \<Rightarrow> (Some e, n\<lparr>hClock := max (hClock n) t\<rparr>)
   | None \<Rightarrow> (None, n\<lparr>hClock := hClock n + d\<rparr>))"

definition send :: "server \<Rightarrow> request \<Rightarrow> net \<Rightarrow> http_outcome \<times> net" where
  "send srv rq n = (case srv (hSent n) rq of
     (dur, out) \<Rightarrow> (out, n\<lparr>hSent := hSent n + 1, hClock := hClock n + int dur\<rparr>))"

section \<open>One call with its retries\<close>

definition isRetryable :: "int \<Rightarrow> err option \<Rightarrow> bool" where
  "isRetryable statusCode transportErr \<longleftrightarrow> transportErr \<noteq> None \<or> statusCode = 429 \<or> statusCode \<ge> 500"

definition error_body :: "string \<Rightarrow> string" where
  "error_body raw = (let body = take maxBodyBytes raw in
     if length body > maxErrBodyDisplay then take maxErrBodyDisplay body @ ''...(truncated)'' else body)"

text \<open>
  The server-directed wait.  \<^verbatim>\<open>time.Duration(secs) * time.Second\<close> is a multiplication of 64-bit
  integers, so it wraps around.
\<close>

definition retry_wait :: "retry_after \<Rightarrow> Time \<Rightarrow> int" where
  "retry_wait ra now =
     min maxRetryAfter (case ra of
       RASecs secs \<Rightarrow> sint (word_of_int (secs * second) :: 64 word)
     | RADate t \<Rightarrow> if now < t then t - now else 0
     | _ \<Rightarrow> 0)"

definition backoff :: "nat \<Rightarrow> int" where
  "backoff attempt = retryBaseDelay * 2 ^ (attempt - 1)"

text \<open>
  \<open>want\<close> is the decoder of the out parameter (\<open>None\<close> for a nil out) and \<open>zero\<close> the value out has
  before decoding.
\<close>

definition success :: "(string \<Rightarrow> 'a option) option \<Rightarrow> 'a \<Rightarrow> int \<Rightarrow> string \<Rightarrow> err + 'a" where
  "success want zero status body = (case want of
     None \<Rightarrow> Inr zero
   | Some decode \<Rightarrow>
       if status = 204 then Inr zero
       else case decode (take maxBodyBytes body) of
         None \<Rightarrow> Inl (Wrap ''lightrag: decode response'' (Opaque ''invalid JSON''))
       | Some x \<Rightarrow> Inr x)"

text \<open>
  One iteration of the retry loop: it returns, or continues with the \<^verbatim>\<open>skipBackoff\<close> and \<^verbatim>\<open>lastErr\<close> it
  leaves behind.  \<open>badURL\<close> is the error of \<^verbatim>\<open>http.NewRequestWithContext\<close>, if it refuses the URL.
\<close>

datatype 'a iteration = Return "err + 'a" net | Continue bool err net

definition send_attempt ::
  "server \<Rightarrow> ctx \<Rightarrow> request \<Rightarrow> (string \<Rightarrow> 'a option) option \<Rightarrow> 'a \<Rightarrow> nat \<Rightarrow> net \<Rightarrow> 'a iteration" where
  "send_attempt srv cx rq want zero attempt n = (case send srv rq n of
     (TransportErr e, n2) \<Rightarrow> Continue False (Wrap ''lightrag: do request'' e) n2
   | (Resp status ra body, n2) \<Rightarrow>
       if status \<ge> 400 then
         let httpErr = HTTPError status (error_body body) (rqPath rq) in
         if isRetryable status None \<and> attempt < retryMax then
           if ra = RANone then Continue False httpErr n2
           else let wait = retry_wait ra (hClock n2) in
             (case (if wait > 0 then sleep cx wait n2 else (None, n2)) of
                (Some e, n3) \<Rightarrow> Return (Inl e) n3
              | (None, n3) \<Rightarrow> Continue True httpErr n3)
         else Return (Inl httpErr) n2
       else Return (success want zero status body) n2)"

definition one_attempt ::
  "server \<Rightarrow> ctx \<Rightarrow> err option \<Rightarrow> request \<Rightarrow> (string \<Rightarrow> 'a option) option \<Rightarrow> 'a \<Rightarrow> nat \<Rightarrow> bool \<Rightarrow> net \<Rightarrow> 'a iteration" where
  "one_attempt srv cx badURL rq want zero attempt skipBackoff n =
     (case (if attempt > 0 \<and> \<not> skipBackoff then sleep cx (backoff attempt) n else (None, n)) of
        (Some e, n1) \<Rightarrow> Return (Inl e) n1
      | (None, n1) \<Rightarrow>
          (case badURL of
             Some e \<Rightarrow> Return (Inl (Wrap ''lightrag: build request'' e)) n1
           | None \<Rightarrow> send_attempt srv cx rq want zero attempt n1))"

function attempt_from ::
  "server \<Rightarrow> ctx \<Rightarrow> err option \<Rightarrow> request \<Rightarrow> (string \<Rightarrow> 'a option) option \<Rightarrow> 'a \<Rightarrow> nat \<Rightarrow> bool \<Rightarrow> err \<Rightarrow> net \<Rightarrow> (err + 'a) \<times> net" where
  "attempt_from srv cx badURL rq want zero attempt skipBackoff lastErr n =
     (if attempt > retryMax then (Inl lastErr, n)
      else case one_attempt srv cx badURL rq want zero attempt skipBackoff n of
        Return r n' \<Rightarrow> (r, n')
      | Continue skip e n' \<Rightarrow> attempt_from srv cx badURL rq want zero (attempt + 1) skip e n')"
  by pat_completeness auto
termination
  by (relation "measure (\<lambda>(srv, cx, badURL, rq, want, zero, attempt, skip, lastErr, n). retryMax + 1 - attempt)") auto

declare attempt_from.simps [simp del]

lemma attempt_from_end [simp]: "attempt_from srv cx badURL rq want zero (Suc retryMax) skip lst n = (Inl lst, n)"
  by (simp add: attempt_from.simps)

definition roundTrip ::
  "server \<Rightarrow> ctx \<Rightarrow> err option \<Rightarrow> request \<Rightarrow> (string \<Rightarrow> 'a option) option \<Rightarrow> 'a \<Rightarrow> net \<Rightarrow> (err + 'a) \<times> net" where
  "roundTrip srv cx badURL rq want zero = attempt_from srv cx badURL rq want zero 0 False (Opaque '''')"

definition observe_call :: "string \<Rightarrow> (err + 'a) \<Rightarrow> net \<Rightarrow> net" where
  "observe_call op r n = n\<lparr>hCalls := hCalls n @ [(op, case r of Inl e \<Rightarrow> ''error'' | Inr x \<Rightarrow> ''success'')]\<rparr>"

definition do_call ::
  "server \<Rightarrow> ctx \<Rightarrow> err option \<Rightarrow> string \<Rightarrow> request \<Rightarrow> (string \<Rightarrow> 'a option) option \<Rightarrow> 'a \<Rightarrow> (net, err, 'a) call" where
  "do_call srv cx badURL op rq want zero n =
     (case roundTrip srv cx badURL rq want zero n of (r, n') \<Rightarrow> (r, observe_call op r n'))"

section \<open>Bounds of a call\<close>

text \<open>The measured facts about one call: requests sent, and the time that passed beyond the requests.\<close>

lemma sleep_clock: "0 \<le> d \<Longrightarrow> sleep cx d n = (r, n') \<Longrightarrow>
    hSent n' = hSent n \<and> hClock n \<le> hClock n' \<and> hClock n' \<le> hClock n + d \<and> hCalls n' = hCalls n"
  by (auto simp: sleep_def ctx_done_def split: option.splits if_splits)

lemma send_clock: "send srv rq n = (out, n') \<Longrightarrow>
    hSent n' = hSent n + 1 \<and> hClock n \<le> hClock n' \<and> hCalls n' = hCalls n"
  by (auto simp: send_def split: prod.splits)

lemma backoff_nonneg: "0 \<le> backoff a"
  by (simp add: backoff_def http_consts)

lemma retry_wait_le: "retry_wait ra now \<le> maxRetryAfter"
  by (simp add: retry_wait_def)

text \<open>What an iteration may do to the world.\<close>

definition advanced :: "nat \<Rightarrow> net \<Rightarrow> net \<Rightarrow> bool" where
  "advanced k n n' \<longleftrightarrow> hSent n \<le> hSent n' \<and> hSent n' \<le> hSent n + k \<and> hClock n \<le> hClock n' \<and> hCalls n' = hCalls n"

lemma advanced_trans: "advanced j n n1 \<Longrightarrow> advanced k n1 n2 \<Longrightarrow> advanced (j + k) n n2"
  by (auto simp: advanced_def)

lemma sleep_advanced: "0 \<le> d \<Longrightarrow> sleep cx d n = (r, n') \<Longrightarrow> advanced 0 n n'"
  using sleep_clock [of d cx n r n'] by (simp add: advanced_def)

lemma send_advanced: "send srv rq n = (out, n') \<Longrightarrow> advanced 1 n n'"
  using send_clock [of srv rq n out n'] by (simp add: advanced_def)

fun iteration_net :: "'a iteration \<Rightarrow> net" where
  "iteration_net (Return r n) = n"
| "iteration_net (Continue s e n) = n"

lemma send_attempt_advanced: "advanced 1 n (iteration_net (send_attempt srv cx rq want zero attempt n))"
proof -
  obtain out n2 where t: "send srv rq n = (out, n2)" by fastforce
  have s: "advanced 1 n n3" if "sleep cx w n2 = (e, n3)" "0 < w" for w e n3
    using advanced_trans [OF send_advanced [OF t] sleep_advanced [OF _ that(1)]] that(2) by simp
  show ?thesis
    using send_advanced [OF t] s
    by (auto simp: send_attempt_def t Let_def split: http_outcome.splits option.splits prod.splits)
qed

lemma one_attempt_advanced: "advanced 1 n (iteration_net (one_attempt srv cx badURL rq want zero attempt skip n))"
proof -
  obtain e n1 where s: "(if attempt > 0 \<and> \<not> skip then sleep cx (backoff attempt) n else (None, n)) = (e, n1)" by fastforce
  have n1: "advanced 0 n n1"
    using s sleep_advanced [OF backoff_nonneg] by (auto simp: advanced_def split: if_splits)
  have "advanced 1 n (iteration_net (send_attempt srv cx rq want zero attempt n1))"
    using advanced_trans [OF n1 send_attempt_advanced] by simp
  with n1 show ?thesis
    unfolding one_attempt_def s by (auto simp: advanced_def split: option.splits)
qed

lemma attempt_from_advanced:
  "advanced (retryMax + 1 - attempt) n (snd (attempt_from srv cx badURL rq want zero attempt skip lastErr n))"
proof (induction srv cx badURL rq want zero attempt skip lastErr n rule: attempt_from.induct)
  case (1 srv cx badURL rq want zero attempt skip lastErr n)
  let ?it = "one_attempt srv cx badURL rq want zero attempt skip n"
  have it: "advanced 1 n (iteration_net ?it)" by (rule one_attempt_advanced)
  show ?case
  proof (cases "attempt > retryMax")
    case False
    show ?thesis
    proof (cases ?it)
      case (Return r n')
      with it False show ?thesis by (auto simp: attempt_from.simps [of srv cx badURL rq want zero attempt] advanced_def)
    next
      case (Continue s e n')
      have "advanced (1 + (retryMax + 1 - (attempt + 1))) n (snd (attempt_from srv cx badURL rq want zero (attempt + 1) s e n'))"
        by (rule advanced_trans [OF it [unfolded Continue iteration_net.simps] 1 [OF False Continue]])
      moreover have "1 + (retryMax + 1 - (attempt + 1)) = retryMax + 1 - attempt" using False by simp
      ultimately show ?thesis using False Continue by (simp add: attempt_from.simps [of srv cx badURL rq want zero attempt])
    qed
  qed (simp add: attempt_from.simps advanced_def)
qed

lemma roundTrip_advanced: "advanced 4 n (snd (roundTrip srv cx badURL rq want zero n))"
  using attempt_from_advanced [of 0 n srv cx badURL rq want zero False] by (simp add: roundTrip_def retryMax_def)

section \<open>The result of a call\<close>

text \<open>
  The reference: read the answers in order until one is final.  A transport error and a 429 or 5xx
  answer are passed over, and what was seen last is reported when the answers run out.
\<close>

fun first_final :: "string \<Rightarrow> (string \<Rightarrow> 'a option) option \<Rightarrow> 'a \<Rightarrow> err \<Rightarrow> http_outcome list \<Rightarrow> err + 'a" where
  "first_final path want zero lst [] = Inl lst"
| "first_final path want zero lst (TransportErr e # os) = first_final path want zero (Wrap ''lightrag: do request'' e) os"
| "first_final path want zero lst (Resp status ra body # os) =
     (if status < 400 then success want zero status body
      else if status = 429 \<or> 500 \<le> status then first_final path want zero (HTTPError status (error_body body) path) os
      else Inl (HTTPError status (error_body body) path))"

definition background :: ctx where
  "background = \<lparr>cxDeadline = None, cxCancelAt = None\<rparr>"

lemma sleep_background [simp]: "sleep background d n = (None, n\<lparr>hClock := hClock n + d\<rparr>)"
  by (simp add: sleep_def ctx_done_def background_def)

lemma one_attempt_background:
  "one_attempt srv background None rq want zero attempt skip n = r \<Longrightarrow>
   (case snd (srv (hSent n) rq) of
      TransportErr e \<Rightarrow> \<exists>n'. r = Continue False (Wrap ''lightrag: do request'' e) n' \<and> hSent n' = hSent n + 1
    | Resp status ra body \<Rightarrow>
        if status < 400 then \<exists>n'. r = Return (success want zero status body) n'
        else if (status = 429 \<or> 500 \<le> status) \<and> attempt < retryMax
        then \<exists>s n'. r = Continue s (HTTPError status (error_body body) (rqPath rq)) n' \<and> hSent n' = hSent n + 1
        else \<exists>n'. r = Return (Inl (HTTPError status (error_body body) (rqPath rq))) n')"
proof -
  assume r: "one_attempt srv background None rq want zero attempt skip n = r"
  let ?n1 = "if attempt > 0 \<and> \<not> skip then n\<lparr>hClock := hClock n + backoff attempt\<rparr> else n"
  have "hSent ?n1 = hSent n" "r = send_attempt srv background rq want zero attempt ?n1"
    using r by (auto simp: one_attempt_def)
  then show ?thesis
    by (auto simp: send_attempt_def send_def isRetryable_def Let_def split: prod.splits http_outcome.splits)
qed

lemma attempt_from_reference:
  assumes "attempt \<le> retryMax + 1"
  shows "fst (attempt_from srv background None rq want zero attempt skip lst n) =
    first_final (rqPath rq) want zero lst (map (\<lambda>i. snd (srv (hSent n + i) rq)) [0..<retryMax + 1 - attempt])"
  using assms
proof (induction "retryMax + 1 - attempt" arbitrary: attempt skip lst n)
  case 0
  then show ?case by (simp add: attempt_from.simps)
next
  case (Suc m)
  then have le: "\<not> attempt > retryMax" and m: "m = retryMax + 1 - (attempt + 1)" by simp_all
  have outs: "map (\<lambda>i. snd (srv (hSent n + i) rq)) [0..<retryMax + 1 - attempt] =
      snd (srv (hSent n) rq) # map (\<lambda>i. snd (srv (hSent n + 1 + i) rq)) [0..<m]"
  proof -
    have "[0..<retryMax + 1 - attempt] = 0 # map Suc [0..<m]"
      unfolding Suc.hyps(2) [symmetric] by (simp add: upt_conv_Cons map_Suc_upt del: upt_Suc)
    then show ?thesis by (simp add: comp_def)
  qed
  have IH: "fst (attempt_from srv background None rq want zero (Suc attempt) s e n') =
      first_final (rqPath rq) want zero e (map (\<lambda>i. snd (srv (hSent n' + i) rq)) [0..<m])" for s e n'
    using Suc.hyps(1) [OF m] le m by simp
  have "m = 0 \<longleftrightarrow> \<not> attempt < retryMax" using m le by auto
  then show ?case
    using one_attempt_background [OF refl, of srv rq want zero attempt skip n] le
    unfolding outs
    by (auto simp: attempt_from.simps [of srv _ _ _ _ _ attempt] IH split: http_outcome.splits if_splits)
qed

text \<open>
  C5: a call with no deadline is equivalent to reading up to four answers and taking the first
  final one: transport errors, 429 and 5xx are retried, every other answer is returned at once, and
  after four tries the last failure is the result.
\<close>

theorem roundtrip_reference:
  "fst (roundTrip srv background None rq want zero n) =
     first_final (rqPath rq) want zero (Opaque '''') (map (\<lambda>i. snd (srv (hSent n + i) rq)) [0..<4])"
  using attempt_from_reference [of 0 srv rq want zero False "Opaque ''''" n] by (simp add: roundTrip_def retryMax_def)

text \<open>
  Whatever the server does and whatever the deadline, a call sends at most four requests and
  never waits more than 30 seconds for a \<^verbatim>\<open>Retry-After\<close>; a header of so many seconds that their
  number of nanoseconds exceeds 64 bits can make that wait vanish.
\<close>

theorem retry_bounds:
  "hSent (snd (roundTrip srv cx badURL rq want zero n)) \<le> hSent n + 4
   \<and> hClock n \<le> hClock (snd (roundTrip srv cx badURL rq want zero n))
   \<and> retry_wait ra now \<le> 30 * second
   \<and> retry_wait (RASecs 9223372037) now < 0"
  using roundTrip_advanced [of n srv cx badURL rq want zero] retry_wait_le [of ra now]
  by (simp add: advanced_def maxRetryAfter_def) (simp add: retry_wait_def second_def)

section \<open>The client methods\<close>

definition alnum :: "char \<Rightarrow> bool" where
  "alnum c = (let n = of_char c :: nat in 48 \<le> n \<and> n \<le> 57 \<or> 65 \<le> n \<and> n \<le> 90 \<or> 97 \<le> n \<and> n \<le> 122)"

definition upper_hex :: "nat \<Rightarrow> char" where
  "upper_hex n = (if n < 10 then char_of (48 + n) else char_of (55 + n))"

definition percent :: "char \<Rightarrow> string" where
  "percent c = (let n = of_char c :: nat in [CHR ''%'', upper_hex (n div 16), upper_hex (n mod 16)])"

definition PathEscape :: "string \<Rightarrow> string" where
  "PathEscape s = concat (map (\<lambda>c. if alnum c \<or> c \<in> set ''-_.~$&+:=@'' then [c] else percent c) s)"

definition QueryEscape :: "string \<Rightarrow> string" where
  "QueryEscape s = concat (map (\<lambda>c. if c = CHR '' '' then ''+'' else if alnum c \<or> c \<in> set ''-_.~'' then [c] else percent c) s)"

text \<open>JSON of the bodies: \<open>enc\<close> as \<^verbatim>\<open>json.Encode\<close> writes it, \<open>dec\<close> as \<^verbatim>\<open>json.Decode\<close> reads it.\<close>

record codec =
  encInsert :: "InsertTextRequest \<Rightarrow> string"
  encDelete :: "DeleteDocRequest \<Rightarrow> string"
  encQuery :: "QueryRequest \<Rightarrow> string"
  encEntityCreate :: "EntityCreateRequest \<Rightarrow> string"
  encEntityUpdate :: "EntityUpdateRequest \<Rightarrow> string"
  encEntityDelete :: "DeleteEntityRequest \<Rightarrow> string"
  encRelationCreate :: "RelationCreateRequest \<Rightarrow> string"
  encRelationDelete :: "DeleteRelationRequest \<Rightarrow> string"
  decInsert :: "string \<Rightarrow> InsertResponse option"
  decTrack :: "string \<Rightarrow> TrackStatusResponse option"
  decDelete :: "string \<Rightarrow> DeleteDocByIdResponse option"
  decQuery :: "string \<Rightarrow> QueryResponse option"
  decQueryData :: "string \<Rightarrow> QueryDataResponse option"
  decExists :: "string \<Rightarrow> bool option"
  decEntity :: "string \<Rightarrow> EntityResponse option"
  decLabels :: "string \<Rightarrow> string list option"
  decGraph :: "string \<Rightarrow> KnowledgeGraph option"
  decRelation :: "string \<Rightarrow> RelationResponse option"

text \<open>What a client is built with: the transport, and whether the base URL is well formed.\<close>

record http_client =
  hcServer :: server
  hcCodec :: codec
  hcBadURL :: "err option"

definition post :: "string \<Rightarrow> string \<Rightarrow> request" where
  "post path body = \<lparr>rqMethod = ''POST'', rqPath = path, rqBody = Some body\<rparr>"

definition get :: "string \<Rightarrow> request" where
  "get path = \<lparr>rqMethod = ''GET'', rqPath = path, rqBody = None\<rparr>"

definition delete :: "string \<Rightarrow> string \<Rightarrow> request" where
  "delete path body = \<lparr>rqMethod = ''DELETE'', rqPath = path, rqBody = Some body\<rparr>"

definition http_do :: "http_client \<Rightarrow> ctx \<Rightarrow> string \<Rightarrow> request \<Rightarrow> (string \<Rightarrow> 'a option) option \<Rightarrow> 'a \<Rightarrow> (net, err, 'a) call" where
  "http_do c cx op rq want zero = do_call (hcServer c) cx (hcBadURL c) op rq want zero"

definition HTTP_InsertText :: "http_client \<Rightarrow> ctx \<Rightarrow> InsertTextRequest \<Rightarrow> (net, err, InsertResponse) call" where
  "HTTP_InsertText c cx req = http_do c cx ''insert_text'' (post ''/documents/text'' (encInsert (hcCodec c) req))
     (Some (decInsert (hcCodec c))) \<lparr>irStatus = '''', irMessage = '''', irTrackID = ''''\<rparr>"

definition HTTP_TrackStatus :: "http_client \<Rightarrow> ctx \<Rightarrow> string \<Rightarrow> (net, err, TrackStatusResponse) call" where
  "HTTP_TrackStatus c cx trackID = http_do c cx ''track_status'' (get (''/documents/track_status/'' @ PathEscape trackID))
     (Some (decTrack (hcCodec c))) \<lparr>tsTrackID = '''', tsDocuments = [], tsTotalCount = 0, tsStatusSummary = []\<rparr>"

definition zeroDelete :: DeleteDocByIdResponse where
  "zeroDelete = \<lparr>drStatus = '''', drMessage = '''', drDocID = ''''\<rparr>"

text \<open>
  The busy loop of \<^verbatim>\<open>DeleteDocs\<close>.  It ends when the server says something else than busy, when a
  call fails, when the next wait would run past the deadline, or when the context is done; the
  last way out is the one that leaves no metric behind.
\<close>

partial_function (option) delete_loop ::
  "http_client \<Rightarrow> ctx \<Rightarrow> request \<Rightarrow> Time \<Rightarrow> Time \<Rightarrow> nat \<Rightarrow> int \<Rightarrow> net \<Rightarrow> ((err + DeleteDocByIdResponse) \<times> net) option" where
  "delete_loop c cx rq deadline start attempt delay n =
     (case roundTrip (hcServer c) cx (hcBadURL c) rq (Some (decDelete (hcCodec c))) zeroDelete n of
        (Inl e, n1) \<Rightarrow> Some (Inl e, observe_call ''delete_docs'' (Inl e :: err + unit) n1)
      | (Inr out, n1) \<Rightarrow>
          if drStatus out \<noteq> ''busy'' then Some (Inr out, observe_call ''delete_docs'' (Inr () :: err + unit) n1)
          else if hClock n1 + delay > deadline then
            (let busyErr = BusyError ''delete_docs'' attempt (hClock n1 - start) in
             Some (Inl busyErr, observe_call ''delete_docs'' (Inl busyErr :: err + unit) n1))
          else case sleep cx delay n1 of
            (Some e, n2) \<Rightarrow> Some (Inl e, n2)
          | (None, n2) \<Rightarrow> delete_loop c cx rq deadline start (attempt + 1)
              (if delay * 2 > busyRetryMaxDelay then busyRetryMaxDelay else delay * 2) n2)"

definition delete_deadline :: "ctx \<Rightarrow> net \<Rightarrow> Time" where
  "delete_deadline cx n = (case cxDeadline cx of Some d \<Rightarrow> d | None \<Rightarrow> hClock n + defaultBusyRetryBudget)"

definition HTTP_DeleteDocs_opt :: "http_client \<Rightarrow> ctx \<Rightarrow> DeleteDocRequest \<Rightarrow> net \<Rightarrow> ((err + DeleteDocByIdResponse) \<times> net) option" where
  "HTTP_DeleteDocs_opt c cx req n =
     delete_loop c cx (delete ''/documents/delete_document'' (encDelete (hcCodec c) req))
       (delete_deadline cx n) (hClock n) 1 retryBaseDelay n"

definition HTTP_DeleteDocs :: "http_client \<Rightarrow> ctx \<Rightarrow> DeleteDocRequest \<Rightarrow> (net, err, DeleteDocByIdResponse) call" where
  "HTTP_DeleteDocs c cx req n = the (HTTP_DeleteDocs_opt c cx req n)"

definition bad_mode :: "string \<Rightarrow> QueryRequest \<Rightarrow> net \<Rightarrow> (err + 'a) \<times> net" where
  "bad_mode op req n =
     (Inl (Opaque (''lightrag: invalid query mode '' @ quoteq (qrMode req))), n\<lparr>hCalls := hCalls n @ [(op, ''error'')]\<rparr>)"

definition HTTP_Query :: "http_client \<Rightarrow> ctx \<Rightarrow> QueryRequest \<Rightarrow> (net, err, QueryResponse) call" where
  "HTTP_Query c cx req n =
     (if qrMode req \<noteq> '''' \<and> \<not> LQueryMode_Valid (qrMode req) then bad_mode ''query'' req n
      else http_do c cx ''query'' (post ''/query'' (encQuery (hcCodec c) req)) (Some (decQuery (hcCodec c)))
        \<lparr>qsResponse = '''', qsReferences = []\<rparr> n)"

definition HTTP_QueryData :: "http_client \<Rightarrow> ctx \<Rightarrow> QueryRequest \<Rightarrow> (net, err, QueryDataResponse) call" where
  "HTTP_QueryData c cx req n =
     (if qrMode req \<noteq> '''' \<and> \<not> LQueryMode_Valid (qrMode req) then bad_mode ''query_data'' req n
      else case roundTrip (hcServer c) cx (hcBadURL c) (post ''/query/data'' (encQuery (hcCodec c) req))
          (Some (decQueryData (hcCodec c))) \<lparr>qdStatus = '''', qdMessage = '''', qdData = Map.empty, qdMetadata = Map.empty\<rparr> n of
        (Inl e, n1) \<Rightarrow> (Inl e, observe_call ''query_data'' (Inl e :: err + unit) n1)
      | (Inr out, n1) \<Rightarrow>
          if qdStatus out \<noteq> ''success'' then
            (let logicalErr = LogicalError ''query_data'' (qdStatus out) (qdMessage out) in
             (Inl logicalErr, observe_call ''query_data'' (Inl logicalErr :: err + unit) n1))
          else (Inr out, observe_call ''query_data'' (Inr () :: err + unit) n1))"

definition HTTP_EntityExists :: "http_client \<Rightarrow> ctx \<Rightarrow> string \<Rightarrow> (net, err, bool) call" where
  "HTTP_EntityExists c cx name = http_do c cx ''entity_exists'' (get (''/graph/entity/exists?name='' @ QueryEscape name))
     (Some (decExists (hcCodec c))) False"

definition zeroEntityResponse :: EntityResponse where
  "zeroEntityResponse = \<lparr>erStatus = '''', erMessage = '''', erData = Map.empty, erOperationSummary = Map.empty\<rparr>"

definition HTTP_CreateEntity :: "http_client \<Rightarrow> ctx \<Rightarrow> EntityCreateRequest \<Rightarrow> (net, err, EntityResponse) call" where
  "HTTP_CreateEntity c cx req = http_do c cx ''create_entity'' (post ''/graph/entity/create'' (encEntityCreate (hcCodec c) req))
     (Some (decEntity (hcCodec c))) zeroEntityResponse"

definition HTTP_UpdateEntity :: "http_client \<Rightarrow> ctx \<Rightarrow> EntityUpdateRequest \<Rightarrow> (net, err, EntityResponse) call" where
  "HTTP_UpdateEntity c cx req = http_do c cx ''update_entity'' (post ''/graph/entity/edit'' (encEntityUpdate (hcCodec c) req))
     (Some (decEntity (hcCodec c))) zeroEntityResponse"

definition HTTP_DeleteEntity :: "http_client \<Rightarrow> ctx \<Rightarrow> DeleteEntityRequest \<Rightarrow> (net, err, unit) call" where
  "HTTP_DeleteEntity c cx req = http_do c cx ''delete_entity'' (delete ''/documents/delete_entity'' (encEntityDelete (hcCodec c) req)) None ()"

definition HTTP_LabelSearch :: "http_client \<Rightarrow> ctx \<Rightarrow> string \<Rightarrow> (net, err, string list) call" where
  "HTTP_LabelSearch c cx q = http_do c cx ''label_search'' (get (''/graph/label/search?q='' @ QueryEscape q))
     (Some (decLabels (hcCodec c))) []"

definition HTTP_Graph :: "http_client \<Rightarrow> ctx \<Rightarrow> string \<Rightarrow> int \<Rightarrow> int \<Rightarrow> (net, err, KnowledgeGraph) call" where
  "HTTP_Graph c cx label maxDepth maxNodes = http_do c cx ''graph''
     (get (''/graphs?label='' @ QueryEscape label
       @ (if maxDepth > 0 then ''&max_depth='' @ dec_int maxDepth else '''')
       @ (if maxNodes > 0 then ''&max_nodes='' @ dec_int maxNodes else '''')))
     (Some (decGraph (hcCodec c))) \<lparr>kgNodes = [], kgEdges = []\<rparr>"

definition HTTP_CreateRelation :: "http_client \<Rightarrow> ctx \<Rightarrow> RelationCreateRequest \<Rightarrow> (net, err, RelationResponse) call" where
  "HTTP_CreateRelation c cx req = http_do c cx ''create_relation'' (post ''/graph/relation/create'' (encRelationCreate (hcCodec c) req))
     (Some (decRelation (hcCodec c))) \<lparr>rrStatus = '''', rrMessage = '''', rrData = Map.empty\<rparr>"

definition HTTP_DeleteRelation :: "http_client \<Rightarrow> ctx \<Rightarrow> DeleteRelationRequest \<Rightarrow> (net, err, unit) call" where
  "HTTP_DeleteRelation c cx req = http_do c cx ''delete_relation'' (delete ''/documents/delete_relation'' (encRelationDelete (hcCodec c) req)) None ()"

definition HTTP_Health :: "http_client \<Rightarrow> ctx \<Rightarrow> (net, err, unit) call" where
  "HTTP_Health c cx = http_do c cx ''health'' (get ''/health'') None ()"

definition HTTPClient_ops :: "http_client \<Rightarrow> ctx \<Rightarrow> net Client" where
  "HTTPClient_ops c cx = \<lparr>InsertText = HTTP_InsertText c cx, TrackStatus = HTTP_TrackStatus c cx,
     DeleteDocs = HTTP_DeleteDocs c cx, LRQuery = HTTP_Query c cx, LRQueryData = HTTP_QueryData c cx,
     EntityExists = HTTP_EntityExists c cx, CreateEntity = HTTP_CreateEntity c cx,
     UpdateEntity = HTTP_UpdateEntity c cx, DeleteEntity = HTTP_DeleteEntity c cx,
     LabelSearch = HTTP_LabelSearch c cx, Graph = HTTP_Graph c cx,
     CreateRelation = HTTP_CreateRelation c cx, DeleteRelation = HTTP_DeleteRelation c cx,
     Health = HTTP_Health c cx\<rparr>"

section \<open>Waiting for the pipeline lock\<close>

lemma roundTrip_clock: "roundTrip srv cx badURL rq want zero n = (r, n1) \<Longrightarrow> hClock n \<le> hClock n1"
  using roundTrip_advanced [of n srv cx badURL rq want zero] by (simp add: advanced_def)

lemma next_delay: "retryBaseDelay \<le> delay \<Longrightarrow> delay \<le> busyRetryMaxDelay \<Longrightarrow>
    retryBaseDelay \<le> (if delay * 2 > busyRetryMaxDelay then busyRetryMaxDelay else delay * 2)
    \<and> (if delay * 2 > busyRetryMaxDelay then busyRetryMaxDelay else delay * 2) \<le> busyRetryMaxDelay"
  by (simp add: http_consts)

definition polls :: "Time \<Rightarrow> net \<Rightarrow> nat" where
  "polls deadline n = nat ((deadline - hClock n) div retryBaseDelay) + 1"

lemma polls_less:
  assumes "hClock n + retryBaseDelay \<le> hClock n'" "hClock n' \<le> deadline"
  shows "polls deadline n' + 1 \<le> polls deadline n"
proof -
  have b: "retryBaseDelay > 0" by (simp add: http_consts)
  have "(deadline - hClock n' + retryBaseDelay) div retryBaseDelay \<le> (deadline - hClock n) div retryBaseDelay"
    using assms b by (intro zdiv_mono1) auto
  then have "(deadline - hClock n') div retryBaseDelay + 1 \<le> (deadline - hClock n) div retryBaseDelay"
    using b by (simp add: div_add_self2)
  moreover have "0 \<le> (deadline - hClock n') div retryBaseDelay" using assms b by (simp add: pos_imp_zdiv_nonneg_iff)
  ultimately show ?thesis by (simp add: polls_def)
qed

lemma delete_loop_returns:
  assumes "retryBaseDelay \<le> delay" "delay \<le> busyRetryMaxDelay"
  shows "\<exists>r n'. delete_loop c cx rq deadline start attempt delay n = Some (r, n')
    \<and> (\<forall>out. r = Inr out \<longrightarrow> drStatus out \<noteq> ''busy'') \<and> hSent n' \<le> hSent n + 4 * polls deadline n"
  using assms
proof (induction "polls deadline n" arbitrary: attempt delay n rule: less_induct)
  case less
  obtain r1 n1 where rt: "roundTrip (hcServer c) cx (hcBadURL c) rq (Some (decDelete (hcCodec c))) zeroDelete n = (r1, n1)"
    by fastforce
  have n1: "hSent n1 \<le> hSent n + 4" "hClock n \<le> hClock n1"
    using roundTrip_advanced [of n "hcServer c" cx "hcBadURL c" rq "Some (decDelete (hcCodec c))" zeroDelete]
    by (simp_all add: rt advanced_def)
  have one: "hSent n + 4 \<le> hSent n + 4 * polls deadline n" by (simp add: polls_def)
  note step = delete_loop.simps [of c cx rq deadline start attempt delay n, unfolded rt]
  show ?case
  proof (cases "\<exists>out. r1 = Inr out \<and> drStatus out = ''busy'' \<and> \<not> hClock n1 + delay > deadline")
    case False
    then show ?thesis using step n1 one by (cases r1) (auto simp: observe_call_def Let_def)
  next
    case True
    then obtain out where out: "r1 = Inr out" "drStatus out = ''busy''" "hClock n1 + delay \<le> deadline" by auto
    obtain e n2 where s: "sleep cx delay n1 = (e, n2)" by fastforce
    have pos: "0 < delay" using less.prems by (simp add: http_consts)
    have n2: "hSent n2 = hSent n1" using sleep_clock [OF _ s] pos by simp
    show ?thesis
    proof (cases e)
      case (Some x)
      then show ?thesis using step out s n1 n2 one by auto
    next
      case None
      have "hClock n2 = hClock n1 + delay" using s None by (auto simp: sleep_def split: option.splits)
      then have p: "polls deadline n2 + 1 \<le> polls deadline n"
        using n1 out less.prems by (intro polls_less) auto
      let ?d = "if delay * 2 > busyRetryMaxDelay then busyRetryMaxDelay else delay * 2"
      obtain r n' where "delete_loop c cx rq deadline start (attempt + 1) ?d n2 = Some (r, n')"
        "\<forall>out. r = Inr out \<longrightarrow> drStatus out \<noteq> ''busy''" "hSent n' \<le> hSent n2 + 4 * polls deadline n2"
        using less.hyps [of n2 ?d "attempt + 1"] next_delay [OF less.prems] p by auto
      moreover have "delete_loop c cx rq deadline start attempt delay n = delete_loop c cx rq deadline start (attempt + 1) ?d n2"
        using step out s None by simp
      ultimately show ?thesis using n1 n2 p by auto
    qed
  qed
qed

text \<open>
  C6: \<^verbatim>\<open>DeleteDocs\<close> always returns, whatever the server does: within the caller's deadline or the
  default budget it makes at most one poll per 200 milliseconds of budget plus one, of at most four
  requests each, and it never reports success with the status busy.
\<close>

theorem delete_docs_returns:
  "\<exists>r n'. HTTP_DeleteDocs_opt c cx req n = Some (r, n') \<and> HTTP_DeleteDocs c cx req n = (r, n')
     \<and> (case r of Inr out \<Rightarrow> drStatus out \<noteq> ''busy'' | Inl e \<Rightarrow> True)
     \<and> hSent n' \<le> hSent n + 4 * (nat ((delete_deadline cx n - hClock n) div retryBaseDelay) + 1)"
  using delete_loop_returns [of retryBaseDelay c cx "delete ''/documents/delete_document'' (encDelete (hcCodec c) req)"
      "delete_deadline cx n" "hClock n" 1 n]
  by (auto simp: HTTP_DeleteDocs_opt_def HTTP_DeleteDocs_def polls_def http_consts split: sum.splits)

end
