(* ===== verification/Tombstones.thy ===== *)
theory Tombstones
  imports Lightrag_Http
begin

text \<open>
  Soft deletes: the tombstone table (\<^verbatim>\<open>internal/memory/tombstone.go\<close>), the index from a source file
  to the memories made from it (\<^verbatim>\<open>sources.go\<close>), and the reaper that removes a tombstone once
  LightRAG confirms the document is gone (\<^verbatim>\<open>reaper.go\<close>).
\<close>

section \<open>The tombstone store\<close>

record tombstone =
  tbTrackID :: string
  tbDeletedAt :: Time
  tbAttempts :: int
  tbNextCheck :: "Time option"

text \<open>The table, and how often the \<^verbatim>\<open>markCounter\<close> callback was called.\<close>

record tomb_db =
  deleted_memories :: "tombstone list"
  tomb_created :: nat

type_synonym tomb_conn = "tomb_db conn"

definition on_tombs :: "(tombstone list \<Rightarrow> tombstone list) \<Rightarrow> (tomb_conn, err, unit) call" where
  "on_tombs f = db_exec (\<lambda>d. ((), d\<lparr>deleted_memories := f (deleted_memories d)\<rparr>))"

definition TS_Mark :: "Time \<Rightarrow> string \<Rightarrow> (tomb_conn, err, unit) call" where
  "TS_Mark now trackID c =
     (case on_tombs (upsert tbTrackID (\<lambda>old new. old\<lparr>tbDeletedAt := now\<rparr>)
        \<lparr>tbTrackID = trackID, tbDeletedAt = now, tbAttempts = 0, tbNextCheck = None\<rparr>) c of
        (Inl e, c') \<Rightarrow> (Inl (Wrap ''tombstone mark'' e), c')
      | (Inr _, c') \<Rightarrow> (Inr (), c'\<lparr>tables := (tables c')\<lparr>tomb_created := tomb_created (tables c') + 1\<rparr>\<rparr>))"

definition TS_IsDeleted :: "string \<Rightarrow> (tomb_conn, err, bool) call" where
  "TS_IsDeleted trackID = mapErr (Wrap ''tombstone check'')
     (db_query (\<lambda>d. list_ex (\<lambda>t. tbTrackID t = trackID) (deleted_memories d)))"

definition TS_Unmark :: "string \<Rightarrow> (tomb_conn, err, unit) call" where
  "TS_Unmark trackID = mapErr (Wrap ''tombstone unmark'') (on_tombs (tdelete (\<lambda>t. tbTrackID t = trackID)))"

definition TS_Delete :: "string \<Rightarrow> (tomb_conn, err, unit) call" where
  "TS_Delete trackID = mapErr (Wrap ''tombstone delete'') (on_tombs (tdelete (\<lambda>t. tbTrackID t = trackID)))"

record ForceCandidate =
  fcTrackID :: string
  fcAttempts :: int

text \<open>\<^verbatim>\<open>int64(age.Seconds())\<close>: whole seconds, rounded towards zero.\<close>

definition whole_seconds :: "int \<Rightarrow> int" where
  "whole_seconds d = sgn d * (\<bar>d\<bar> div second)"

definition TS_ListOlderThan :: "Time \<Rightarrow> int \<Rightarrow> nat \<Rightarrow> (tomb_conn, err, ForceCandidate list) call" where
  "TS_ListOlderThan now age limit = mapErr (Wrap ''tombstone list older'') (db_query (\<lambda>d.
     map (\<lambda>t. \<lparr>fcTrackID = tbTrackID t, fcAttempts = tbAttempts t\<rparr>)
       (take limit (sort_key tbDeletedAt
         (filter (\<lambda>t. tbDeletedAt t < now - whole_seconds age * second
            \<and> (case tbNextCheck t of None \<Rightarrow> True | Some c \<Rightarrow> c \<le> now)) (deleted_memories d))))))"

definition TS_RecordForceCheckStillPresent :: "string \<Rightarrow> Time \<Rightarrow> (tomb_conn, err, unit) call" where
  "TS_RecordForceCheckStillPresent trackID nextCheckAt = mapErr (Wrap ''tombstone record force check'')
     (on_tombs (tupdate (\<lambda>t. tbTrackID t = trackID)
        (\<lambda>t. t\<lparr>tbAttempts := tbAttempts t + 1, tbNextCheck := Some nextCheckAt\<rparr>)))"

definition TS_List :: "nat \<Rightarrow> (tomb_conn, err, string list) call" where
  "TS_List limit = mapErr (Wrap ''tombstone list'')
     (db_query (\<lambda>d. map tbTrackID (take limit (sort_key tbDeletedAt (deleted_memories d)))))"

section \<open>The source index\<close>

record source_row =
  srRepo :: string
  srFile :: string
  srTrackID :: string

type_synonym source_conn = "source_row list conn"

definition SS_Add :: "string \<Rightarrow> string \<Rightarrow> string \<Rightarrow> (source_conn, err, unit) call" where
  "SS_Add repo filePath trackID = mapErr (Wrap ''memory_sources add'')
     (db_exec (\<lambda>d. ((), upsert id (\<lambda>old new. old) \<lparr>srRepo = repo, srFile = filePath, srTrackID = trackID\<rparr> d)))"

definition from_file :: "string \<Rightarrow> string \<Rightarrow> source_row \<Rightarrow> bool" where
  "from_file repo filePath r \<longleftrightarrow> srRepo r = repo \<and> srFile r = filePath"

definition SS_TrackIDs :: "string \<Rightarrow> string \<Rightarrow> (source_conn, err, string list) call" where
  "SS_TrackIDs repo filePath = mapErr (Wrap ''memory_sources select'')
     (db_query (\<lambda>d. map srTrackID (filter (from_file repo filePath) d)))"

definition SS_DeleteByFile :: "string \<Rightarrow> string \<Rightarrow> (source_conn, err, nat) call" where
  "SS_DeleteByFile repo filePath = mapErr (Wrap ''memory_sources delete'')
     (db_exec (\<lambda>d. (count_if (from_file repo filePath) d, tdelete (from_file repo filePath) d)))"

section \<open>The reaper\<close>

definition TombstoneReapBatchSize :: nat where "TombstoneReapBatchSize = 1000"

definition forceReapBackoffBase :: int where "forceReapBackoffBase = 3600 * second"
definition forceReapBackoffCap :: int where "forceReapBackoffCap = 24 * 3600 * second"

text \<open>\<^verbatim>\<open>for i := 1; i < attempts && d < cap; i++ { d *= 2 }\<close>, counting the iterations left.\<close>

fun backoff_loop :: "nat \<Rightarrow> int \<Rightarrow> int" where
  "backoff_loop 0 d = d"
| "backoff_loop (Suc k) d = (if d < forceReapBackoffCap then backoff_loop k (d * 2) else d)"

definition forceReapBackoff :: "int \<Rightarrow> int" where
  "forceReapBackoff attempts =
     (let d = backoff_loop (nat (attempts - 1)) forceReapBackoffBase in
      if d > forceReapBackoffCap then forceReapBackoffCap else d)"

text \<open>
  The reaper's upstream: \<open>Inr None\<close> is a nil response.  A tick runs until its deadline: \<open>left\<close> is
  the number of candidates it gets to before the deadline fires.
\<close>

type_synonym 'l status_call = "string \<Rightarrow> ('l, err, DocStatusResponse list option) call"

record 'l reaper =
  rpStore :: tomb_conn
  rpUpstream :: 'l
  rpMetric :: "string list"
  rpNow :: Time

definition reap_count :: "string \<Rightarrow> 'l reaper \<Rightarrow> 'l reaper" where
  "reap_count op r = r\<lparr>rpMetric := rpMetric r @ [op]\<rparr>"

definition reapConfirmed :: "string \<Rightarrow> string \<Rightarrow> 'l reaper \<Rightarrow> 'l reaper" where
  "reapConfirmed op trackID r = (case TS_Delete trackID (rpStore r) of
     (Inl e, c) \<Rightarrow> r\<lparr>rpStore := c\<rparr>
   | (Inr _, c) \<Rightarrow> reap_count op (r\<lparr>rpStore := c\<rparr>))"

text \<open>\<^verbatim>\<open>resp == nil || len(resp.Documents) == 0\<close>\<close>

definition no_docs :: "DocStatusResponse list option \<Rightarrow> bool" where
  "no_docs docs = (case docs of None \<Rightarrow> True | Some ds \<Rightarrow> List.null ds)"

definition check_one :: "'l status_call \<Rightarrow> string \<Rightarrow> 'l reaper \<Rightarrow> 'l reaper" where
  "check_one ts x r = (case ts x (rpUpstream r) of
     (Inl e, l) \<Rightarrow>
        if isNotFoundHTTP e then reapConfirmed ''reaped'' x (r\<lparr>rpUpstream := l\<rparr>)
        else reap_count ''check_error'' (r\<lparr>rpUpstream := l\<rparr>)
   | (Inr docs, l) \<Rightarrow>
        if no_docs docs then reapConfirmed ''reaped'' x (r\<lparr>rpUpstream := l\<rparr>)
        else r\<lparr>rpUpstream := l\<rparr>)"

fun tick_loop :: "'l status_call \<Rightarrow> string list \<Rightarrow> nat \<Rightarrow> 'l reaper \<Rightarrow> nat option \<times> 'l reaper" where
  "tick_loop ts [] left r = (Some left, r)"
| "tick_loop ts (x # xs) 0 r = (None, r)"
| "tick_loop ts (x # xs) (Suc left) r = tick_loop ts xs left (check_one ts x r)"

definition still_present :: "ForceCandidate \<Rightarrow> 'l reaper \<Rightarrow> 'l reaper" where
  "still_present cand r =
     (case TS_RecordForceCheckStillPresent (fcTrackID cand)
        (rpNow r + forceReapBackoff (fcAttempts cand + 1)) (rpStore r) of
        (_, c) \<Rightarrow> reap_count ''force_skipped_still_present'' (r\<lparr>rpStore := c\<rparr>))"

definition force_one :: "'l status_call \<Rightarrow> ForceCandidate \<Rightarrow> 'l reaper \<Rightarrow> 'l reaper" where
  "force_one ts cand r = (case ts (fcTrackID cand) (rpUpstream r) of
     (Inl e, l) \<Rightarrow>
        if isNotFoundHTTP e then reapConfirmed ''forced'' (fcTrackID cand) (r\<lparr>rpUpstream := l\<rparr>)
        else reap_count ''check_error'' (r\<lparr>rpUpstream := l\<rparr>)
   | (Inr docs, l) \<Rightarrow>
        if no_docs docs then reapConfirmed ''forced'' (fcTrackID cand) (r\<lparr>rpUpstream := l\<rparr>)
        else still_present cand (r\<lparr>rpUpstream := l\<rparr>))"

fun force_loop :: "'l status_call \<Rightarrow> ForceCandidate list \<Rightarrow> nat \<Rightarrow> 'l reaper \<Rightarrow> 'l reaper" where
  "force_loop ts [] left r = r"
| "force_loop ts (cand # cs) 0 r = r"
| "force_loop ts (cand # cs) (Suc left) r = force_loop ts cs left (force_one ts cand r)"

definition maxAge :: int where "maxAge = 24 * 3600 * second"

definition forceTick :: "'l status_call \<Rightarrow> nat \<Rightarrow> 'l reaper \<Rightarrow> 'l reaper" where
  "forceTick ts left r = (case TS_ListOlderThan (rpNow r) maxAge TombstoneReapBatchSize (rpStore r) of
     (Inl e, c) \<Rightarrow> r\<lparr>rpStore := c\<rparr>
   | (Inr cands, c) \<Rightarrow> force_loop ts cands left (r\<lparr>rpStore := c\<rparr>))"

definition tick :: "'l status_call \<Rightarrow> nat \<Rightarrow> 'l reaper \<Rightarrow> 'l reaper" where
  "tick ts left r = (case TS_List TombstoneReapBatchSize (rpStore r) of
     (Inl e, c) \<Rightarrow> r\<lparr>rpStore := c\<rparr>
   | (Inr ids, c) \<Rightarrow> (case tick_loop ts ids left (r\<lparr>rpStore := c\<rparr>) of
       (None, r') \<Rightarrow> r'
     | (Some left', r') \<Rightarrow> forceTick ts left' r'))"

definition newReaper :: "tomb_conn \<Rightarrow> 'l \<Rightarrow> Time \<Rightarrow> 'l reaper" where
  "newReaper store lr now = \<lparr>rpStore = store, rpUpstream = lr, rpMetric = [], rpNow = now\<rparr>"

definition IncCreated :: "'l reaper \<Rightarrow> 'l reaper" where
  "IncCreated r = reap_count ''created'' r"

text \<open>
  The loop, over what its \<^verbatim>\<open>select\<close> receives: the end of the context, or a tick of the timer.  A tick comes with what
  the rest of the process did to the table and the clock since the last one, the answers of LightRAG and the
  number of checks that fit before the deadline of the tick.
\<close>

datatype 'l wake = CtxEnd | Timer "'l reaper \<Rightarrow> 'l reaper" "'l status_call" nat

fun reaper_Run :: "'l wake list \<Rightarrow> 'l reaper \<Rightarrow> 'l reaper" where
  "reaper_Run [] r = r"
| "reaper_Run (CtxEnd # ws) r = r"
| "reaper_Run (Timer elapse ts left # ws) r = reaper_Run ws (tick ts left (elapse r))"

section \<open>The interfaces of the service\<close>

text \<open>
  What \<^verbatim>\<open>memory.Service\<close> asks of the two stores.  The contract of the first is over the set of
  deleted IDs, that of the second over the IDs indexed for a file; a failing call changes neither.
\<close>

record 't Tombstoner =
  Mark :: "string \<Rightarrow> ('t, err, unit) call"
  Unmark :: "string \<Rightarrow> ('t, err, unit) call"
  IsDeleted :: "string \<Rightarrow> ('t, err, bool) call"

record 's SourceIndex =
  TrackIDs :: "string \<Rightarrow> string \<Rightarrow> ('s, err, string list) call"
  DeleteByFile :: "string \<Rightarrow> string \<Rightarrow> ('s, err, nat) call"

locale tombstoner =
  fixes T :: "'t Tombstoner" and dead :: "'t \<Rightarrow> string set"
  assumes mark_ok: "Mark T k s = (Inr (), s') \<Longrightarrow> dead s' = insert k (dead s)"
    and mark_err: "Mark T k s = (Inl e, s') \<Longrightarrow> dead s' = dead s"
    and unmark_ok: "Unmark T k s = (Inr (), s') \<Longrightarrow> dead s' = dead s - {k}"
    and unmark_err: "Unmark T k s = (Inl e, s') \<Longrightarrow> dead s' = dead s"
    and isdeleted_ok: "IsDeleted T k s = (Inr b, s') \<Longrightarrow> dead s' = dead s \<and> b = (k \<in> dead s)"
    and isdeleted_err: "IsDeleted T k s = (Inl e, s') \<Longrightarrow> dead s' = dead s"

locale source_index =
  fixes I :: "'s SourceIndex" and indexed :: "'s \<Rightarrow> string \<Rightarrow> string \<Rightarrow> string set"
  assumes trackids_ok: "TrackIDs I repo f s = (Inr ids, s') \<Longrightarrow> indexed s' = indexed s \<and> set ids = indexed s repo f"
    and trackids_err: "TrackIDs I repo f s = (Inl e, s') \<Longrightarrow> indexed s' = indexed s"
    and delete_ok: "DeleteByFile I repo f s = (Inr n, s') \<Longrightarrow>
      indexed s' = (\<lambda>r g. if r = repo \<and> g = f then {} else indexed s r g)"
    and delete_err: "DeleteByFile I repo f s = (Inl e, s') \<Longrightarrow> indexed s' = indexed s"

definition TombstoneStore_ops :: "Time \<Rightarrow> tomb_conn Tombstoner" where
  "TombstoneStore_ops now = \<lparr>Mark = TS_Mark now, Unmark = TS_Unmark, IsDeleted = TS_IsDeleted\<rparr>"

definition SourceStore_ops :: "source_conn SourceIndex" where
  "SourceStore_ops = \<lparr>TrackIDs = SS_TrackIDs, DeleteByFile = SS_DeleteByFile\<rparr>"

definition tombs :: "tomb_conn \<Rightarrow> string set" where
  "tombs c = tbTrackID ` set (deleted_memories (tables c))"

definition file_ids :: "source_conn \<Rightarrow> string \<Rightarrow> string \<Rightarrow> string set" where
  "file_ids c repo f = {srTrackID r | r. r \<in> set (tables c) \<and> from_file repo f r}"

lemma on_tombs_Inr: "on_tombs f c = (Inr u, c') \<Longrightarrow>
    tables c' = (tables c)\<lparr>deleted_memories := f (deleted_memories (tables c))\<rparr>"
  unfolding on_tombs_def by (drule db_exec_Inr) simp

lemma on_tombs_Inl: "on_tombs f c = (Inl e, c') \<Longrightarrow> tables c' = tables c"
  unfolding on_tombs_def by (rule db_exec_Inl)

lemma tombs_on: "on_tombs f c = (r, c') \<Longrightarrow>
    tombs c' = (if isl r then tombs c else tbTrackID ` set (f (deleted_memories (tables c))))"
  by (cases r) (simp_all add: tombs_def on_tombs_Inl on_tombs_Inr)

lemma tombs_stmt:
  assumes "mapErr w (on_tombs f) c = (r, c')"
  shows "tombs c' = (if isl r then tombs c else tbTrackID ` set (f (deleted_memories (tables c))))"
proof (cases r)
  case (Inl e)
  with assms obtain e' where "on_tombs f c = (Inl e', c')" by (auto simp: mapErr_eq_Inl)
  from tombs_on [OF this] Inl show ?thesis by simp
next
  case (Inr u)
  with assms have "on_tombs f c = (Inr u, c')" by (simp add: mapErr_eq_Inr)
  from tombs_on [OF this] Inr show ?thesis by simp
qed

lemma tombs_tdelete: "tbTrackID ` set (tdelete (\<lambda>t. tbTrackID t = k) (deleted_memories (tables c))) = tombs c - {k}"
  by (auto simp: set_tdelete tombs_def)

lemma tombs_delete: "TS_Delete k c = (r, c') \<Longrightarrow> tombs c' = (if isl r then tombs c else tombs c - {k})"
  unfolding TS_Delete_def tombs_tdelete [symmetric] by (rule tombs_stmt)

lemma tombs_unmark: "TS_Unmark k c = (r, c') \<Longrightarrow> tombs c' = (if isl r then tombs c else tombs c - {k})"
  unfolding TS_Unmark_def tombs_tdelete [symmetric] by (rule tombs_stmt)

lemma tombs_mark:
  assumes "TS_Mark now k c = (r, c')"
  shows "tombs c' = (if isl r then tombs c else insert k (tombs c))"
proof -
  let ?f = "upsert tbTrackID (\<lambda>old new. old\<lparr>tbDeletedAt := now\<rparr>)
    \<lparr>tbTrackID = k, tbDeletedAt = now, tbAttempts = 0, tbNextCheck = None\<rparr>"
  obtain x c1 where m: "on_tombs ?f c = (x, c1)" by fastforce
  have "tbTrackID ` set (?f (deleted_memories (tables c))) = insert k (tombs c)"
    by (subst upsert_keeps_key) (simp_all add: tombs_def)
  with tombs_on [OF m] assms m show ?thesis
    by (cases x) (auto simp: TS_Mark_def tombs_def)
qed

lemma tombs_check: "TS_IsDeleted k c = (r, c') \<Longrightarrow> tombs c' = tombs c \<and> (\<forall>b. r = Inr b \<longrightarrow> b = (k \<in> tombs c))"
  unfolding TS_IsDeleted_def tombs_def
  by (cases r) (auto simp: mapErr_eq_Inl mapErr_eq_Inr list_ex_iff image_iff dest!: db_query_Inl db_query_Inr)

interpretation ts: tombstoner "TombstoneStore_ops now" tombs for now
  by unfold_locales
     (auto simp: TombstoneStore_ops_def dest: tombs_mark tombs_unmark tombs_check)

interpretation ss: source_index SourceStore_ops file_ids
proof (unfold_locales, goal_cases)
  case (1 repo f s ids s')
  then show ?case
    by (auto simp: SourceStore_ops_def SS_TrackIDs_def mapErr_eq_Inr file_ids_def fun_eq_iff dest!: db_query_Inr)
next
  case (2 repo f s e s')
  then show ?case
    by (auto simp: SourceStore_ops_def SS_TrackIDs_def mapErr_eq_Inl file_ids_def fun_eq_iff dest!: db_query_Inl)
next
  case (3 repo f s n s')
  then have "tables s' = tdelete (from_file repo f) (tables s)"
    by (auto simp: SourceStore_ops_def SS_DeleteByFile_def mapErr_eq_Inr dest!: db_exec_Inr)
  then show ?case by (auto simp: file_ids_def fun_eq_iff from_file_def set_tdelete)
next
  case (4 repo f s e s')
  then show ?case
    by (auto simp: SourceStore_ops_def SS_DeleteByFile_def mapErr_eq_Inl file_ids_def fun_eq_iff dest!: db_exec_Inl)
qed

section \<open>The backoff\<close>

lemma backoff_loop_min: "0 < d \<Longrightarrow> min forceReapBackoffCap (backoff_loop k d) = min forceReapBackoffCap (d * 2 ^ k)"
proof (induction k arbitrary: d)
  case (Suc k)
  show ?case
  proof (cases "d < forceReapBackoffCap")
    case True
    then show ?thesis using Suc.IH [of "d * 2"] Suc.prems by (simp add: mult.assoc)
  next
    case False
    have "(1::int) \<le> 2 ^ Suc k" by (rule one_le_power) simp
    then have "d * 1 \<le> d * 2 ^ Suc k" using Suc.prems by (intro mult_left_mono) simp_all
    with False show ?thesis by (simp add: min_def)
  qed
qed simp

text \<open>
  The delay before the next forced check of a document that is still there doubles from one
  hour with every attempt and is capped at a day: it is the least of a day and
  \<open>2 ^ (attempts - 1)\<close> hours, for every attempt count.
\<close>

theorem force_backoff_closed_form:
  "forceReapBackoff attempts = min (24 * 3600 * second) (3600 * second * 2 ^ nat (attempts - 1))
   \<and> 3600 * second \<le> forceReapBackoff attempts"
proof -
  have base: "0 < forceReapBackoffBase" by (simp add: forceReapBackoffBase_def second_def)
  have eq: "forceReapBackoff attempts = min forceReapBackoffCap (forceReapBackoffBase * 2 ^ nat (attempts - 1))"
    using backoff_loop_min [OF base, of "nat (attempts - 1)"]
    by (auto simp: forceReapBackoff_def Let_def min_def split: if_splits)
  have "(1::int) \<le> 2 ^ nat (attempts - 1)" by simp
  then show ?thesis
    unfolding eq by (simp add: forceReapBackoffCap_def forceReapBackoffBase_def second_def)
qed

section \<open>The reaper removes only what is gone\<close>

text \<open>LightRAG's answer says that the document is gone: a 404, or no documents.\<close>

definition gone :: "(err + DocStatusResponse list option) \<Rightarrow> bool" where
  "gone ans = (case ans of Inl e \<Rightarrow> isNotFoundHTTP e | Inr docs \<Rightarrow> no_docs docs)"

definition kept :: "(string \<Rightarrow> err + DocStatusResponse list option) \<Rightarrow> 'l reaper \<Rightarrow> 'l reaper \<Rightarrow> bool" where
  "kept ans r r' \<longleftrightarrow> tombs (rpStore r') \<subseteq> tombs (rpStore r) \<and> {k \<in> tombs (rpStore r). \<not> gone (ans k)} \<subseteq> tombs (rpStore r')"

lemma kept_refl [simp]: "kept ans r r"
  by (auto simp: kept_def)

lemma kept_trans: "kept ans r r1 \<Longrightarrow> kept ans r1 r2 \<Longrightarrow> kept ans r r2"
  unfolding kept_def by blast

lemma kept_same: "tombs (rpStore r') = tombs (rpStore r) \<Longrightarrow> kept ans r r'"
  by (auto simp: kept_def)

lemma kept_count [simp]: "kept ans r (reap_count op r') = kept ans r r'"
  by (simp add: kept_def reap_count_def)

lemma kept_upstream [simp]: "kept ans (r\<lparr>rpUpstream := l\<rparr>) r' = kept ans r r'" "kept ans r (r'\<lparr>rpUpstream := l\<rparr>) = kept ans r r'"
  by (simp_all add: kept_def)

lemma reapConfirmed_kept: "gone (ans k) \<Longrightarrow> kept ans r (reapConfirmed op k r)"
proof -
  assume g: "gone (ans k)"
  obtain x c where c: "TS_Delete k (rpStore r) = (x, c)" by fastforce
  note t = tombs_delete [OF c]
  show ?thesis
  proof (cases x)
    case (Inl e)
    then show ?thesis using t by (simp add: reapConfirmed_def c kept_same)
  next
    case (Inr u)
    then have "tombs c = tombs (rpStore r) - {k}" using t by simp
    with g have "kept ans r (r\<lparr>rpStore := c\<rparr>)" by (auto simp: kept_def)
    with Inr show ?thesis by (simp add: reapConfirmed_def c)
  qed
qed

lemma tombs_record:
  assumes "TS_RecordForceCheckStillPresent k t c = (x, c')"
  shows "tombs c' = tombs c"
proof -
  have "tbTrackID ` set (tupdate (\<lambda>t. tbTrackID t = k)
      (\<lambda>y. y\<lparr>tbAttempts := tbAttempts y + 1, tbNextCheck := Some t\<rparr>) (deleted_memories (tables c))) = tombs c"
    by (subst image_tupdate) (simp_all add: tombs_def)
  with tombs_stmt [OF assms [unfolded TS_RecordForceCheckStillPresent_def]] show ?thesis by simp
qed

lemma still_present_kept: "kept ans r (still_present cand r)"
proof -
  obtain x c where c: "TS_RecordForceCheckStillPresent (fcTrackID cand)
      (rpNow r + forceReapBackoff (fcAttempts cand + 1)) (rpStore r) = (x, c)" by fastforce
  from tombs_record [OF this] show ?thesis unfolding still_present_def c by (simp add: kept_same)
qed

lemma check_one_kept: "(\<And>k l. ts k l = (ans k, l)) \<Longrightarrow> kept ans r (check_one ts k r)"
  using reapConfirmed_kept [of ans k "r\<lparr>rpUpstream := rpUpstream r\<rparr>" "''reaped''"]
  by (auto simp: check_one_def gone_def split: sum.splits)

lemma force_one_kept: "(\<And>k l. ts k l = (ans k, l)) \<Longrightarrow> kept ans r (force_one ts cand r)"
  using reapConfirmed_kept [of ans "fcTrackID cand" "r\<lparr>rpUpstream := rpUpstream r\<rparr>" "''forced''"]
    still_present_kept [of ans "r\<lparr>rpUpstream := rpUpstream r\<rparr>" cand]
  by (auto simp: force_one_def gone_def split: sum.splits)

lemma tick_loop_kept:
  assumes "\<And>k l. ts k l = (ans k, l)"
  shows "kept ans r (snd (tick_loop ts ids left r))"
proof (induction ids arbitrary: left r)
  case (Cons k ks)
  show ?case
    by (cases left) (auto intro: kept_trans [OF check_one_kept [where ts = ts and ans = ans, OF assms] Cons.IH])
qed simp

lemma force_loop_kept:
  assumes "\<And>k l. ts k l = (ans k, l)"
  shows "kept ans r (force_loop ts cs left r)"
proof (induction cs arbitrary: left r)
  case (Cons cand cs)
  show ?case
    by (cases left) (auto intro: kept_trans [OF force_one_kept [where ts = ts and ans = ans, OF assms] Cons.IH])
qed simp

lemma query_tables: "mapErr w (db_query q) c = (r, c') \<Longrightarrow> tables c' = tables c"
  by (cases r) (auto simp: mapErr_eq_Inl mapErr_eq_Inr dest!: db_query_Inl db_query_Inr)

lemma list_same:
  "TS_List n c = (r, c') \<Longrightarrow> tombs c' = tombs c"
  "TS_ListOlderThan now age n c = (r', c') \<Longrightarrow> tombs c' = tombs c"
  unfolding TS_List_def TS_ListOlderThan_def tombs_def by (drule query_tables, simp)+

lemma kept_store: "tombs c = tombs (rpStore r) \<Longrightarrow> kept ans (r\<lparr>rpStore := c\<rparr>) r' \<Longrightarrow> kept ans r r'"
  by (simp add: kept_def)

lemma forceTick_kept:
  assumes "\<And>k l. ts k l = (ans k, l)"
  shows "kept ans r (forceTick ts left r)"
proof -
  obtain x c where c: "TS_ListOlderThan (rpNow r) maxAge TombstoneReapBatchSize (rpStore r) = (x, c)" by fastforce
  have "kept ans r (force_loop ts cands left (r\<lparr>rpStore := c\<rparr>))" for cands
    by (rule kept_store [OF list_same(2) [OF c] force_loop_kept [where ts = ts and ans = ans, OF assms]])
  then show ?thesis
    using list_same(2) [OF c] unfolding forceTick_def c by (auto intro: kept_same split: sum.splits)
qed

lemma tick_kept:
  assumes "\<And>k l. ts k l = (ans k, l)"
  shows "kept ans r (tick ts left r)"
proof -
  obtain x c where l: "TS_List TombstoneReapBatchSize (rpStore r) = (x, c)" by fastforce
  note same = list_same(1) [OF l]
  show ?thesis
  proof (cases x)
    case (Inl e)
    with l same show ?thesis by (auto simp: tick_def intro: kept_same)
  next
    case (Inr ids)
    obtain y r' where t: "tick_loop ts ids left (r\<lparr>rpStore := c\<rparr>) = (y, r')" by fastforce
    have k: "kept ans r r'"
      using tick_loop_kept [where ts = ts and ans = ans, OF assms, of "r\<lparr>rpStore := c\<rparr>" ids left] t same by (auto intro: kept_store)
    then show ?thesis
      using l Inr t kept_trans [OF k forceTick_kept [where ts = ts and ans = ans, OF assms]] by (auto simp: tick_def split: option.splits)
  qed
qed

text \<open>
  C14: a tick of the reaper, under every pattern of database failures and however early its
  deadline fires, removes no tombstone of a document that LightRAG still reports or cannot be asked
  about, and adds none.
\<close>

theorem reaper_keeps_present:
  assumes "\<And>k l. ts k l = (ans k, l)"
  shows "tombs (rpStore (tick ts left r)) \<subseteq> tombs (rpStore r)
    \<and> {k \<in> tombs (rpStore r). \<not> gone (ans k)} \<subseteq> tombs (rpStore (tick ts left r))"
  using tick_kept [where ts = ts and ans = ans, OF assms] unfolding kept_def .

definition ans0 :: "string \<Rightarrow> err + DocStatusResponse list option" where
  "ans0 k = (if k = ''a'' then Inl (HTTPError 404 '''' '''') else Inl (HTTPError 503 '''' ''''))"

definition reaper0 :: "unit reaper" where
  "reaper0 = \<lparr>rpStore = \<lparr>tables = \<lparr>deleted_memories =
       map (\<lambda>k. \<lparr>tbTrackID = k, tbDeletedAt = 0, tbAttempts = 0, tbNextCheck = None\<rparr>) [''a'', ''b''], tomb_created = 2\<rparr>,
     script = []\<rparr>, rpUpstream = (), rpMetric = [], rpNow = 0\<rparr>"

theorem reaper_keeps_present_witness:
  "''b'' \<in> tombs (rpStore (tick (\<lambda>k l. (ans0 k, l)) 10 reaper0))"
  using reaper_keeps_present [of "\<lambda>k l. (ans0 k, l)" ans0 10 reaper0]
  by (auto simp: reaper0_def tombs_def gone_def ans0_def isNotFoundHTTP_def)

text \<open>
  Over the whole life of the reaper: a tombstone that nobody else removes stays as long as no tick finds its document gone.
\<close>

definition spares :: "string \<Rightarrow> 'l wake \<Rightarrow> bool" where
  "spares k w \<longleftrightarrow> (case w of CtxEnd \<Rightarrow> True | Timer elapse ts left \<Rightarrow>
     (\<forall>r. k \<in> tombs (rpStore r) \<longrightarrow> k \<in> tombs (rpStore (elapse r))) \<and> (\<exists>ans. (\<forall>j l. ts j l = (ans j, l)) \<and> \<not> gone (ans k)))"

lemma reaper_run_keeps:
  "list_all (spares k) ws \<Longrightarrow> k \<in> tombs (rpStore r) \<Longrightarrow> k \<in> tombs (rpStore (reaper_Run ws r))"
proof (induction ws r rule: reaper_Run.induct)
  case (3 elapse ts left ws r)
  then obtain ans where ts: "\<And>j l. ts j l = (ans j, l)" and k: "\<not> gone (ans k)" "k \<in> tombs (rpStore (elapse r))"
    by (auto simp: spares_def)
  have "k \<in> tombs (rpStore (tick ts left (elapse r)))" using tick_kept [where ts = ts and ans = ans, OF ts] k by (auto simp: kept_def)
  with 3 show ?case by simp
qed simp_all

section \<open>The reaper removes what is gone\<close>

definition wiped :: "(string \<Rightarrow> err + DocStatusResponse list option) \<Rightarrow> string set \<Rightarrow> 'l reaper \<Rightarrow> bool" where
  "wiped ans K r \<longleftrightarrow> healthy (rpStore r) \<and> (\<forall>k\<in>K. gone (ans k) \<longrightarrow> k \<notin> tombs (rpStore r))"

lemma reapConfirmed_healthy:
  assumes "healthy (rpStore r)"
  shows "healthy (rpStore (reapConfirmed op k r)) \<and> tombs (rpStore (reapConfirmed op k r)) = tombs (rpStore r) - {k}"
  using assms by (auto simp: reapConfirmed_def reap_count_def TS_Delete_def on_tombs_def mapErr_def tombs_def set_tdelete)

lemma check_one_healthy:
  assumes "\<And>k l. ts k l = (ans k, l)" "healthy (rpStore r)"
  shows "healthy (rpStore (check_one ts k r)) \<and>
    tombs (rpStore (check_one ts k r)) = tombs (rpStore r) - (if gone (ans k) then {k} else {})"
  using reapConfirmed_healthy [of "r\<lparr>rpUpstream := rpUpstream r\<rparr>" "''reaped''" k] assms
  by (auto simp: check_one_def gone_def reap_count_def split: sum.splits)

lemma tick_loop_wiped:
  assumes ts: "\<And>k l. ts k l = (ans k, l)" and "healthy (rpStore r)" "length ids \<le> left"
  shows "\<exists>l' r'. tick_loop ts ids left r = (Some l', r') \<and> healthy (rpStore r') \<and>
    tombs (rpStore r') = tombs (rpStore r) - {k \<in> set ids. gone (ans k)}"
  using assms(2,3)
proof (induction ids arbitrary: left r)
  case (Cons k ks)
  then obtain l where l: "left = Suc l" "length ks \<le> l" by (cases left) auto
  have c: "healthy (rpStore (check_one ts k r))"
    "tombs (rpStore (check_one ts k r)) = tombs (rpStore r) - (if gone (ans k) then {k} else {})"
    using check_one_healthy [where ts = ts and ans = ans, OF ts Cons.prems(1)] by auto
  obtain l' r' where "tick_loop ts ks l (check_one ts k r) = (Some l', r')" "healthy (rpStore r')"
    "tombs (rpStore r') = tombs (rpStore (check_one ts k r)) - {k \<in> set ks. gone (ans k)}"
    using Cons.IH [OF c(1) l(2)] by blast
  then show ?case using c(2) by (auto simp: l(1))
qed auto

text \<open>
  C15: on a database that answers, with no more tombstones than a batch holds and a deadline that
  leaves time for each, a tick removes exactly the tombstones of the documents LightRAG confirms to
  be gone.
\<close>

theorem reaper_reaps_gone:
  assumes ts: "\<And>k l. ts k l = (ans k, l)" and "healthy (rpStore r)"
    and "length (deleted_memories (tables (rpStore r))) \<le> TombstoneReapBatchSize"
    and "length (deleted_memories (tables (rpStore r))) \<le> left"
  shows "tombs (rpStore (tick ts left r)) = {k \<in> tombs (rpStore r). \<not> gone (ans k)}"
proof -
  let ?ids = "map tbTrackID (sort_key tbDeletedAt (deleted_memories (tables (rpStore r))))"
  have list: "TS_List TombstoneReapBatchSize (rpStore r) = (Inr ?ids, rpStore r)"
    using assms(2,3) by (simp add: TS_List_def mapErr_def)
  obtain l' r' where t: "tick_loop ts ?ids left r = (Some l', r')"
    "tombs (rpStore r') = tombs (rpStore r) - {k \<in> set ?ids. gone (ans k)}"
    using tick_loop_wiped [where ts = ts and ans = ans, OF ts assms(2), of ?ids left] assms(4) by auto
  have "tick ts left r = forceTick ts l' r'" using list t(1) by (simp add: tick_def)
  moreover have "kept ans r' (forceTick ts l' r')" by (rule forceTick_kept [where ts = ts and ans = ans, OF ts])
  moreover have "set ?ids = tombs (rpStore r)" by (simp add: tombs_def)
  ultimately show ?thesis
    using t(2) tick_kept [where ts = ts and ans = ans, OF ts, of r left] unfolding kept_def by auto
qed

theorem reaper_reaps_gone_witness:
  "tombs (rpStore (tick (\<lambda>k l. (ans0 k, l)) 10 reaper0)) = {''b''}"
  using reaper_reaps_gone [of "\<lambda>k l. (ans0 k, l)" ans0 reaper0 10]
  by (auto simp: reaper0_def tombs_def gone_def ans0_def isNotFoundHTTP_def healthy_def TombstoneReapBatchSize_def)

end
