(* ===== verification/Memory_Translate.thy ===== *)
theory Memory_Translate
  imports Lightrag_Types Edge_ID
begin

text \<open>
  The translation between the domain types and LightRAG's wire types
  (\<^verbatim>\<open>internal/memory/translate.go\<close>).
\<close>

definition ToInsertText :: "Memory \<Rightarrow> InsertTextRequest" where
  "ToInsertText m = \<lparr>itText = mText m, itFileSource = ''''\<rparr>"

text \<open>
  \<open>parse\<close> and \<open>parseNano\<close> are \<^verbatim>\<open>time.Parse\<close> with the two RFC 3339 layouts.  The second component
  is the parse error the caller logs.
\<close>

definition FromDocStatus :: "(string \<Rightarrow> Time option) \<Rightarrow> (string \<Rightarrow> Time option) \<Rightarrow> string \<Rightarrow> DocStatusResponse \<Rightarrow> Memory \<times> err option" where
  "FromDocStatus parse parseNano trackID d =
     (let raw = dsCreatedAt d;
          parsed = (if raw = '''' then Some 0 else case parse raw of Some t \<Rightarrow> Some t | None \<Rightarrow> parseNano raw)
      in (\<lparr>mID = trackID, mText = dsContentSummary d, mMetadata = (\<lambda>k. map_option sprint (dsMetadata d k)),
           mCreatedAt = (case parsed of Some t \<Rightarrow> t | None \<Rightarrow> 0)\<rparr>,
          if parsed = None
          then Some (Wrap (''memory: unparseable created_at '' @ quoteq raw @ '' for track '' @ trackID) (Opaque ''parsing time''))
          else None))"

definition QueryResultFromQuery :: "QueryResponse \<Rightarrow> QueryResult" where
  "QueryResultFromQuery r = map (\<lambda>ref. \<lparr>maID = rfReferenceID ref, maScore = 0,
     maText = (if rfContent ref \<noteq> [] then join [CHR 0x0A] (rfContent ref) else rfFilePath ref)\<rparr>) (qsReferences r)"

definition DescribeResultFromQuery :: "QueryResponse \<Rightarrow> DescribeResult" where
  "DescribeResultFromQuery r = \<lparr>dResponse = qsResponse r, dSources = map rfFilePath (qsReferences r)\<rparr>"

record queryDataChunk =
  ckChunkID :: string
  ckReferenceID :: string
  ckText :: string

definition stringProp :: "amap \<Rightarrow> string \<Rightarrow> string option" where
  "stringProp m key = (case m key of Some (AStr s) \<Rightarrow> Some s | _ \<Rightarrow> None)"

definition str_or_empty :: "string option \<Rightarrow> string" where
  "str_or_empty x = (case x of None \<Rightarrow> '''' | Some s \<Rightarrow> s)"

fun chunkOf :: "any \<Rightarrow> queryDataChunk option" where
  "chunkOf (AObj kvs) = (let obj = map_of kvs in
     Some \<lparr>ckChunkID = str_or_empty (stringProp obj ''chunk_id''),
           ckReferenceID = str_or_empty (stringProp obj ''reference_id''),
           ckText = str_or_empty (stringProp obj ''content'')\<rparr>)"
| "chunkOf _ = None"

definition chunksFromQueryData :: "QueryDataResponse \<Rightarrow> queryDataChunk list" where
  "chunksFromQueryData r = (case qdData r ''chunks'' of
     Some (AList raw) \<Rightarrow> List.map_filter chunkOf raw
   | _ \<Rightarrow> [])"

definition queryResultFromChunks :: "queryDataChunk list \<Rightarrow> QueryResult" where
  "queryResultFromChunks chunks = map (\<lambda>(i, ch).
     \<lparr>maID = (if ckChunkID ch = '''' then ckReferenceID ch else ckChunkID ch),
      maScore = 1 / of_nat (i + 1), maText = ckText ch\<rparr>) (enumerate 0 chunks)"

definition QueryResultFromQueryData :: "QueryDataResponse \<Rightarrow> QueryResult" where
  "QueryResultFromQueryData r = queryResultFromChunks (chunksFromQueryData r)"

definition reserved :: "string \<Rightarrow> bool" where
  "reserved k \<longleftrightarrow> k \<in> {''entity_name'', ''entity_type'', ''description''}"

definition EntityFromGraphNode :: "GraphNode \<Rightarrow> Entity" where
  "EntityFromGraphNode n =
     \<lparr>eID = gnID n, eName = gnID n,
      eType = str_or_empty (stringProp (gnProperties n) ''entity_type''),
      eDescription = str_or_empty (stringProp (gnProperties n) ''description''),
      eProperties = (\<lambda>k. if reserved k then None else stringProp (gnProperties n) k)\<rparr>"

definition set_if :: "string \<Rightarrow> string \<Rightarrow> amap \<Rightarrow> amap" where
  "set_if key v m = (if v \<noteq> '''' then m(key \<mapsto> AStr v) else m)"

definition EntityUpdatePayload :: "Entity \<Rightarrow> amap" where
  "EntityUpdatePayload patch =
     set_if ''description'' (eDescription patch) (set_if ''entity_type'' (eType patch) (set_if ''entity_name'' (eName patch)
       (\<lambda>k. if reserved k then None else map_option AStr (eProperties patch k))))"

definition EdgeFromGraphEdge :: "GraphEdge \<Rightarrow> Edge" where
  "EdgeFromGraphEdge e =
     (let rel = str_or_empty (stringProp (geProperties e) ''keywords'') in
      \<lparr>gID = EncodeEdgeID (geSource e) (geTarget e), gFrom = geSource e, gTo = geTarget e,
       gRelation = (if rel = '''' then geType e else rel),
       gProperties = stringProp (geProperties e)\<rparr>)"

definition RelationCreatePayload :: "Edge \<Rightarrow> RelationCreateRequest" where
  "RelationCreatePayload e =
     \<lparr>rcSourceEntity = gFrom e, rcTargetEntity = gTo e,
      rcRelationData = [''keywords'' \<mapsto> AStr (gRelation e)] ++ (\<lambda>k. map_option AStr (gProperties e k))\<rparr>"

text \<open>A nil response or nil data gives the fallback name alone; \<open>None\<close> is nil.\<close>

definition entityFromUpdateResponse :: "amap option \<Rightarrow> string \<Rightarrow> Entity" where
  "entityFromUpdateResponse data fallbackName = (case data of
     None \<Rightarrow> \<lparr>eID = fallbackName, eName = fallbackName, eType = '''', eDescription = '''', eProperties = Map.empty\<rparr>
   | Some d \<Rightarrow>
       EntityFromGraphNode
         \<lparr>gnID = (case stringProp d ''entity_name'' of Some n \<Rightarrow> if n \<noteq> '''' then n else fallbackName | None \<Rightarrow> fallbackName),
          gnLabels = [], gnProperties = d\<rparr>)"

section \<open>Properties\<close>

text \<open>
  The matches of a structured query keep the retrieval order of the chunks, one match per
  chunk, and their scores are strictly decreasing from 1 and positive.
\<close>

theorem ranked_scores_descend:
  "length (queryResultFromChunks chunks) = length chunks
   \<and> map maText (queryResultFromChunks chunks) = map ckText chunks
   \<and> sorted_wrt (>) (map maScore (queryResultFromChunks chunks))
   \<and> list_all (\<lambda>m. 0 < maScore m \<and> maScore m \<le> 1) (queryResultFromChunks chunks)"
proof -
  have "map maText (queryResultFromChunks chunks) = map ckText chunks"
    by (rule nth_equalityI) (auto simp: queryResultFromChunks_def nth_enumerate_eq)
  moreover have "sorted_wrt (>) (map maScore (queryResultFromChunks chunks))"
    by (auto simp: queryResultFromChunks_def sorted_wrt_iff_nth_less nth_enumerate_eq divide_strict_left_mono)
  moreover have "list_all (\<lambda>m. 0 < maScore m \<and> maScore m \<le> 1) (queryResultFromChunks chunks)"
    by (auto simp: queryResultFromChunks_def list_all_length nth_enumerate_eq)
  ultimately show ?thesis by (simp add: queryResultFromChunks_def)
qed

text \<open>The graph edge LightRAG holds after a create-relation request, with whatever type it gives it.\<close>

definition stored_edge :: "string \<Rightarrow> RelationCreateRequest \<Rightarrow> GraphEdge" where
  "stored_edge t req = \<lparr>geID = '''', geSource = rcSourceEntity req, geTarget = rcTargetEntity req, geType = t,
     geProperties = rcRelationData req\<rparr>"

text \<open>
  An edge stored through the create-relation request and read back from the graph keeps its
  endpoints, its ID decodes to them, and its relation and properties survive, provided the relation
  is not empty, no property is called keywords, and the source name has no NUL byte.
\<close>

theorem edge_relation_round_trip:
  assumes "gRelation e \<noteq> ''''" "gProperties e ''keywords'' = None" "edgeIDNulSep \<notin> set (gFrom e)"
  shows "gFrom (EdgeFromGraphEdge (stored_edge t (RelationCreatePayload e))) = gFrom e \<and> gTo (EdgeFromGraphEdge (stored_edge t (RelationCreatePayload e))) = gTo e
    \<and> gRelation (EdgeFromGraphEdge (stored_edge t (RelationCreatePayload e))) = gRelation e
    \<and> gProperties (EdgeFromGraphEdge (stored_edge t (RelationCreatePayload e))) = (gProperties e)(''keywords'' \<mapsto> gRelation e)
    \<and> DecodeEdgeID (gID (EdgeFromGraphEdge (stored_edge t (RelationCreatePayload e)))) = Inr (gFrom e, gTo e)"
proof -
  have "stringProp (rcRelationData (RelationCreatePayload e)) = (gProperties e)(''keywords'' \<mapsto> gRelation e)"
    using assms(2) by (auto simp: stringProp_def RelationCreatePayload_def fun_eq_iff map_add_def split: option.splits)
  then show ?thesis
    using assms by (simp add: EdgeFromGraphEdge_def stored_edge_def str_or_empty_def RelationCreatePayload_def DecodeEdgeID_Encode Let_def)
qed

definition edge0 :: Edge where
  "edge0 = \<lparr>gID = '''', gFrom = ''svc'', gTo = ''db'', gRelation = ''uses'', gProperties = [''w'' \<mapsto> ''1'']\<rparr>"

theorem edge_relation_round_trip_witness:
  "gRelation (EdgeFromGraphEdge (stored_edge '''' (RelationCreatePayload edge0))) = ''uses''"
  using edge_relation_round_trip [of edge0 "''''"] by (simp add: edge0_def edgeIDNulSep_def)

text \<open>
  A patch written with \<^verbatim>\<open>EntityUpdatePayload\<close> and read back from a graph node gives the patch's
  type, description and properties, with the three reserved keys taken from the typed fields only.
\<close>

theorem entity_payload_round_trip:
  "eType (EntityFromGraphNode \<lparr>gnID = n, gnLabels = ls, gnProperties = EntityUpdatePayload p\<rparr>) = eType p
   \<and> eDescription (EntityFromGraphNode \<lparr>gnID = n, gnLabels = ls, gnProperties = EntityUpdatePayload p\<rparr>) = eDescription p
   \<and> eProperties (EntityFromGraphNode \<lparr>gnID = n, gnLabels = ls, gnProperties = EntityUpdatePayload p\<rparr>)
      = (\<lambda>k. if reserved k then None else eProperties p k)
   \<and> stringProp (EntityUpdatePayload p) ''entity_name'' = (if eName p = '''' then None else Some (eName p))"
proof -
  have "stringProp (EntityUpdatePayload p) k = eProperties p k" if "\<not> reserved k" for k
    using that by (auto simp: stringProp_def EntityUpdatePayload_def set_if_def reserved_def split: option.splits)
  then show ?thesis
    by (auto simp: EntityFromGraphNode_def fun_eq_iff)
       (auto simp: stringProp_def EntityUpdatePayload_def set_if_def reserved_def str_or_empty_def)
qed

end
