(* ===== verification/Memory_Service.thy ===== *)
theory Memory_Service
  imports Tombstones Memory_Translate Http_Errors
begin

text \<open>
  The memory service (\<^verbatim>\<open>internal/memory/service.go\<close>): CRUD, retrieval, and the purge of everything
  that came from a source file, over a LightRAG client, a tombstone store and a source index, the
  last two possibly nil.  Every method returns its Go results and the world after it: the states
  of the three backends, the operations counted in \<^verbatim>\<open>tatara_memory_op_total\<close>, and the levels of
  the purge log lines.
\<close>

section \<open>The world and the service\<close>

record ('l, 't, 's) world =
  wLR :: 'l
  wTomb :: 't
  wSrc :: 's
  wOps :: "(string \<times> string \<times> string) list"
  wLog :: "level list"

text \<open>The client is a function of the context it is called with.\<close>

record ('l, 't, 's) Service =
  svLR :: "ctx \<Rightarrow> 'l Client"
  svTomb :: "'t Tombstoner option"
  svSources :: "'s SourceIndex option"
  svPurgeBudget :: int

definition DefaultPurgeBudget :: int where
  "DefaultPurgeBudget = 45 * second"

definition NewService :: "(ctx \<Rightarrow> 'l Client) \<Rightarrow> 't Tombstoner option \<Rightarrow> ('l, 't, 's) Service" where
  "NewService lr tomb = \<lparr>svLR = lr, svTomb = tomb, svSources = None, svPurgeBudget = DefaultPurgeBudget\<rparr>"

definition NewServiceWithSources :: "(ctx \<Rightarrow> 'l Client) \<Rightarrow> 't Tombstoner option \<Rightarrow> 's SourceIndex option \<Rightarrow> ('l, 't, 's) Service" where
  "NewServiceWithSources lr tomb sources =
     \<lparr>svLR = lr, svTomb = tomb, svSources = sources, svPurgeBudget = DefaultPurgeBudget\<rparr>"

definition WithPurgeBudget :: "int \<Rightarrow> ('l, 't, 's) Service \<Rightarrow> ('l, 't, 's) Service" where
  "WithPurgeBudget d s = s\<lparr>svPurgeBudget := d\<rparr>"

definition on_lr :: "('l, err, 'a) call \<Rightarrow> (('l, 't, 's) world, err, 'a) call" where
  "on_lr m w = (case m (wLR w) of (r, l) \<Rightarrow> (r, w\<lparr>wLR := l\<rparr>))"

definition on_tomb :: "('t, err, 'a) call \<Rightarrow> (('l, 't, 's) world, err, 'a) call" where
  "on_tomb m w = (case m (wTomb w) of (r, t) \<Rightarrow> (r, w\<lparr>wTomb := t\<rparr>))"

definition on_src :: "('s, err, 'a) call \<Rightarrow> (('l, 't, 's) world, err, 'a) call" where
  "on_src m w = (case m (wSrc w) of (r, s) \<Rightarrow> (r, w\<lparr>wSrc := s\<rparr>))"

definition opClass :: "string \<Rightarrow> string" where
  "opClass op = (if op \<in> {''delete_by_source'', ''delete_by_sources''} then ''maintenance'' else ''user'')"

definition incOp :: "string \<Rightarrow> err option \<Rightarrow> ('l, 't, 's) world \<Rightarrow> ('l, 't, 's) world" where
  "incOp op e w = w\<lparr>wOps := wOps w @ [(op, opClass op, if e = None then ''success'' else ''error'')]\<rparr>"

definition purge_level :: "err \<Rightarrow> level" where
  "purge_level e = (if Is e ErrBusy \<or> Is e DeadlineExceeded then LevelWarn else LevelError)"

definition logPurgeErr :: "err \<Rightarrow> ('l, 't, 's) world \<Rightarrow> ('l, 't, 's) world" where
  "logPurgeErr e w = w\<lparr>wLog := wLog w @ [purge_level e]\<rparr>"

definition wrapUpstream :: "err \<Rightarrow> err" where
  "wrapUpstream e =
     (if AsBusy e \<noteq> None then Suffix ErrBusy (Error e)
      else case AsHTTP e of
        Some status \<Rightarrow>
          if status = 404 then Suffix ErrNotFound (Error e)
          else if status = 429 then Suffix ErrBusy (Error e)
          else if status \<ge> 500 then Suffix ErrTransient (Error e)
          else Suffix ErrUpstream (Error e)
      | None \<Rightarrow>
          if Is e DeadlineExceeded then Suffix ErrBusy (Error e)
          else if Is e Canceled then Suffix ErrTransient (Error e)
          else Suffix ErrUpstream (Error e))"

section \<open>Memories\<close>

definition CreateMemory :: "('l, 't, 's) Service \<Rightarrow> ctx \<Rightarrow> Time \<Rightarrow> Memory \<Rightarrow> (('l, 't, 's) world, err, Memory) call" where
  "CreateMemory sv cx now m w = (case on_lr (InsertText (svLR sv cx) (ToInsertText m)) w of
     (Inl e, w1) \<Rightarrow> (Inl (wrapUpstream e), incOp ''create'' (Some e) w1)
   | (Inr resp, w1) \<Rightarrow>
       if irStatus resp \<notin> {''success'', ''duplicated'', ''partial_success''} \<or> irTrackID resp = '''' then
         (let logicalErr = Suffix ErrUpstream (''insert returned status='' @ quoteq (irStatus resp)
                @ '' track_id='' @ quoteq (irTrackID resp)) in
          (Inl logicalErr, incOp ''create'' (Some logicalErr) w1))
       else (Inr (m\<lparr>mID := irTrackID resp, mCreatedAt := now\<rparr>), incOp ''create'' None w1))"

definition noDocuments :: "string \<Rightarrow> err" where
  "noDocuments trackID = Suffix ErrNotFound (''track '' @ trackID @ '' has no documents'')"

definition sortDocsByID :: "DocStatusResponse list \<Rightarrow> DocStatusResponse list" where
  "sortDocsByID docs = sort_key dsID docs"

text \<open>The tombstone check of \<^verbatim>\<open>GetMemory\<close>: nil store, deleted, or not.\<close>

definition checkTomb :: "('l, 't, 's) Service \<Rightarrow> string \<Rightarrow> (('l, 't, 's) world, err, bool) call" where
  "checkTomb sv trackID w = (case svTomb sv of
     None \<Rightarrow> (Inr False, w)
   | Some t \<Rightarrow> mapErr (Wrap ''tombstone check'') (on_tomb (IsDeleted t trackID)) w)"

definition GetMemory ::
  "(string \<Rightarrow> Time option) \<Rightarrow> (string \<Rightarrow> Time option) \<Rightarrow> ('l, 't, 's) Service \<Rightarrow> ctx \<Rightarrow> string \<Rightarrow> (('l, 't, 's) world, err, Memory) call" where
  "GetMemory parse parseNano sv cx trackID w = (case checkTomb sv trackID w of
     (Inl e, w1) \<Rightarrow> (Inl e, w1)
   | (Inr True, w1) \<Rightarrow> (Inl ErrNotFound, incOp ''get'' (Some ErrNotFound) w1)
   | (Inr False, w1) \<Rightarrow> (case on_lr (TrackStatus (svLR sv cx) trackID) w1 of
       (Inl e, w2) \<Rightarrow> (Inl (wrapUpstream e), incOp ''get'' (Some (wrapUpstream e)) w2)
     | (Inr ts, w2) \<Rightarrow>
         (case (if length (tsDocuments ts) > 1 then sortDocsByID (tsDocuments ts) else tsDocuments ts) of
            [] \<Rightarrow> (Inl (noDocuments trackID), incOp ''get'' (Some (noDocuments trackID)) w2)
          | d # _ \<Rightarrow> (Inr (fst (FromDocStatus parse parseNano trackID d)), incOp ''get'' None w2))))"

definition markTomb :: "('l, 't, 's) Service \<Rightarrow> string \<Rightarrow> (('l, 't, 's) world, err, unit) call" where
  "markTomb sv trackID w = (case svTomb sv of
     None \<Rightarrow> (Inr (), w)
   | Some t \<Rightarrow> mapErr (Wrap ''tombstone'') (on_tomb (Mark t trackID)) w)"

text \<open>\<^verbatim>\<open>_ = s.tomb.Unmark(..)\<close>: its error is dropped.\<close>

definition unmarkTomb :: "('l, 't, 's) Service \<Rightarrow> string \<Rightarrow> ('l, 't, 's) world \<Rightarrow> ('l, 't, 's) world" where
  "unmarkTomb sv trackID w = (case svTomb sv of None \<Rightarrow> w | Some t \<Rightarrow> snd (on_tomb (Unmark t trackID) w))"

definition deleteReturned :: "err \<Rightarrow> string \<Rightarrow> err" where
  "deleteReturned e status = Suffix e (''delete returned status='' @ quoteq status)"

definition deleteMemoryRaw :: "('l, 't, 's) Service \<Rightarrow> ctx \<Rightarrow> string \<Rightarrow> (('l, 't, 's) world, err, unit) call" where
  "deleteMemoryRaw sv cx trackID w = (case on_lr (TrackStatus (svLR sv cx) trackID) w of
     (Inl e, w1) \<Rightarrow> (Inl (wrapUpstream e), w1)
   | (Inr ts, w1) \<Rightarrow>
       let docIDs = map dsID (tsDocuments ts) in
       if docIDs = [] then (Inl (noDocuments trackID), w1)
       else (case markTomb sv trackID w1 of
         (Inl e, w2) \<Rightarrow> (Inl e, w2)
       | (Inr _, w2) \<Rightarrow>
           (case on_lr (DeleteDocs (svLR sv cx) \<lparr>ddDocIDs = docIDs, ddDeleteFile = False, ddDeleteLLMCache = False\<rparr>) w2 of
              (Inl e, w3) \<Rightarrow> (Inl (wrapUpstream e), unmarkTomb sv trackID w3)
            | (Inr resp, w3) \<Rightarrow>
                if drStatus resp \<noteq> ''deletion_started'' \<and> drStatus resp \<noteq> ''success'' then
                  (Inl (deleteReturned (if drStatus resp = ''busy'' then ErrBusy else ErrUpstream) (drStatus resp)),
                   unmarkTomb sv trackID w3)
                else (Inr (), w3))))"

definition DeleteMemory :: "('l, 't, 's) Service \<Rightarrow> ctx \<Rightarrow> string \<Rightarrow> (('l, 't, 's) world, err, unit) call" where
  "DeleteMemory sv cx trackID w = (case deleteMemoryRaw sv cx trackID w of
     (Inl e, w1) \<Rightarrow> (Inl e, incOp ''delete'' (Some e) w1)
   | (Inr _, w1) \<Rightarrow> (Inr (), incOp ''delete'' None w1))"

section \<open>Purging by source\<close>

text \<open>Go returns the count and the error side by side; \<open>None\<close> is a nil error.\<close>

definition purgeFailed :: "(err \<Rightarrow> err) \<Rightarrow> nat \<Rightarrow> err \<Rightarrow> ('l, 't, 's) world \<Rightarrow> (nat \<times> err option) \<times> ('l, 't, 's) world" where
  "purgeFailed wrap purged e w =
     ((purged, Some (wrap e)), logPurgeErr (wrap e) (incOp ''delete_by_source'' (Some e) w))"

fun purge_loop :: "('l, 't, 's) Service \<Rightarrow> ctx \<Rightarrow> string \<Rightarrow> string \<Rightarrow> string list \<Rightarrow> nat \<Rightarrow> ('l, 't, 's) world \<Rightarrow> (nat \<times> err option) \<times> ('l, 't, 's) world" where
  "purge_loop sv cx repo f [] purged w = ((purged, None), w)"
| "purge_loop sv cx repo f (x # xs) purged w = (case deleteMemoryRaw sv cx x w of
     (Inr _, w1) \<Rightarrow> purge_loop sv cx repo f xs (purged + 1) w1
   | (Inl e, w1) \<Rightarrow>
       if Is e ErrNotFound then purge_loop sv cx repo f xs purged w1
       else purgeFailed (Wrap (''delete memory '' @ x @ '' for '' @ repo @ ''/'' @ f)) purged e w1)"

definition DeleteMemoriesBySource :: "('l, 't, 's) Service \<Rightarrow> ctx \<Rightarrow> string \<Rightarrow> string \<Rightarrow> ('l, 't, 's) world \<Rightarrow> (nat \<times> err option) \<times> ('l, 't, 's) world" where
  "DeleteMemoriesBySource sv cx repo f w = (case svSources sv of
     None \<Rightarrow> ((0, None), w)
   | Some src \<Rightarrow>
       (case on_src (TrackIDs src repo f) w of
          (Inl e, w1) \<Rightarrow> purgeFailed (Wrap ''source track_ids'') 0 e w1
        | (Inr ids, w1) \<Rightarrow>
            (case purge_loop sv cx repo f ids 0 w1 of
               ((purged, Some e), w2) \<Rightarrow> ((purged, Some e), w2)
             | ((purged, None), w2) \<Rightarrow>
                 (case on_src (DeleteByFile src repo f) w2 of
                    (Inl e, w3) \<Rightarrow> purgeFailed (Wrap (''purge source index '' @ repo @ ''/'' @ f)) purged e w3
                  | (Inr _, w3) \<Rightarrow> ((purged, None), incOp ''delete_by_source'' None w3)))))"

definition withTimeout :: "ctx \<Rightarrow> Time \<Rightarrow> int \<Rightarrow> ctx" where
  "withTimeout cx now d = cx\<lparr>cxDeadline := Some (case cxDeadline cx of None \<Rightarrow> now + d | Some t \<Rightarrow> min t (now + d))\<rparr>"

fun sources_loop :: "('l, 't, 's) Service \<Rightarrow> ctx \<Rightarrow> string \<Rightarrow> string list \<Rightarrow> nat \<Rightarrow> ('l, 't, 's) world \<Rightarrow> (nat \<times> err option) \<times> ('l, 't, 's) world" where
  "sources_loop sv cx repo [] tot w = ((tot, None), incOp ''delete_by_sources'' None w)"
| "sources_loop sv cx repo (f # fs) tot w = (case DeleteMemoriesBySource sv cx repo f w of
     ((n, None), w1) \<Rightarrow> sources_loop sv cx repo fs (tot + n) w1
   | ((n, Some e), w1) \<Rightarrow>
       (let wrapped = Wrap (''delete memories for '' @ repo @ ''/'' @ f) e in
        ((tot + n, Some wrapped), logPurgeErr wrapped (incOp ''delete_by_sources'' (Some e) w1))))"

definition DeleteMemoriesBySources :: "('l, 't, 's) Service \<Rightarrow> ctx \<Rightarrow> Time \<Rightarrow> string \<Rightarrow> string list \<Rightarrow> ('l, 't, 's) world \<Rightarrow> (nat \<times> err option) \<times> ('l, 't, 's) world" where
  "DeleteMemoriesBySources sv cx now repo files w =
     sources_loop sv (if svPurgeBudget sv > 0 then withTimeout cx now (svPurgeBudget sv) else cx) repo files 0 w"

section \<open>Retrieval\<close>

text \<open>Keep what is not tombstoned; a failing check keeps the element.\<close>

fun filterTombstoned :: "'t Tombstoner \<Rightarrow> ('x \<Rightarrow> string) \<Rightarrow> 'x list \<Rightarrow> ('l, 't, 's) world \<Rightarrow> 'x list \<times> ('l, 't, 's) world" where
  "filterTombstoned t key [] w = ([], w)"
| "filterTombstoned t key (x # xs) w = (case on_tomb (IsDeleted t (key x)) w of
     (r, w1) \<Rightarrow> (case filterTombstoned t key xs w1 of
        (ys, w2) \<Rightarrow> (if r = Inr True then ys else x # ys, w2)))"

definition filterTombstonedRefs :: "'t Tombstoner \<Rightarrow> ReferenceItem list \<Rightarrow> ('l, 't, 's) world \<Rightarrow> ReferenceItem list \<times> ('l, 't, 's) world" where
  "filterTombstonedRefs t = filterTombstoned t rfReferenceID"

definition filterTombstonedChunks :: "'t Tombstoner \<Rightarrow> queryDataChunk list \<Rightarrow> ('l, 't, 's) world \<Rightarrow> queryDataChunk list \<times> ('l, 't, 's) world" where
  "filterTombstonedChunks t = filterTombstoned t ckReferenceID"

definition invalidMode :: "string \<Rightarrow> Query \<Rightarrow> ('l, 't, 's) world \<Rightarrow> (err + 'a) \<times> ('l, 't, 's) world" where
  "invalidMode op q w = (let e = Opaque (''invalid query mode: '' @ qMode q) in (Inl e, incOp op (Some e) w))"

definition svc_Query :: "('l, 't, 's) Service \<Rightarrow> ctx \<Rightarrow> Query \<Rightarrow> (('l, 't, 's) world, err, QueryResult) call" where
  "svc_Query sv cx q w =
     (if \<not> QueryMode_Valid (qMode q) then invalidMode ''query'' q w
      else case on_lr (LRQuery (svLR sv cx) (zeroQueryRequest\<lparr>qrMode := qMode q, qrQuery := qText q, qrTopK := qTopK q,
          qrOnlyNeedContext := Some True, qrIncludeReferences := Some True, qrStream := Some False\<rparr>)) w of
        (Inl e, w1) \<Rightarrow> (Inl (wrapUpstream e), incOp ''query'' (Some (wrapUpstream e)) w1)
      | (Inr resp, w1) \<Rightarrow>
          (case (case svTomb sv of None \<Rightarrow> (qsReferences resp, w1) | Some t \<Rightarrow> filterTombstonedRefs t (qsReferences resp) w1) of
             (refs, w2) \<Rightarrow> (Inr (QueryResultFromQuery (resp\<lparr>qsReferences := refs\<rparr>)), incOp ''query'' None w2)))"

definition svc_Describe :: "('l, 't, 's) Service \<Rightarrow> ctx \<Rightarrow> Query \<Rightarrow> (('l, 't, 's) world, err, DescribeResult) call" where
  "svc_Describe sv cx q w =
     (if \<not> QueryMode_Valid (qMode q) then invalidMode ''describe'' q w
      else case on_lr (LRQuery (svLR sv cx) (zeroQueryRequest\<lparr>qrMode := qMode q, qrQuery := qText q, qrTopK := qTopK q,
          qrIncludeReferences := Some True, qrStream := Some False\<rparr>)) w of
        (Inl e, w1) \<Rightarrow> (Inl (wrapUpstream e), incOp ''describe'' (Some (wrapUpstream e)) w1)
      | (Inr resp, w1) \<Rightarrow>
          (case (case svTomb sv of None \<Rightarrow> (qsReferences resp, w1) | Some t \<Rightarrow> filterTombstonedRefs t (qsReferences resp) w1) of
             (refs, w2) \<Rightarrow> (Inr (DescribeResultFromQuery (resp\<lparr>qsReferences := refs\<rparr>)), incOp ''describe'' None w2)))"

definition svc_QueryData :: "('l, 't, 's) Service \<Rightarrow> ctx \<Rightarrow> Query \<Rightarrow> (('l, 't, 's) world, err, QueryResult) call" where
  "svc_QueryData sv cx q w =
     (if \<not> QueryMode_Valid (qMode q) then invalidMode ''query_data'' q w
      else case on_lr (LRQueryData (svLR sv cx) (zeroQueryRequest\<lparr>qrMode := qMode q, qrQuery := qText q, qrTopK := qTopK q,
          qrChunkTopK := qTopK q, qrIncludeChunks := Some True\<rparr>)) w of
        (Inl e, w1) \<Rightarrow> (Inl (wrapUpstream e), incOp ''query_data'' (Some (wrapUpstream e)) w1)
      | (Inr resp, w1) \<Rightarrow>
          (case (case svTomb sv of None \<Rightarrow> (chunksFromQueryData resp, w1)
              | Some t \<Rightarrow> filterTombstonedChunks t (chunksFromQueryData resp) w1) of
             (chunks, w2) \<Rightarrow> (Inr (queryResultFromChunks chunks), incOp ''query_data'' None w2)))"

section \<open>Entities and edges\<close>

definition GetEntity :: "('l, 't, 's) Service \<Rightarrow> ctx \<Rightarrow> string \<Rightarrow> (('l, 't, 's) world, err, Entity) call" where
  "GetEntity sv cx name w = (case on_lr (Graph (svLR sv cx) name 1 1) w of
     (Inl e, w1) \<Rightarrow> (Inl (wrapUpstream e), incOp ''get_entity'' (Some (wrapUpstream e)) w1)
   | (Inr g, w1) \<Rightarrow>
       (case find (\<lambda>n. gnID n = name) (kgNodes g) of
          Some n \<Rightarrow> (Inr (EntityFromGraphNode n), incOp ''get_entity'' None w1)
        | None \<Rightarrow> let e = Suffix ErrNotFound (''entity '' @ name) in (Inl e, incOp ''get_entity'' (Some e) w1)))"

definition SearchEntities :: "('l, 't, 's) Service \<Rightarrow> ctx \<Rightarrow> string \<Rightarrow> (('l, 't, 's) world, err, Entity list) call" where
  "SearchEntities sv cx q w = (case on_lr (LabelSearch (svLR sv cx) q) w of
     (Inl e, w1) \<Rightarrow> (Inl (wrapUpstream e), incOp ''search_entities'' (Some (wrapUpstream e)) w1)
   | (Inr labels, w1) \<Rightarrow>
       (Inr (map (\<lambda>l. \<lparr>eID = l, eName = l, eType = '''', eDescription = '''', eProperties = Map.empty\<rparr>) labels),
        incOp ''search_entities'' None w1))"

definition PatchEntity :: "('l, 't, 's) Service \<Rightarrow> ctx \<Rightarrow> string \<Rightarrow> Entity \<Rightarrow> (('l, 't, 's) world, err, Entity) call" where
  "PatchEntity sv cx name patch w =
     (let allowRename = (eName patch \<noteq> '''' \<and> eName patch \<noteq> name) in
      case on_lr (UpdateEntity (svLR sv cx) \<lparr>euEntityName = name, euUpdatedData = EntityUpdatePayload patch,
          euAllowRename = allowRename, euAllowMerge = False\<rparr>) w of
        (Inl e, w1) \<Rightarrow> (Inl (wrapUpstream e), incOp ''patch_entity'' (Some e) w1)
      | (Inr resp, w1) \<Rightarrow>
          (Inr (entityFromUpdateResponse (Some (erData resp)) (if allowRename then eName patch else name)),
           incOp ''patch_entity'' None w1))"

text \<open>Collect the edges of one label, skipping those whose key has been seen.\<close>

definition dedupKey :: "Edge \<Rightarrow> string" where
  "dedupKey e = gID e @ [CHR 0x00] @ gRelation e"

fun add_edges :: "GraphEdge list \<Rightarrow> Edge list \<Rightarrow> Edge list" where
  "add_edges [] out = out"
| "add_edges (e # es) out = (let edge = EdgeFromGraphEdge e in
     add_edges es (if dedupKey edge \<in> set (map dedupKey out) then out else out @ [edge]))"

fun edges_loop :: "('l, 't, 's) Service \<Rightarrow> ctx \<Rightarrow> string list \<Rightarrow> Edge list \<Rightarrow> (('l, 't, 's) world, err, Edge list) call" where
  "edges_loop sv cx [] out w = (Inr out, incOp ''list_edges'' None w)"
| "edges_loop sv cx (l # ls) out w = (case on_lr (Graph (svLR sv cx) l 1 0) w of
     (Inl e, w1) \<Rightarrow>
       if isNotFoundHTTP e then edges_loop sv cx ls out w1
       else (Inl (wrapUpstream e), incOp ''list_edges'' (Some (wrapUpstream e)) w1)
   | (Inr g, w1) \<Rightarrow> edges_loop sv cx ls (add_edges (kgEdges g) out) w1)"

definition ListEdges :: "('l, 't, 's) Service \<Rightarrow> ctx \<Rightarrow> (('l, 't, 's) world, err, Edge list) call" where
  "ListEdges sv cx w = (case on_lr (LabelSearch (svLR sv cx) '''') w of
     (Inl e, w1) \<Rightarrow> (Inl (wrapUpstream e), incOp ''list_edges'' (Some (wrapUpstream e)) w1)
   | (Inr labels, w1) \<Rightarrow> edges_loop sv cx labels [] w1)"

definition CreateEdge :: "('l, 't, 's) Service \<Rightarrow> ctx \<Rightarrow> Edge \<Rightarrow> (('l, 't, 's) world, err, Edge) call" where
  "CreateEdge sv cx e w = (case on_lr (CreateRelation (svLR sv cx) (RelationCreatePayload e)) w of
     (Inl er, w1) \<Rightarrow> (Inl (wrapUpstream er), incOp ''create_edge'' (Some er) w1)
   | (Inr _, w1) \<Rightarrow> (Inr (e\<lparr>gID := EncodeEdgeID (gFrom e) (gTo e)\<rparr>), incOp ''create_edge'' None w1))"

definition DeleteEdge :: "('l, 't, 's) Service \<Rightarrow> ctx \<Rightarrow> string \<Rightarrow> (('l, 't, 's) world, err, unit) call" where
  "DeleteEdge sv cx ident w = (case DecodeEdgeID ident of
     Inl e \<Rightarrow> (Inl (Suffix ErrInvalid (''invalid edge id '' @ quoteq ident)), incOp ''delete_edge'' (Some e) w)
   | Inr (from, to) \<Rightarrow>
       (case on_lr (DeleteRelation (svLR sv cx) \<lparr>dlSourceEntity = from, dlTargetEntity = to\<rparr>) w of
          (Inl e, w1) \<Rightarrow> (Inl (wrapUpstream e), incOp ''delete_edge'' (Some e) w1)
        | (Inr _, w1) \<Rightarrow> (Inr (), incOp ''delete_edge'' None w1)))"

section \<open>The service over its stores\<close>

lemma on_lr_eq: "on_lr m w = (r, w') \<Longrightarrow> wTomb w' = wTomb w \<and> wSrc w' = wSrc w"
  by (auto simp: on_lr_def split: prod.splits)

lemma incOp_frame [simp]: "wLR (incOp op e w) = wLR w" "wTomb (incOp op e w) = wTomb w" "wSrc (incOp op e w) = wSrc w"
  by (simp_all add: incOp_def)

lemma logPurgeErr_frame [simp]:
  "wLR (logPurgeErr e w) = wLR w" "wTomb (logPurgeErr e w) = wTomb w" "wSrc (logPurgeErr e w) = wSrc w"
  by (simp_all add: logPurgeErr_def)

lemma on_tomb_frame: "on_tomb m w = (r, w') \<Longrightarrow> wLR w' = wLR w \<and> wSrc w' = wSrc w \<and> m (wTomb w) = (r, wTomb w')"
  by (auto simp: on_tomb_def split: prod.splits)

lemma on_src_frame: "on_src m w = (r, w') \<Longrightarrow> wLR w' = wLR w \<and> wTomb w' = wTomb w \<and> m (wSrc w) = (r, wSrc w')"
  by (auto simp: on_src_def split: prod.splits)

lemma purgeFailed_frame: "purgeFailed wrap n e w = (r, w') \<Longrightarrow> wTomb w' = wTomb w \<and> wSrc w' = wSrc w \<and> r = (n, Some (wrap e))"
  by (auto simp: purgeFailed_def)

text \<open>The ways a delete ends, by the step that decides it.\<close>

lemma delete_ends:
  assumes "on_lr (TrackStatus (svLR sv cx) k) w = (Inr ts, w1)" "markTomb sv k w1 = (y, w2)"
    and "on_lr (DeleteDocs (svLR sv cx) \<lparr>ddDocIDs = map dsID (tsDocuments ts), ddDeleteFile = False, ddDeleteLLMCache = False\<rparr>) w2 = (z, w3)"
    and "deleteMemoryRaw sv cx k w = (r, w')"
  shows "isl r \<and> w' = w1 \<or> isl r \<and> isl y \<and> w' = w2 \<or> \<not> isl y \<and> (isl r \<and> w' = unmarkTomb sv k w3 \<or> w' = w3)"
proof (cases "tsDocuments ts = [] \<or> isl y")
  case True
  with assms show ?thesis by (cases "tsDocuments ts = []"; cases y) (auto simp: deleteMemoryRaw_def)
next
  case False
  then obtain u where y: "y = Inr u" by (cases y) auto
  have "(r, w') = (case z of Inl e \<Rightarrow> (Inl (wrapUpstream e), unmarkTomb sv k w3)
    | Inr resp \<Rightarrow> if drStatus resp \<noteq> ''deletion_started'' \<and> drStatus resp \<noteq> ''success''
       then (Inl (deleteReturned (if drStatus resp = ''busy'' then ErrBusy else ErrUpstream) (drStatus resp)), unmarkTomb sv k w3)
       else (Inr (), w3))"
    using assms False y by (simp add: deleteMemoryRaw_def Let_def cong: if_cong split: sum.split)
  with y show ?thesis by (cases z) (simp_all split: if_splits)
qed

text \<open>
  The effects of the service follow from the contracts of the two stores alone; the LightRAG client
  is arbitrary.
\<close>

locale memory_stores = tombstoner T dead + source_index I indexed
  for T :: "'t Tombstoner" and dead :: "'t \<Rightarrow> string set"
    and I :: "'s SourceIndex" and indexed :: "'s \<Rightarrow> string \<Rightarrow> string \<Rightarrow> string set"
begin

lemma markTomb_effect:
  assumes "svTomb sv = Some T" "markTomb sv k w = (r, w')"
  shows "wSrc w' = wSrc w \<and> dead (wTomb w') = (if isl r then dead (wTomb w) else insert k (dead (wTomb w)))"
proof -
  obtain x w1 where m: "on_tomb (Mark T k) w = (x, w1)" by fastforce
  note f = on_tomb_frame [OF m]
  show ?thesis
    using assms m f by (cases x) (auto simp: markTomb_def mapErr_def dest: mark_ok mark_err)
qed

lemma unmarkTomb_effect:
  assumes "svTomb sv = Some T"
  shows "wSrc (unmarkTomb sv k w) = wSrc w \<and> dead (wTomb (unmarkTomb sv k w)) - {k} = dead (wTomb w) - {k}"
proof -
  obtain x w1 where m: "on_tomb (Unmark T k) w = (x, w1)" by fastforce
  note f = on_tomb_frame [OF m]
  show ?thesis
    using assms m f by (cases x) (auto simp: unmarkTomb_def dest: unmark_ok unmark_err)
qed

text \<open>A delete touches the tombstone of its own memory only; a successful one leaves it set.\<close>

lemma delete_effect:
  assumes "svTomb sv = Some T" "deleteMemoryRaw sv cx k w = (r, w')"
  shows "wSrc w' = wSrc w \<and> dead (wTomb w') - {k} = dead (wTomb w) - {k} \<and> (isl r \<or> k \<in> dead (wTomb w'))"
proof -
  obtain x w1 where t: "on_lr (TrackStatus (svLR sv cx) k) w = (x, w1)" by fastforce
  note ft = on_lr_eq [OF t]
  show ?thesis
  proof (cases x)
    case (Inl e)
    with assms(2) t ft show ?thesis by (auto simp: deleteMemoryRaw_def)
  next
    case x: (Inr ts)
    obtain y w2 where m: "markTomb sv k w1 = (y, w2)" by fastforce
    let ?rq = "\<lparr>ddDocIDs = map dsID (tsDocuments ts), ddDeleteFile = False, ddDeleteLLMCache = False\<rparr>"
    obtain z w3 where d: "on_lr (DeleteDocs (svLR sv cx) ?rq) w2 = (z, w3)" by fastforce
    note f = ft markTomb_effect [OF assms(1) m] on_lr_eq [OF d]
    consider "isl r" "w' = w1" | "isl r" "isl y" "w' = w2" | (undone) "\<not> isl y" "isl r" "w' = unmarkTomb sv k w3" | "\<not> isl y" "w' = w3"
      using delete_ends [OF t [unfolded x] m d assms(2)] by blast
    then show ?thesis
    proof cases
      case undone
      then show ?thesis using f unmarkTomb_effect [OF assms(1), of k w3] by auto
    qed (use f in auto)
  qed
qed

lemma purge_loop_sources:
  assumes sv: "svTomb sv = Some T" and "purge_loop sv cx repo f ids n w = ((m, res), w')"
  shows "wSrc w' = wSrc w"
  using assms(2)
proof (induction ids arbitrary: n w)
  case (Cons x xs)
  obtain r w1 where d: "deleteMemoryRaw sv cx x w = (r, w1)" by fastforce
  with Cons show ?case using delete_effect [OF sv d]
    by (cases r) (auto split: if_splits dest!: purgeFailed_frame Cons.IH)
qed simp

lemma purge_source_effect:
  assumes sv: "svTomb sv = Some T" "svSources sv = Some I"
    and "DeleteMemoriesBySource sv cx repo f w = ((n, res), w')"
  shows "indexed (wSrc w') = (\<lambda>r g. if res = None \<and> r = repo \<and> g = f then {} else indexed (wSrc w) r g)"
proof -
  obtain x w1 where t: "on_src (TrackIDs I repo f) w = (x, w1)" by fastforce
  note ft = on_src_frame [OF t]
  show ?thesis
  proof (cases x)
    case (Inl e)
    with assms t ft trackids_err show ?thesis
      by (auto simp: DeleteMemoriesBySource_def fun_eq_iff dest!: purgeFailed_frame)
  next
    case (Inr ids)
    with ft have ix: "indexed (wSrc w1) = indexed (wSrc w)" by (auto dest: trackids_ok)
    obtain m y w2 where p: "purge_loop sv cx repo f ids 0 w1 = ((m, y), w2)" by (metis prod.exhaust)
    note src = purge_loop_sources [OF sv(1) p]
    obtain z w3 where d: "on_src (DeleteByFile I repo f) w2 = (z, w3)" by fastforce
    note fd = on_src_frame [OF d]
    show ?thesis
    proof (cases "y = None \<and> \<not> isl z")
      case True
      then obtain c where z: "z = Inr c" "y = None" by (cases z) auto
      with fd have "indexed (wSrc w3) = (\<lambda>r g. if r = repo \<and> g = f then {} else indexed (wSrc w2) r g)"
        by (auto dest: delete_ok)
      moreover have "res = None" "wSrc w' = wSrc w3"
        using assms t Inr p d z by (auto simp: DeleteMemoriesBySource_def)
      ultimately show ?thesis using ix src by (auto simp: fun_eq_iff)
    next
      case False
      then have "res \<noteq> None \<and> indexed (wSrc w') = indexed (wSrc w2)"
        using assms t Inr p d fd
        by (cases y; cases z) (auto simp: DeleteMemoriesBySource_def dest!: purgeFailed_frame delete_err)
      then show ?thesis using ix src by (auto simp: fun_eq_iff)
    qed
  qed
qed

text \<open>A batch clears a prefix of its files, all of them exactly when it succeeds.\<close>

lemma sources_loop_effect:
  assumes sv: "svTomb sv = Some T" "svSources sv = Some I"
    and "sources_loop sv cx repo files tot w = ((n, res), w')"
  shows "\<exists>m \<le> length files. (res = None \<longleftrightarrow> m = length files) \<and>
    indexed (wSrc w') = (\<lambda>r g. if r = repo \<and> g \<in> set (take m files) then {} else indexed (wSrc w) r g)"
  using assms(3)
proof (induction files arbitrary: tot w)
  case Nil
  then show ?case by (auto simp: fun_eq_iff)
next
  case (Cons f fs)
  obtain c y w1 where d: "DeleteMemoriesBySource sv cx repo f w = ((c, y), w1)" by (metis prod.exhaust)
  note e = purge_source_effect [OF sv d]
  show ?case
  proof (cases y)
    case None
    with Cons.prems d have "sources_loop sv cx repo fs (tot + c) w1 = ((n, res), w')" by simp
    from Cons.IH [OF this] obtain m where "m \<le> length fs" "res = None \<longleftrightarrow> m = length fs"
      "indexed (wSrc w') = (\<lambda>r g. if r = repo \<and> g \<in> set (take m fs) then {} else indexed (wSrc w1) r g)"
      by blast
    with e None show ?thesis by (intro exI [of _ "Suc m"]) (auto simp: fun_eq_iff)
  next
    case (Some er)
    with Cons.prems d have "res \<noteq> None" "wSrc w' = wSrc w1" by (auto simp: Let_def)
    with e Some show ?thesis by (intro exI [of _ 0]) (auto simp: fun_eq_iff)
  qed
qed

end

interpretation pgs: memory_stores "TombstoneStore_ops now" tombs SourceStore_ops file_ids for now
  by unfold_locales

subsection \<open>What LightRAG says of a memory that is deleted\<close>

text \<open>
  The answer of LightRAG to a delete asked in the state \<open>l\<close>: the memory is gone (404, or a track with
  no documents), the deletion is accepted, or anything else.
\<close>

datatype delete_answer = Gone | Accepted | Refused

definition http_404 :: "err \<Rightarrow> bool" where
  "http_404 e \<longleftrightarrow> AsBusy e = None \<and> AsHTTP e = Some 404"

definition lr_answer :: "'l Client \<Rightarrow> string \<Rightarrow> 'l \<Rightarrow> delete_answer" where
  "lr_answer C k l = (case TrackStatus C k l of
     (Inl e, _) \<Rightarrow> if http_404 e then Gone else Refused
   | (Inr ts, l') \<Rightarrow>
       if tsDocuments ts = [] then Gone
       else (case fst (DeleteDocs C \<lparr>ddDocIDs = map dsID (tsDocuments ts), ddDeleteFile = False, ddDeleteLLMCache = False\<rparr> l') of
          Inl e \<Rightarrow> if http_404 e then Gone else Refused
        | Inr resp \<Rightarrow> if drStatus resp \<in> {''deletion_started'', ''success''} then Accepted else Refused))"

text \<open>The deletes a purge asks for, each with the state of LightRAG it is asked in.\<close>

fun purge_visits :: "('l, 't, 's) Service \<Rightarrow> ctx \<Rightarrow> string list \<Rightarrow> ('l, 't, 's) world \<Rightarrow> (string \<times> 'l) list" where
  "purge_visits sv cx [] w = []"
| "purge_visits sv cx (x # xs) w = (x, wLR w) # purge_visits sv cx xs (snd (deleteMemoryRaw sv cx x w))"

definition purge_asks :: "('l, 't, 's) Service \<Rightarrow> ctx \<Rightarrow> string \<Rightarrow> string \<Rightarrow> ('l, 't, 's) world \<Rightarrow> (string \<times> 'l) list" where
  "purge_asks sv cx repo f w = (case svSources sv of None \<Rightarrow> []
     | Some src \<Rightarrow> (case on_src (TrackIDs src repo f) w of (Inl e, _) \<Rightarrow> [] | (Inr ids, w1) \<Rightarrow> purge_visits sv cx ids w1))"

lemma returned_not_found: "\<not> Is (deleteReturned (if b then ErrBusy else ErrUpstream) s) ErrNotFound"
  by (simp add: deleteReturned_def Is_def)

lemma Is_wrapUpstream [simp]: "Is (wrapUpstream e) ErrNotFound \<longleftrightarrow> http_404 e"
  by (simp add: wrapUpstream_def http_404_def Is_def split: option.splits)

text \<open>
  Stores whose errors never are \<^verbatim>\<open>ErrNotFound\<close> in a state \<open>fine\<close>, and that answer in a state \<open>live\<close>.
\<close>

locale purge_stores = memory_stores T dead I indexed
  for T :: "'t Tombstoner" and dead :: "'t \<Rightarrow> string set"
    and I :: "'s SourceIndex" and indexed :: "'s \<Rightarrow> string \<Rightarrow> string \<Rightarrow> string set" +
  fixes fine live :: "'t \<Rightarrow> bool" and src_live :: "'s \<Rightarrow> bool"
  assumes mark_fine: "fine t \<Longrightarrow> Mark T k t = (r, t') \<Longrightarrow> fine t' \<and> (\<forall>e. r = Inl e \<longrightarrow> \<not> Is e ErrNotFound)"
    and unmark_fine: "fine t \<Longrightarrow> Unmark T k t = (ru, t') \<Longrightarrow> fine t'"
    and mark_live: "live t \<Longrightarrow> \<exists>t'. Mark T k t = (Inr (), t') \<and> live t'"
    and unmark_live: "live t \<Longrightarrow> Unmark T k t = (ru, t') \<Longrightarrow> live t'"
    and src_trackids: "src_live s \<Longrightarrow> \<exists>ids s'. TrackIDs I repo f s = (Inr ids, s') \<and> src_live s'"
    and src_delete: "src_live s \<Longrightarrow> \<exists>c s'. DeleteByFile I repo f s = (Inr c, s') \<and> src_live s'"
begin

lemma delete_answered:
  assumes sv: "svTomb sv = Some T" and d: "deleteMemoryRaw sv cx k w = (r, w')"
  defines "a \<equiv> lr_answer (svLR sv cx) k (wLR w)"
  shows "(fine (wTomb w) \<longrightarrow> fine (wTomb w') \<and> (\<forall>e. r = Inl e \<and> Is e ErrNotFound \<longrightarrow> a = Gone))
    \<and> (live (wTomb w) \<longrightarrow> live (wTomb w') \<and> (a = Accepted \<longrightarrow> r = Inr ()) \<and> (a = Gone \<longrightarrow> (\<exists>e. r = Inl e \<and> Is e ErrNotFound)))
    \<and> (r = Inr () \<longrightarrow> k \<in> dead (wTomb w') \<and> a = Accepted)"
proof -
  have "isl r \<or> k \<in> dead (wTomb w')" using delete_effect [OF sv d] by blast
  then have k: "r = Inr () \<longrightarrow> k \<in> dead (wTomb w')" by auto
  obtain x l1 where t: "TrackStatus (svLR sv cx) k (wLR w) = (x, l1)" by fastforce
  show ?thesis
  proof (cases "\<exists>ts. x = Inr ts \<and> tsDocuments ts \<noteq> []")
    case False
    with t d k show ?thesis
      by (cases x) (auto simp: a_def lr_answer_def deleteMemoryRaw_def on_lr_def noDocuments_def)
  next
    case True
    then obtain ts where ts: "x = Inr ts" "tsDocuments ts \<noteq> []" by blast
    obtain y w2 where m: "markTomb sv k (w\<lparr>wLR := l1\<rparr>) = (y, w2)" by fastforce
    obtain y' t2 where m': "Mark T k (wTomb w) = (y', t2)" by fastforce
    have w2: "w2 = w\<lparr>wLR := l1, wTomb := t2\<rparr>" "y = (case y' of Inl e \<Rightarrow> Inl (Wrap ''tombstone'' e) | Inr u \<Rightarrow> Inr u)"
      using m m' sv by (auto simp: markTomb_def mapErr_def on_tomb_def split: sum.splits)
    obtain z l2 where z: "DeleteDocs (svLR sv cx) \<lparr>ddDocIDs = map dsID (tsDocuments ts), ddDeleteFile = False, ddDeleteLLMCache = False\<rparr> l1 = (z, l2)"
      by fastforce
    obtain u t3 where u: "Unmark T k t2 = (u, t3)" by fastforce
    have un: "wTomb (unmarkTomb sv k (w2\<lparr>wLR := l2\<rparr>)) = t3" using u sv by (simp add: unmarkTomb_def on_tomb_def w2)
    note laws = mark_fine [OF _ m'] unmark_fine [OF _ u] unmark_live [OF _ u]
    have ml: "live (wTomb w) \<Longrightarrow> y' = Inr () \<and> live t2" using mark_live [of "wTomb w" k] m' by auto
    have a: "a = (case z of Inl e \<Rightarrow> if http_404 e then Gone else Refused
        | Inr resp \<Rightarrow> if drStatus resp \<in> {''deletion_started'', ''success''} then Accepted else Refused)"
      using t ts z by (simp only: a_def lr_answer_def prod.case sum.case fst_conv if_False)
    have rw: "(r, w') = (case y' of Inl e \<Rightarrow> (Inl (Wrap ''tombstone'' e), w2)
        | Inr _ \<Rightarrow> (case z of Inl e \<Rightarrow> (Inl (wrapUpstream e), unmarkTomb sv k (w2\<lparr>wLR := l2\<rparr>))
          | Inr resp \<Rightarrow> if drStatus resp \<noteq> ''deletion_started'' \<and> drStatus resp \<noteq> ''success''
              then (Inl (deleteReturned (if drStatus resp = ''busy'' then ErrBusy else ErrUpstream) (drStatus resp)),
                unmarkTomb sv k (w2\<lparr>wLR := l2\<rparr>)) else (Inr (), w2\<lparr>wLR := l2\<rparr>)))"
    proof -
      have t': "on_lr (TrackStatus (svLR sv cx) k) w = (Inr ts, w\<lparr>wLR := l1\<rparr>)" using t ts by (simp add: on_lr_def)
      have z': "on_lr (DeleteDocs (svLR sv cx) \<lparr>ddDocIDs = map dsID (tsDocuments ts), ddDeleteFile = False, ddDeleteLLMCache = False\<rparr>) w2
          = (z, w2\<lparr>wLR := l2\<rparr>)" using z by (simp add: on_lr_def w2)
      have nd: "map dsID (tsDocuments ts) \<noteq> []" using ts by simp
      show ?thesis
        using d by (cases y') (simp_all only: deleteMemoryRaw_def t' prod.case sum.case Let_def nd if_False m w2(2) z')
    qed
    show ?thesis
    proof (cases y')
      case (Inl e)
      with rw w2 laws ml show ?thesis by auto
    next
      case (Inr v)
      show ?thesis
      proof (cases z)
        case z: (Inl e)
        with rw Inr un laws ml a show ?thesis by auto
      next
        case z: (Inr resp)
        show ?thesis
        proof (cases "drStatus resp \<in> {''deletion_started'', ''success''}")
          case True
          then have "(r, w') = (Inr (), w2\<lparr>wLR := l2\<rparr>)" "a = Accepted"
            using rw a by (auto simp: Inr z)
          with w2 laws(1) ml Inr k show ?thesis by simp
        next
          case False
          then have "(r, w') = (Inl (deleteReturned (if drStatus resp = ''busy'' then ErrBusy else ErrUpstream) (drStatus resp)),
                unmarkTomb sv k (w2\<lparr>wLR := l2\<rparr>))" "a = Refused"
            using rw a by (simp_all only: Inr z sum.case if_True if_False insert_iff empty_iff de_Morgan_disj simp_thms)
          with un laws ml Inr show ?thesis by (simp add: returned_not_found)
        qed
      qed
    qed
  qed
qed

lemma purge_loop_answered:
  assumes sv: "svTomb sv = Some T" and "purge_loop sv cx repo f ids n w = ((m, res), w')"
  shows "(fine (wTomb w) \<and> res = None \<longrightarrow> (\<forall>k\<in>dead (wTomb w) \<union> set ids. k \<in> dead (wTomb w')
      \<or> (\<exists>l. (k, l) \<in> set (purge_visits sv cx ids w) \<and> lr_answer (svLR sv cx) k l = Gone)))
    \<and> (live (wTomb w) \<and> (\<forall>(k, l)\<in>set (purge_visits sv cx ids w). lr_answer (svLR sv cx) k l \<noteq> Refused) \<longrightarrow> res = None)
    \<and> (live (wTomb w) \<longrightarrow> live (wTomb w'))"
  using assms(2)
proof (induction ids arbitrary: n w)
  case (Cons x xs)
  obtain r w1 where d: "deleteMemoryRaw sv cx x w = (r, w1)" by fastforce
  note a = delete_answered [OF sv d] and e = delete_effect [OF sv d]
  show ?case
  proof (cases "\<exists>er. r = Inl er \<and> \<not> Is er ErrNotFound")
    case True
    then have "res \<noteq> None" "wTomb w' = wTomb w1" using Cons.prems d by (auto dest!: purgeFailed_frame)
    with True a show ?thesis by (cases "lr_answer (svLR sv cx) x (wLR w)") auto
  next
    case False
    then obtain n1 where l: "purge_loop sv cx repo f xs n1 w1 = ((m, res), w')"
      using Cons.prems d by (cases r) auto
    have x: "fine (wTomb w) \<Longrightarrow> x \<in> dead (wTomb w1) \<or> lr_answer (svLR sv cx) x (wLR w) = Gone"
      using a False by (cases r) auto
    have k: "\<And>k. k \<in> dead (wTomb w) \<Longrightarrow> k = x \<or> k \<in> dead (wTomb w1)" using e by auto
    have fl: "fine (wTomb w) \<Longrightarrow> fine (wTomb w1)" "live (wTomb w) \<Longrightarrow> live (wTomb w1)" using a by auto
    have v: "purge_visits sv cx (x # xs) w = (x, wLR w) # purge_visits sv cx xs w1" by (simp add: d)
    show ?thesis
    proof (intro conjI impI ballI)
      fix j
      assume f: "fine (wTomb w) \<and> res = None" and j: "j \<in> dead (wTomb w) \<union> set (x # xs)"
      then show "j \<in> dead (wTomb w') \<or> (\<exists>l. (j, l) \<in> set (purge_visits sv cx (x # xs) w) \<and> lr_answer (svLR sv cx) j l = Gone)"
        using Cons.IH [OF l] k [of j] x fl(1) unfolding v by fastforce
    next
      assume "live (wTomb w) \<and> (\<forall>(k, l)\<in>set (purge_visits sv cx (x # xs) w). lr_answer (svLR sv cx) k l \<noteq> Refused)"
      with Cons.IH [OF l] fl(2) show "res = None" unfolding v by auto
    next
      assume "live (wTomb w)"
      with Cons.IH [OF l] fl(2) show "live (wTomb w')" by blast
    qed
  qed
qed auto

lemma purge_source_answered:
  assumes sv: "svTomb sv = Some T" "svSources sv = Some I"
    and p: "DeleteMemoriesBySource sv cx repo f w = ((n, res), w')"
  shows "(fine (wTomb w) \<and> res = None \<longrightarrow> (\<forall>k\<in>indexed (wSrc w) repo f. k \<in> dead (wTomb w')
      \<or> (\<exists>l. (k, l) \<in> set (purge_asks sv cx repo f w) \<and> lr_answer (svLR sv cx) k l = Gone)))
    \<and> (live (wTomb w) \<and> src_live (wSrc w) \<and>
        (\<forall>(k, l)\<in>set (purge_asks sv cx repo f w). lr_answer (svLR sv cx) k l \<noteq> Refused) \<longrightarrow> res = None)
    \<and> (live (wTomb w) \<and> src_live (wSrc w) \<longrightarrow> live (wTomb w') \<and> src_live (wSrc w'))"
proof -
  obtain x w1 where t: "on_src (TrackIDs I repo f) w = (x, w1)" by fastforce
  note ft = on_src_frame [OF t]
  show ?thesis
  proof (cases x)
    case (Inl e)
    with p t sv ft src_trackids [of "wSrc w" repo f] show ?thesis
      by (auto simp: DeleteMemoriesBySource_def dest!: purgeFailed_frame)
  next
    case (Inr ids)
    with ft have ix: "set ids = indexed (wSrc w) repo f" by (auto dest: trackids_ok)
    have asks: "purge_asks sv cx repo f w = purge_visits sv cx ids w1" using sv t Inr by (simp add: purge_asks_def)
    obtain m y w2 where l: "purge_loop sv cx repo f ids 0 w1 = ((m, y), w2)" by (metis prod.exhaust)
    note e = purge_loop_answered [OF sv(1) l] and src = purge_loop_sources [OF sv(1) l]
    obtain z w3 where d: "on_src (DeleteByFile I repo f) w2 = (z, w3)" by fastforce
    note fd = on_src_frame [OF d]
    have live: "src_live (wSrc w) \<Longrightarrow> \<not> isl z \<and> src_live (wSrc w2) \<and> src_live (wSrc w3)"
      using src_trackids [of "wSrc w" repo f] src_delete [of "wSrc w1" repo f] ft fd src Inr by auto
    have "res = None \<longleftrightarrow> y = None \<and> \<not> isl z" "wTomb w' = wTomb w2" "wSrc w' \<in> {wSrc w2, wSrc w3}"
      using p t Inr l d sv fd by (cases y; cases z; auto simp: DeleteMemoriesBySource_def dest!: purgeFailed_frame)+
    with e ix asks ft live show ?thesis by auto
  qed
qed

text \<open>A batch over stores that answer and a LightRAG that refuses no deletion succeeds.\<close>

lemma sources_loop_succeeds:
  assumes sv: "svTomb sv = Some T" "svSources sv = Some I" and lr: "\<And>k l. lr_answer (svLR sv cx) k l \<noteq> Refused"
    and "live (wTomb w)" "src_live (wSrc w)" "sources_loop sv cx repo files tot w = ((n, res), w')"
  shows "res = None"
  using assms(4-)
proof (induction files arbitrary: tot w)
  case (Cons f fs)
  obtain c y w1 where d: "DeleteMemoriesBySource sv cx repo f w = ((c, y), w1)" by (metis prod.exhaust)
  have "y = None" "live (wTomb w1)" "src_live (wSrc w1)"
    using purge_source_answered [OF sv d] lr Cons.prems(1,2) by auto
  with Cons d show ?case by auto
qed simp

end

text \<open>A tombstone connection whose driver errors are not the service's own \<^verbatim>\<open>ErrNotFound\<close>.\<close>

definition driver_errors :: "'db conn \<Rightarrow> bool" where
  "driver_errors c \<longleftrightarrow> (\<forall>e. Some e \<in> set (script c) \<longrightarrow> \<not> Is e ErrNotFound)"

lemma driver_errors_exec:
  assumes "driver_errors c" "db_exec g c = (r, c')"
  shows "driver_errors c' \<and> (\<forall>e. r = Inl e \<longrightarrow> \<not> Is e ErrNotFound)"
  using assms by (cases "script c")
    (auto simp: driver_errors_def db_exec_def db_call_def next_outcome_def split: option.splits sum.splits prod.splits)

lemma driver_errors_tables [simp]: "driver_errors (c\<lparr>tables := d\<rparr>) = driver_errors c"
  by (simp add: driver_errors_def)

interpretation pgp: purge_stores "TombstoneStore_ops now" tombs SourceStore_ops file_ids driver_errors healthy healthy for now
proof (unfold_locales, goal_cases)
  case (1 t k r t')
  obtain x c where x: "on_tombs (upsert tbTrackID (\<lambda>old new. old\<lparr>tbDeletedAt := now\<rparr>)
      \<lparr>tbTrackID = k, tbDeletedAt = now, tbAttempts = 0, tbNextCheck = None\<rparr>) t = (x, c)" by fastforce
  from driver_errors_exec [OF 1(1) x [unfolded on_tombs_def]] 1(2) x show ?case
    by (cases x) (auto simp: TombstoneStore_ops_def TS_Mark_def)
next
  case (2 t k ru t')
  obtain x c where x: "on_tombs (tdelete (\<lambda>t. tbTrackID t = k)) t = (x, c)" by fastforce
  from driver_errors_exec [OF 2(1) x [unfolded on_tombs_def]] 2(2) x show ?case
    by (cases x) (auto simp: TombstoneStore_ops_def TS_Unmark_def mapErr_def)
next
  case (3 t k)
  then show ?case by (simp add: TombstoneStore_ops_def TS_Mark_def on_tombs_def)
next
  case (4 t k ru t')
  then show ?case by (auto simp: TombstoneStore_ops_def TS_Unmark_def on_tombs_def mapErr_def)
next
  case (5 s repo f)
  then show ?case by (simp add: SourceStore_ops_def SS_TrackIDs_def mapErr_def)
next
  case (6 s repo f)
  then show ?case by (simp add: SourceStore_ops_def SS_DeleteByFile_def mapErr_def)
qed

section \<open>Deleting\<close>

text \<open>The service as \<^verbatim>\<open>cmd/tatara-memory\<close> builds it: any client over the two database stores.\<close>

definition pg_service :: "(ctx \<Rightarrow> 'l Client) \<Rightarrow> Time \<Rightarrow> int \<Rightarrow> ('l, tomb_conn, source_conn) Service" where
  "pg_service L now budget = WithPurgeBudget budget (NewServiceWithSources L (Some (TombstoneStore_ops now)) (Some SourceStore_ops))"

lemma pg_service_sel [simp]:
  "svLR (pg_service L now b) = L" "svTomb (pg_service L now b) = Some (TombstoneStore_ops now)"
  "svSources (pg_service L now b) = Some SourceStore_ops" "svPurgeBudget (pg_service L now b) = b"
  by (simp_all add: pg_service_def WithPurgeBudget_def NewServiceWithSources_def)

lemma check_dead:
  assumes "k \<in> tombs (wTomb w)" "checkTomb (pg_service L now b) k w = (r, w')"
  shows "wLR w' = wLR w \<and> (r = Inr True \<or> isl r \<and> \<not> healthy (wTomb w))"
proof -
  obtain x w1 where c: "on_tomb (IsDeleted (TombstoneStore_ops now) k) w = (x, w1)" by fastforce
  note f = on_tomb_frame [OF c]
  have h: "healthy (wTomb w) \<Longrightarrow> \<not> isl x"
    using f by (auto simp: TombstoneStore_ops_def TS_IsDeleted_def mapErr_def)
  show ?thesis
    using assms c f h ts.isdeleted_ok [of now k "wTomb w"] by (cases x) (auto simp: checkTomb_def mapErr_def)
qed

text \<open>
  C12: after a memory was deleted, reading it fails without asking LightRAG, whatever LightRAG
  did with the deletion: the answer is \<^verbatim>\<open>ErrNotFound\<close>, unless the tombstone table itself cannot be
  read.
\<close>

theorem delete_then_get:
  assumes "DeleteMemory (pg_service L now b) cx k w = (Inr (), w')"
  shows "\<exists>e w''. GetMemory parse parseNano (pg_service L now b) cx' k w' = (Inl e, w'') \<and> wLR w'' = wLR w'
    \<and> (healthy (wTomb w') \<longrightarrow> e = ErrNotFound \<and> rsStatus (mapServiceError reqID e) = 404)"
proof -
  obtain r w1 where d: "deleteMemoryRaw (pg_service L now b) cx k w = (r, w1)" by fastforce
  have r: "r = Inr ()" "wTomb w' = wTomb w1" using assms d by (cases r; auto simp: DeleteMemory_def)+
  have dead: "k \<in> tombs (wTomb w')" using pgs.delete_effect [OF _ d, of now] r by simp
  obtain x w2 where c: "checkTomb (pg_service L now b) k w' = (x, w2)" by fastforce
  show ?thesis
    using check_dead [OF dead c] c
    by (cases x) (auto simp: GetMemory_def mapServiceError_def WriteError_def Is_def)
qed

text \<open>
  A concrete upstream: every track has one document, two references come back from a query, and the
  answers to \<^verbatim>\<open>DeleteDocs\<close> are taken from a list.
\<close>

definition doc0 :: DocStatusResponse where
  "doc0 = \<lparr>dsID = ''doc'', dsContentSummary = ''text'', dsContentLength = 4, dsStatus = ''processed'', dsCreatedAt = '''',
     dsUpdatedAt = '''', dsTrackID = ''t'', dsChunksCount = 1, dsErrorMsg = '''', dsMetadata = Map.empty, dsFilePath = ''''\<rparr>"

definition demo_client :: "ctx \<Rightarrow> string list Client" where
  "demo_client cx =
     \<lparr>InsertText = (\<lambda>rq l. (Inr \<lparr>irStatus = ''success'', irMessage = '''', irTrackID = ''t''\<rparr>, l)),
      TrackStatus = (\<lambda>k l. (Inr \<lparr>tsTrackID = k, tsDocuments = [doc0], tsTotalCount = 1, tsStatusSummary = []\<rparr>, l)),
      DeleteDocs = (\<lambda>rq l. case l of [] \<Rightarrow> (Inl (HTTPError 503 '''' ''''), l)
         | s # ss \<Rightarrow> (Inr \<lparr>drStatus = s, drMessage = '''', drDocID = ''doc''\<rparr>, ss)),
      LRQuery = (\<lambda>rq l. (Inr \<lparr>qsResponse = ''r'', qsReferences = map (\<lambda>k. \<lparr>rfReferenceID = k, rfFilePath = ''f'', rfContent = []\<rparr>) [''t'', ''u'']\<rparr>, l)),
      LRQueryData = (\<lambda>rq l. (Inl (HTTPError 500 '''' ''''), l)),
      EntityExists = (\<lambda>k l. (Inr False, l)),
      CreateEntity = (\<lambda>rq l. (Inl (HTTPError 500 '''' ''''), l)),
      UpdateEntity = (\<lambda>rq l. (Inl (HTTPError 500 '''' ''''), l)),
      DeleteEntity = (\<lambda>rq l. (Inr (), l)),
      LabelSearch = (\<lambda>q l. (Inr [''x'', ''y''], l)),
      Graph = (\<lambda>k d n l. if k = ''x'' then (Inl (HTTPError 404 '''' ''''), l) else (Inr \<lparr>kgNodes = [],
        kgEdges = replicate 2 \<lparr>geID = ''e'', geSource = ''x'', geTarget = ''y'', geType = ''owns'', geProperties = Map.empty\<rparr>\<rparr>, l)),
      CreateRelation = (\<lambda>rq l. (Inl (HTTPError 500 '''' ''''), l)),
      DeleteRelation = (\<lambda>rq l. (Inr (), l)),
      Health = (\<lambda>l. (Inr (), l))\<rparr>"

definition world0 :: "string list \<Rightarrow> (string list, tomb_conn, source_conn) world" where
  "world0 deletes = \<lparr>wLR = deletes, wTomb = \<lparr>tables = \<lparr>deleted_memories = [], tomb_created = 0\<rparr>, script = []\<rparr>,
     wSrc = \<lparr>tables = [\<lparr>srRepo = ''r'', srFile = ''f'', srTrackID = ''t''\<rparr>, \<lparr>srRepo = ''r'', srFile = ''g'', srTrackID = ''u''\<rparr>],
       script = []\<rparr>, wOps = [], wLog = []\<rparr>"

definition cx0 :: ctx where "cx0 = \<lparr>cxDeadline = None, cxCancelAt = None\<rparr>"

definition demo :: "(string list, tomb_conn, source_conn) Service" where
  "demo = pg_service demo_client 0 DefaultPurgeBudget"

lemmas demo_defs = demo_def demo_client_def world0_def cx0_def doc0_def
lemmas delete_defs = DeleteMemory_def deleteMemoryRaw_def markTomb_def unmarkTomb_def on_lr_def on_tomb_def on_src_def
  incOp_def TombstoneStore_ops_def TS_Mark_def TS_Unmark_def on_tombs_def mapErr_def db_exec_def db_call_def
  next_outcome_def tdelete_def

theorem delete_then_get_witness:
  "\<exists>e w''. GetMemory (\<lambda>_. None) (\<lambda>_. None) demo cx0 ''t'' (snd (DeleteMemory demo cx0 ''t'' (world0 [''success'']))) = (Inl e, w'')
    \<and> e = ErrNotFound"
proof -
  have "fst (DeleteMemory demo cx0 ''t'' (world0 [''success''])) = Inr ()"
    by (simp add: demo_defs delete_defs)
  moreover have "healthy (wTomb (snd (DeleteMemory demo cx0 ''t'' (world0 [''success'']))))"
    by (simp add: demo_defs delete_defs healthy_def)
  ultimately show ?thesis
    using delete_then_get [of demo_client 0 DefaultPurgeBudget cx0 "''t''" "world0 [''success'']"
        "snd (DeleteMemory demo cx0 ''t'' (world0 [''success'']))" "\<lambda>_. None" "\<lambda>_. None" cx0]
    unfolding demo_def by (metis prod.collapse)
qed

text \<open>
  A delete that fails removes the tombstone even when an earlier, successful delete had set it:
  with LightRAG still working on the first deletion, a second \<^verbatim>\<open>DELETE\<close> that finds the pipeline busy
  makes the deleted memory readable again.
\<close>

theorem second_delete_revives:
  "let w1 = snd (DeleteMemory demo cx0 ''t'' (world0 [''deletion_started'', ''busy'']));
       w2 = snd (DeleteMemory demo cx0 ''t'' w1)
   in fst (DeleteMemory demo cx0 ''t'' (world0 [''deletion_started'', ''busy''])) = Inr ()
    \<and> ''t'' \<in> tombs (wTomb w1)
    \<and> fst (DeleteMemory demo cx0 ''t'' w1) = Inl (deleteReturned ErrBusy ''busy'')
    \<and> (case GetMemory (\<lambda>_. None) (\<lambda>_. None) demo cx0 ''t'' w2 of (Inr m, _) \<Rightarrow> mText m = ''text'' | _ \<Rightarrow> False)"
  by (simp add: demo_defs delete_defs tombs_def GetMemory_def checkTomb_def TS_IsDeleted_def db_query_def FromDocStatus_def Let_def)

section \<open>Purging by source\<close>

text \<open>
  C13: a purge of one source file that fails leaves the whole source index as it was, so that a
  retry sees every memory of the file again.  One that succeeds leaves exactly the rows of that
  file gone from the index, and, when no driver error of the tombstone table is the service's own
  \<^verbatim>\<open>ErrNotFound\<close>, every memory that was indexed for the file tombstoned or reported gone by LightRAG
  (404 or no documents) when this purge asked for its deletion.  It does succeed when both databases answer
  every call and LightRAG refuses none of the deletions that the purge asks for.
\<close>

theorem purge_source_outcome:
  assumes "DeleteMemoriesBySource (pg_service L now b) cx repo f w = ((n, res), w')"
  shows "(if res = None
    then file_ids (wSrc w') = (\<lambda>r g. if r = repo \<and> g = f then {} else file_ids (wSrc w) r g)
      \<and> (driver_errors (wTomb w) \<longrightarrow> (\<forall>k\<in>file_ids (wSrc w) repo f. k \<in> tombs (wTomb w')
           \<or> (\<exists>l. (k, l) \<in> set (purge_asks (pg_service L now b) cx repo f w) \<and> lr_answer (L cx) k l = Gone)))
    else file_ids (wSrc w') = file_ids (wSrc w))
    \<and> (healthy (wTomb w) \<and> healthy (wSrc w)
        \<and> (\<forall>(k, l)\<in>set (purge_asks (pg_service L now b) cx repo f w). lr_answer (L cx) k l \<noteq> Refused) \<longrightarrow> res = None)"
  using pgs.purge_source_effect [OF _ _ assms, of now] pgp.purge_source_answered [OF _ _ assms, of now]
  by (auto simp: fun_eq_iff)

lemmas purge_defs = DeleteMemoriesBySource_def SourceStore_ops_def SS_TrackIDs_def SS_DeleteByFile_def db_query_def from_file_def

theorem purge_source_outcome_witness:
  "snd (fst (DeleteMemoriesBySource demo cx0 ''r'' ''f'' (world0 [''success'']))) = None
   \<and> file_ids (wSrc (snd (DeleteMemoriesBySource demo cx0 ''r'' ''f'' (world0 [''success''])))) ''r'' ''f'' = {}
   \<and> ''t'' \<in> tombs (wTomb (snd (DeleteMemoriesBySource demo cx0 ''r'' ''f'' (world0 [''success'']))))"
proof -
  let ?d = "DeleteMemoriesBySource demo cx0 ''r'' ''f'' (world0 [''success''])"
  have asks: "purge_asks demo cx0 ''r'' ''f'' (world0 [''success'']) = [(''t'', [''success''])]"
    by (simp add: purge_asks_def demo_defs delete_defs purge_defs)
  have a: "lr_answer (demo_client cx0) ''t'' [''success''] = Accepted"
    by (simp add: lr_answer_def demo_client_def doc0_def)
  have h: "healthy (wTomb (world0 [''success'']))" "healthy (wSrc (world0 [''success'']))" "driver_errors (wTomb (world0 [''success'']))"
    "''t'' \<in> file_ids (wSrc (world0 [''success''])) ''r'' ''f''"
    by (simp_all add: world0_def healthy_def driver_errors_def file_ids_def from_file_def) force
  have "?d = ((fst (fst ?d), snd (fst ?d)), snd ?d)" by simp
  note o = purge_source_outcome [OF this [unfolded demo_def], folded demo_def, unfolded asks]
  have n: "snd (fst ?d) = None" using o a h by simp
  have "\<not> (\<exists>l. (''t'', l) \<in> set [(''t'', [''success''])] \<and> lr_answer (demo_client cx0) ''t'' l = Gone)" using a by simp
  with o n h show ?thesis by (simp add: fun_eq_iff) blast
qed

text \<open>
  A reconcile purge works through its files in order and clears a prefix of them from the
  source index, all of them exactly when it reports success: what was finished before an error is
  not repeated by the retry, and what was not is still indexed.
\<close>

theorem purge_sources_prefix:
  assumes "DeleteMemoriesBySources (pg_service L now b) cx t repo files w = ((n, res), w')"
  shows "\<exists>m \<le> length files. (res = None \<longleftrightarrow> m = length files) \<and>
    file_ids (wSrc w') = (\<lambda>r g. if r = repo \<and> g \<in> set (take m files) then {} else file_ids (wSrc w) r g)"
  by (rule pgs.sources_loop_effect [OF _ _ assms [unfolded DeleteMemoriesBySources_def], of now]) simp_all

theorem purge_sources_prefix_witness:
  "file_ids (wSrc (snd (DeleteMemoriesBySources demo cx0 0 ''r'' [''f'', ''g''] (world0 [''success'', ''busy''])))) ''r'' ''g'' \<noteq> {}"
proof -
  let ?c = "DeleteMemoriesBySources demo cx0 0 ''r'' [''f'', ''g''] (world0 [''success'', ''busy''])"
  have "snd (fst ?c) \<noteq> None"
    by (simp add: demo_defs delete_defs purge_defs DeleteMemoriesBySources_def DefaultPurgeBudget_def second_def
        deleteReturned_def purgeFailed_def Let_def Is_def)
  moreover obtain n res w' where c: "?c = ((n, res), w')" by (metis prod.exhaust)
  ultimately obtain m where m: "m < Suc (Suc 0)"
    "file_ids (wSrc w') = (\<lambda>r g. if r = ''r'' \<and> g \<in> set (take m [''f'', ''g'']) then {} else file_ids (wSrc (world0 [''success'', ''busy''])) r g)"
    using purge_sources_prefix [OF c [unfolded demo_def]] by (force simp: le_less)
  then have "''g'' \<notin> set (take m [''f'', ''g''])" by (cases m rule: nat.exhaust) (auto simp: take_Cons')
  then show ?thesis unfolding c using m(2)
    by (auto simp: world0_def file_ids_def from_file_def intro!: exI [of _ "\<lparr>srRepo = ''r'', srFile = ''g'', srTrackID = ''u''\<rparr>"])
qed

section \<open>Retrieval hides deleted memories\<close>

lemma filterTombstoned_subseqs:
  assumes "filterTombstoned (TombstoneStore_ops now) key xs w = (ys, w')"
  shows "set ys \<subseteq> set xs \<and> {x \<in> set xs. key x \<notin> tombs (wTomb w)} \<subseteq> set ys \<and> tombs (wTomb w') = tombs (wTomb w)"
  using assms
proof (induction xs arbitrary: w ys)
  case (Cons x xs)
  obtain r w1 where c: "on_tomb (IsDeleted (TombstoneStore_ops now) (key x)) w = (r, w1)" by fastforce
  obtain zs w2 where f: "filterTombstoned (TombstoneStore_ops now) key xs w1 = (zs, w2)" by fastforce
  have same: "tombs (wTomb w1) = tombs (wTomb w)" "r = Inr True \<Longrightarrow> key x \<in> tombs (wTomb w)"
    using on_tomb_frame [OF c] by (cases r; auto dest!: ts.isdeleted_ok ts.isdeleted_err)+
  have eq: "ys = (if r = Inr True then zs else x # zs)" "w' = w2" using Cons.prems c f by auto
  from Cons.IH [of w1 zs] f eq same show ?case by auto
qed simp

lemma filterTombstoned_healthy:
  "healthy (wTomb w) \<Longrightarrow> filterTombstoned (TombstoneStore_ops now) key xs w = (filter (\<lambda>x. key x \<notin> tombs (wTomb w)) xs, w)"
  by (induction xs)
     (auto simp: on_tomb_def TombstoneStore_ops_def TS_IsDeleted_def mapErr_def list_ex_iff tombs_def image_iff eq_commute)

text \<open>
  C17: a query returns every reference LightRAG found whose memory is not tombstoned, and when the
  tombstone table can be read, only those: a failing tombstone check shows a deleted memory
  rather than hiding a live one.
\<close>

theorem query_hides_deleted:
  assumes "QueryMode_Valid (qMode q)"
    and "LRQuery (L cx) (zeroQueryRequest\<lparr>qrMode := qMode q, qrQuery := qText q, qrTopK := qTopK q,
       qrOnlyNeedContext := Some True, qrIncludeReferences := Some True, qrStream := Some False\<rparr>) (wLR w) = (Inr resp, l)"
  shows "\<exists>refs w'. svc_Query (pg_service L now b) cx q w = (Inr (QueryResultFromQuery (resp\<lparr>qsReferences := refs\<rparr>)), w')
    \<and> set refs \<subseteq> set (qsReferences resp)
    \<and> {r \<in> set (qsReferences resp). rfReferenceID r \<notin> tombs (wTomb w)} \<subseteq> set refs
    \<and> (healthy (wTomb w) \<longrightarrow> refs = filter (\<lambda>r. rfReferenceID r \<notin> tombs (wTomb w)) (qsReferences resp))"
proof -
  let ?w = "w\<lparr>wLR := l\<rparr>"
  obtain refs w' where f: "filterTombstoned (TombstoneStore_ops now) rfReferenceID (qsReferences resp) ?w = (refs, w')" by fastforce
  have "svc_Query (pg_service L now b) cx q w =
      (Inr (QueryResultFromQuery (resp\<lparr>qsReferences := refs\<rparr>)), incOp ''query'' None w')"
    using assms f by (simp add: svc_Query_def on_lr_def filterTombstonedRefs_def)
  then show ?thesis
    using filterTombstoned_subseqs [OF f] filterTombstoned_healthy [of ?w now rfReferenceID "qsReferences resp"] f by auto
qed

theorem query_hides_deleted_witness:
  "\<exists>res w'. svc_Query demo cx0 \<lparr>qMode = ''naive'', qText = ''q'', qTopK = 5\<rparr>
      (snd (DeleteMemory demo cx0 ''t'' (world0 [''success'']))) = (Inr res, w') \<and> map maID res = [''u'']"
proof -
  let ?w = "snd (DeleteMemory demo cx0 ''t'' (world0 [''success'']))"
  let ?q = "\<lparr>qMode = ''naive'', qText = ''q'', qTopK = 5\<rparr>"
  let ?resp = "\<lparr>qsResponse = ''r'', qsReferences = map (\<lambda>k. \<lparr>rfReferenceID = k, rfFilePath = ''f'', rfContent = []\<rparr>) [''t'', ''u'']\<rparr>"
  have "QueryMode_Valid (qMode ?q)" by (simp add: QueryMode_Valid_def)
  then obtain refs w' where r: "svc_Query demo cx0 ?q ?w = (Inr (QueryResultFromQuery (?resp\<lparr>qsReferences := refs\<rparr>)), w')"
    "healthy (wTomb ?w) \<longrightarrow> refs = filter (\<lambda>r. rfReferenceID r \<notin> tombs (wTomb ?w)) (qsReferences ?resp)"
    using query_hides_deleted [of ?q demo_client cx0 ?w ?resp "wLR ?w" 0 DefaultPurgeBudget]
    unfolding demo_def by (auto simp: demo_client_def)
  have "healthy (wTomb ?w)" "tombs (wTomb ?w) = {''t''}"
    by (simp_all add: demo_defs delete_defs healthy_def tombs_def)
  with r show ?thesis by (auto simp: QueryResultFromQuery_def)
qed

section \<open>Errors seen by the caller\<close>

text \<open>
  What the caller of the service sees of a LightRAG failure: a busy pipeline, a 429 and an
  expired deadline are backpressure (429), a 404 is a 404, a server fault or a cancelled context is
  503, everything else 502; never 499 and never 500.
\<close>

theorem upstream_status:
  "rsStatus (mapServiceError reqID (wrapUpstream e)) =
     (if AsBusy e \<noteq> None then 429
      else case AsHTTP e of
        Some s \<Rightarrow> if s = 404 then 404 else if s = 429 then 429 else if s \<ge> 500 then 503 else 502
      | None \<Rightarrow> if Is e DeadlineExceeded then 429 else if Is e Canceled then 503 else 502)"
proof -
  have sentinels: "rsStatus (mapServiceError reqID (Suffix ErrBusy s)) = 429"
    "rsStatus (mapServiceError reqID (Suffix ErrNotFound s)) = 404"
    "rsStatus (mapServiceError reqID (Suffix ErrTransient s)) = 503"
    "rsStatus (mapServiceError reqID (Suffix ErrUpstream s)) = 502" for s
    by (simp_all add: mapServiceError_def WriteError_def isDBLockContention_def isDBUnavailable_def err_eval)
  show ?thesis by (simp add: wrapUpstream_def sentinels split: option.splits)
qed

text \<open>The whole answer: status, message, request ID, \<^verbatim>\<open>Retry-After\<close> and log level.\<close>

definition answer :: "string \<Rightarrow> int \<Rightarrow> string \<Rightarrow> bool \<Rightarrow> level option \<Rightarrow> err_response" where
  "answer reqID status msg retry lvl = \<lparr>rsStatus = status, rsMessage = msg, rsRequestID = reqID,
     rsRetryAfter = (if retry then Some ''5'' else None), rsLog = lvl\<rparr>"

definition backpressure :: "string \<Rightarrow> err_response" where
  "backpressure reqID = answer reqID 429 ''overloaded, retry after backoff'' True None"

text \<open>
  C19: the complete answer to a failure of one of the two systems behind the service, under any
  number of \<^verbatim>\<open>%w\<close> wrappers.  A LightRAG failure classified by \<^verbatim>\<open>wrapUpstream\<close>: a busy pipeline, a 429 and
  an expired deadline are backpressure, 429 with \<^verbatim>\<open>Retry-After\<close>; a 404 is a 404; a server fault and a cancelled
  context are 503 with \<^verbatim>\<open>Retry-After\<close>; every other one is 502, logged as an error.  A PostgreSQL error: a lock
  timeout is backpressure; a state that says the server is down, restarting or out of connections is 503 with
  \<^verbatim>\<open>Retry-After\<close>, logged as a warning, and so are a bad or closed connection; every other state is 500,
  logged as an error.
\<close>

theorem failure_answers:
  "mapServiceError reqID (foldr Wrap ss (wrapUpstream e)) =
     (if AsBusy e \<noteq> None then backpressure reqID
      else case AsHTTP e of
        Some s \<Rightarrow>
          if s = 404 then answer reqID 404 ''not found'' False None
          else if s = 429 then backpressure reqID
          else if s \<ge> 500 then answer reqID 503 ''upstream temporarily unavailable'' True None
          else answer reqID 502 ''upstream error'' False (Some LevelError)
      | None \<Rightarrow>
          if Is e DeadlineExceeded then backpressure reqID
          else if Is e Canceled then answer reqID 503 ''upstream temporarily unavailable'' True None
          else answer reqID 502 ''upstream error'' False (Some LevelError))
   \<and> mapServiceError reqID (foldr Wrap ss (PgError code msg)) =
     (if code = ''55P03'' then backpressure reqID
      else if HasPrefix code ''08'' \<or> code \<in> {''53300'', ''53400'', ''57P01'', ''57P02'', ''57P03''}
        then answer reqID 503 ''database temporarily unavailable'' True (Some LevelWarn)
      else answer reqID 500 ''internal error'' False (Some LevelError))
   \<and> list_all (\<lambda>t. mapServiceError reqID (foldr Wrap ss t) = answer reqID 503 ''database temporarily unavailable'' True (Some LevelWarn))
       [ErrBadConn, ErrConnDone]"
proof (intro conjI)
  have s: "mapServiceError reqID (foldr Wrap ss (Suffix ErrBusy x)) = backpressure reqID"
    "mapServiceError reqID (foldr Wrap ss (Suffix ErrNotFound x)) = answer reqID 404 ''not found'' False None"
    "mapServiceError reqID (foldr Wrap ss (Suffix ErrTransient x)) = answer reqID 503 ''upstream temporarily unavailable'' True None"
    "mapServiceError reqID (foldr Wrap ss (Suffix ErrUpstream x)) = answer reqID 502 ''upstream error'' False (Some LevelError)" for x
    by (subst map_wrapped; simp add: mapServiceError_def backpressure_def answer_def WriteError_def isDBLockContention_def
        isDBUnavailable_def err_eval)+
  show "mapServiceError reqID (foldr Wrap ss (wrapUpstream e)) =
     (if AsBusy e \<noteq> None then backpressure reqID
      else case AsHTTP e of
        Some s \<Rightarrow>
          if s = 404 then answer reqID 404 ''not found'' False None
          else if s = 429 then backpressure reqID
          else if s \<ge> 500 then answer reqID 503 ''upstream temporarily unavailable'' True None
          else answer reqID 502 ''upstream error'' False (Some LevelError)
      | None \<Rightarrow>
          if Is e DeadlineExceeded then backpressure reqID
          else if Is e Canceled then answer reqID 503 ''upstream temporarily unavailable'' True None
          else answer reqID 502 ''upstream error'' False (Some LevelError))"
    by (simp add: wrapUpstream_def s split: option.splits)
  show "mapServiceError reqID (foldr Wrap ss (PgError code msg)) =
     (if code = ''55P03'' then backpressure reqID
      else if HasPrefix code ''08'' \<or> code \<in> {''53300'', ''53400'', ''57P01'', ''57P02'', ''57P03''}
        then answer reqID 503 ''database temporarily unavailable'' True (Some LevelWarn)
      else answer reqID 500 ''internal error'' False (Some LevelError))"
    unfolding map_wrapped_pg
    by (simp add: mapServiceError_def WriteError_def isDBLockContention_def isDBUnavailable_def Is_PgError
        unavailable_code_def sql_states backpressure_def answer_def)
  show "list_all (\<lambda>t. mapServiceError reqID (foldr Wrap ss t) = answer reqID 503 ''database temporarily unavailable'' True (Some LevelWarn))
       [ErrBadConn, ErrConnDone]"
  proof -
    have w: "mapServiceError reqID (foldr Wrap ss t) = mapServiceError reqID t" if "t \<in> {ErrBadConn, ErrConnDone}" for t
      using that by (intro map_wrapped) (auto simp: Is_def)
    have "mapServiceError reqID t = answer reqID 503 ''database temporarily unavailable'' True (Some LevelWarn)"
      if "t \<in> {ErrBadConn, ErrConnDone}" for t
      using that by (auto simp: mapServiceError_def answer_def WriteError_def isDBLockContention_def isDBUnavailable_def err_eval)
    then show ?thesis by (simp only: list_all_iff w list.set ball_simps insertI1 insertI2 simp_thms)
  qed
qed

text \<open>
  The level of a purge failure's log line agrees with the status the caller gets, warning
  exactly for 429, for every error but a client error and a database lock timeout; the lock timeout
  is answered 429 and logged as an error.
\<close>

theorem purge_log_level:
  "(purge_level e = LevelWarn \<longleftrightarrow> rsStatus (mapServiceError reqID e) = 429)
   \<or> Is e ErrEntityNotFound \<or> Is e ErrInvalidScope \<or> Is e ErrInvalid \<or> Is e ErrNotFound
   \<or> isDBLockContention e \<and> purge_level e = LevelError \<and> rsStatus (mapServiceError reqID e) = 429"
  by (simp add: purge_level_def mapServiceError_def WriteError_def)

text \<open>
  The disagreement is reached: a purge whose index lookup hits a lock timeout logs an error
  and is answered 429 with a \<^verbatim>\<open>Retry-After\<close>.
\<close>

theorem purge_lock_timeout_logged_as_error:
  "let w0 = world0 []; w = w0\<lparr>wSrc := (wSrc w0)\<lparr>script := [Some (PgError sqlStateLockNotAvailable ''lock'')]\<rparr>\<rparr>;
       out = DeleteMemoriesBySource demo cx0 ''r'' ''f'' w
   in wLog (snd out) = [LevelError]
    \<and> map_option (\<lambda>e. rsStatus (mapServiceError '''' e)) (snd (fst out)) = Some 429"
  by (simp add: demo_defs delete_defs purge_defs purgeFailed_def logPurgeErr_def purge_level_def err_eval
      mapServiceError_def WriteError_def isDBLockContention_def sql_states Let_def)

section \<open>Listing edges\<close>

lemma add_edges_keys:
  "distinct (map dedupKey out) \<Longrightarrow> distinct (map dedupKey (add_edges es out)) \<and>
     dedupKey ` set (add_edges es out) = dedupKey ` set out \<union> (dedupKey \<circ> EdgeFromGraphEdge) ` set es"
  by (induction es arbitrary: out) (auto simp: Let_def insert_absorb)

lemma edges_loop_keys:
  assumes g: "\<And>l. Graph (svLR sv cx) l 1 0 s = (ans l, s)" and "distinct (map dedupKey out)"
    and "wLR w = s" "edges_loop sv cx ls out w = (Inr es, w')"
  shows "distinct (map dedupKey es) \<and> dedupKey ` set es = dedupKey ` set out \<union>
    (\<Union>l\<in>set ls. case ans l of Inl _ \<Rightarrow> {} | Inr k \<Rightarrow> (dedupKey \<circ> EdgeFromGraphEdge) ` set (kgEdges k))"
  using assms(2-4)
proof (induction ls arbitrary: out w)
  case (Cons l ls)
  have on: "on_lr (Graph (svLR sv cx) l 1 0) w = (ans l, w)" using Cons.prems(2) g [of l] by (simp add: on_lr_def)
  show ?case
  proof (cases "ans l")
    case (Inl e)
    with Cons.prems(3) on have "edges_loop sv cx ls out w = (Inr es, w')" by (auto split: if_splits)
    from Cons.IH [OF Cons.prems(1,2) this] Inl show ?thesis by simp
  next
    case (Inr k)
    note a = add_edges_keys [OF Cons.prems(1), of "kgEdges k"]
    have "edges_loop sv cx ls (add_edges (kgEdges k) out) w = (Inr es, w')" using Cons.prems(3) on Inr by simp
    from Cons.IH [OF conjunct1 [OF a] Cons.prems(2) this] a Inr show ?thesis by auto
  qed
qed simp

text \<open>
  Against an upstream whose graph does not change meanwhile, a successful listing of the edges
  has no two edges with the same endpoints and relation, and has every edge incident to a label
  that was not deleted in between.
\<close>

theorem list_edges_complete:
  assumes "\<And>l. Graph (svLR sv cx) l 1 0 s1 = (ans l, s1)"
    and "LabelSearch (svLR sv cx) '''' (wLR w) = (Inr labels, s1)"
    and "ListEdges sv cx w = (Inr es, w')"
  shows "distinct (map dedupKey es) \<and> dedupKey ` set es =
    (\<Union>l\<in>set labels. case ans l of Inl _ \<Rightarrow> {} | Inr k \<Rightarrow> (dedupKey \<circ> EdgeFromGraphEdge) ` set (kgEdges k))"
proof -
  have "edges_loop sv cx labels [] (w\<lparr>wLR := s1\<rparr>) = (Inr es, w')"
    using assms(2,3) by (simp add: ListEdges_def on_lr_def)
  from edges_loop_keys [OF assms(1) _ _ this] show ?thesis by simp
qed

theorem list_edges_complete_witness:
  "\<exists>es w'. ListEdges demo cx0 (world0 []) = (Inr es, w') \<and> distinct (map dedupKey es) \<and> length es = 1"
proof -
  let ?ans = "\<lambda>k. fst (Graph (demo_client cx0) k 1 0 [])"
  have run: "ListEdges demo cx0 (world0 []) = (Inr (add_edges (replicate 2 \<lparr>geID = ''e'', geSource = ''x'', geTarget = ''y'',
      geType = ''owns'', geProperties = Map.empty\<rparr>) []), incOp ''list_edges'' None (world0 []))"
    by (simp add: ListEdges_def demo_def demo_client_def on_lr_def isNotFoundHTTP_def numeral_2_eq_2)
  have "Graph (svLR demo cx0) l 1 0 s = (?ans l, s)" for l s by (simp add: demo_def demo_client_def)
  moreover have "LabelSearch (svLR demo cx0) '''' (wLR (world0 [])) = (Inr [''x'', ''y''], wLR (world0 []))"
    by (simp add: demo_def demo_client_def)
  ultimately have "distinct (map dedupKey (add_edges (replicate 2 \<lparr>geID = ''e'', geSource = ''x'', geTarget = ''y'',
      geType = ''owns'', geProperties = Map.empty\<rparr>) []))"
    using list_edges_complete [OF _ _ run, of _ ?ans] by blast
  with run show ?thesis by (auto simp: numeral_2_eq_2 Let_def)
qed

end
