(* ===== verification/Go_Flags.thy ===== *)
theory Go_Flags
  imports Go_Errors
begin

text \<open>
  The command line of the three programs as \<^verbatim>\<open>flag.FlagSet.Parse\<close> reads it.  A flag is a setter for a field of
  the configuration; the text formats of \<^verbatim>\<open>time.ParseDuration\<close>, of \<^verbatim>\<open>strconv.ParseInt\<close> at base 0 and of
  \<^verbatim>\<open>strconv.ParseFloat\<close> are parameters.
\<close>

text \<open>The formats that are not modelled: \<open>Inl\<close> is the error of the library; \<open>fmShowFloat\<close> prints by a verb.\<close>

record formats =
  fmDuration :: "string \<Rightarrow> err + int"
  fmInt :: "string \<Rightarrow> err + int"
  fmFloat :: "string \<Rightarrow> err + rat"
  fmShowFloat :: "string \<Rightarrow> rat \<Rightarrow> string"

definition andThen :: "err + 'a \<Rightarrow> ('a \<Rightarrow> err + 'b) \<Rightarrow> err + 'b" where
  "andThen r f = (case r of Inl e \<Rightarrow> Inl e | Inr x \<Rightarrow> f x)"

datatype 'c flag_value =
    StringVar "string \<Rightarrow> 'c \<Rightarrow> 'c"
  | IntVar "int \<Rightarrow> 'c \<Rightarrow> 'c"
  | DurationVar "int \<Rightarrow> 'c \<Rightarrow> 'c"
  | FloatVar "rat \<Rightarrow> 'c \<Rightarrow> 'c"

definition flag_set :: "formats \<Rightarrow> 'c flag_value \<Rightarrow> string \<Rightarrow> 'c \<Rightarrow> err + 'c" where
  "flag_set F fl s c = (case fl of
     StringVar set1 \<Rightarrow> Inr (set1 s c)
   | IntVar set1 \<Rightarrow> (case fmInt F s of Inl e \<Rightarrow> Inl e | Inr n \<Rightarrow> Inr (set1 n c))
   | DurationVar set1 \<Rightarrow> (case fmDuration F s of Inl e \<Rightarrow> Inl e | Inr d \<Rightarrow> Inr (set1 d c))
   | FloatVar set1 \<Rightarrow> (case fmFloat F s of Inl e \<Rightarrow> Inl e | Inr x \<Rightarrow> Inr (set1 x c)))"

text \<open>
  What the first argument is to \<^verbatim>\<open>flag.FlagSet.parseOne\<close>: not a flag (parsing stops), a syntax error, or a
  flag with the value after its first equals sign.
\<close>

datatype flag_arg = Positional | BadFlag | Flag string "string option"

fun split_equals :: "string \<Rightarrow> string \<times> string option" where
  "split_equals [] = ([], None)"
| "split_equals (c # cs) = (if c = CHR ''='' then ([], Some cs) else case split_equals cs of (n, v) \<Rightarrow> (c # n, v))"

definition flag_name :: "string \<Rightarrow> flag_arg" where
  "flag_name name = (case name of
     [] \<Rightarrow> BadFlag
   | c # cs \<Rightarrow> if c = CHR ''-'' \<or> c = CHR ''='' then BadFlag else case split_equals cs of (n, v) \<Rightarrow> Flag (c # n) v)"

fun flag_arg_of :: "string \<Rightarrow> flag_arg" where
  "flag_arg_of (c # d # s) =
     (if c \<noteq> CHR ''-'' then Positional
      else if d = CHR ''-'' then (if s = [] then Positional else flag_name s)
      else flag_name (d # s))"
| "flag_arg_of _ = Positional"

definition flag_value_error :: "string \<Rightarrow> string \<Rightarrow> err + 'c \<Rightarrow> err + 'c" where
  "flag_value_error v name r = (case r of
     Inl e \<Rightarrow> Inl (Opaque (''invalid value '' @ quoteq v @ '' for flag -'' @ name @ '': '' @ Error e))
   | Inr c \<Rightarrow> Inr c)"

fun flag_Parse :: "formats \<Rightarrow> (string \<times> 'c flag_value) list \<Rightarrow> string list \<Rightarrow> 'c \<Rightarrow> err + 'c" where
  "flag_Parse F flags [] c = Inr c"
| "flag_Parse F flags (s # args) c = (case flag_arg_of s of
     Positional \<Rightarrow> Inr c
   | BadFlag \<Rightarrow> Inl (Opaque (''bad flag syntax: '' @ s))
   | Flag name value \<Rightarrow> (case map_of flags name of
       None \<Rightarrow> if name = ''help'' \<or> name = ''h'' then Inl (Opaque ''flag: help requested'')
               else Inl (Opaque (''flag provided but not defined: -'' @ name))
     | Some fl \<Rightarrow> (case value of
         Some v \<Rightarrow> andThen (flag_value_error v name (flag_set F fl v c)) (flag_Parse F flags args)
       | None \<Rightarrow> (case args of
           [] \<Rightarrow> Inl (Opaque (''flag needs an argument: -'' @ name))
         | v # args' \<Rightarrow> andThen (flag_value_error v name (flag_set F fl v c)) (flag_Parse F flags args')))))"

section \<open>Flags are applied in order\<close>

lemma split_equals_append: "CHR ''='' \<notin> set n \<Longrightarrow> split_equals (n @ CHR ''='' # v) = (n, Some v)"
  by (induction n) auto

definition plain_name :: "string \<Rightarrow> bool" where
  "plain_name n \<longleftrightarrow> (case n of [] \<Rightarrow> False | c # cs \<Rightarrow> c \<noteq> CHR ''-'' \<and> c \<noteq> CHR ''='' \<and> CHR ''='' \<notin> set cs)"

definition flag_text :: "string \<Rightarrow> string \<Rightarrow> string" where
  "flag_text name v = ''--'' @ name @ ''='' @ v"

lemma flag_text_arg: "plain_name name \<Longrightarrow> flag_arg_of (flag_text name v) = Flag name (Some v)"
  by (auto simp: flag_text_def plain_name_def flag_name_def split_equals_append split: list.splits)

fun apply_flags :: "formats \<Rightarrow> (string \<times> 'c flag_value) list \<Rightarrow> (string \<times> string) list \<Rightarrow> 'c \<Rightarrow> 'c option" where
  "apply_flags F flags [] c = Some c"
| "apply_flags F flags ((n, v) # fs) c = (case map_of flags n of
     None \<Rightarrow> None
   | Some fl \<Rightarrow> (case flag_set F fl v c of Inl _ \<Rightarrow> None | Inr c' \<Rightarrow> apply_flags F flags fs c'))"

lemma parse_applies:
  assumes "list_all (\<lambda>(n, _). plain_name n) flags"
  shows "apply_flags F flags fs c = Some c' \<Longrightarrow> flag_Parse F flags (map (\<lambda>(n, v). flag_text n v) fs) c = Inr c'"
proof (induction fs arbitrary: c)
  case (Cons f fs)
  obtain n v where f: "f = (n, v)" by fastforce
  with Cons.prems obtain fl c1 where fl: "map_of flags n = Some fl" "flag_set F fl v c = Inr c1" "apply_flags F flags fs c1 = Some c'"
    by (auto split: option.splits sum.splits)
  then have "plain_name n" using assms by (auto simp: list_all_iff dest!: map_of_SomeD)
  with f fl Cons.IH [OF fl(3)] show ?case by (simp add: flag_text_arg flag_value_error_def andThen_def)
qed simp

end
