(* ===== verification/App_Config.thy ===== *)
theory App_Config
  imports Http_Request Memory_Service Go_Flags
begin

text \<open>
  The configuration of the service (\<^verbatim>\<open>cmd/tatara-memory/config.go\<close>): the environment, the flags of the
  command line, and \<^verbatim>\<open>validate\<close>.  Durations are nanoseconds; a Go \<^verbatim>\<open>int\<close> is a number in the range of 64
  bits, and the one sum \<^verbatim>\<open>validate\<close> makes wraps.
\<close>

section \<open>Reading the environment\<close>

record config =
  HTTPAddr :: string
  PGDSN :: string
  LightRAGBaseURL :: string
  OIDCIssuer :: string
  OIDCAudience :: string
  WorkerPoolSize :: int
  IngestItemTimeout :: int
  LogLevel :: string
  BetweennessMaxNodes :: int
  HTTPWriteTimeout :: int
  IngestCreateJobTimeout :: int
  MemoryPurgeBudget :: int
  DBMaxOpenConns :: int
  DBMaxIdleConns :: int
  MemoriesBulkMaxInFlight :: int
  CodeGraphBulkMaxInFlight :: int
  AdmissionWait :: int
  AdmissionRetryAfter :: int
  DBConnMaxLifetime :: int
  DBConnMaxIdleTime :: int
  PGStatementTimeout :: int
  PGIdleInTxTimeout :: int
  PGLockTimeout :: int
  DBWaitTimeout :: int
  DBWaitInterval :: int
  AnalyticsMaxConcurrency :: int
  AnalyticsRecomputeTimeout :: int

type_synonym environ = "string \<rightharpoonup> string"

definition envOr :: "environ \<Rightarrow> string \<Rightarrow> string \<Rightarrow> string" where
  "envOr env key dflt = (case env key of Some v \<Rightarrow> v | None \<Rightarrow> dflt)"

definition atoi_error :: "string \<Rightarrow> err" where
  "atoi_error v = Opaque (''strconv.Atoi: parsing '' @ quoteq v)"

definition envIntOr :: "environ \<Rightarrow> string \<Rightarrow> int \<Rightarrow> err + int" where
  "envIntOr env key dflt = (case env key of
     None \<Rightarrow> Inr dflt
   | Some v \<Rightarrow> (case Atoi v of None \<Rightarrow> Inl (Wrap (''env '' @ key) (atoi_error v)) | Some n \<Rightarrow> Inr n))"

definition envDurationOr :: "formats \<Rightarrow> environ \<Rightarrow> string \<Rightarrow> int \<Rightarrow> err + int" where
  "envDurationOr F env key dflt = (case env key of
     None \<Rightarrow> Inr dflt
   | Some v \<Rightarrow> (case fmDuration F v of Inl e \<Rightarrow> Inl (Wrap (''env '' @ key) e) | Inr d \<Rightarrow> Inr d))"

definition minute :: int where "minute = 60 * second"

definition env_config :: "formats \<Rightarrow> environ \<Rightarrow> err + config" where
  "env_config F env =
     andThen (envIntOr env ''WORKER_POOL_SIZE'' 4) (\<lambda>wp.
     andThen (envDurationOr F env ''INGEST_ITEM_TIMEOUT'' (60 * second)) (\<lambda>itemTimeout.
     andThen (envIntOr env ''BETWEENNESS_MAX_NODES'' 0) (\<lambda>betweennessMaxNodes.
     andThen (envDurationOr F env ''HTTP_WRITE_TIMEOUT'' (4 * minute)) (\<lambda>writeTimeout.
     andThen (envDurationOr F env ''INGEST_CREATE_JOB_TIMEOUT'' (10 * second)) (\<lambda>createJobTimeout.
     andThen (envDurationOr F env ''MEMORY_PURGE_BUDGET'' DefaultPurgeBudget) (\<lambda>purgeBudget.
     andThen (envIntOr env ''DB_MAX_OPEN_CONNS'' 20) (\<lambda>maxOpenConns.
     andThen (envIntOr env ''DB_MAX_IDLE_CONNS'' 5) (\<lambda>maxIdleConns.
     andThen (envIntOr env ''MEMORIES_BULK_MAX_IN_FLIGHT'' 4) (\<lambda>memoriesBulk.
     andThen (envIntOr env ''CODE_GRAPH_BULK_MAX_IN_FLIGHT'' 2) (\<lambda>codeGraphBulk.
     andThen (envDurationOr F env ''ADMISSION_WAIT'' (5 * second)) (\<lambda>admissionWait.
     andThen (envDurationOr F env ''ADMISSION_RETRY_AFTER'' (5 * second)) (\<lambda>admissionRetryAfter.
     andThen (envDurationOr F env ''DB_CONN_MAX_LIFETIME'' (30 * minute)) (\<lambda>dbConnMaxLifetime.
     andThen (envDurationOr F env ''DB_CONN_MAX_IDLE_TIME'' (5 * minute)) (\<lambda>dbConnMaxIdleTime.
     andThen (envDurationOr F env ''PG_STATEMENT_TIMEOUT'' (5 * minute)) (\<lambda>pgStatementTimeout.
     andThen (envDurationOr F env ''PG_IDLE_IN_TRANSACTION_TIMEOUT'' (2 * minute)) (\<lambda>pgIdleInTxTimeout.
     andThen (envDurationOr F env ''PG_LOCK_TIMEOUT'' (30 * second)) (\<lambda>pgLockTimeout.
     andThen (envDurationOr F env ''DB_WAIT_TIMEOUT'' 0) (\<lambda>dbWaitTimeout.
     andThen (envDurationOr F env ''DB_WAIT_INTERVAL'' (2 * second)) (\<lambda>dbWaitInterval.
     andThen (envIntOr env ''ANALYTICS_MAX_CONCURRENCY'' 2) (\<lambda>analyticsMaxConcurrency.
     andThen (envDurationOr F env ''ANALYTICS_RECOMPUTE_TIMEOUT'' (10 * minute)) (\<lambda>analyticsRecomputeTimeout.
     Inr \<lparr>HTTPAddr = envOr env ''HTTP_ADDR'' '':8080'', PGDSN = envOr env ''PG_DSN'' '''',
       LightRAGBaseURL = envOr env ''LIGHTRAG_BASE_URL'' '''',
       OIDCIssuer = envOr env ''OIDC_ISSUER'' ''https://auth.szymonrichert.pl/realms/master'',
       OIDCAudience = envOr env ''OIDC_AUDIENCE'' ''tatara-memory'', WorkerPoolSize = wp, IngestItemTimeout = itemTimeout,
       LogLevel = envOr env ''LOG_LEVEL'' ''info'', BetweennessMaxNodes = betweennessMaxNodes, HTTPWriteTimeout = writeTimeout,
       IngestCreateJobTimeout = createJobTimeout, MemoryPurgeBudget = purgeBudget, DBMaxOpenConns = maxOpenConns,
       DBMaxIdleConns = maxIdleConns, MemoriesBulkMaxInFlight = memoriesBulk, CodeGraphBulkMaxInFlight = codeGraphBulk,
       AdmissionWait = admissionWait, AdmissionRetryAfter = admissionRetryAfter, DBConnMaxLifetime = dbConnMaxLifetime,
       DBConnMaxIdleTime = dbConnMaxIdleTime, PGStatementTimeout = pgStatementTimeout, PGIdleInTxTimeout = pgIdleInTxTimeout,
       PGLockTimeout = pgLockTimeout, DBWaitTimeout = dbWaitTimeout, DBWaitInterval = dbWaitInterval,
       AnalyticsMaxConcurrency = analyticsMaxConcurrency, AnalyticsRecomputeTimeout = analyticsRecomputeTimeout\<rparr>)))))))))))))))))))))"

section \<open>The command line\<close>

definition config_flags :: "(string \<times> config flag_value) list" where
  "config_flags =
     [(''http-addr'', StringVar (\<lambda>v c. c\<lparr>HTTPAddr := v\<rparr>)), (''pg-dsn'', StringVar (\<lambda>v c. c\<lparr>PGDSN := v\<rparr>)),
      (''lightrag-base-url'', StringVar (\<lambda>v c. c\<lparr>LightRAGBaseURL := v\<rparr>)), (''oidc-issuer'', StringVar (\<lambda>v c. c\<lparr>OIDCIssuer := v\<rparr>)),
      (''oidc-audience'', StringVar (\<lambda>v c. c\<lparr>OIDCAudience := v\<rparr>)), (''worker-pool-size'', IntVar (\<lambda>v c. c\<lparr>WorkerPoolSize := v\<rparr>)),
      (''ingest-item-timeout'', DurationVar (\<lambda>v c. c\<lparr>IngestItemTimeout := v\<rparr>)), (''log-level'', StringVar (\<lambda>v c. c\<lparr>LogLevel := v\<rparr>)),
      (''betweenness-max-nodes'', IntVar (\<lambda>v c. c\<lparr>BetweennessMaxNodes := v\<rparr>)), (''http-write-timeout'', DurationVar (\<lambda>v c. c\<lparr>HTTPWriteTimeout := v\<rparr>)),
      (''ingest-create-job-timeout'', DurationVar (\<lambda>v c. c\<lparr>IngestCreateJobTimeout := v\<rparr>)),
      (''memory-purge-budget'', DurationVar (\<lambda>v c. c\<lparr>MemoryPurgeBudget := v\<rparr>)), (''db-max-open-conns'', IntVar (\<lambda>v c. c\<lparr>DBMaxOpenConns := v\<rparr>)),
      (''db-max-idle-conns'', IntVar (\<lambda>v c. c\<lparr>DBMaxIdleConns := v\<rparr>)),
      (''memories-bulk-max-in-flight'', IntVar (\<lambda>v c. c\<lparr>MemoriesBulkMaxInFlight := v\<rparr>)),
      (''code-graph-bulk-max-in-flight'', IntVar (\<lambda>v c. c\<lparr>CodeGraphBulkMaxInFlight := v\<rparr>)),
      (''admission-wait'', DurationVar (\<lambda>v c. c\<lparr>AdmissionWait := v\<rparr>)), (''admission-retry-after'', DurationVar (\<lambda>v c. c\<lparr>AdmissionRetryAfter := v\<rparr>)),
      (''db-conn-max-lifetime'', DurationVar (\<lambda>v c. c\<lparr>DBConnMaxLifetime := v\<rparr>)), (''db-conn-max-idle-time'', DurationVar (\<lambda>v c. c\<lparr>DBConnMaxIdleTime := v\<rparr>)),
      (''pg-statement-timeout'', DurationVar (\<lambda>v c. c\<lparr>PGStatementTimeout := v\<rparr>)),
      (''pg-idle-in-transaction-timeout'', DurationVar (\<lambda>v c. c\<lparr>PGIdleInTxTimeout := v\<rparr>)), (''pg-lock-timeout'', DurationVar (\<lambda>v c. c\<lparr>PGLockTimeout := v\<rparr>)),
      (''db-wait-timeout'', DurationVar (\<lambda>v c. c\<lparr>DBWaitTimeout := v\<rparr>)), (''db-wait-interval'', DurationVar (\<lambda>v c. c\<lparr>DBWaitInterval := v\<rparr>)),
      (''analytics-max-concurrency'', IntVar (\<lambda>v c. c\<lparr>AnalyticsMaxConcurrency := v\<rparr>)),
      (''analytics-recompute-timeout'', DurationVar (\<lambda>v c. c\<lparr>AnalyticsRecomputeTimeout := v\<rparr>))]"

definition loadConfig :: "formats \<Rightarrow> environ \<Rightarrow> string list \<Rightarrow> err + config" where
  "loadConfig F env args = andThen (env_config F env) (flag_Parse F config_flags args)"

section \<open>Validation\<close>

text \<open>Two's complement addition of Go \<^verbatim>\<open>int\<close> values.\<close>

definition add64 :: "int \<Rightarrow> int \<Rightarrow> int" where
  "add64 a b = (a + b + 2 ^ 63) mod 2 ^ 64 - 2 ^ 63"

definition reserved_conns :: "config \<Rightarrow> int" where
  "reserved_conns c = add64 (add64 (add64 (MemoriesBulkMaxInFlight c) (CodeGraphBulkMaxInFlight c)) (WorkerPoolSize c)) (AnalyticsMaxConcurrency c)"

definition oversubscribed :: "config \<Rightarrow> string" where
  "oversubscribed c = ''admission budgets oversubscribe the DB pool: memories-bulk-max-in-flight('' @ dec_int (MemoriesBulkMaxInFlight c)
     @ '') + code-graph-bulk-max-in-flight('' @ dec_int (CodeGraphBulkMaxInFlight c) @ '') + worker-pool-size('' @ dec_int (WorkerPoolSize c)
     @ '') + analytics-max-concurrency('' @ dec_int (AnalyticsMaxConcurrency c) @ '') = '' @ dec_int (reserved_conns c)
     @ '' must be < db-max-open-conns('' @ dec_int (DBMaxOpenConns c) @ '')''"

text \<open>The checks in their order; the first that applies is the error.\<close>

definition config_checks :: "config \<Rightarrow> (bool \<times> string) list" where
  "config_checks c =
     [(PGDSN c = '''', ''pg-dsn is required''), (LightRAGBaseURL c = '''', ''lightrag-base-url is required''),
      (WorkerPoolSize c < 1, ''worker-pool-size must be >= 1''), (IngestItemTimeout c < 0, ''ingest-item-timeout must be >= 0''),
      (HTTPWriteTimeout c < 0, ''http-write-timeout must be >= 0''), (IngestCreateJobTimeout c < 0, ''ingest-create-job-timeout must be >= 0''),
      (MemoryPurgeBudget c < 0, ''memory-purge-budget must be >= 0''), (DBMaxOpenConns c < 1, ''db-max-open-conns must be >= 1''),
      (DBMaxIdleConns c < 0 \<or> DBMaxIdleConns c > DBMaxOpenConns c,
       ''db-max-idle-conns must be between 0 and db-max-open-conns ('' @ dec_int (DBMaxOpenConns c) @ '')''),
      (MemoriesBulkMaxInFlight c < 0, ''memories-bulk-max-in-flight must be >= 0''),
      (CodeGraphBulkMaxInFlight c < 0, ''code-graph-bulk-max-in-flight must be >= 0''),
      (AdmissionWait c < 0, ''admission-wait must be >= 0''), (AdmissionRetryAfter c < 0, ''admission-retry-after must be >= 0''),
      (DBConnMaxLifetime c < 0, ''db-conn-max-lifetime must be >= 0''), (DBConnMaxIdleTime c < 0, ''db-conn-max-idle-time must be >= 0''),
      (PGStatementTimeout c < 0, ''pg-statement-timeout must be >= 0''),
      (PGIdleInTxTimeout c < 0, ''pg-idle-in-transaction-timeout must be >= 0''), (PGLockTimeout c < 0, ''pg-lock-timeout must be >= 0''),
      (DBWaitTimeout c < 0, ''db-wait-timeout must be >= 0''), (DBWaitInterval c \<le> 0, ''db-wait-interval must be > 0''),
      (AnalyticsMaxConcurrency c < 1, ''analytics-max-concurrency must be >= 1''),
      (AnalyticsRecomputeTimeout c < 0, ''analytics-recompute-timeout must be >= 0''),
      (MemoriesBulkMaxInFlight c > 0 \<and> CodeGraphBulkMaxInFlight c > 0 \<and> reserved_conns c \<ge> DBMaxOpenConns c, oversubscribed c)]"

definition validate :: "config \<Rightarrow> err option" where
  "validate c = map_option (\<lambda>(_, msg). Opaque msg) (find fst (config_checks c))"

end
