(* ===== verification/PG_Migrate.thy ===== *)
theory PG_Migrate
  imports Go_Errors "HOL-Library.AList"
begin

text \<open>
  The schema migration runner (\<^verbatim>\<open>internal/pgmigrate/pgmigrate.go\<close>) and the migration sets of the
  three packages that own tables (\<^verbatim>\<open>migrate.go\<close> and the SQL files of \<^verbatim>\<open>codegraph\<close>, \<^verbatim>\<open>ingest\<close> and
  \<^verbatim>\<open>memory\<close>).  A schema maps a table to its columns with their types and its primary key; a body is
  its data definition statements, of whose text only the beginning matters to the runner.  The tables
  of the runner itself are kept apart: \<open>trackers\<close> maps a tracker table to the names it records.
  \<open>executed\<close> is a history of the bodies that were executed and committed, for the statements below.
\<close>

section \<open>Schemas and statements\<close>

record table =
  tColumns :: "(string \<times> string) list"
  tPrimaryKey :: "string list"

type_synonym schema = "(string \<times> table) list"

datatype ddl =
    CreateTable string "(string \<times> string) list" "string list"
  | AddColumn string string string
  | DropColumn string string
  | DropPrimaryKey string
  | AddPrimaryKey string "string list"
  | AlterColumnType string string string
  | CreateIndex string

definition undefined_table :: err where
  "undefined_table = PgError ''42P01'' ''relation does not exist''"

definition on_table :: "string \<Rightarrow> (table \<Rightarrow> err + table) \<Rightarrow> schema \<Rightarrow> err + schema" where
  "on_table t f s = (case map_of s t of
     None \<Rightarrow> Inl undefined_table
   | Some tb \<Rightarrow> (case f tb of Inl e \<Rightarrow> Inl e | Inr tb' \<Rightarrow> Inr (AList.update t tb' s)))"

fun run_ddl :: "ddl \<Rightarrow> schema \<Rightarrow> err + schema" where
  "run_ddl (CreateTable t cols pk) s = (case map_of s t of Some _ \<Rightarrow> Inr s | None \<Rightarrow> Inr (AList.update t \<lparr>tColumns = cols, tPrimaryKey = pk\<rparr> s))"
| "run_ddl (AddColumn t c ty) s = on_table t (\<lambda>tb. Inr (if c \<in> fst ` set (tColumns tb) then tb else tb\<lparr>tColumns := tColumns tb @ [(c, ty)]\<rparr>)) s"
| "run_ddl (DropColumn t c) s = on_table t (\<lambda>tb. Inr (tb\<lparr>tColumns := filter (\<lambda>p. fst p \<noteq> c) (tColumns tb)\<rparr>)) s"
| "run_ddl (DropPrimaryKey t) s = on_table t (\<lambda>tb. Inr (tb\<lparr>tPrimaryKey := []\<rparr>)) s"
| "run_ddl (AddPrimaryKey t pk) s = on_table t (\<lambda>tb. if tPrimaryKey tb = [] then Inr (tb\<lparr>tPrimaryKey := pk\<rparr>)
     else Inl (PgError ''42P16'' ''multiple primary keys'')) s"
| "run_ddl (AlterColumnType t c ty) s = on_table t (\<lambda>tb. if c \<in> fst ` set (tColumns tb)
     then Inr (tb\<lparr>tColumns := map (\<lambda>p. if fst p = c then (c, ty) else p) (tColumns tb)\<rparr>)
     else Inl (PgError ''42703'' ''column does not exist'')) s"
| "run_ddl (CreateIndex t) s = on_table t Inr s"

fun run_body :: "ddl list \<Rightarrow> schema \<Rightarrow> err + schema" where
  "run_body [] s = Inr s"
| "run_body (x # xs) s = (case run_ddl x s of Inl e \<Rightarrow> Inl e | Inr s' \<Rightarrow> run_body xs s')"

text \<open>\<^verbatim>\<open>to_regclass(t) IS NOT NULL\<close> and the lookup of a live column in \<^verbatim>\<open>pg_attribute\<close>.\<close>

definition has_table :: "schema \<Rightarrow> string \<Rightarrow> bool" where
  "has_table s t \<longleftrightarrow> map_of s t \<noteq> None"

definition column_type :: "schema \<Rightarrow> string \<Rightarrow> string \<Rightarrow> string option" where
  "column_type s t c = (case map_of s t of None \<Rightarrow> None | Some tb \<Rightarrow> map_of (tColumns tb) c)"

definition has_column :: "schema \<Rightarrow> string \<Rightarrow> string \<Rightarrow> bool" where
  "has_column s t c \<longleftrightarrow> column_type s t c \<noteq> None"

definition primary_key_set :: "schema \<Rightarrow> string \<Rightarrow> string set" where
  "primary_key_set s t = (case map_of s t of None \<Rightarrow> {} | Some tb \<Rightarrow> set (tPrimaryKey tb))"

section \<open>The runner\<close>

definition StatementTag :: string where "StatementTag = ''-- pgmigrate: ''"

record Migration =
  mgName :: string
  mgText :: string
  mgSQL :: "ddl list"
  mgAlreadyApplied :: "(schema \<Rightarrow> bool) option"

record Runner =
  rnTracker :: string
  rnMigrations :: "Migration list"

record migrate_db =
  schema_of :: schema
  trackers :: "string \<Rightarrow> string list option"
  executed :: "(string \<times> string) list"

type_synonym migrate_conn = "migrate_db conn"

definition safe_start :: "char \<Rightarrow> bool" where
  "safe_start c \<longleftrightarrow> (let n = of_char c :: nat in 97 \<le> n \<and> n \<le> 122 \<or> n = 95)"

definition safe_rest :: "char \<Rightarrow> bool" where
  "safe_rest c \<longleftrightarrow> safe_start c \<or> (let n = of_char c :: nat in 48 \<le> n \<and> n \<le> 57)"

definition safeTrackerName :: "string \<Rightarrow> bool" where
  "safeTrackerName s = (case s of [] \<Rightarrow> False | c # cs \<Rightarrow> safe_start c \<and> list_all safe_rest cs)"

definition Names :: "Runner \<Rightarrow> string list" where
  "Names r = map mgName (rnMigrations r)"

definition bootstrap :: "string \<Rightarrow> (migrate_conn, err, unit) call" where
  "bootstrap t = db_exec (\<lambda>d. ((), case trackers d t of None \<Rightarrow> d\<lparr>trackers := (trackers d)(t \<mapsto> [])\<rparr> | Some _ \<Rightarrow> d))"

definition mg_applied :: "string \<Rightarrow> string \<Rightarrow> (migrate_conn, err, bool) call" where
  "mg_applied t name = db_call (\<lambda>d. (case trackers d t of None \<Rightarrow> Inl undefined_table | Some ns \<Rightarrow> Inr (name \<in> set ns), d))"

definition exec_sql :: "string \<Rightarrow> Migration \<Rightarrow> (migrate_conn, err, unit) call" where
  "exec_sql t m = db_call (\<lambda>d. case run_body (mgSQL m) (schema_of d) of
     Inl e \<Rightarrow> (Inl e, d)
   | Inr s \<Rightarrow> (Inr (), d\<lparr>schema_of := s, executed := executed d @ [(t, mgName m)]\<rparr>))"

definition stamp :: "string \<Rightarrow> string \<Rightarrow> (migrate_conn, err, unit) call" where
  "stamp t name = db_call (\<lambda>d. case trackers d t of
     None \<Rightarrow> (Inl undefined_table, d)
   | Some ns \<Rightarrow> (Inr (), if name \<in> set ns then d else d\<lparr>trackers := (trackers d)(t \<mapsto> ns @ [name])\<rparr>))"

definition mg_apply :: "string \<Rightarrow> Migration \<Rightarrow> bool \<Rightarrow> (migrate_conn, err, bool) call" where
  "mg_apply t m baselining = with_tx (Wrap ''begin'')
     (bindE (mapErr (Wrap ''session timeouts'') (db_query (\<lambda>_. ()))) (\<lambda>_.
      bindE (case mgAlreadyApplied m of
          Some probe \<Rightarrow> if baselining then bindE (mapErr (Wrap ''baseline probe'') (db_query (\<lambda>d. probe (schema_of d)))) (\<lambda>present. returnE (\<not> present))
            else returnE True
        | None \<Rightarrow> returnE True) (\<lambda>execute.
      bindE (if execute then mapErr (Wrap ''exec'') (exec_sql t m) else returnE ()) (\<lambda>_.
      bindE (mapErr (Wrap ''record'') (stamp t (mgName m))) (\<lambda>_.
      bindE (mapErr (Wrap ''commit'') commit) (\<lambda>_. returnE execute))))))"

fun run_from :: "string \<Rightarrow> bool \<Rightarrow> Migration list \<Rightarrow> (migrate_conn, err, unit) call" where
  "run_from t baselining [] = returnE ()"
| "run_from t baselining (m # ms) =
     bindE (mapErr (Wrap (''pgmigrate '' @ t @ '': check '' @ mgName m)) (mg_applied t (mgName m))) (\<lambda>applied.
     if applied then run_from t baselining ms
     else bindE (mapErr (Wrap (''pgmigrate '' @ t @ '': apply '' @ mgName m)) (mg_apply t m baselining)) (\<lambda>executed.
       run_from t (if executed then False else baselining) ms))"

definition Run :: "Runner \<Rightarrow> (migrate_conn, err, unit) call" where
  "Run r =
     (if \<not> safeTrackerName (rnTracker r) then failE (Opaque (''pgmigrate: unsafe tracker table name '' @ quoteq (rnTracker r)))
      else case find (\<lambda>m. HasPrefix (TrimSpace (mgText m)) StatementTag) (rnMigrations r) of
        Some m \<Rightarrow> failE (Opaque (''pgmigrate '' @ rnTracker r @ '': migration '' @ mgName m @ '' starts with the reserved runner tag '' @ quoteq StatementTag))
      | None \<Rightarrow>
          bindE (mapErr (Wrap (''pgmigrate '' @ rnTracker r @ '': create tracker'')) (bootstrap (rnTracker r))) (\<lambda>_.
          run_from (rnTracker r) True (rnMigrations r)))"

section \<open>The migration sets\<close>

definition migration :: "string \<Rightarrow> string \<Rightarrow> ddl list \<Rightarrow> (schema \<Rightarrow> bool) option \<Rightarrow> Migration" where
  "migration name text body probe = \<lparr>mgName = name, mgText = text, mgSQL = body, mgAlreadyApplied = probe\<rparr>"

definition codegraph_0001 :: "ddl list" where
  "codegraph_0001 =
     [CreateTable ''code_entities'' [(''repo'', ''text''), (''id'', ''text''), (''name'', ''text''), (''type'', ''text''),
        (''description'', ''text''), (''file_path'', ''text''), (''properties'', ''jsonb'')] [''repo'', ''id''],
      CreateIndex ''code_entities'', CreateIndex ''code_entities'', CreateIndex ''code_entities'',
      CreateTable ''code_edges'' [(''repo'', ''text''), (''from_id'', ''text''), (''to_id'', ''text''), (''relation'', ''text''),
        (''src_file'', ''text''), (''properties'', ''jsonb'')] [''repo'', ''from_id'', ''to_id'', ''relation''],
      CreateIndex ''code_edges'', CreateIndex ''code_edges'', CreateIndex ''code_edges'']"

definition codegraph_0002 :: "ddl list" where
  "codegraph_0002 =
     [CreateTable ''cross_repo_symbols'' [(''repo'', ''text''), (''symbol'', ''text''), (''lang'', ''text''), (''kind'', ''text''),
        (''role'', ''text''), (''entity_id'', ''text''), (''src_file'', ''text'')] [''repo'', ''symbol'', ''role'', ''entity_id''],
      CreateIndex ''cross_repo_symbols'', CreateIndex ''cross_repo_symbols'']"

definition codegraph_0003 :: "ddl list" where
  "codegraph_0003 =
     [AddColumn ''code_edges'' ''confidence_score'' ''real'', AddColumn ''code_edges'' ''confidence_tier'' ''text'', CreateIndex ''code_edges'',
      AddColumn ''code_entities'' ''community'' ''int'', AddColumn ''code_entities'' ''cohesion'' ''real'', AddColumn ''code_entities'' ''degree'' ''int'',
      AddColumn ''code_entities'' ''betweenness'' ''real'', AddColumn ''code_entities'' ''source_url'' ''text'', AddColumn ''code_entities'' ''author'' ''text'',
      AddColumn ''code_entities'' ''captured_at'' ''timestamptz'', AddColumn ''code_entities'' ''line_start'' ''int'', AddColumn ''code_entities'' ''line_end'' ''int'',
      CreateTable ''code_hyperedges'' [(''repo'', ''text''), (''id'', ''text''), (''label'', ''text''), (''relation'', ''text''),
        (''confidence_score'', ''real''), (''src_file'', ''text''), (''properties'', ''jsonb'')] [''repo'', ''id''],
      CreateTable ''code_hyperedge_members'' [(''repo'', ''text''), (''hyperedge_id'', ''text''), (''entity_id'', ''text'')] [''repo'', ''hyperedge_id'', ''entity_id''],
      CreateIndex ''code_hyperedges'']"

definition codegraph_0004 :: "ddl list" where
  "codegraph_0004 =
     [AddColumn ''code_edges'' ''extractor'' ''text'', AddColumn ''code_entities'' ''extractor'' ''text'', AddColumn ''code_hyperedges'' ''extractor'' ''text'',
      CreateIndex ''code_edges'', CreateIndex ''code_entities'', CreateIndex ''code_hyperedges'',
      CreateTable ''semantic_extractions'' [(''repo'', ''text''), (''file_path'', ''text''), (''content_sha'', ''text''), (''extracted_at'', ''timestamptz'')] [''repo'', ''file_path''],
      CreateTable ''code_communities'' [(''repo'', ''text''), (''community'', ''int''), (''label'', ''text''), (''cohesion'', ''real''), (''size'', ''int'')] [''repo'', ''community''],
      CreateTable ''repo_analytics_state'' [(''repo'', ''text''), (''dirty'', ''boolean''), (''reconciled_at'', ''timestamptz''), (''computed_at'', ''timestamptz'')] [''repo'']]"

definition codegraph_0005 :: "ddl list" where
  "codegraph_0005 =
     [DropPrimaryKey ''code_edges'', AddPrimaryKey ''code_edges'' [''repo'', ''from_id'', ''to_id'', ''relation'', ''extractor''],
      DropColumn ''code_entities'' ''cohesion'']"

definition codegraph_0006 :: "ddl list" where
  "codegraph_0006 = [DropColumn ''code_entities'' ''degree'', AlterColumnType ''code_entities'' ''betweenness'' ''double precision'']"

definition codegraph_runner :: Runner where
  "codegraph_runner = \<lparr>rnTracker = ''codegraph_schema_migrations'', rnMigrations =
     [migration ''0001_codegraph'' ''CREATE TABLE IF NOT EXISTS code_entities ('' codegraph_0001
        (Some (\<lambda>s. has_table s ''code_entities'' \<and> has_table s ''code_edges'')),
      migration ''0002_cross_repo_symbols'' ''CREATE TABLE IF NOT EXISTS cross_repo_symbols ('' codegraph_0002
        (Some (\<lambda>s. has_table s ''cross_repo_symbols'')),
      migration ''0003_phase0_graphify'' ''-- Phase 0: graphify-forward-compatible capture.'' codegraph_0003
        (Some (\<lambda>s. has_table s ''code_hyperedges'' \<and> has_table s ''code_hyperedge_members''
           \<and> has_column s ''code_edges'' ''confidence_tier'' \<and> has_column s ''code_entities'' ''community'')),
      migration ''0004_phase2_semantic'' ''-- Phase 2: origin-scoped reconcile (extractor)'' codegraph_0004
        (Some (\<lambda>s. has_table s ''semantic_extractions'' \<and> has_table s ''code_communities'' \<and> has_table s ''repo_analytics_state''
           \<and> has_column s ''code_edges'' ''extractor'' \<and> has_column s ''code_entities'' ''extractor'' \<and> has_column s ''code_hyperedges'' ''extractor'')),
      migration ''0005_audit_fixes'' ''-- Audit fixes 2026-06-15.'' codegraph_0005
        (Some (\<lambda>s. primary_key_set s ''code_edges'' = {''extractor'', ''from_id'', ''relation'', ''repo'', ''to_id''}
           \<and> \<not> has_column s ''code_entities'' ''cohesion'')),
      migration ''0006_audit_r2_fixes'' ''-- Audit round-2 fixes 2026-06-16.'' codegraph_0006
        (Some (\<lambda>s. \<not> has_column s ''code_entities'' ''degree''
           \<and> column_type s ''code_entities'' ''betweenness'' = Some ''double precision''))]\<rparr>"

definition ingest_runner :: Runner where
  "ingest_runner = \<lparr>rnTracker = ''ingest_schema_migrations'', rnMigrations =
     [migration ''0001_jobs'' ''CREATE TABLE IF NOT EXISTS ingest_jobs (''
        [CreateTable ''ingest_jobs'' [(''id'', ''text''), (''status'', ''text''), (''total'', ''int''), (''done'', ''int''), (''failed'', ''int''),
           (''errors_json'', ''text''), (''created_at'', ''timestamptz''), (''updated_at'', ''timestamptz'')] [''id''],
         CreateTable ''ingest_job_items'' [(''id'', ''text''), (''job_id'', ''text''), (''idempotency_key'', ''text''), (''status'', ''text''),
           (''error'', ''text''), (''created_at'', ''timestamptz'')] [''id''],
         CreateIndex ''ingest_job_items'', CreateIndex ''ingest_jobs'', CreateIndex ''ingest_job_items'']
        (Some (\<lambda>s. has_table s ''ingest_jobs'' \<and> has_table s ''ingest_job_items'')),
      migration ''0002_job_item_payload'' ''-- The async ingest worker needs each item's payload''
        [AddColumn ''ingest_job_items'' ''text'' ''text'', AddColumn ''ingest_job_items'' ''metadata'' ''jsonb'']
        (Some (\<lambda>s. has_column s ''ingest_job_items'' ''text'' \<and> has_column s ''ingest_job_items'' ''metadata'')),
      migration ''0003_item_track_id'' ''-- track_id records the LightRAG track_id''
        [AddColumn ''ingest_job_items'' ''track_id'' ''text'']
        (Some (\<lambda>s. has_column s ''ingest_job_items'' ''track_id''))]\<rparr>"

definition memory_runner :: Runner where
  "memory_runner = \<lparr>rnTracker = ''memory_schema_migrations'', rnMigrations =
     [migration ''0001_tombstones'' ''CREATE TABLE IF NOT EXISTS deleted_memories (''
        [CreateTable ''deleted_memories'' [(''track_id'', ''text''), (''deleted_at'', ''timestamptz'')] [''track_id''], CreateIndex ''deleted_memories''] None,
      migration ''0002_memory_sources'' ''CREATE TABLE IF NOT EXISTS memory_sources (''
        [CreateTable ''memory_sources'' [(''repo'', ''text''), (''file_path'', ''text''), (''track_id'', ''text'')] [''repo'', ''file_path'', ''track_id''],
         CreateIndex ''memory_sources''] None,
      migration ''0003_tombstone_backoff'' ''ALTER TABLE deleted_memories''
        [AddColumn ''deleted_memories'' ''force_reap_attempts'' ''int'', AddColumn ''deleted_memories'' ''next_force_check_at'' ''timestamptz''] None]\<rparr>"

definition codegraph_Migrate :: "(migrate_conn, err, unit) call" where
  "codegraph_Migrate = mapErr (Wrap ''codegraph migrate'') (Run codegraph_runner)"

definition ingest_Migrate :: "(migrate_conn, err, unit) call" where
  "ingest_Migrate = mapErr (Wrap ''ingest migrate'') (Run ingest_runner)"

definition memory_Migrate :: "(migrate_conn, err, unit) call" where
  "memory_Migrate = mapErr (Wrap ''memory migrate'') (Run memory_runner)"

section \<open>One start after the other\<close>

definition stamped :: "migrate_db \<Rightarrow> string \<Rightarrow> string \<Rightarrow> bool" where
  "stamped d t name \<longleftrightarrow> (case trackers d t of None \<Rightarrow> False | Some ns \<Rightarrow> name \<in> set ns)"

definition run_once :: "migrate_db \<Rightarrow> bool" where
  "run_once d \<longleftrightarrow> distinct (executed d) \<and> (\<forall>(t, n) \<in> set (executed d). stamped d t n)"

text \<open>What one migration does: nothing on an error; else it is stamped, and executed or found present.\<close>

lemma mg_apply_Inl: "mg_apply t m b c = (Inl e, c') \<Longrightarrow> tables c' = tables c"
  unfolding mg_apply_def by (rule with_tx_Inl)

lemma mg_apply_Inr:
  assumes "mg_apply t m b c = (Inr ex, c')"
  obtains ns where "trackers (tables c) t = Some ns"
    "trackers (tables c') = (trackers (tables c))(t \<mapsto> (if mgName m \<in> set ns then ns else ns @ [mgName m]))"
    "if ex then run_body (mgSQL m) (schema_of (tables c)) = Inr (schema_of (tables c')) \<and> executed (tables c') = executed (tables c) @ [(t, mgName m)]
     else schema_of (tables c') = schema_of (tables c) \<and> executed (tables c') = executed (tables c)"
    "ex \<longleftrightarrow> (case mgAlreadyApplied m of Some p \<Rightarrow> \<not> b \<or> \<not> p (schema_of (tables c)) | None \<Rightarrow> True)"
proof -
  let ?probe = "case mgAlreadyApplied m of
          Some probe \<Rightarrow> if b then bindE (mapErr (Wrap ''baseline probe'') (db_query (\<lambda>d. probe (schema_of d)))) (\<lambda>present. returnE (\<not> present))
            else returnE True
        | None \<Rightarrow> returnE True"
  obtain c0 c1 c2 c3 c4 where c0: "tables c0 = tables c"
    and s: "db_query (\<lambda>_. ()) c0 = (Inr (), c1)" and p: "?probe c1 = (Inr ex, c2)"
    and x: "(if ex then mapErr (Wrap ''exec'') (exec_sql t m) else returnE ()) c2 = (Inr (), c3)"
    and st: "stamp t (mgName m) c3 = (Inr (), c4)" and cm: "commit c4 = (Inr (), c')"
  proof -
    obtain b0 where "tables b0 = tables c" and "bindE (mapErr (Wrap ''session timeouts'') (db_query (\<lambda>_. ()))) (\<lambda>_.
      bindE ?probe (\<lambda>execute.
      bindE (if execute then mapErr (Wrap ''exec'') (exec_sql t m) else returnE ()) (\<lambda>_.
      bindE (mapErr (Wrap ''record'') (stamp t (mgName m))) (\<lambda>_.
      bindE (mapErr (Wrap ''commit'') commit) (\<lambda>_. returnE execute))))) b0 = (Inr ex, c')"
      using assms unfolding mg_apply_def by (auto elim: with_tx_Inr)
    then show thesis using that by (auto simp: bindE_eq_Inr mapErr_eq_Inr returnE_def)
  qed
  have t1: "tables c1 = tables c" using s c0 by (auto dest: db_query_Inr)
  have t2: "tables c2 = tables c" and ex: "ex \<longleftrightarrow> (case mgAlreadyApplied m of Some p \<Rightarrow> \<not> b \<or> \<not> p (schema_of (tables c)) | None \<Rightarrow> True)"
    using p t1 by (auto simp: bindE_eq_Inr mapErr_eq_Inr returnE_def split: option.splits if_splits dest!: db_query_Inr)
  have t3: "if ex then run_body (mgSQL m) (schema_of (tables c)) = Inr (schema_of (tables c3)) \<and> executed (tables c3) = executed (tables c) @ [(t, mgName m)]
       \<and> trackers (tables c3) = trackers (tables c) else tables c3 = tables c"
  proof (cases ex)
    case True
    then have "exec_sql t m c2 = (Inr (), c3)" using x by (simp add: mapErr_eq_Inr)
    then obtain s where "run_body (mgSQL m) (schema_of (tables c)) = Inr s"
      "tables c3 = (tables c)\<lparr>schema_of := s, executed := executed (tables c) @ [(t, mgName m)]\<rparr>"
      using db_call_Inr [of _ c2 "()" c3] t2 unfolding exec_sql_def by (fastforce split: sum.splits)
    with True show ?thesis by simp
  qed (use x t2 in \<open>simp add: returnE_def\<close>)
  have tr: "trackers (tables c3) = trackers (tables c)" using t3 by (simp split: if_splits)
  obtain ns where ns: "trackers (tables c) t = Some ns"
    "tables c4 = (if mgName m \<in> set ns then tables c3 else (tables c3)\<lparr>trackers := (trackers (tables c3))(t \<mapsto> ns @ [mgName m])\<rparr>)"
    using db_call_Inr [OF st [unfolded stamp_def]] tr by (auto split: option.splits)
  have "tables c' = tables c4" using cm by (rule commit_tables)
  then show thesis using that [OF ns(1)] ns(2) t3 tr ex ns(1) by (auto simp: fun_upd_idem split: if_splits)
qed

lemma mg_applied_Inr: "mg_applied t name c = (Inr b, c') \<Longrightarrow> tables c' = tables c \<and> (b \<longleftrightarrow> stamped (tables c) t name)"
  unfolding mg_applied_def by (auto simp: stamped_def dest!: db_call_Inr split: option.splits)

lemma mg_applied_Inl: "mg_applied t name c = (Inl e, c') \<Longrightarrow> tables c' = tables c"
  unfolding mg_applied_def by (rule db_call_Inl)

lemma run_once_apply:
  assumes "mg_apply t m b c = (r, c')" "run_once (tables c)" "\<not> stamped (tables c) t (mgName m)"
  shows "run_once (tables c')"
proof (cases r)
  case (Inl e)
  with assms show ?thesis by (simp add: mg_apply_Inl)
next
  case (Inr ex)
  from assms(1) [unfolded Inr] obtain ns where ns: "trackers (tables c) t = Some ns"
    "trackers (tables c') = (trackers (tables c))(t \<mapsto> (if mgName m \<in> set ns then ns else ns @ [mgName m]))"
    "if ex then run_body (mgSQL m) (schema_of (tables c)) = Inr (schema_of (tables c')) \<and> executed (tables c') = executed (tables c) @ [(t, mgName m)]
     else schema_of (tables c') = schema_of (tables c) \<and> executed (tables c') = executed (tables c)"
    by (rule mg_apply_Inr)
  have keep: "stamped (tables c) t' n \<Longrightarrow> stamped (tables c') t' n" and new: "stamped (tables c') t (mgName m)" for t' n
    using ns(1,2) by (auto simp: stamped_def)
  have "(t, mgName m) \<notin> set (executed (tables c))" using assms(2,3) by (auto simp: run_once_def)
  with assms(2) keep new ns(3) show ?thesis by (cases ex) (auto simp: run_once_def)
qed

lemma run_once_from:
  "run_from t b ms c = (r, c') \<Longrightarrow> run_once (tables c) \<Longrightarrow> run_once (tables c')"
proof (induction ms arbitrary: b c)
  case (Cons m ms)
  obtain ra c1 where a: "mg_applied t (mgName m) c = (ra, c1)" by fastforce
  show ?case
  proof (cases ra)
    case (Inl e)
    with Cons.prems a show ?thesis by (auto simp: bindE_def mapErr_def dest: mg_applied_Inl)
  next
    case (Inr ap)
    then have c1: "tables c1 = tables c" "ap \<longleftrightarrow> stamped (tables c) t (mgName m)" using a mg_applied_Inr by auto
    show ?thesis
    proof (cases ap)
      case True
      with Cons a Inr c1 show ?thesis by (simp add: bindE_def mapErr_def)
    next
      case False
      obtain rb c2 where b: "mg_apply t m b c1 = (rb, c2)" by fastforce
      have "run_once (tables c2)" using run_once_apply [OF b] Cons.prems(2) c1 False by simp
      with Cons a Inr False b show ?thesis by (cases rb) (auto simp: bindE_def mapErr_def)
    qed
  qed
qed (simp add: returnE_def)

lemma run_once_bootstrap: "bootstrap t c = (r, c') \<Longrightarrow> run_once (tables c) \<Longrightarrow> run_once (tables c')"
proof (cases r)
  case (Inr x)
  assume b: "bootstrap t c = (r, c')" and o: "run_once (tables c)"
  have "tables c' = (case trackers (tables c) t of None \<Rightarrow> (tables c)\<lparr>trackers := (trackers (tables c))(t \<mapsto> [])\<rparr> | Some _ \<Rightarrow> tables c)"
    using db_exec_Inr [OF b [unfolded Inr bootstrap_def]] by simp
  with o show "run_once (tables c')" by (auto simp: run_once_def stamped_def split: option.splits if_splits)
qed (auto simp: bootstrap_def dest: db_exec_Inl)

lemma run_once_Run: "Run r c = (x, c') \<Longrightarrow> run_once (tables c) \<Longrightarrow> run_once (tables c')"
proof -
  assume r: "Run r c = (x, c')" and o: "run_once (tables c)"
  obtain y c1 where b: "bootstrap (rnTracker r) c = (y, c1)" by fastforce
  have "run_once (tables c1)" by (rule run_once_bootstrap [OF b o])
  with r o b show ?thesis
    by (cases y) (auto simp: Run_def failE_def bindE_def mapErr_def dest: run_once_from split: if_splits option.splits)
qed

definition empty_database :: migrate_conn where
  "empty_database = \<lparr>tables = \<lparr>schema_of = [], trackers = Map.empty, executed = []\<rparr>, script = [None, None, Some ErrBadConn]\<rparr>"

section \<open>Upgrading a database that predates the tracker\<close>

text \<open>
  \<open>stages k ms S\<close>: the schemas \<open>S i\<close> are those that the bodies from the \<open>k\<close>th on produce one after the
  other, and the probes tell stage \<open>k\<close> apart: on its schema those of the first \<open>k\<close> migrations hold, and
  before each later body its own does not.
\<close>

definition probe_holds :: "Migration \<Rightarrow> schema \<Rightarrow> bool" where
  "probe_holds m s = (case mgAlreadyApplied m of None \<Rightarrow> False | Some p \<Rightarrow> p s)"

definition stages :: "nat \<Rightarrow> Migration list \<Rightarrow> (nat \<Rightarrow> schema) \<Rightarrow> bool" where
  "stages k ms S \<longleftrightarrow> distinct (map mgName ms)
     \<and> (\<forall>i. k \<le> i \<and> i < length ms \<longrightarrow> run_body (mgSQL (ms ! i)) (S i) = Inr (S (Suc i)) \<and> \<not> probe_holds (ms ! i) (S i))
     \<and> (\<forall>i < k. probe_holds (ms ! i) (S k))"

lemma mg_apply_healthy:
  assumes "healthy c" "trackers (tables c) t = Some ns" "mgName m \<notin> set ns"
    and "ex = (case mgAlreadyApplied m of Some p \<Rightarrow> \<not> b \<or> \<not> p (schema_of (tables c)) | None \<Rightarrow> True)"
    and "ex \<Longrightarrow> run_body (mgSQL m) (schema_of (tables c)) = Inr s"
  shows "mg_apply t m b c = (Inr ex, c\<lparr>tables := (tables c)\<lparr>schema_of := (if ex then s else schema_of (tables c)),
     trackers := (trackers (tables c))(t \<mapsto> ns @ [mgName m]), executed := executed (tables c) @ (if ex then [(t, mgName m)] else [])\<rparr>\<rparr>)"
proof -
  have p: "(case mgAlreadyApplied m of
          Some probe \<Rightarrow> if b then bindE (mapErr (Wrap ''baseline probe'') (db_query (\<lambda>d. probe (schema_of d)))) (\<lambda>present. returnE (\<not> present))
            else returnE True
        | None \<Rightarrow> returnE True) c = (Inr ex, c)"
    using assms(1) unfolding assms(4) by (auto simp: bindE_def mapErr_def returnE_def split: option.splits)
  have x: "exec_sql t m c = (Inr (), c\<lparr>tables := (tables c)\<lparr>schema_of := s, executed := executed (tables c) @ [(t, mgName m)]\<rparr>\<rparr>)" if ex
    using assms(1) assms(5) [OF that] by (simp add: exec_sql_def)
  have st: "stamp t (mgName m) c' = (Inr (), c'\<lparr>tables := (tables c')\<lparr>trackers := (trackers (tables c'))(t \<mapsto> ns @ [mgName m])\<rparr>\<rparr>)"
    if "healthy c'" "trackers (tables c') t = Some ns" for c'
    using that assms(3) by (simp add: stamp_def)
  show ?thesis
    using assms(1,2) x unfolding mg_apply_def
    by (cases ex) (simp_all add: with_tx_healthy bindE_def mapErr_def p returnE_def st)
qed

text \<open>One unstamped migration: its body runs exactly from stage \<open>k\<close> on, and the next stage is reached.\<close>

lemma stage_apply:
  assumes st: "stages k ms S" and i: "i < length ms"
    and c: "healthy c" "schema_of (tables c) = S (max i k)" "trackers (tables c) t = Some ns" and names: "mgName (ms ! i) \<notin> set ns"
  shows "mg_apply t (ms ! i) (i \<le> k) c = (Inr (k \<le> i), c\<lparr>tables := (tables c)\<lparr>schema_of := S (max (Suc i) k),
     trackers := (trackers (tables c))(t \<mapsto> ns @ [mgName (ms ! i)]),
     executed := executed (tables c) @ (if k \<le> i then [(t, mgName (ms ! i))] else [])\<rparr>\<rparr>)"
proof -
  have exq: "(k \<le> i) = (case mgAlreadyApplied (ms ! i) of Some p \<Rightarrow> \<not> i \<le> k \<or> \<not> p (schema_of (tables c)) | None \<Rightarrow> True)"
  proof (cases "i < k")
    case True
    then have "probe_holds (ms ! i) (S k)" using st by (auto simp: stages_def)
    with True c(2) show ?thesis by (auto simp: probe_holds_def split: option.splits)
  next
    case False
    then have "\<not> probe_holds (ms ! i) (S i)" "max i k = i" using st i by (auto simp: stages_def)
    with False c(2) show ?thesis by (auto simp: probe_holds_def split: option.splits)
  qed
  have body: "k \<le> i \<Longrightarrow> run_body (mgSQL (ms ! i)) (schema_of (tables c)) = Inr (S (Suc i))"
    using st i c(2) by (auto simp: stages_def max_def)
  have "(if k \<le> i then S (Suc i) else schema_of (tables c)) = S (max (Suc i) k)" using c(2) by (auto simp: max_def)
  with mg_apply_healthy [OF c(1,3) names exq body] show ?thesis by simp
qed

lemma run_stages:
  assumes st: "stages k ms S" and jk: "j \<le> k" "k \<le> length ms" and i: "i \<le> length ms"
    and c: "healthy c" "schema_of (tables c) = S (max i k)" "trackers (tables c) t = Some ns"
      "\<forall>l < length ms. mgName (ms ! l) \<in> set ns \<longleftrightarrow> l < max i j"
  shows "\<exists>c' ns'. run_from t (i \<le> k) (drop i ms) c = (Inr (), c') \<and> healthy c' \<and> schema_of (tables c') = S (length ms)
    \<and> trackers (tables c') t = Some ns' \<and> (\<forall>m \<in> set ms. mgName m \<in> set ns')
    \<and> executed (tables c') = executed (tables c) @ map (\<lambda>m. (t, mgName m)) (drop (max i k) ms)"
  using i c
proof (induction "length ms - i" arbitrary: i c ns)
  case 0
  then have "i = length ms" by simp
  with 0 jk show ?case by (auto simp: returnE_def in_set_conv_nth)
next
  case (Suc x)
  then have i: "i < length ms" "Suc i \<le> length ms" and x: "x = length ms - Suc i" by simp_all
  let ?m = "ms ! i"
  have d: "drop i ms = ?m # drop (Suc i) ms" using i by (simp add: Cons_nth_drop_Suc)
  have a: "mg_applied t (mgName ?m) c = (Inr (i < j), c)" using Suc.prems i by (auto simp: mg_applied_def less_max_iff_disj)
  have uniq: "mgName (ms ! l) = mgName ?m \<longleftrightarrow> l = i" if "l < length ms" for l
    using st i(1) that nth_eq_iff_index_eq [of "map mgName ms" l i] by (simp add: stages_def)
  show ?case
  proof (cases "i < j")
    case True
    with jk have "max i k = max (Suc i) k" "max i j = max (Suc i) j" "i \<le> k" "Suc i \<le> k" by auto
    with Suc.hyps(1) [OF x i(2) Suc.prems(2), of ns] Suc.prems True a d show ?thesis by (simp add: bindE_def mapErr_def)
  next
    case False
    let ?c1 = "c\<lparr>tables := (tables c)\<lparr>schema_of := S (max (Suc i) k),
       trackers := (trackers (tables c))(t \<mapsto> ns @ [mgName ?m]), executed := executed (tables c) @ (if k \<le> i then [(t, mgName ?m)] else [])\<rparr>\<rparr>"
    have names: "mgName ?m \<notin> set ns" using Suc.prems(5) i False by simp
    note ap = stage_apply [OF st i(1) Suc.prems(2-4) names]
    have "\<forall>l < length ms. mgName (ms ! l) \<in> set (ns @ [mgName ?m]) \<longleftrightarrow> l < max (Suc i) j"
      using Suc.prems(5) False uniq by (auto simp: less_Suc_eq)
    moreover have "healthy ?c1" "schema_of (tables ?c1) = S (max (Suc i) k)" "trackers (tables ?c1) t = Some (ns @ [mgName ?m])"
      using Suc.prems(2) by simp_all
    ultimately obtain c' ns' where IH: "run_from t (Suc i \<le> k) (drop (Suc i) ms) ?c1 = (Inr (), c')" "healthy c'"
      "schema_of (tables c') = S (length ms)" "trackers (tables c') t = Some ns'" "\<forall>m \<in> set ms. mgName m \<in> set ns'"
      "executed (tables c') = executed (tables ?c1) @ map (\<lambda>m. (t, mgName m)) (drop (max (Suc i) k) ms)"
      using Suc.hyps(1) [OF x i(2), of ?c1 "ns @ [mgName ?m]"] by blast
    have next_b: "(if k \<le> i then False else i \<le> k) = (Suc i \<le> k)" by auto
    have "run_from t (i \<le> k) (drop i ms) c = (Inr (), c')"
      using a ap False IH(1) unfolding d by (simp add: bindE_def mapErr_def next_b)
    moreover have "executed (tables c') = executed (tables c) @ map (\<lambda>m. (t, mgName m)) (drop (max i k) ms)"
      using IH(6) d by (cases "k \<le> i") (auto simp: max_def le_Suc_eq)
    ultimately show ?thesis using IH by blast
  qed
qed

text \<open>The schema after the first \<open>k\<close> files of a migration set.\<close>

definition stage :: "Migration list \<Rightarrow> nat \<Rightarrow> schema" where
  "stage ms k = (case run_body (concat (map mgSQL (take k ms))) [] of Inl _ \<Rightarrow> [] | Inr s \<Rightarrow> s)"

lemma run_body_append: "run_body (xs @ ys) s = (case run_body xs s of Inl e \<Rightarrow> Inl e | Inr s' \<Rightarrow> run_body ys s')"
  by (induction xs arbitrary: s) (simp_all split: sum.splits)

text \<open>All stages checked in one pass.\<close>

fun separate :: "Migration list \<Rightarrow> Migration list \<Rightarrow> schema \<Rightarrow> bool" where
  "separate before [] s = list_all (\<lambda>m. probe_holds m s) before"
| "separate before (m # ms) s = (list_all (\<lambda>m. probe_holds m s) before \<and> \<not> probe_holds m s
     \<and> (case run_body (mgSQL m) s of Inl _ \<Rightarrow> False | Inr s' \<Rightarrow> separate (before @ [m]) ms s'))"

lemma separate_at:
  assumes "separate [] ms []" "k \<le> length ms"
  shows "run_body (concat (map mgSQL (take k ms))) [] = Inr (stage ms k) \<and> separate (take k ms) (drop k ms) (stage ms k)"
  using assms(2)
proof (induction k)
  case 0
  then show ?case using assms(1) by (simp add: stage_def)
next
  case (Suc k)
  let ?m = "ms ! k"
  have k: "k < length ms" "take (Suc k) ms = take k ms @ [?m]" "drop k ms = ?m # drop (Suc k) ms"
    using Suc.prems by (simp_all add: take_Suc_conv_app_nth Cons_nth_drop_Suc)
  then obtain s' where s': "run_body (mgSQL ?m) (stage ms k) = Inr s'" "separate (take k ms @ [?m]) (drop (Suc k) ms) s'"
    using Suc by (auto split: sum.splits)
  then have b: "run_body (concat (map mgSQL (take (Suc k) ms))) [] = Inr s'" using Suc k by (simp add: run_body_append)
  then have "stage ms (Suc k) = s'" by (simp add: stage_def)
  with b s'(2) k show ?case by simp
qed

lemma stages_stage:
  assumes "distinct (map mgName ms)" "separate [] ms []" "k \<le> length ms"
  shows "stages k ms (stage ms)"
proof -
  have "run_body (mgSQL (ms ! k)) (stage ms k) = Inr (stage ms (Suc k)) \<and> \<not> probe_holds (ms ! k) (stage ms k)" if k: "k < length ms" for k
  proof -
    have d: "drop k ms = ms ! k # drop (Suc k) ms" using k by (simp add: Cons_nth_drop_Suc)
    have "run_body (concat (map mgSQL (take (Suc k) ms))) [] = Inr (stage ms (Suc k))" using separate_at [OF assms(2), of "Suc k"] k by simp
    then show ?thesis
      using separate_at [OF assms(2), of k] k by (simp add: take_Suc_conv_app_nth run_body_append d)
  qed
  moreover have "probe_holds (ms ! i) (stage ms k)" if "k \<le> length ms" "i < k" for k i
  proof -
    have "separate xs ys s \<Longrightarrow> list_all (\<lambda>m. probe_holds m s) xs" for xs ys s by (cases ys) simp_all
    then have "list_all (\<lambda>m. probe_holds m (stage ms k)) (take k ms)" using separate_at [OF assms(2) that(1)] by blast
    with that show ?thesis by (auto simp: list_all_length)
  qed
  ultimately show ?thesis using assms(1,3) by (simp add: stages_def)
qed

lemma codegraph_stages: "k \<le> length (rnMigrations codegraph_runner) \<Longrightarrow> stages k (rnMigrations codegraph_runner) (stage (rnMigrations codegraph_runner))"
  by (rule stages_stage [rotated 2], assumption) code_simp+

lemma ingest_stages: "k \<le> length (rnMigrations ingest_runner) \<Longrightarrow> stages k (rnMigrations ingest_runner) (stage (rnMigrations ingest_runner))"
  by (rule stages_stage [rotated 2], assumption) code_simp+

subsection \<open>A database shared with other packages\<close>

text \<open>The table a statement is about, the tables of a runner, and two schemas that agree on some tables.\<close>

fun ddl_table :: "ddl \<Rightarrow> string" where
  "ddl_table (CreateTable t cols pk) = t"
| "ddl_table (AddColumn t c ty) = t"
| "ddl_table (DropColumn t c) = t"
| "ddl_table (DropPrimaryKey t) = t"
| "ddl_table (AddPrimaryKey t pk) = t"
| "ddl_table (AlterColumnType t c ty) = t"
| "ddl_table (CreateIndex t) = t"

definition own_tables :: "Runner \<Rightarrow> string set" where
  "own_tables r = set (concat (map (\<lambda>m. map ddl_table (mgSQL m)) (rnMigrations r)))"

definition agrees :: "string set \<Rightarrow> schema \<Rightarrow> schema \<Rightarrow> bool" where
  "agrees T s s0 \<longleftrightarrow> (\<forall>t\<in>T. map_of s t = map_of s0 t)"

lemma on_table_frame:
  assumes "agrees T s s0" "t \<in> T" "on_table t f s0 = Inr s0'"
  shows "\<exists>s'. on_table t f s = Inr s' \<and> agrees T s' s0' \<and> agrees (- T) s' s"
  using assms by (auto simp: on_table_def agrees_def update_conv' split: option.splits sum.splits)

lemma run_ddl_frame:
  assumes "agrees T s s0" "ddl_table x \<in> T" "run_ddl x s0 = Inr s0'"
  shows "\<exists>s'. run_ddl x s = Inr s' \<and> agrees T s' s0' \<and> agrees (- T) s' s"
proof (cases x)
  case (CreateTable t cols pk)
  with assms show ?thesis by (auto simp: agrees_def update_conv' split: option.splits)
qed (use assms on_table_frame [of T s s0 "ddl_table x" _ s0'] in auto)

lemma run_body_frame:
  "agrees T s s0 \<Longrightarrow> ddl_table ` set xs \<subseteq> T \<Longrightarrow> run_body xs s0 = Inr s0' \<Longrightarrow>
   \<exists>s'. run_body xs s = Inr s' \<and> agrees T s' s0' \<and> agrees (- T) s' s"
proof (induction xs arbitrary: s s0)
  case (Cons x xs)
  then obtain s1 where s1: "run_ddl x s0 = Inr s1" "run_body xs s1 = Inr s0'" by (auto split: sum.splits)
  then obtain s2 where s2: "run_ddl x s = Inr s2" "agrees T s2 s1" "agrees (- T) s2 s" using run_ddl_frame [of T s s0 x s1] Cons.prems by auto
  then obtain s' where "run_body xs s2 = Inr s'" "agrees T s' s0'" "agrees (- T) s' s2" using Cons.IH [OF s2(2) _ s1(2)] Cons.prems(2) by auto
  with s2 show ?case by (auto simp: agrees_def)
qed (auto simp: agrees_def)

text \<open>Probes that look at the tables \<open>T\<close> only.\<close>

definition local_probes :: "string set \<Rightarrow> Migration list \<Rightarrow> bool" where
  "local_probes T ms \<longleftrightarrow> (\<forall>m\<in>set ms. \<forall>s s0. agrees T s s0 \<longrightarrow> probe_holds m s = probe_holds m s0)"

lemma agrees_lookups:
  assumes "agrees T s s0" "t \<in> T"
  shows "has_table s t = has_table s0 t" "has_column s t c = has_column s0 t c" "column_type s t c = column_type s0 t c"
    "primary_key_set s t = primary_key_set s0 t"
  using assms by (auto simp: agrees_def has_table_def has_column_def column_type_def primary_key_set_def)

lemma shared_stages:
  assumes st: "stages k ms S0" and k: "k \<le> length ms" and T: "(\<Union>m\<in>set ms. ddl_table ` set (mgSQL m)) \<subseteq> T" "local_probes T ms"
    and s: "agrees T s (S0 k)"
  shows "\<exists>S. S k = s \<and> stages k ms S \<and> agrees T (S (length ms)) (S0 (length ms)) \<and> agrees (- T) (S (length ms)) s"
proof -
  define S where "S i = (case run_body (concat (map mgSQL (drop k (take i ms)))) s of Inl _ \<Rightarrow> s | Inr x \<Rightarrow> x)" for i
  have next_stage: "run_body (mgSQL (ms ! i)) (S i) = Inr (S (Suc i)) \<and> agrees T (S (Suc i)) (S0 (Suc i)) \<and> agrees (- T) (S (Suc i)) s
      \<and> run_body (concat (map mgSQL (drop k (take (Suc i) ms)))) s = Inr (S (Suc i))"
    if i: "k \<le> i" "i < length ms" and IH: "run_body (concat (map mgSQL (drop k (take i ms)))) s = Inr (S i)" "agrees T (S i) (S0 i)" "agrees (- T) (S i) s" for i
  proof -
    have "run_body (mgSQL (ms ! i)) (S0 i) = Inr (S0 (Suc i))" using st i by (simp add: stages_def)
    moreover have "ddl_table ` set (mgSQL (ms ! i)) \<subseteq> T" using T(1) nth_mem [OF i(2)] by blast
    ultimately obtain s' where s': "run_body (mgSQL (ms ! i)) (S i) = Inr s'" "agrees T s' (S0 (Suc i))" "agrees (- T) s' (S i)"
      using run_body_frame [OF IH(2)] by blast
    have "drop k (take (Suc i) ms) = drop k (take i ms) @ [ms ! i]" using i by (simp add: take_Suc_conv_app_nth)
    then have r: "run_body (concat (map mgSQL (drop k (take (Suc i) ms)))) s = Inr s'" using IH(1) s'(1) by (simp add: run_body_append)
    then have "S (Suc i) = s'" by (simp add: S_def)
    with r s' IH(3) show ?thesis by (auto simp: agrees_def)
  qed
  have run: "i \<le> length ms \<longrightarrow> run_body (concat (map mgSQL (drop k (take i ms)))) s = Inr (S i) \<and> agrees T (S i) (S0 i) \<and> agrees (- T) (S i) s"
    if "k \<le> i" for i
    using that
  proof (induction i rule: dec_induct)
    case base
    show ?case using s by (simp add: S_def agrees_def)
  next
    case (step i)
    then show ?case using next_stage [of i] by auto
  qed
  have body: "run_body (mgSQL (ms ! i)) (S i) = Inr (S (Suc i)) \<and> \<not> probe_holds (ms ! i) (S i)" if i: "k \<le> i" "i < length ms" for i
    using next_stage [OF i] run [OF i(1)] st i T(2) nth_mem [OF i(2)] by (auto simp: stages_def local_probes_def)
  have k': "S k = s" by (simp add: S_def)
  have "probe_holds (ms ! i) s" if "i < k" for i
    using st that T(2) s k nth_mem [of i ms] by (auto simp: stages_def local_probes_def)
  then have "stages k ms S" using st body k' by (simp add: stages_def)
  with k' show ?thesis using run [of "length ms"] k by auto
qed

lemma codegraph_local: "local_probes (own_tables codegraph_runner) (rnMigrations codegraph_runner)"
proof -
  have T: "{''code_entities'', ''code_edges'', ''cross_repo_symbols'', ''code_hyperedges'', ''code_hyperedge_members'',
      ''semantic_extractions'', ''code_communities'', ''repo_analytics_state''} \<subseteq> own_tables codegraph_runner" by code_simp
  show ?thesis
    unfolding local_probes_def
  proof (intro ballI allI impI)
    fix m s s0
    assume m: "m \<in> set (rnMigrations codegraph_runner)" and a: "agrees (own_tables codegraph_runner) s s0"
    note l = agrees_lookups [OF a subsetD [OF T]]
    from m show "probe_holds m s = probe_holds m s0"
      by (auto simp: codegraph_runner_def migration_def probe_holds_def l)
  qed
qed

lemma ingest_local: "local_probes (own_tables ingest_runner) (rnMigrations ingest_runner)"
proof -
  have T: "{''ingest_jobs'', ''ingest_job_items''} \<subseteq> own_tables ingest_runner" by code_simp
  show ?thesis
    unfolding local_probes_def
  proof (intro ballI allI impI)
    fix m s s0
    assume m: "m \<in> set (rnMigrations ingest_runner)" and a: "agrees (own_tables ingest_runner) s s0"
    note l = agrees_lookups [OF a subsetD [OF T]]
    from m show "probe_holds m s = probe_holds m s0"
      by (auto simp: ingest_runner_def migration_def probe_holds_def l)
  qed
qed

lemma run_upgrades:
  assumes st: "stages k (rnMigrations r) S" and ok: "safeTrackerName (rnTracker r)"
      "find (\<lambda>m. HasPrefix (TrimSpace (mgText m)) StatementTag) (rnMigrations r) = None"
    and jk: "j \<le> k" "k \<le> length (rnMigrations r)" and c: "healthy c" "schema_of (tables c) = S k"
      "trackers (tables c) (rnTracker r) = (if j = 0 then None else Some (take j (Names r)))"
  shows "\<exists>c' ns. Run r c = (Inr (), c') \<and> schema_of (tables c') = S (length (rnMigrations r))
    \<and> trackers (tables c') (rnTracker r) = Some ns \<and> set (Names r) \<subseteq> set ns
    \<and> executed (tables c') = executed (tables c) @ map (Pair (rnTracker r)) (drop k (Names r))"
proof -
  let ?t = "rnTracker r" and ?ms = "rnMigrations r"
  let ?d = "case trackers (tables c) ?t of None \<Rightarrow> (tables c)\<lparr>trackers := (trackers (tables c))(?t \<mapsto> [])\<rparr> | Some _ \<Rightarrow> tables c"
  have b: "bootstrap ?t c = (Inr (), c\<lparr>tables := ?d\<rparr>)" using c(1) by (simp add: bootstrap_def)
  have ns: "trackers ?d ?t = Some (take j (Names r))" "schema_of ?d = S k" "executed ?d = executed (tables c)" using c by auto
  have dn: "distinct (Names r)" using st by (simp add: stages_def Names_def)
  have "mgName (?ms ! l) \<in> set (take j (Names r)) \<longleftrightarrow> l < max 0 j" if "l < length ?ms" for l
    using distinct_take_mem [OF dn, of l j] that by (simp add: Names_def)
  with run_stages [OF st jk, of 0 "c\<lparr>tables := ?d\<rparr>" ?t "take j (Names r)"] c(1) ns
  obtain c' ns' where r: "run_from ?t True ?ms (c\<lparr>tables := ?d\<rparr>) = (Inr (), c')" "schema_of (tables c') = S (length ?ms)"
    "trackers (tables c') ?t = Some ns'" "\<forall>m \<in> set ?ms. mgName m \<in> set ns'"
    "executed (tables c') = executed (tables c) @ map (\<lambda>m. (?t, mgName m)) (drop k ?ms)"
    by auto
  have "Run r c = (Inr (), c')" using ok b r(1) by (simp add: Run_def bindE_def mapErr_def)
  moreover have "map (\<lambda>m. (?t, mgName m)) (drop k ?ms) = map (Pair ?t) (drop k (Names r))" by (simp add: Names_def drop_map comp_def)
  moreover have "set (Names r) \<subseteq> set ns'" using r(4) by (auto simp: Names_def)
  ultimately show ?thesis using r by auto
qed

text \<open>
  C31: a database whose code graph or ingest tables were built before the tracker existed is upgraded
  without replaying anything.  Let the database answer every call and hold, next to any tables of the other packages,
  the code graph tables, or the ingest tables, as the first \<open>k\<close> migration files of that package leave them, and let
  a start that was cut short have recorded the first \<open>j\<close> of them (or none).  Then one run of that package's migrations,
  alone, records all of them, executes exactly the files after the first \<open>k\<close>, in order, and leaves the full schema of the package and
  every other table as it was.  In particular the primary key rebuild of 0005 is not repeated where it is already done.
\<close>

theorem legacy_upgrade:
  assumes "r = codegraph_runner \<or> r = ingest_runner" and "j \<le> k" "k \<le> length (rnMigrations r)"
    and "healthy c" "\<forall>t\<in>own_tables r. map_of (schema_of (tables c)) t = map_of (stage (rnMigrations r) k) t"
    and "trackers (tables c) (rnTracker r) = (if j = 0 then None else Some (take j (Names r)))"
  shows "\<exists>c' ns. Run r c = (Inr (), c')
    \<and> (\<forall>t. map_of (schema_of (tables c')) t =
         (if t \<in> own_tables r then map_of (stage (rnMigrations r) (length (rnMigrations r))) t else map_of (schema_of (tables c)) t))
    \<and> trackers (tables c') (rnTracker r) = Some ns \<and> set (Names r) \<subseteq> set ns
    \<and> executed (tables c') = executed (tables c) @ map (Pair (rnTracker r)) (drop k (Names r))"
proof -
  let ?ms = "rnMigrations r" and ?T = "own_tables r"
  have "safeTrackerName (rnTracker codegraph_runner)" "safeTrackerName (rnTracker ingest_runner)"
    "find (\<lambda>m. HasPrefix (TrimSpace (mgText m)) StatementTag) (rnMigrations codegraph_runner) = None"
    "find (\<lambda>m. HasPrefix (TrimSpace (mgText m)) StatementTag) (rnMigrations ingest_runner) = None" by code_simp+
  with assms(1,3) codegraph_stages ingest_stages have ok: "safeTrackerName (rnTracker r)" "stages k ?ms (stage ?ms)"
    "find (\<lambda>m. HasPrefix (TrimSpace (mgText m)) StatementTag) ?ms = None" by auto
  have T: "(\<Union>m\<in>set ?ms. ddl_table ` set (mgSQL m)) \<subseteq> ?T" "local_probes ?T ?ms"
    using assms(1) codegraph_local ingest_local by (auto simp: own_tables_def)
  have "agrees ?T (schema_of (tables c)) (stage ?ms k)" using assms(5) by (simp add: agrees_def)
  from shared_stages [OF ok(2) assms(3) T this] obtain S where S: "S k = schema_of (tables c)" "stages k ?ms S"
    "agrees ?T (S (length ?ms)) (stage ?ms (length ?ms))" "agrees (- ?T) (S (length ?ms)) (schema_of (tables c))" by blast
  from run_upgrades [OF S(2) ok(1,3) assms(2-4) S(1) [symmetric] assms(6)] S(3,4) show ?thesis by (auto simp: agrees_def)
qed

text \<open>A code graph database at 0004 without a tracker, that also holds the tables of the memory package.\<close>

definition untracked_0004 :: migrate_conn where
  "untracked_0004 = \<lparr>tables = \<lparr>schema_of = stage (rnMigrations codegraph_runner) 4 @ stage (rnMigrations memory_runner) 3,
     trackers = Map.empty, executed = []\<rparr>, script = []\<rparr>"

theorem legacy_upgrade_witness:
  "\<exists>c'. Run codegraph_runner untracked_0004 = (Inr (), c')
     \<and> executed (tables c') = map (Pair ''codegraph_schema_migrations'') [''0005_audit_fixes'', ''0006_audit_r2_fixes'']
     \<and> has_table (schema_of (tables c')) ''deleted_memories''"
proof -
  have s: "\<forall>t\<in>own_tables codegraph_runner. map_of (schema_of (tables untracked_0004)) t = map_of (stage (rnMigrations codegraph_runner) 4) t"
    "''deleted_memories'' \<notin> own_tables codegraph_runner" "map_of (schema_of (tables untracked_0004)) ''deleted_memories'' \<noteq> None" by code_simp+
  have "healthy untracked_0004" "trackers (tables untracked_0004) (rnTracker codegraph_runner) = None" "executed (tables untracked_0004) = []"
    by (simp_all add: untracked_0004_def healthy_def)
  moreover have "drop 4 (Names codegraph_runner) = [''0005_audit_fixes'', ''0006_audit_r2_fixes'']" "rnTracker codegraph_runner = ''codegraph_schema_migrations''"
    "4 \<le> length (rnMigrations codegraph_runner)"
    by (simp_all add: Names_def codegraph_runner_def migration_def)
  ultimately show ?thesis
    using legacy_upgrade [of codegraph_runner 0 4 untracked_0004] s by (auto simp: has_table_def)
qed

end
