(* ===== verification/Migrate_Fresh.thy ===== *)
theory Migrate_Fresh
  imports PG_Migrate
begin

text \<open>
  The three migration sets one after the other, as \<^verbatim>\<open>(*app).migrate\<close> of \<^verbatim>\<open>cmd/tatara-memory/app.go\<close> runs
  them, on a database that started empty: whatever calls of whatever starts failed, the database is
  at some point of one fixed sequence of migrations, and a start fails only when a driver call does.
\<close>

section \<open>Calls that fail only with the driver\<close>

text \<open>How many of the driver calls to come are scripted to fail.\<close>

definition fails :: "'db conn \<Rightarrow> nat" where
  "fails c = length (filter (\<lambda>r. r \<noteq> None) (script c))"

text \<open>
  \<open>triple P m Q E\<close>: from a database with \<open>P\<close>, the call either succeeds with \<open>Q\<close>, or it has used up a scripted failure
  and left the database with \<open>E\<close>.
\<close>

definition triple :: "('db \<Rightarrow> bool) \<Rightarrow> ('db conn, err, 'a) call \<Rightarrow> ('a \<Rightarrow> 'db \<Rightarrow> bool) \<Rightarrow> ('db \<Rightarrow> bool) \<Rightarrow> bool" where
  "triple P m Q E \<longleftrightarrow> (\<forall>c r c'. P (tables c) \<and> m c = (r, c') \<longrightarrow> (case r of
     Inl e \<Rightarrow> fails c' < fails c \<and> E (tables c')
   | Inr x \<Rightarrow> fails c' \<le> fails c \<and> Q x (tables c')))"

named_theorems triples "rules for calls that fail only with the driver"

lemma tripleI:
  assumes "\<And>c e c'. P (tables c) \<Longrightarrow> m c = (Inl e, c') \<Longrightarrow> fails c' < fails c \<and> E (tables c')"
    and "\<And>c x c'. P (tables c) \<Longrightarrow> m c = (Inr x, c') \<Longrightarrow> fails c' \<le> fails c \<and> Q x (tables c')"
  shows "triple P m Q E"
  using assms by (auto simp: triple_def split: sum.split)

lemma triple_Inl: "triple P m Q E \<Longrightarrow> P (tables c) \<Longrightarrow> m c = (Inl e, c') \<Longrightarrow> fails c' < fails c \<and> E (tables c')"
  by (fastforce simp: triple_def)

lemma triple_Inr: "triple P m Q E \<Longrightarrow> P (tables c) \<Longrightarrow> m c = (Inr x, c') \<Longrightarrow> fails c' \<le> fails c \<and> Q x (tables c')"
  by (fastforce simp: triple_def)

lemma triple_weaken:
  assumes "triple P m Q E" "\<And>d. P' d \<Longrightarrow> P d" "\<And>x d. Q x d \<Longrightarrow> Q' x d" "\<And>d. E d \<Longrightarrow> E' d"
  shows "triple P' m Q' E'"
  using assms by (fastforce simp: triple_def split: sum.splits)

lemma triple_bindE [triples]:
  assumes "triple P m Q E" "\<And>x. triple (Q x) (f x) R E"
  shows "triple P (bindE m f) R E"
proof (rule tripleI)
  fix c e c' assume p: "P (tables c)" and b: "bindE m f c = (Inl e, c')"
  show "fails c' < fails c \<and> E (tables c')"
  proof (cases "m c")
    case (Pair r c1)
    then show ?thesis using b triple_Inl [OF assms(1) p, of e c'] triple_Inr [OF assms(1) p] triple_Inl [OF assms(2)]
      by (cases r) (fastforce simp: bindE_def)+
  qed
next
  fix c x c' assume p: "P (tables c)" and b: "bindE m f c = (Inr x, c')"
  then obtain y c1 where "m c = (Inr y, c1)" "f y c1 = (Inr x, c')" by (auto simp: bindE_eq_Inr)
  then show "fails c' \<le> fails c \<and> R x (tables c')" using triple_Inr [OF assms(1) p] triple_Inr [OF assms(2)] by fastforce
qed

lemma triple_mapErr [triples]: "triple P m Q E \<Longrightarrow> triple P (mapErr w m) Q E"
  by (fastforce simp: triple_def mapErr_def split: sum.splits prod.splits)

lemma triple_returnE [triples]: "(\<And>d. P d \<Longrightarrow> Q x d) \<Longrightarrow> triple P (returnE x) Q E"
  by (auto simp: triple_def returnE_def)

lemma triple_db_call:
  assumes "\<And>d. P d \<Longrightarrow> \<exists>x d'. f d = (Inr x, d') \<and> Q x d'" "\<And>d. P d \<Longrightarrow> E d"
  shows "triple P (db_call f) Q E"
proof (rule tripleI)
  fix c e c' assume "P (tables c)" "db_call f c = (Inl e, c')"
  then show "fails c' < fails c \<and> E (tables c')" using assms [of "tables c"]
    by (auto simp: db_call_def next_outcome_def fails_def split: list.splits option.splits)
next
  fix c x c' assume "P (tables c)" "db_call f c = (Inr x, c')"
  then show "fails c' \<le> fails c \<and> Q x (tables c')" using assms [of "tables c"]
    by (auto simp: db_call_def next_outcome_def fails_def split: list.splits option.splits)
qed

lemma triple_db_query [triples]:
  "(\<And>d. P d \<Longrightarrow> Q (q d) d) \<Longrightarrow> (\<And>d. P d \<Longrightarrow> E d) \<Longrightarrow> triple P (db_query q) Q E"
  unfolding db_query_def by (rule triple_db_call) auto

lemma triple_db_exec [triples]:
  "(\<And>d. P d \<Longrightarrow> Q (fst (f d)) (snd (f d))) \<Longrightarrow> (\<And>d. P d \<Longrightarrow> E d) \<Longrightarrow> triple P (db_exec f) Q E"
  unfolding db_exec_def by (rule triple_db_call) auto

lemma triple_with_tx:
  assumes "triple P body Q (\<lambda>_. True)" "\<And>d. P d \<Longrightarrow> E d"
  shows "triple P (with_tx w body) Q E"
proof -
  have begins: "triple P (mapErr w (db_query (\<lambda>_. ()))) (\<lambda>_. P) E" using assms(2) by (auto intro!: triples)
  show ?thesis
  proof (rule tripleI)
    fix c e c' assume p: "P (tables c)" and b: "with_tx w body c = (Inl e, c')"
    then have "tables c' = tables c" by (auto dest: with_tx_Inl)
    moreover have "fails c' < fails c"
      using b triple_Inl [OF begins p] triple_Inr [OF begins p] triple_Inl [OF assms(1)]
      by (fastforce simp: with_tx_def fails_def split: prod.splits sum.splits)
    ultimately show "fails c' < fails c \<and> E (tables c')" using p assms(2) by simp
  next
    fix c x c' assume p: "P (tables c)" and b: "with_tx w body c = (Inr x, c')"
    then show "fails c' \<le> fails c \<and> Q x (tables c')"
      using triple_Inr [OF begins p] triple_Inr [OF assms(1)]
      by (fastforce simp: with_tx_def split: prod.splits sum.splits)
  qed
qed

section \<open>The sequence of all migrations\<close>

text \<open>\<^verbatim>\<open>(*app).migrate\<close>\<close>

definition app_migrate :: "(migrate_conn, err, unit) call" where
  "app_migrate =
     bindE (mapErr (Wrap ''migrate ingest schema'') ingest_Migrate) (\<lambda>_.
     bindE (mapErr (Wrap ''migrate memory schema'') memory_Migrate) (\<lambda>_.
     mapErr (Wrap ''migrate codegraph schema'') codegraph_Migrate))"

definition tracked :: "Runner \<Rightarrow> (string \<times> Migration) list" where
  "tracked r = map (Pair (rnTracker r)) (rnMigrations r)"

definition all_migrations :: "(string \<times> Migration) list" where
  "all_migrations = tracked ingest_runner @ tracked memory_runner @ tracked codegraph_runner"

definition tracked_name :: "string \<times> Migration \<Rightarrow> string \<times> string" where
  "tracked_name tm = (fst tm, mgName (snd tm))"

text \<open>The first \<open>k\<close> migrations have run from the empty schema, and they are what is recorded.\<close>

definition fresh_at :: "nat \<Rightarrow> migrate_db \<Rightarrow> bool" where
  "fresh_at k d \<longleftrightarrow> k \<le> length all_migrations
     \<and> executed d = map tracked_name (take k all_migrations)
     \<and> (\<forall>t n. stamped d t n \<longleftrightarrow> (t, n) \<in> set (executed d))
     \<and> run_body (concat (map (mgSQL \<circ> snd) (take k all_migrations))) [] = Inr (schema_of d)"

text \<open>Each migration runs on the schema the ones before it leave, and its probe denies it there.\<close>

fun plain :: "Migration list \<Rightarrow> schema \<Rightarrow> bool" where
  "plain [] s = True"
| "plain (m # ms) s = (\<not> probe_holds m s \<and> (case run_body (mgSQL m) s of Inl _ \<Rightarrow> False | Inr s' \<Rightarrow> plain ms s'))"

lemma plain_at:
  assumes "plain ms s" "k < length ms" "run_body (concat (map mgSQL (take k ms))) s = Inr s1"
  shows "\<not> probe_holds (ms ! k) s1 \<and> (\<exists>s2. run_body (mgSQL (ms ! k)) s1 = Inr s2)"
  using assms
proof (induction ms arbitrary: s k)
  case (Cons m ms)
  then show ?case by (cases k) (auto simp: run_body_append split: sum.splits)
qed simp

lemma all_plain: "plain (map snd all_migrations) []" by code_simp

lemma all_distinct: "distinct (map tracked_name all_migrations)" by code_simp

lemma fresh_step:
  assumes "fresh_at k d" "k < length all_migrations"
  shows "\<not> probe_holds (snd (all_migrations ! k)) (schema_of d)" "\<exists>s. run_body (mgSQL (snd (all_migrations ! k))) (schema_of d) = Inr s"
proof -
  have "run_body (concat (map mgSQL (take k (map snd all_migrations)))) [] = Inr (schema_of d)"
    using assms(1) by (simp add: fresh_at_def take_map)
  with plain_at [OF all_plain, of k "schema_of d"] assms(2)
  show "\<not> probe_holds (snd (all_migrations ! k)) (schema_of d)" "\<exists>s. run_body (mgSQL (snd (all_migrations ! k))) (schema_of d) = Inr s" by auto
qed

lemma fresh_next:
  assumes "fresh_at k d" "k < length all_migrations" "run_body (mgSQL (snd (all_migrations ! k))) (schema_of d) = Inr (schema_of d')"
    "executed d' = executed d @ [tracked_name (all_migrations ! k)]"
    "\<And>t n. stamped d' t n \<longleftrightarrow> stamped d t n \<or> (t, n) = tracked_name (all_migrations ! k)"
  shows "fresh_at (Suc k) d'"
  using assms by (auto simp: fresh_at_def take_Suc_conv_app_nth run_body_append)

lemma fresh_stamped:
  assumes "fresh_at k d" "i < length all_migrations"
  shows "stamped d (fst (all_migrations ! i)) (mgName (snd (all_migrations ! i))) \<longleftrightarrow> i < k"
proof -
  have "tracked_name (all_migrations ! i) \<in> set (map tracked_name (take k all_migrations)) \<longleftrightarrow> i < k"
    using distinct_take_mem [OF all_distinct, of i k] assms(2) by (simp add: take_map)
  then show ?thesis using assms(1) by (simp add: fresh_at_def tracked_name_def)
qed

section \<open>A start of the migrations\<close>

definition ready_at :: "string \<Rightarrow> nat \<Rightarrow> migrate_db \<Rightarrow> bool" where
  "ready_at t k d \<longleftrightarrow> fresh_at k d \<and> trackers d t \<noteq> None"

text \<open>The database between the body of a migration and its record.\<close>

definition unrecorded :: "nat \<Rightarrow> migrate_db \<Rightarrow> bool" where
  "unrecorded k d \<longleftrightarrow> (\<exists>d0 s. ready_at (fst (all_migrations ! k)) k d0 \<and> run_body (mgSQL (snd (all_migrations ! k))) (schema_of d0) = Inr s
     \<and> d = d0\<lparr>schema_of := s, executed := executed d0 @ [tracked_name (all_migrations ! k)]\<rparr>)"

lemma exec_fresh:
  assumes "k < length all_migrations" "all_migrations ! k = (t, m)"
  shows "triple (ready_at t k) (exec_sql t m) (\<lambda>_. unrecorded k) (\<lambda>_. True)"
  unfolding exec_sql_def
proof (rule triple_db_call)
  fix d assume d: "ready_at t k d"
  then have "fresh_at k d" by (simp add: ready_at_def)
  from fresh_step(2) [OF this assms(1)] obtain s where "run_body (mgSQL m) (schema_of d) = Inr s" using assms(2) by auto
  with d assms(2) show "\<exists>x d'. (case run_body (mgSQL m) (schema_of d) of Inl e \<Rightarrow> (Inl e, d)
      | Inr s \<Rightarrow> (Inr (), d\<lparr>schema_of := s, executed := executed d @ [(t, mgName m)]\<rparr>)) = (Inr x, d') \<and> unrecorded k d'"
    by (fastforce simp: unrecorded_def tracked_name_def)
qed simp

lemma stamp_fresh:
  assumes "k < length all_migrations" "all_migrations ! k = (t, m)"
  shows "triple (unrecorded k) (stamp t (mgName m)) (\<lambda>_. ready_at t (Suc k)) (\<lambda>_. True)"
  unfolding stamp_def
proof (rule triple_db_call)
  fix d assume "unrecorded k d"
  then obtain d0 s where d0: "fresh_at k d0" "trackers d0 t \<noteq> None" "run_body (mgSQL m) (schema_of d0) = Inr s"
    "d = d0\<lparr>schema_of := s, executed := executed d0 @ [(t, mgName m)]\<rparr>"
    using assms(2) by (auto simp: unrecorded_def ready_at_def tracked_name_def)
  obtain ns where ns: "trackers d0 t = Some ns" using d0(2) by blast
  have "\<not> stamped d0 t (mgName m)" using fresh_stamped [OF d0(1) assms(1)] assms(2) by simp
  then have new: "mgName m \<notin> set ns" using ns by (simp add: stamped_def)
  let ?d = "d\<lparr>trackers := (trackers d)(t \<mapsto> ns @ [mgName m])\<rparr>"
  have "fresh_at (Suc k) ?d"
    by (rule fresh_next [OF d0(1) assms(1)]) (use d0 ns assms(2) in \<open>auto simp: stamped_def tracked_name_def split: if_splits\<close>)
  with ns d0(4) new show "\<exists>x d'. (case trackers d t of None \<Rightarrow> (Inl undefined_table, d)
      | Some ns \<Rightarrow> (Inr (), if mgName m \<in> set ns then d else d\<lparr>trackers := (trackers d)(t \<mapsto> ns @ [mgName m])\<rparr>)) = (Inr x, d') \<and> ready_at t (Suc k) d'"
    by (auto simp: ready_at_def)
qed simp

lemma apply_fresh:
  assumes "k < length all_migrations" "all_migrations ! k = (t, m)"
  shows "triple (ready_at t k) (mg_apply t m b) (\<lambda>ex d. ex \<and> ready_at t (Suc k) d) (fresh_at k)"
proof -
  have denied: "\<not> probe_holds m (schema_of d)" if "ready_at t k d" for d
    using fresh_step(1) [of k d] that assms by (simp add: ready_at_def)
  have probe: "triple (ready_at t k) (case mgAlreadyApplied m of
          Some probe \<Rightarrow> if b then bindE (mapErr (Wrap ''baseline probe'') (db_query (\<lambda>d. probe (schema_of d)))) (\<lambda>present. returnE (\<not> present))
            else returnE True
        | None \<Rightarrow> returnE True) (\<lambda>ex d. ex \<and> ready_at t k d) (\<lambda>_. True)"
    using denied
    by (cases "mgAlreadyApplied m"; cases b)
       (auto simp: probe_holds_def intro!: triple_returnE triple_bindE [where Q = "\<lambda>x d. \<not> x \<and> ready_at t k d"] triple_mapErr triple_db_query)
  have body: "triple (\<lambda>d. ex \<and> ready_at t k d) (if ex then mapErr (Wrap ''exec'') (exec_sql t m) else returnE ()) (\<lambda>_ d. ex \<and> unrecorded k d) (\<lambda>_. True)" for ex
    by (cases ex) (auto intro!: triple_mapErr triple_returnE triple_weaken [OF exec_fresh [OF assms]])
  have rest: "triple (\<lambda>d. ex \<and> unrecorded k d) (bindE (mapErr (Wrap ''record'') (stamp t (mgName m))) (\<lambda>_.
      bindE (mapErr (Wrap ''commit'') (db_query (\<lambda>_. ()))) (\<lambda>_. returnE ex))) (\<lambda>ex d. ex \<and> ready_at t (Suc k) d) (\<lambda>_. True)" for ex
  proof (cases ex)
    case True
    then show ?thesis by (auto intro!: triple_bindE [where Q = "\<lambda>_. ready_at t (Suc k)"] triple_mapErr triple_returnE triple_db_query stamp_fresh [OF assms])
  qed (simp add: triple_def)
  have begins: "triple (ready_at t k) (mapErr (Wrap ''session timeouts'') (db_query (\<lambda>_. ()))) (\<lambda>_. ready_at t k) (\<lambda>_. True)"
    by (auto intro!: triples)
  show ?thesis unfolding mg_apply_def commit_def
    by (rule triple_with_tx [OF triple_bindE [OF begins triple_bindE [OF probe triple_bindE [OF body rest]]]]) (simp add: ready_at_def)
qed

definition reached :: "nat \<Rightarrow> migrate_db \<Rightarrow> bool" where
  "reached i d \<longleftrightarrow> (\<exists>k \<ge> i. fresh_at k d)"

lemma applied_fresh:
  assumes "i < length all_migrations" "all_migrations ! i = (t, m)"
  shows "triple (\<lambda>d. \<exists>k \<ge> i. ready_at t k d) (mg_applied t (mgName m))
    (\<lambda>ap d. if ap then \<exists>k \<ge> Suc i. ready_at t k d else ready_at t i d) (reached 0)"
  unfolding mg_applied_def
proof (rule triple_db_call)
  fix d assume "\<exists>k \<ge> i. ready_at t k d"
  then obtain k where k: "i \<le> k" "fresh_at k d" "trackers d t \<noteq> None" by (auto simp: ready_at_def)
  have "stamped d t (mgName m) \<longleftrightarrow> i < k" using fresh_stamped [OF k(2) assms(1)] assms(2) by simp
  with k obtain ns where "trackers d t = Some ns" "mgName m \<in> set ns \<longleftrightarrow> Suc i \<le> k" by (auto simp: stamped_def Suc_le_eq)
  with k show "\<exists>x d'. (case trackers d t of None \<Rightarrow> Inl undefined_table | Some ns \<Rightarrow> Inr (mgName m \<in> set ns), d) = (Inr x, d')
      \<and> (if x then \<exists>k \<ge> Suc i. ready_at t k d' else ready_at t i d')"
    by (auto simp: ready_at_def le_Suc_eq not_less_eq_eq)
qed (auto simp: reached_def ready_at_def)

lemma run_from_fresh:
  assumes "all_migrations = pre @ map (Pair t) ms @ post"
  shows "triple (\<lambda>d. \<exists>k \<ge> length pre. ready_at t k d) (run_from t b ms) (\<lambda>_. reached (length pre + length ms)) (reached 0)"
  using assms
proof (induction ms arbitrary: pre b)
  case Nil
  then show ?case by (auto simp: reached_def ready_at_def intro!: triple_returnE)
next
  case (Cons m ms)
  let ?i = "length pre"
  have at: "?i < length all_migrations" "all_migrations ! ?i = (t, m)" unfolding Cons.prems by simp_all
  have IH: "triple (\<lambda>d. \<exists>k \<ge> Suc ?i. ready_at t k d) (run_from t b' ms) (\<lambda>_. reached (?i + length (m # ms))) (reached 0)" for b'
    using Cons.IH [of "pre @ [(t, m)]" b'] Cons.prems by simp
  have applying: "triple (ready_at t ?i) (mapErr w (mg_apply t m b)) (\<lambda>_ d. \<exists>k \<ge> Suc ?i. ready_at t k d) (reached 0)" for w
    by (rule triple_mapErr, rule triple_weaken [OF apply_fresh [OF at]]) (auto simp: reached_def)
  have "triple (\<lambda>d. if ap then \<exists>k \<ge> Suc ?i. ready_at t k d else ready_at t ?i d)
      (if ap then run_from t b ms else bindE (mapErr (Wrap (''pgmigrate '' @ t @ '': apply '' @ mgName m)) (mg_apply t m b)) (\<lambda>ex.
         run_from t (if ex then False else b) ms)) (\<lambda>_. reached (?i + length (m # ms))) (reached 0)" for ap
    using IH by (cases ap) (auto intro!: triple_bindE [OF applying] simp del: run_from.simps)
  then show ?case unfolding run_from.simps by (rule triple_bindE [OF triple_mapErr [OF applied_fresh [OF at]]])
qed

lemma bootstrap_fresh: "triple (reached i) (bootstrap t) (\<lambda>_ d. \<exists>k \<ge> i. ready_at t k d) (reached 0)"
  unfolding bootstrap_def
proof (rule triple_db_exec)
  fix d assume "reached i d"
  then obtain k where k: "i \<le> k" "fresh_at k d" by (auto simp: reached_def)
  let ?d = "case trackers d t of None \<Rightarrow> d\<lparr>trackers := (trackers d)(t \<mapsto> [])\<rparr> | Some _ \<Rightarrow> d"
  have "stamped ?d t' n = stamped d t' n" for t' n by (auto simp: stamped_def split: option.split)
  then have "fresh_at k ?d" using k(2) by (auto simp: fresh_at_def split: option.split)
  with k(1) show "\<exists>k \<ge> i. ready_at t k (snd ((), ?d))" by (auto simp: ready_at_def split: option.split)
qed (auto simp: reached_def)

lemma Run_fresh:
  assumes "all_migrations = pre @ tracked r @ post" "safeTrackerName (rnTracker r)"
    "find (\<lambda>m. HasPrefix (TrimSpace (mgText m)) StatementTag) (rnMigrations r) = None"
  shows "triple (reached (length pre)) (Run r) (\<lambda>_. reached (length pre + length (tracked r))) (reached 0)"
  using run_from_fresh [of pre "rnTracker r" "rnMigrations r" post True] assms
  by (auto simp: Run_def tracked_def intro!: triple_bindE triple_mapErr bootstrap_fresh)

lemma runners_wellformed:
  "safeTrackerName (rnTracker ingest_runner)" "safeTrackerName (rnTracker memory_runner)" "safeTrackerName (rnTracker codegraph_runner)"
  "find (\<lambda>m. HasPrefix (TrimSpace (mgText m)) StatementTag) (rnMigrations ingest_runner) = None"
  "find (\<lambda>m. HasPrefix (TrimSpace (mgText m)) StatementTag) (rnMigrations memory_runner) = None"
  "find (\<lambda>m. HasPrefix (TrimSpace (mgText m)) StatementTag) (rnMigrations codegraph_runner) = None"
  by code_simp+

text \<open>One start: every migration is in, or a driver call failed and the sequence is where it got to.\<close>

lemma app_migrate_fresh: "triple (reached 0) app_migrate (\<lambda>_. fresh_at (length all_migrations)) (reached 0)"
proof -
  let ?i = "tracked ingest_runner" and ?m = "tracked memory_runner" and ?c = "tracked codegraph_runner"
  have i: "triple (reached 0) (Run ingest_runner) (\<lambda>_. reached (length ?i)) (reached 0)"
    using Run_fresh [of "[]" ingest_runner "?m @ ?c"] runners_wellformed by (simp add: all_migrations_def)
  have m: "triple (reached (length ?i)) (Run memory_runner) (\<lambda>_. reached (length (?i @ ?m))) (reached 0)"
    using Run_fresh [of ?i memory_runner ?c] runners_wellformed by (simp add: all_migrations_def)
  have c: "triple (reached (length (?i @ ?m))) (Run codegraph_runner) (\<lambda>_. reached (length all_migrations)) (reached 0)"
    using Run_fresh [of "?i @ ?m" codegraph_runner "[]"] runners_wellformed by (simp add: all_migrations_def add.assoc)
  have end_at: "reached (length all_migrations) d \<Longrightarrow> fresh_at (length all_migrations) d" for d
    by (auto simp: reached_def fresh_at_def)
  show ?thesis unfolding app_migrate_def ingest_Migrate_def memory_Migrate_def codegraph_Migrate_def
    by (rule triple_bindE [OF triple_mapErr [OF triple_mapErr [OF i]]], rule triple_bindE [OF triple_mapErr [OF triple_mapErr [OF m]]],
        rule triple_mapErr, rule triple_mapErr, rule triple_weaken [OF c]) (simp_all add: end_at)
qed

end
