(* ===== verification/App_Startup.thy ===== *)
theory App_Startup
  imports App_Config Migrate_Fresh Ingest_Pool
begin

text \<open>
  How the service becomes ready (\<^verbatim>\<open>cmd/tatara-memory/startup.go\<close>, \<^verbatim>\<open>health.go\<close> and \<^verbatim>\<open>waitForDB\<close> of \<^verbatim>\<open>app.go\<close>): the
  readiness gate, one attempt to reach and migrate the database, the retry loop around it and what
  \<^verbatim>\<open>/readyz\<close> makes of it.  Times are nanoseconds.  The loop runs over a list of turns, each saying what
  the clock and the context did meanwhile; a list that is too short gives \<open>None\<close>.
\<close>

section \<open>The readiness gate\<close>

definition errStartupPending :: err where
  "errStartupPending = Opaque ''database startup has not completed yet''"

record startupGate =
  sgReady :: bool
  sgAttempts :: nat
  sgLast :: "err option"

definition new_gate :: startupGate where
  "new_gate = \<lparr>sgReady = False, sgAttempts = 0, sgLast = None\<rparr>"

definition gate_record :: "err option \<Rightarrow> startupGate \<Rightarrow> startupGate" where
  "gate_record e g = g\<lparr>sgAttempts := sgAttempts g + (if e = None then 0 else 1), sgLast := e\<rparr>"

definition markReady :: "startupGate \<Rightarrow> startupGate" where
  "markReady g = g\<lparr>sgReady := True, sgLast := None\<rparr>"

definition gate_status :: "startupGate \<Rightarrow> err option" where
  "gate_status g =
     (if sgReady g then None
      else case sgLast g of
        Some e \<Rightarrow> Some (Wrap (''incomplete after '' @ dec (sgAttempts g) @ '' failed attempt(s)'') e)
      | None \<Rightarrow> Some errStartupPending)"

definition startupStatus :: "startupGate option \<Rightarrow> err option" where
  "startupStatus g = (case g of None \<Rightarrow> None | Some g \<Rightarrow> gate_status g)"

definition startupReady :: "startupGate option \<Rightarrow> bool" where
  "startupReady g \<longleftrightarrow> startupStatus g = None"

text \<open>The three checks behind \<^verbatim>\<open>/readyz\<close>, given what each would answer now.\<close>

definition readyzFunc :: "err option option \<Rightarrow> err option \<Rightarrow> err option \<Rightarrow> err option" where
  "readyzFunc startup db lr =
     (case (case startup of None \<Rightarrow> None | Some st \<Rightarrow> st) of
        Some e \<Rightarrow> Some (Wrap ''startup'' e)
      | None \<Rightarrow> (case db of
          Some e \<Rightarrow> Some (Wrap ''db'' e)
        | None \<Rightarrow> (case lr of
            Some e \<Rightarrow> Some (Wrap ''lightrag'' e)
          | None \<Rightarrow> None)))"

section \<open>Waiting for the database\<close>

definition dbWaitMaxInterval :: int where "dbWaitMaxInterval = 30 * second"

text \<open>
  One turn of the loop: how long the probe takes, how long passes between the two readings of the
  clock, whether the context ends the sleep, and how late the timer fires otherwise.
\<close>

record 'e turn =
  tnElapsed :: nat
  tnPause :: nat
  tnDone :: bool
  tnLate :: nat
  tnProbe :: 'e

definition next_wait :: "int \<Rightarrow> int" where
  "next_wait wait = (if wait < dbWaitMaxInterval then (if wait * 2 > dbWaitMaxInterval then dbWaitMaxInterval else wait * 2) else wait)"

text \<open>The result is the error or success, the sleeps that were asked for, and the state.\<close>

fun wait_loop :: "(int \<Rightarrow> string) \<Rightarrow> ('e \<Rightarrow> 'w \<Rightarrow> err option \<times> 'w) \<Rightarrow> int \<Rightarrow> int option \<Rightarrow> int \<Rightarrow> 'e turn list \<Rightarrow> int \<Rightarrow> 'w
    \<Rightarrow> (err option \<times> int list \<times> 'w) option" where
  "wait_loop show1 probe timeout deadline wait [] now w = None"
| "wait_loop show1 probe timeout deadline wait (t # ts) now w = (case probe (tnProbe t) w of
     (None, w') \<Rightarrow> Some (None, [], w')
   | (Some e, w') \<Rightarrow>
       (let now1 = now + int (tnElapsed t); now2 = now1 + int (tnPause t) in
        if (case deadline of None \<Rightarrow> False | Some d \<Rightarrow> \<not> now1 < d)
        then Some (Some (Wrap (''database not reachable within '' @ show1 timeout) e), [], w')
        else
          let s1 = (case deadline of None \<Rightarrow> wait | Some d \<Rightarrow> if d - now2 < wait then d - now2 else wait);
              sleep = (if s1 < 0 then 0 else s1) in
          if tnDone t then Some (Some Canceled, [sleep], w')
          else map_option (\<lambda>(r, sleeps, w''). (r, sleep # sleeps, w''))
                 (wait_loop show1 probe timeout deadline (next_wait wait) ts (now2 + sleep + int (tnLate t)) w')))"

definition waitForDB :: "(int \<Rightarrow> string) \<Rightarrow> ('e \<Rightarrow> 'w \<Rightarrow> err option \<times> 'w) \<Rightarrow> int \<Rightarrow> int \<Rightarrow> 'e turn list \<Rightarrow> int \<Rightarrow> 'w
    \<Rightarrow> (err option \<times> int list \<times> 'w) option" where
  "waitForDB show1 probe timeout interval ts now w =
     (let interval' = (if interval \<le> 0 then second else interval);
          deadline = (if timeout > 0 then Some (now + timeout) else None)
      in wait_loop show1 probe timeout deadline interval' ts now w)"

section \<open>The database half of startup\<close>

record 's starting =
  saConn :: migrate_conn
  saPool :: "'s pool"
  saGate :: startupGate

text \<open>
  What the ingest pool does until \<^verbatim>\<open>Resume\<close> has returned is a schedule of its sweeper and its workers;
  its outcome is only logged.
\<close>

definition startupAttemptOnce :: "'s JobStore \<Rightarrow> action list \<Rightarrow> 's starting \<Rightarrow> err option \<times> 's starting" where
  "startupAttemptOnce S resume a = (case mapErr (Wrap ''ping postgres'') (db_query (\<lambda>_. ())) (saConn a) of
     (Inl e, c) \<Rightarrow> (Some e, a\<lparr>saConn := c\<rparr>)
   | (Inr _, c) \<Rightarrow> (case app_migrate c of
       (Inl e, c') \<Rightarrow> (Some e, a\<lparr>saConn := c'\<rparr>)
     | (Inr _, c') \<Rightarrow> (None, a\<lparr>saConn := c', saPool := (case run_schedule S resume (saPool a) of Some p \<Rightarrow> p | None \<Rightarrow> saPool a)\<rparr>)))"

definition startupAttempt :: "'s JobStore \<Rightarrow> action list \<Rightarrow> 's starting \<Rightarrow> err option \<times> 's starting" where
  "startupAttempt S resume a = (case startupAttemptOnce S resume a of
     (e, a') \<Rightarrow> (e, a'\<lparr>saGate := gate_record e (saGate a')\<rparr>))"

definition awaitDatabase :: "(int \<Rightarrow> string) \<Rightarrow> 's JobStore \<Rightarrow> int \<Rightarrow> int \<Rightarrow> action list turn list \<Rightarrow> int \<Rightarrow> 's starting \<Rightarrow> 's starting option" where
  "awaitDatabase show1 S timeout interval ts now a = (case waitForDB show1 (startupAttempt S) timeout interval ts now a of
     None \<Rightarrow> None
   | Some (Some e, _, a') \<Rightarrow> Some (a'\<lparr>saGate := gate_record (Some e) (saGate a')\<rparr>)
   | Some (None, _, a') \<Rightarrow> Some (a'\<lparr>saGate := markReady (saGate a')\<rparr>))"

section \<open>The retry loop\<close>

text \<open>The wait before the retry with number \<open>i\<close>.\<close>

definition backoff :: "int \<Rightarrow> nat \<Rightarrow> int" where
  "backoff interval i = (if interval < dbWaitMaxInterval then min (interval * 2 ^ i) dbWaitMaxInterval else interval)"

lemma backoff_0: "backoff interval 0 = interval"
  by (simp add: backoff_def)

lemma backoff_next: "0 < interval \<Longrightarrow> backoff (next_wait interval) i = backoff interval (Suc i)"
proof -
  assume "0 < interval"
  then have "dbWaitMaxInterval \<le> interval * 2 \<Longrightarrow> dbWaitMaxInterval \<le> interval * 2 * 2 ^ i"
    by (smt (verit) mult_le_cancel_left1 one_le_power)
  then show ?thesis by (auto simp: backoff_def next_wait_def mult.assoc)
qed

lemma next_wait_pos: "0 < wait \<Longrightarrow> 0 < next_wait wait \<and> min wait dbWaitMaxInterval \<le> min (next_wait wait) dbWaitMaxInterval"
  by (auto simp: next_wait_def dbWaitMaxInterval_def second_def)

lemma wait_sleeps:
  assumes "wait_loop show1 probe timeout deadline wait ts now w = Some (r, sleeps, w')" "0 < wait"
  shows "(\<forall>i < length sleeps. 0 \<le> sleeps ! i \<and> sleeps ! i \<le> backoff wait i \<and> (deadline = None \<longrightarrow> sleeps ! i = backoff wait i))
    \<and> (\<forall>d. deadline = Some d \<longrightarrow> sum_list sleeps \<le> max 0 (d - now))"
  using assms
proof (induction ts arbitrary: wait now w sleeps)
  case (Cons t ts)
  let ?now1 = "now + int (tnElapsed t)" and ?now2 = "now + int (tnElapsed t) + int (tnPause t)"
  let ?s1 = "case deadline of None \<Rightarrow> wait | Some d \<Rightarrow> if d - ?now2 < wait then d - ?now2 else wait"
  let ?sleep = "if ?s1 < 0 then 0 else ?s1"
  have sleep: "0 \<le> ?sleep" "?sleep \<le> wait" "deadline = None \<Longrightarrow> ?sleep = wait" "\<And>d. deadline = Some d \<Longrightarrow> ?sleep \<le> max 0 (d - ?now2)"
    using Cons.prems(2) by (auto split: option.splits)
  from Cons.prems(1) consider "sleeps = []" | "sleeps = [?sleep]"
    | sleeps' w1 where "sleeps = ?sleep # sleeps'"
      "wait_loop show1 probe timeout deadline (next_wait wait) ts (?now2 + ?sleep + int (tnLate t)) w1 = Some (r, sleeps', w')"
    by (auto simp: Let_def split: prod.splits option.splits if_splits)
  then show ?case
  proof cases
    case 1
    then show ?thesis by simp
  next
    case 2
    then show ?thesis using sleep by (auto simp: backoff_0)
  next
    case 3
    note IH = Cons.IH [OF 3(2)] next_wait_pos [OF Cons.prems(2)]
    have "0 \<le> sleeps ! i \<and> sleeps ! i \<le> backoff wait i \<and> (deadline = None \<longrightarrow> sleeps ! i = backoff wait i)" if "i < length sleeps" for i
      using IH sleep that 3(1) by (cases i) (auto simp: backoff_0 backoff_next [OF Cons.prems(2)])
    moreover have "sum_list sleeps \<le> max 0 (d - now)" if "deadline = Some d" for d
      using IH sleep(1) sleep(4) [OF that] that 3(1) by fastforce
    ultimately show ?thesis by blast
  qed
qed simp

lemma wait_returns:
  assumes "0 < m" "m \<le> min wait dbWaitMaxInterval" "d - now \<le> int k * m" "k < length ts"
  shows "wait_loop show1 probe timeout (Some d) wait ts now w \<noteq> None"
  using assms(2-4)
proof (induction ts arbitrary: wait now w k)
  case (Cons t ts)
  let ?now2 = "now + int (tnElapsed t) + int (tnPause t)"
  let ?s1 = "if d - ?now2 < wait then d - ?now2 else wait"
  let ?now3 = "?now2 + (if ?s1 < 0 then 0 else ?s1) + int (tnLate t)"
  have IH: "wait_loop show1 probe timeout (Some d) (next_wait wait) ts ?now3 w1 \<noteq> None"
    if "now + int (tnElapsed t) < d" for w1
  proof (rule Cons.IH)
    have wait: "0 < wait" using assms(1) Cons.prems(1) by simp
    show "m \<le> min (next_wait wait) dbWaitMaxInterval" using next_wait_pos [OF wait] Cons.prems(1) by linarith
    have k: "0 < k" using that Cons.prems(2) by (cases k) auto
    show "d - ?now3 \<le> int (k - 1) * m"
    proof (cases "d - ?now2 < wait")
      case True
      then show ?thesis using assms(1) k by (smt (verit) mult_nonneg_nonneg of_nat_0_le_iff)
    next
      case False
      then have "d - ?now3 \<le> d - now - wait" using wait by simp
      also have "\<dots> \<le> int k * m - m" using Cons.prems(1,2) by simp
      finally show ?thesis using k by (simp add: of_nat_diff left_diff_distrib)
    qed
    show "k - 1 < length ts" using Cons.prems(3) k by simp
  qed
  show ?case
  proof
    assume "wait_loop show1 probe timeout (Some d) wait (t # ts) now w = None"
    then obtain w1 where "now + int (tnElapsed t) < d" "wait_loop show1 probe timeout (Some d) (next_wait wait) ts ?now3 w1 = None"
      by (simp add: Let_def split: prod.splits option.splits if_splits)
    then show False using IH by blast
  qed
qed simp

section \<open>What a successful attempt has done\<close>

lemma run_from_stamps:
  "run_from t b ms c = (r, c') \<Longrightarrow> (\<forall>t' n. stamped (tables c) t' n \<longrightarrow> stamped (tables c') t' n)
     \<and> (\<not> isl r \<longrightarrow> (\<forall>m \<in> set ms. stamped (tables c') t (mgName m)))"
proof (induction ms arbitrary: b c)
  case (Cons m ms)
  obtain ra c1 where a: "mg_applied t (mgName m) c = (ra, c1)" by fastforce
  show ?case
  proof (cases ra)
    case (Inl e)
    with Cons.prems a show ?thesis by (auto simp: bindE_def mapErr_def dest: mg_applied_Inl)
  next
    case (Inr ap)
    then have c1: "tables c1 = tables c" "ap \<longleftrightarrow> stamped (tables c) t (mgName m)" using a mg_applied_Inr by auto
    show ?thesis
    proof (cases ap)
      case True
      with Cons.prems a Inr have "run_from t b ms c1 = (r, c')" by (simp add: bindE_def mapErr_def)
      from Cons.IH [OF this] True c1 show ?thesis by simp
    next
      case False
      obtain rb c2 where b: "mg_apply t m b c1 = (rb, c2)" by fastforce
      show ?thesis
      proof (cases rb)
        case (Inl e)
        with Cons.prems a Inr False b c1 show ?thesis by (auto simp: bindE_def mapErr_def dest: mg_apply_Inl)
      next
        case rb: (Inr ex)
        from b [unfolded rb] obtain ns where "trackers (tables c1) t = Some ns"
          "trackers (tables c2) = (trackers (tables c1))(t \<mapsto> (if mgName m \<in> set ns then ns else ns @ [mgName m]))" by (rule mg_apply_Inr)
        then have keep: "stamped (tables c) t' n \<Longrightarrow> stamped (tables c2) t' n" and new: "stamped (tables c2) t (mgName m)" for t' n
          using c1(1) by (auto simp: stamped_def)
        have "run_from t (if ex then False else b) ms c2 = (r, c')" using Cons.prems a Inr False b rb by (simp add: bindE_def mapErr_def)
        from Cons.IH [OF this] keep new show ?thesis by auto
      qed
    qed
  qed
qed (simp add: returnE_def)

lemma bootstrap_stamps: "bootstrap t c = (r, c') \<Longrightarrow> stamped (tables c) t' n \<Longrightarrow> stamped (tables c') t' n"
proof (cases r)
  case (Inr x)
  assume b: "bootstrap t c = (r, c')" and o: "stamped (tables c) t' n"
  have "tables c' = (case trackers (tables c) t of None \<Rightarrow> (tables c)\<lparr>trackers := (trackers (tables c))(t \<mapsto> [])\<rparr> | Some _ \<Rightarrow> tables c)"
    using db_exec_Inr [OF b [unfolded Inr bootstrap_def]] by simp
  with o show ?thesis by (auto simp: stamped_def split: option.splits if_splits)
qed (auto simp: bootstrap_def dest: db_exec_Inl)

definition all_stamped :: "Runner \<Rightarrow> migrate_db \<Rightarrow> bool" where
  "all_stamped r d \<longleftrightarrow> (\<forall>n \<in> set (Names r). stamped d (rnTracker r) n)"

lemma Run_stamps:
  assumes "Run r c = (Inr (), c')"
  shows "all_stamped r (tables c')" "all_stamped r' (tables c) \<Longrightarrow> all_stamped r' (tables c')"
proof -
  from assms obtain c1 where "bootstrap (rnTracker r) c = (Inr (), c1)" "run_from (rnTracker r) True (rnMigrations r) c1 = (Inr (), c')"
    by (auto simp: Run_def failE_def bindE_eq_Inr mapErr_eq_Inr split: if_splits option.splits)
  then show "all_stamped r (tables c')" "all_stamped r' (tables c) \<Longrightarrow> all_stamped r' (tables c')"
    by (auto simp: all_stamped_def Names_def dest!: run_from_stamps dest: bootstrap_stamps)
qed

lemma app_migrate_stamps:
  assumes "app_migrate c = (Inr (), c')" "r \<in> {ingest_runner, memory_runner, codegraph_runner}"
  shows "all_stamped r (tables c')"
proof -
  from assms(1) obtain c1 c2 where "Run ingest_runner c = (Inr (), c1)" "Run memory_runner c1 = (Inr (), c2)" "Run codegraph_runner c2 = (Inr (), c')"
    by (auto simp: app_migrate_def ingest_Migrate_def memory_Migrate_def codegraph_Migrate_def bindE_eq_Inr mapErr_eq_Inr)
  note runs = this [THEN Run_stamps(1)] this [THEN Run_stamps(2)]
  show ?thesis using assms(2) runs by auto
qed

lemma attempt_done:
  assumes "startupAttempt S resume a = (e, a')"
  shows "sgReady (saGate a') = sgReady (saGate a)"
    "e = None \<Longrightarrow> \<exists>c. app_migrate c = (Inr (), saConn a')"
  using assms by (auto simp: startupAttempt_def startupAttemptOnce_def gate_record_def split: prod.splits sum.splits)

lemma wait_loop_ends:
  assumes "wait_loop show1 probe timeout deadline wait ts now w = Some (r, sleeps, w')"
    and "\<And>e v r v'. probe e v = (r, v') \<Longrightarrow> P v \<Longrightarrow> P v'" "P w"
  shows "P w' \<and> (r = None \<longrightarrow> (\<exists>e v. probe e v = (None, w')))"
  using assms(1,3)
proof (induction ts arbitrary: wait now w sleeps)
  case (Cons t ts)
  obtain e w1 where p: "probe (tnProbe t) w = (e, w1)" by fastforce
  have "P w1" using assms(2) [OF p Cons.prems(2)] .
  with Cons p show ?case by (cases e) (auto simp: Let_def split: if_splits option.splits)
qed simp

section \<open>An outage\<close>

lemma ping_fresh: "triple (reached 0) (mapErr (Wrap ''ping postgres'') (db_query (\<lambda>_. ()))) (\<lambda>_. reached 0) (reached 0)"
  by (auto intro!: triples)

lemma attempt_fresh:
  assumes "reached 0 (tables (saConn a))" "startupAttempt S resume a = (e, a')"
  shows "case e of None \<Rightarrow> fresh_at (length all_migrations) (tables (saConn a'))
    | Some _ \<Rightarrow> fails (saConn a') < fails (saConn a) \<and> reached 0 (tables (saConn a'))"
proof -
  obtain r c where ping: "mapErr (Wrap ''ping postgres'') (db_query (\<lambda>_. ())) (saConn a) = (r, c)" by fastforce
  show ?thesis
  proof (cases r)
    case (Inl e1)
    with ping triple_Inl [OF ping_fresh assms(1), of e1 c] assms(2) show ?thesis
      by (auto simp: startupAttempt_def startupAttemptOnce_def)
  next
    case (Inr x)
    with ping triple_Inr [OF ping_fresh assms(1), of x c] have c: "reached 0 (tables c)" "fails c \<le> fails (saConn a)" by simp_all
    obtain r2 c2 where mig: "app_migrate c = (r2, c2)" by fastforce
    show ?thesis
      using ping Inr mig assms(2) c triple_Inl [OF app_migrate_fresh c(1)] triple_Inr [OF app_migrate_fresh c(1)]
      by (cases r2) (fastforce simp: startupAttempt_def startupAttemptOnce_def)+
  qed
qed

lemma wait_loop_fresh:
  assumes "reached 0 (tables (saConn a))" "fails (saConn a) < length ts" "list_all (\<lambda>t. \<not> tnDone t) ts"
  shows "\<exists>sleeps a'. wait_loop show1 (startupAttempt S) timeout None wait ts now a = Some (None, sleeps, a')
    \<and> fresh_at (length all_migrations) (tables (saConn a'))"
  using assms
proof (induction ts arbitrary: a wait now)
  case (Cons t ts)
  obtain e a1 where p: "startupAttempt S (tnProbe t) a = (e, a1)" by fastforce
  show ?case
  proof (cases e)
    case None
    then show ?thesis using attempt_fresh [OF Cons.prems(1) p] p by simp
  next
    case (Some e1)
    then have "fails (saConn a1) < fails (saConn a)" "reached 0 (tables (saConn a1))" using attempt_fresh [OF Cons.prems(1) p] by simp_all
    then obtain sleeps a' where
      "wait_loop show1 (startupAttempt S) timeout None (next_wait wait) ts
         (now + int (tnElapsed t) + int (tnPause t) + (if wait < 0 then 0 else wait) + int (tnLate t)) a1 = Some (None, sleeps, a')"
      "fresh_at (length all_migrations) (tables (saConn a'))"
      using Cons.IH [of a1 "next_wait wait" "now + int (tnElapsed t) + int (tnPause t) + (if wait < 0 then 0 else wait) + int (tnLate t)"] Cons.prems(2,3)
      by auto
    then show ?thesis using p Some Cons.prems(3) by (auto simp: Let_def)
  qed
qed simp

lemma await_fresh:
  assumes "timeout \<le> 0" "tables (saConn a) = \<lparr>schema_of = [], trackers = Map.empty, executed = []\<rparr>"
    and "fails (saConn a) < length ts" "\<forall>t \<in> set ts. \<not> tnDone t"
  shows "\<exists>a'. awaitDatabase show1 S timeout interval ts now a = Some a' \<and> gate_status (saGate a') = None
    \<and> executed (tables (saConn a')) = concat (map (\<lambda>r. map (Pair (rnTracker r)) (Names r)) [ingest_runner, memory_runner, codegraph_runner])"
proof -
  have "fresh_at 0 (tables (saConn a))" using assms(2) by (simp add: fresh_at_def stamped_def)
  then have "reached 0 (tables (saConn a))" by (auto simp: reached_def)
  from wait_loop_fresh [OF this assms(3), of show1 S timeout "if interval \<le> 0 then second else interval" now] assms(4) obtain sleeps a1 where
    l: "wait_loop show1 (startupAttempt S) timeout None (if interval \<le> 0 then second else interval) ts now a = Some (None, sleeps, a1)"
    and f: "fresh_at (length all_migrations) (tables (saConn a1))" unfolding list_all_iff by blast
  have "awaitDatabase show1 S timeout interval ts now a = Some (a1\<lparr>saGate := markReady (saGate a1)\<rparr>)"
    using l assms(1) by (simp add: awaitDatabase_def waitForDB_def)
  moreover have "map tracked_name all_migrations = concat (map (\<lambda>r. map (Pair (rnTracker r)) (Names r)) [ingest_runner, memory_runner, codegraph_runner])"
    by (simp add: all_migrations_def tracked_def tracked_name_def Names_def comp_def)
  ultimately show ?thesis using f by (auto simp: gate_status_def markReady_def fresh_at_def)
qed

section \<open>Properties\<close>

text \<open>
  C38: the wait for the database never runs hot and, given a budget, ends.  Its sleeps are the
  configured interval doubled each time up to 30 seconds (a longer interval is kept as it is), cut
  short only by the budget, and together they stay within it; with a positive budget the loop
  returns after at most budget divided by interval plus two probes, however long the probes take.
\<close>

theorem startup_wait_bounded:
  assumes "0 < interval"
  shows "(case waitForDB show1 probe timeout interval ts now w of None \<Rightarrow> True
     | Some (r, sleeps, w') \<Rightarrow>
        (\<forall>i < length sleeps. 0 \<le> sleeps ! i \<and> sleeps ! i \<le> backoff interval i \<and> (timeout \<le> 0 \<longrightarrow> sleeps ! i = backoff interval i))
        \<and> (0 < timeout \<longrightarrow> sum_list sleeps \<le> timeout))
    \<and> (0 < timeout \<and> timeout div min interval dbWaitMaxInterval + 2 \<le> int (length ts) \<longrightarrow> waitForDB show1 probe timeout interval ts now w \<noteq> None)"
proof (intro conjI impI, goal_cases)
  case 1
  show ?case
  proof (cases "waitForDB show1 probe timeout interval ts now w")
    case (Some x)
    obtain r sleeps w' where x: "x = (r, sleeps, w')" using prod_cases3 by blast
    let ?d = "if timeout > 0 then Some (now + timeout) else None"
    have loop: "wait_loop show1 probe timeout ?d interval ts now w = Some (r, sleeps, w')"
      using Some x assms by (simp add: waitForDB_def)
    from wait_sleeps [OF this assms] Some x show ?thesis by (auto split: if_splits)
  qed simp
next
  case 2
  let ?m = "min interval dbWaitMaxInterval"
  have m: "0 < ?m" using assms by (simp add: dbWaitMaxInterval_def second_def)
  let ?k = "nat (timeout div ?m + 1)"
  have pos: "0 \<le> timeout div ?m" using 2 m by (simp add: pos_imp_zdiv_nonneg_iff)
  have "timeout \<le> (timeout div ?m + 1) * ?m"
    using div_mult_mod_eq [of timeout ?m] pos_mod_bound [OF m, of timeout] unfolding distrib_right mult_1 by linarith
  then have "now + timeout - now \<le> int ?k * ?m" using pos by simp
  moreover have "?k < length ts" using 2 pos by linarith
  ultimately have "wait_loop show1 probe timeout (Some (now + timeout)) interval ts now w \<noteq> None"
    by (intro wait_returns [OF m order_refl])
  then show ?case using 2 assms by (simp add: waitForDB_def)
qed

text \<open>
  C8: \<^verbatim>\<open>/readyz\<close> answers success after the startup of a fresh gate only if every migration of all three
  schemas is recorded in the database, whatever failed before and however the wait ended; otherwise
  the gate reports why.
\<close>

theorem ready_means_migrated:
  assumes "saGate a = new_gate" "awaitDatabase show1 S timeout interval ts now a = Some a'"
    and "readyzFunc (Some (gate_status (saGate a'))) db lr = None"
  shows "db = None \<and> lr = None \<and> (\<forall>r \<in> {ingest_runner, memory_runner, codegraph_runner}. \<forall>n \<in> set (Names r). stamped (tables (saConn a')) (rnTracker r) n)"
proof -
  have st: "gate_status (saGate a') = None" "db = None" "lr = None" using assms(3) by (auto simp: readyzFunc_def split: option.splits)
  then have ready: "sgReady (saGate a')" by (auto simp: gate_status_def split: if_splits option.splits)
  obtain r sleeps a1 where w: "waitForDB show1 (startupAttempt S) timeout interval ts now a = Some (r, sleeps, a1)"
    "a' = (case r of Some e \<Rightarrow> a1\<lparr>saGate := gate_record (Some e) (saGate a1)\<rparr> | None \<Rightarrow> a1\<lparr>saGate := markReady (saGate a1)\<rparr>)"
    using assms(2) by (auto simp: awaitDatabase_def split: option.splits)
  have ends: "\<not> sgReady (saGate a1) \<and> (r = None \<longrightarrow> (\<exists>e v. startupAttempt S e v = (None, a1)))"
    by (rule wait_loop_ends [OF w(1) [unfolded waitForDB_def Let_def], where P = "\<lambda>v. \<not> sgReady (saGate v)"])
       (use assms(1) in \<open>auto simp: new_gate_def attempt_done(1)\<close>)
  have r: "r = None" using ready ends w(2) by (auto simp: gate_record_def split: option.splits)
  then obtain c where "app_migrate c = (Inr (), saConn a1)" using ends attempt_done(2) by blast
  then have "\<forall>r \<in> {ingest_runner, memory_runner, codegraph_runner}. all_stamped r (tables (saConn a1))" using app_migrate_stamps by blast
  with st w(2) r show ?thesis by (simp add: all_stamped_def)
qed

text \<open>
  C7: a service that starts on an empty database and waits without a budget survives any outage that
  ends: if \<open>n\<close> driver calls fail, at any points of any of its attempts, then after at most \<open>n + 1\<close> attempts
  it is ready, and each of the migrations of the three schemas has been executed exactly once, in order.
\<close>

theorem outage_survived:
  assumes "timeout \<le> 0" "tables (saConn a) = \<lparr>schema_of = [], trackers = Map.empty, executed = []\<rparr>"
    and "fails (saConn a) < length ts" "\<forall>t \<in> set ts. \<not> tnDone t"
  shows "\<exists>a'. awaitDatabase show1 S timeout interval ts now a = Some a' \<and> gate_status (saGate a') = None
    \<and> executed (tables (saConn a')) = concat (map (\<lambda>r. map (Pair (rnTracker r)) (Names r)) [ingest_runner, memory_runner, codegraph_runner])"
  by (rule await_fresh [OF assms])

section \<open>Instances\<close>

definition calm_turn :: "'e \<Rightarrow> 'e turn" where
  "calm_turn e = \<lparr>tnElapsed = 10, tnPause = 0, tnDone = False, tnLate = 3, tnProbe = e\<rparr>"

theorem startup_wait_bounded_witness:
  "waitForDB (\<lambda>_. ''5s'') (\<lambda>_ n. (Some ErrBadConn, n + 1)) (5 * second) (2 * second) (replicate 4 (calm_turn ())) 0 (0 :: nat) \<noteq> None"
  using startup_wait_bounded [where interval = "2 * second" and ?show1.0 = "\<lambda>_. ''5s''" and probe = "\<lambda>_ n. (Some ErrBadConn, n + 1)" and timeout = "5 * second" and ts = "replicate 4 (calm_turn ())" and now = 0 and w = "0 :: nat"]
  by (simp add: second_def dbWaitMaxInterval_def)

text \<open>An empty database whose third driver call fails, whatever the job store and the pool are.\<close>

definition broken_start :: "'s pool \<Rightarrow> 's starting" where
  "broken_start p = \<lparr>saConn = empty_database, saPool = p, saGate = new_gate\<rparr>"

lemma broken_start_fresh:
  "tables (saConn (broken_start p)) = \<lparr>schema_of = [], trackers = Map.empty, executed = []\<rparr>"
  "fails (saConn (broken_start p)) < length [calm_turn [], calm_turn []]" "\<forall>t \<in> set [calm_turn [], calm_turn []]. \<not> tnDone t"
  by (simp_all add: broken_start_def empty_database_def fails_def calm_turn_def)

theorem outage_survived_witness:
  "\<forall>S p. \<exists>a'. awaitDatabase (\<lambda>_. '''') S 0 (2 * second) [calm_turn [], calm_turn []] 0 (broken_start p) = Some a' \<and> gate_status (saGate a') = None"
  using outage_survived [OF order_refl broken_start_fresh] by blast

theorem ready_means_migrated_witness:
  "\<forall>S p. \<exists>a'. awaitDatabase (\<lambda>_. '''') S 0 (2 * second) [calm_turn [], calm_turn []] 0 (broken_start p) = Some a'
     \<and> stamped (tables (saConn a')) ''memory_schema_migrations'' ''0001_tombstones''"
proof (intro allI)
  fix S p
  obtain a' where a': "awaitDatabase (\<lambda>_. '''') S 0 (2 * second) [calm_turn [], calm_turn []] 0 (broken_start p) = Some a'" "gate_status (saGate a') = None"
    using await_fresh [OF order_refl broken_start_fresh] by blast
  then have "\<forall>n \<in> set (Names memory_runner). stamped (tables (saConn a')) (rnTracker memory_runner) n"
    using ready_means_migrated [of "broken_start p" "\<lambda>_. ''''" S 0 "2 * second" "[calm_turn [], calm_turn []]" 0 a' None None]
    by (simp add: broken_start_def readyzFunc_def)
  then show "\<exists>a'. awaitDatabase (\<lambda>_. '''') S 0 (2 * second) [calm_turn [], calm_turn []] 0 (broken_start p) = Some a'
     \<and> stamped (tables (saConn a')) ''memory_schema_migrations'' ''0001_tombstones''"
    using a'(1) by (auto simp: memory_runner_def Names_def migration_def)
qed

end
