(* ===== verification/Codegraph_Types.thy ===== *)
theory Codegraph_Types
  imports Memory_Types
begin

text \<open>
  The data of the code graph (\<^verbatim>\<open>internal/codegraph/types.go\<close>): entities, edges, hyperedges and
  cross-repository symbols of a push, the results of the queries, the confidence tiers and the caps
  on traversals.  A confidence score is an exact fraction, where the code has a \<^verbatim>\<open>float64\<close> (and the
  column a \<^verbatim>\<open>real\<close>).  The struct names carry a \<open>C\<close> where \<open>Memory_Types\<close> has the same name.
\<close>

section \<open>Constants\<close>

definition callRelations :: "string list" where "callRelations = [''calls'']"
definition dependencyRelations :: "string list" where "dependencyRelations = [''imports'', ''references'', ''depends_on'']"
definition resourceRelations :: "string list" where
  "resourceRelations = [''depends_on'', ''references'', ''value_ref'', ''includes'', ''subchart'', ''module_source'']"

definition defaultDepth :: int where "defaultDepth = 3"
definition maxDepth :: int where "maxDepth = 10"
definition defaultNeighborLimit :: int where "defaultNeighborLimit = 1000"
definition maxNeighborLimit :: int where "maxNeighborLimit = 5000"

definition TierExtracted :: string where "TierExtracted = ''EXTRACTED''"
definition TierInferred :: string where "TierInferred = ''INFERRED''"
definition TierAmbiguous :: string where "TierAmbiguous = ''AMBIGUOUS''"

definition ambiguousScoreThreshold :: rat where "ambiguousScoreThreshold = 3 / 10"

definition TierFor :: "rat \<Rightarrow> string" where
  "TierFor score = (if score \<ge> 1 then TierExtracted
     else if score \<le> ambiguousScoreThreshold then TierAmbiguous else TierInferred)"

definition RoleProvides :: string where "RoleProvides = ''provides''"
definition RoleRequires :: string where "RoleRequires = ''requires''"

definition ExtractorAST :: string where "ExtractorAST = ''ast''"
definition ExtractorSemantic :: string where "ExtractorSemantic = ''semantic''"

definition ImportantByDegree :: string where "ImportantByDegree = ''degree''"
definition ImportantByBetweenness :: string where "ImportantByBetweenness = ''betweenness''"

definition ValidTiers :: "string list" where "ValidTiers = [TierExtracted, TierInferred, TierAmbiguous]"

section \<open>A push\<close>

record CEntity =
  ceID :: string
  ceName :: string
  ceType :: string
  ceDescription :: string
  ceFilePath :: string
  ceLineStart :: int
  ceLineEnd :: int
  ceSourceURL :: string
  ceAuthor :: string
  ceCapturedAt :: string
  ceProperties :: smap

record CEdge =
  cdFrom :: string
  cdTo :: string
  cdRelation :: string
  cdSrcFile :: string
  cdConfidenceScore :: rat
  cdConfidenceTier :: string
  cdProperties :: smap

record SymbolRow =
  sySymbol :: string
  syLang :: string
  syKind :: string
  syRole :: string
  syEntityID :: string
  sySrcFile :: string

record Hyperedge =
  hyID :: string
  hyLabel :: string
  hyRelation :: string
  hyConfidenceScore :: rat
  hySrcFile :: string
  hyMembers :: "string list"
  hyProperties :: smap

record FileSHA =
  fsPath :: string
  fsContentSHA :: string

text \<open>
  The entries of \<^verbatim>\<open>FileSHAs\<close> are in the order in which Go happens to iterate over the map.
\<close>

record GraphPush =
  gpRepo :: string
  gpCommit :: string
  gpExtractor :: string
  gpFiles :: "string list"
  gpEntities :: "CEntity list"
  gpEdges :: "CEdge list"
  gpSymbols :: "SymbolRow list"
  gpHyperedges :: "Hyperedge list"
  gpFileSHAs :: "(string \<times> string) list"

record PushResult =
  puRepo :: string
  puFiles :: nat
  puEntities :: nat
  puEdges :: nat

section \<open>Results of queries\<close>

record CrossRef =
  crRepo :: string
  crEntityID :: string
  crSymbol :: string
  crLang :: string

record CrossRepoLinks =
  clConsumers :: "CrossRef list"
  clProviders :: "CrossRef list"

record RelatedResult =
  rlEntity :: CEntity
  rlRelation :: string
  rlScore :: rat
  rlTier :: string

record CommunityRow =
  cmCommunity :: int
  cmLabel :: string
  cmSize :: int
  cmCohesion :: rat

record Bridge =
  brEntity :: CEntity
  brBetweenness :: rat
  brCommunity :: int
  brNeighborCommunities :: nat

record EntityDetail =
  edEntity :: CEntity
  edOutEdges :: "CEdge list"
  edInEdges :: "CEdge list"

record PathNode =
  pnEntity :: CEntity
  pnDepth :: nat

record EntityDegree =
  dgEntity :: CEntity
  dgDegree :: nat

record GraphStats =
  gsEntities :: nat
  gsEdges :: nat
  gsEntitiesByType :: "string \<rightharpoonup> nat"
  gsEdgesByRelation :: "string \<rightharpoonup> nat"
  gsEdgesByTier :: "string \<rightharpoonup> nat"
  gsIsolated :: nat
  gsImportCycles :: nat

record NeighborEntity =
  neID :: string
  neName :: string
  neType :: string
  neFilePath :: string
  neLineStart :: int
  neLineEnd :: int

record EntityExplain =
  exDetail :: EntityDetail
  exOutNeighbors :: "NeighborEntity list"
  exInNeighbors :: "NeighborEntity list"

record ConfidenceFilter =
  cfMinConfidence :: rat
  cfTier :: string

section \<open>Caps\<close>

definition clampDepth :: "int \<Rightarrow> int" where
  "clampDepth d = (if d \<le> 0 then defaultDepth else if d > maxDepth then maxDepth else d)"

definition clampNeighborLimit :: "int \<Rightarrow> int" where
  "clampNeighborLimit n = (if n \<le> 0 then defaultNeighborLimit else if n > maxNeighborLimit then maxNeighborLimit else n)"

definition normalizeDir :: "string \<Rightarrow> string" where
  "normalizeDir dir = (if ToLower dir = ''in'' then ''in'' else ''out'')"

lemma clampDepth_bounds: "1 \<le> clampDepth d \<and> clampDepth d \<le> 10"
  by (simp add: clampDepth_def defaultDepth_def maxDepth_def)

lemma clampNeighborLimit_bounds: "1 \<le> clampNeighborLimit n \<and> clampNeighborLimit n \<le> 5000"
  by (simp add: clampNeighborLimit_def defaultNeighborLimit_def maxNeighborLimit_def)

lemma TierFor_valid: "TierFor s \<in> set ValidTiers"
  by (simp add: TierFor_def ValidTiers_def)

lemma TierFor_ambiguous: "TierFor s = TierAmbiguous \<longleftrightarrow> s \<le> ambiguousScoreThreshold"
  by (simp add: TierFor_def TierAmbiguous_def TierExtracted_def TierInferred_def ambiguousScoreThreshold_def)

end
