(* ===== verification/Codegraph_Reconcile.thy ===== *)
theory Codegraph_Reconcile
  imports Codegraph_Types
begin

text \<open>
  The tables of the code graph (\<^verbatim>\<open>internal/codegraph/migrations\<close>) and \<^verbatim>\<open>PGStore.Reconcile\<close>
  (\<^verbatim>\<open>internal/codegraph/pgstore.go\<close>), which replaces what one extractor said about a set of files in
  one transaction.  A property column holds the map itself (\<^verbatim>\<open>marshalProps\<close> and \<^verbatim>\<open>scanProps\<close> are
  inverse but for nil and the empty map).  A statement the database refuses because of its data (a
  malformed timestamp, an integer out of range) is one of the scripted failures of the connection.
\<close>

section \<open>Tables\<close>

record entity_row =
  xRepo :: string
  xID :: string
  xName :: string
  xType :: string
  xDescription :: string
  xFilePath :: string
  xProperties :: smap
  xLineStart :: "int option"
  xLineEnd :: "int option"
  xSourceURL :: "string option"
  xAuthor :: "string option"
  xCapturedAt :: "string option"
  xExtractor :: string
  xCommunity :: "int option"
  xBetweenness :: "rat option"

record edge_row =
  dRepo :: string
  dFrom :: string
  dTo :: string
  dRelation :: string
  dSrcFile :: string
  dProperties :: smap
  dScore :: rat
  dTier :: string
  dExtractor :: string

record symbol_row =
  yRepo :: string
  ySymbol :: string
  yLang :: string
  yKind :: string
  yRole :: string
  yEntityID :: string
  ySrcFile :: string

record hyperedge_row =
  zRepo :: string
  zID :: string
  zLabel :: string
  zRelation :: string
  zScore :: rat
  zSrcFile :: string
  zProperties :: smap
  zExtractor :: string

record member_row =
  mbRepo :: string
  mbHyperedge :: string
  mbEntity :: string

record extraction_row =
  xtRepo :: string
  xtFilePath :: string
  xtSHA :: string
  xtAt :: Time

record community_row =
  coRepo :: string
  coCommunity :: int
  coLabel :: string
  coCohesion :: rat
  coSize :: int

record state_row =
  stRepo :: string
  stDirty :: bool
  stReconciledAt :: "Time option"
  stComputedAt :: "Time option"

record graph_db =
  code_entities :: "entity_row list"
  code_edges :: "edge_row list"
  cross_repo_symbols :: "symbol_row list"
  code_hyperedges :: "hyperedge_row list"
  code_hyperedge_members :: "member_row list"
  semantic_extractions :: "extraction_row list"
  code_communities :: "community_row list"
  repo_analytics_state :: "state_row list"

type_synonym graph_conn = "graph_db conn"

text \<open>The primary keys.\<close>

definition entity_key :: "entity_row \<Rightarrow> string \<times> string" where
  "entity_key r = (xRepo r, xID r)"

definition edge_key :: "edge_row \<Rightarrow> string \<times> string \<times> string \<times> string \<times> string" where
  "edge_key r = (dRepo r, dFrom r, dTo r, dRelation r, dExtractor r)"

definition symbol_key :: "symbol_row \<Rightarrow> string \<times> string \<times> string \<times> string" where
  "symbol_key r = (yRepo r, ySymbol r, yRole r, yEntityID r)"

definition hyperedge_key :: "hyperedge_row \<Rightarrow> string \<times> string" where
  "hyperedge_key r = (zRepo r, zID r)"

definition extraction_key :: "extraction_row \<Rightarrow> string \<times> string" where
  "extraction_key r = (xtRepo r, xtFilePath r)"

section \<open>Statements\<close>

definition nullInt :: "int \<Rightarrow> int option" where
  "nullInt v = (if v = 0 then None else Some v)"

definition nullStr :: "string \<Rightarrow> string option" where
  "nullStr v = (if v = '''' then None else Some v)"

definition nullTime :: "string \<Rightarrow> string option" where
  "nullTime v = (if v = '''' then None else Some v)"

definition entity_row_of :: "string \<Rightarrow> string \<Rightarrow> CEntity \<Rightarrow> entity_row" where
  "entity_row_of repo ext e =
     \<lparr>xRepo = repo, xID = ceID e, xName = ceName e, xType = ceType e, xDescription = ceDescription e,
      xFilePath = ceFilePath e, xProperties = ceProperties e, xLineStart = nullInt (ceLineStart e),
      xLineEnd = nullInt (ceLineEnd e), xSourceURL = nullStr (ceSourceURL e), xAuthor = nullStr (ceAuthor e),
      xCapturedAt = nullTime (ceCapturedAt e), xExtractor = ext, xCommunity = None, xBetweenness = None\<rparr>"

text \<open>\<^verbatim>\<open>ON CONFLICT .. DO UPDATE\<close>: the analytics columns are not in the list and stay.\<close>

definition entity_update :: "entity_row \<Rightarrow> entity_row \<Rightarrow> entity_row" where
  "entity_update old new = new\<lparr>xCommunity := xCommunity old, xBetweenness := xBetweenness old\<rparr>"

definition edge_confidence :: "CEdge \<Rightarrow> rat \<times> string" where
  "edge_confidence e =
     (if cdConfidenceScore e = 0 \<and> cdConfidenceTier e = '''' then (1, TierExtracted)
      else if cdConfidenceTier e = '''' then (cdConfidenceScore e, TierFor (cdConfidenceScore e))
      else (cdConfidenceScore e, cdConfidenceTier e))"

definition edge_row_of :: "string \<Rightarrow> string \<Rightarrow> CEdge \<Rightarrow> edge_row" where
  "edge_row_of repo ext e =
     \<lparr>dRepo = repo, dFrom = cdFrom e, dTo = cdTo e, dRelation = cdRelation e, dSrcFile = cdSrcFile e,
      dProperties = cdProperties e, dScore = fst (edge_confidence e), dTier = snd (edge_confidence e), dExtractor = ext\<rparr>"

definition symbol_row_of :: "string \<Rightarrow> SymbolRow \<Rightarrow> symbol_row" where
  "symbol_row_of repo s =
     \<lparr>yRepo = repo, ySymbol = sySymbol s, yLang = syLang s, yKind = syKind s, yRole = syRole s,
      yEntityID = syEntityID s, ySrcFile = sySrcFile s\<rparr>"

definition hyperedge_row_of :: "string \<Rightarrow> string \<Rightarrow> Hyperedge \<Rightarrow> hyperedge_row" where
  "hyperedge_row_of repo ext h =
     \<lparr>zRepo = repo, zID = hyID h, zLabel = hyLabel h, zRelation = hyRelation h,
      zScore = (if hyConfidenceScore h = 0 then 1 else hyConfidenceScore h), zSrcFile = hySrcFile h,
      zProperties = hyProperties h, zExtractor = ext\<rparr>"

text \<open>The statements of \<^verbatim>\<open>Reconcile\<close>, as functions on the tables, in the order of the code.\<close>

definition owned_edge :: "string \<Rightarrow> string \<Rightarrow> string \<Rightarrow> edge_row \<Rightarrow> bool" where
  "owned_edge repo ext f r \<longleftrightarrow> dRepo r = repo \<and> dSrcFile r = f \<and> dExtractor r = ext"

definition owned_entity :: "string \<Rightarrow> string \<Rightarrow> string \<Rightarrow> entity_row \<Rightarrow> bool" where
  "owned_entity repo ext f r \<longleftrightarrow> xRepo r = repo \<and> xFilePath r = f \<and> xExtractor r = ext"

definition owned_hyperedge :: "string \<Rightarrow> string \<Rightarrow> string \<Rightarrow> hyperedge_row \<Rightarrow> bool" where
  "owned_hyperedge repo ext f r \<longleftrightarrow> zRepo r = repo \<and> zSrcFile r = f \<and> zExtractor r = ext"

definition owned_symbol :: "string \<Rightarrow> string \<Rightarrow> symbol_row \<Rightarrow> bool" where
  "owned_symbol repo f r \<longleftrightarrow> yRepo r = repo \<and> ySrcFile r = f"

definition del_edges :: "string \<Rightarrow> string \<Rightarrow> string \<Rightarrow> graph_db \<Rightarrow> graph_db" where
  "del_edges repo ext f d = d\<lparr>code_edges := tdelete (owned_edge repo ext f) (code_edges d)\<rparr>"

definition del_entities :: "string \<Rightarrow> string \<Rightarrow> string \<Rightarrow> graph_db \<Rightarrow> graph_db" where
  "del_entities repo ext f d = d\<lparr>code_entities := tdelete (owned_entity repo ext f) (code_entities d)\<rparr>"

definition del_symbols :: "string \<Rightarrow> string \<Rightarrow> graph_db \<Rightarrow> graph_db" where
  "del_symbols repo f d = d\<lparr>cross_repo_symbols := tdelete (owned_symbol repo f) (cross_repo_symbols d)\<rparr>"

definition del_members :: "string \<Rightarrow> string \<Rightarrow> string \<Rightarrow> graph_db \<Rightarrow> graph_db" where
  "del_members repo ext f d = d\<lparr>code_hyperedge_members := tdelete (\<lambda>m. mbRepo m = repo
     \<and> mbHyperedge m \<in> zID ` set (filter (owned_hyperedge repo ext f) (code_hyperedges d))) (code_hyperedge_members d)\<rparr>"

definition del_hyperedges :: "string \<Rightarrow> string \<Rightarrow> string \<Rightarrow> graph_db \<Rightarrow> graph_db" where
  "del_hyperedges repo ext f d = d\<lparr>code_hyperedges := tdelete (owned_hyperedge repo ext f) (code_hyperedges d)\<rparr>"

definition ins_entity :: "string \<Rightarrow> string \<Rightarrow> CEntity \<Rightarrow> graph_db \<Rightarrow> graph_db" where
  "ins_entity repo ext e d =
     d\<lparr>code_entities := upsert entity_key entity_update (entity_row_of repo ext e) (code_entities d)\<rparr>"

definition ins_edge :: "string \<Rightarrow> string \<Rightarrow> CEdge \<Rightarrow> graph_db \<Rightarrow> graph_db" where
  "ins_edge repo ext e d =
     d\<lparr>code_edges := upsert edge_key (\<lambda>old new. new) (edge_row_of repo ext e) (code_edges d)\<rparr>"

definition ins_symbol :: "string \<Rightarrow> SymbolRow \<Rightarrow> graph_db \<Rightarrow> graph_db" where
  "ins_symbol repo s d =
     d\<lparr>cross_repo_symbols := upsert symbol_key (\<lambda>old new. new) (symbol_row_of repo s) (cross_repo_symbols d)\<rparr>"

definition ins_hyperedge :: "string \<Rightarrow> string \<Rightarrow> Hyperedge \<Rightarrow> graph_db \<Rightarrow> graph_db" where
  "ins_hyperedge repo ext h d =
     d\<lparr>code_hyperedges := upsert hyperedge_key (\<lambda>old new. new) (hyperedge_row_of repo ext h) (code_hyperedges d)\<rparr>"

definition ins_member :: "string \<Rightarrow> string \<Rightarrow> string \<Rightarrow> graph_db \<Rightarrow> graph_db" where
  "ins_member repo hid m d = d\<lparr>code_hyperedge_members :=
     upsert id (\<lambda>old new. old) \<lparr>mbRepo = repo, mbHyperedge = hid, mbEntity = m\<rparr> (code_hyperedge_members d)\<rparr>"

definition ins_extraction :: "Time \<Rightarrow> string \<Rightarrow> string \<times> string \<Rightarrow> graph_db \<Rightarrow> graph_db" where
  "ins_extraction now repo ps d = d\<lparr>semantic_extractions := upsert extraction_key (\<lambda>old new. new)
     \<lparr>xtRepo = repo, xtFilePath = fst ps, xtSHA = snd ps, xtAt = now\<rparr> (semantic_extractions d)\<rparr>"

definition mark_dirty :: "Time \<Rightarrow> string \<Rightarrow> graph_db \<Rightarrow> graph_db" where
  "mark_dirty now repo d = d\<lparr>repo_analytics_state :=
     upsert stRepo (\<lambda>old new. old\<lparr>stDirty := True, stReconciledAt := Some now\<rparr>)
       \<lparr>stRepo = repo, stDirty = True, stReconciledAt = Some now, stComputedAt = None\<rparr> (repo_analytics_state d)\<rparr>"

section \<open>Reconcile\<close>

definition stmt :: "('db \<Rightarrow> 'db) \<Rightarrow> ('db conn, err, unit) call" where
  "stmt f = db_exec (\<lambda>d. ((), f d))"

definition push_extractor :: "GraphPush \<Rightarrow> string" where
  "push_extractor p = (if gpExtractor p = '''' then ExtractorAST else gpExtractor p)"

definition delete_file :: "string \<Rightarrow> string \<Rightarrow> string \<Rightarrow> (graph_conn, err, unit) call" where
  "delete_file repo ext f =
     bindE (stmt (del_edges repo ext f)) (\<lambda>_.
     bindE (stmt (del_entities repo ext f)) (\<lambda>_.
     bindE (if ext = ExtractorAST then stmt (del_symbols repo f) else returnE ()) (\<lambda>_.
     bindE (stmt (del_members repo ext f)) (\<lambda>_.
     stmt (del_hyperedges repo ext f)))))"

definition insert_hyperedge :: "string \<Rightarrow> string \<Rightarrow> Hyperedge \<Rightarrow> (graph_conn, err, unit) call" where
  "insert_hyperedge repo ext h =
     bindE (stmt (ins_hyperedge repo ext h)) (\<lambda>_. forE (hyMembers h) (\<lambda>m. stmt (ins_member repo (hyID h) m)))"

definition reconcile_body :: "Time \<Rightarrow> GraphPush \<Rightarrow> (graph_conn, err, PushResult) call" where
  "reconcile_body now p =
     (let repo = gpRepo p; ext = push_extractor p in
      bindE (forE (gpFiles p) (delete_file repo ext)) (\<lambda>_.
      bindE (forE (gpEntities p) (\<lambda>e. stmt (ins_entity repo ext e))) (\<lambda>_.
      bindE (forE (gpEdges p) (\<lambda>e. stmt (ins_edge repo ext e))) (\<lambda>_.
      bindE (forE (gpSymbols p) (\<lambda>s. stmt (ins_symbol repo s))) (\<lambda>_.
      bindE (forE (gpHyperedges p) (insert_hyperedge repo ext)) (\<lambda>_.
      bindE (forE (gpFileSHAs p) (\<lambda>ps. stmt (ins_extraction now repo ps))) (\<lambda>_.
      bindE (stmt (mark_dirty now repo)) (\<lambda>_.
      bindE commit (\<lambda>_.
      returnE \<lparr>puRepo = repo, puFiles = length (gpFiles p), puEntities = length (gpEntities p),
        puEdges = length (gpEdges p)\<rparr>)))))))))"

definition CG_Reconcile :: "Time \<Rightarrow> GraphPush \<Rightarrow> (graph_conn, err, PushResult) call" where
  "CG_Reconcile now p = with_tx id (reconcile_body now p)"

section \<open>Calls that run statements\<close>

text \<open>
  \<open>runs_if P m f x\<close>: on tables with \<open>P\<close> the call \<open>m\<close> fails, which a healthy connection rules out, or
  applies \<open>f\<close> to the tables and returns \<open>x\<close>; \<open>runs\<close> when that needs no condition.
\<close>

definition runs_if :: "('db \<Rightarrow> bool) \<Rightarrow> ('db conn, err, 'a) call \<Rightarrow> ('db \<Rightarrow> 'db) \<Rightarrow> 'a \<Rightarrow> bool" where
  "runs_if P m f x \<longleftrightarrow> (\<forall>c. P (tables c) \<longrightarrow> (case m c of
     (Inl e, c') \<Rightarrow> \<not> healthy c
   | (Inr y, c') \<Rightarrow> y = x \<and> tables c' = f (tables c) \<and> (healthy c \<longrightarrow> healthy c')))"

abbreviation runs :: "('db conn, err, 'a) call \<Rightarrow> ('db \<Rightarrow> 'db) \<Rightarrow> 'a \<Rightarrow> bool" where
  "runs \<equiv> runs_if (\<lambda>_. True)"

lemma runs_ifI:
  assumes "\<And>c e c'. P (tables c) \<Longrightarrow> m c = (Inl e, c') \<Longrightarrow> \<not> healthy c"
    and "\<And>c y c'. P (tables c) \<Longrightarrow> m c = (Inr y, c') \<Longrightarrow> y = x \<and> tables c' = f (tables c) \<and> (healthy c \<longrightarrow> healthy c')"
  shows "runs_if P m f x"
  unfolding runs_if_def
proof (intro allI impI)
  fix c :: "'a conn" assume P: "P (tables c)"
  obtain r c' where m: "m c = (r, c')" by fastforce
  show "case m c of (Inl e, c') \<Rightarrow> \<not> healthy c
      | (Inr y, c') \<Rightarrow> y = x \<and> tables c' = f (tables c) \<and> (healthy c \<longrightarrow> healthy c')"
  proof (cases r)
    case (Inl e)
    with m assms(1) [OF P, of e c'] show ?thesis by simp
  next
    case (Inr y)
    with m assms(2) [OF P, of y c'] show ?thesis by simp
  qed
qed

lemma runs_Inl: "runs_if P m f x \<Longrightarrow> P (tables c) \<Longrightarrow> m c = (Inl e, c') \<Longrightarrow> \<not> healthy c"
  unfolding runs_if_def by force

lemma runs_Inr:
  "runs_if P m f x \<Longrightarrow> P (tables c) \<Longrightarrow> m c = (Inr y, c') \<Longrightarrow> y = x \<and> tables c' = f (tables c) \<and> (healthy c \<longrightarrow> healthy c')"
  unfolding runs_if_def by force

lemma runs_return [intro]: "runs_if P (returnE x) id x"
  by (rule runs_ifI) (auto simp: returnE_def)

lemma runs_stmt [intro]: "runs_if P (stmt f) f ()"
  by (rule runs_ifI) (auto simp: stmt_def dest: db_exec_Inr)

lemma runs_commit [intro]: "runs_if P commit id ()"
  by (rule runs_ifI) (auto dest: commit_tables)

lemma runs_bind:
  assumes "runs_if P m f x" "runs_if Q (k x) g y" "\<And>d. P d \<Longrightarrow> Q (f d)"
  shows "runs_if P (bindE m k) (g \<circ> f) y"
proof (rule runs_ifI)
  fix c e c' assume P: "P (tables c)" and b: "bindE m k c = (Inl e, c')"
  from b consider "m c = (Inl e, c')" | x' c1 where "m c = (Inr x', c1)" "k x' c1 = (Inl e, c')"
    by (auto simp: bindE_eq_Inl)
  then show "\<not> healthy c"
  proof cases
    case 1
    then show ?thesis by (rule runs_Inl [OF assms(1) P])
  next
    case 2
    from runs_Inr [OF assms(1) P 2(1)] have "x' = x" "Q (tables c1)" "healthy c \<longrightarrow> healthy c1" using assms(3) [OF P] by auto
    with runs_Inl [OF assms(2)] 2(2) show ?thesis by blast
  qed
next
  fix c z c' assume P: "P (tables c)" and b: "bindE m k c = (Inr z, c')"
  then obtain x' c1 where mk: "m c = (Inr x', c1)" "k x' c1 = (Inr z, c')" by (auto simp: bindE_eq_Inr)
  from runs_Inr [OF assms(1) P mk(1)] have "x' = x" "tables c1 = f (tables c)" "Q (tables c1)" "healthy c \<longrightarrow> healthy c1"
    using assms(3) [OF P] by auto
  then show "z = y \<and> tables c' = (g \<circ> f) (tables c) \<and> (healthy c \<longrightarrow> healthy c')"
    using runs_Inr [OF assms(2), of c1 z c'] mk(2) by simp
qed

lemma runs_then_if:
  "runs_if P m f () \<Longrightarrow> runs_if Q n g y \<Longrightarrow> (\<And>d. P d \<Longrightarrow> Q (f d)) \<Longrightarrow> runs_if P (bindE m (\<lambda>_. n)) (g \<circ> f) y"
  by (rule runs_bind [where k = "\<lambda>_. n"])

lemma runs_then: "runs_if P m f () \<Longrightarrow> runs n g y \<Longrightarrow> runs_if P (bindE m (\<lambda>_. n)) (g \<circ> f) y"
  by (rule runs_then_if) simp_all

lemma runs_for_if:
  assumes "\<And>x ys. runs_if (P (x # ys)) (m x) (f x) ()" "\<And>x ys d. P (x # ys) d \<Longrightarrow> P ys (f x d)"
  shows "runs_if (P xs) (forE xs m) (fold f xs) ()"
proof (induction xs)
  case Nil
  then show ?case by (auto simp: id_def [symmetric])
next
  case (Cons x xs)
  have "runs_if (P (x # xs)) (bindE (m x) (\<lambda>_. forE xs m)) (fold f xs \<circ> f x) ()"
    by (rule runs_bind [OF assms(1) Cons.IH assms(2)])
  then show ?case by (simp add: comp_def)
qed

lemma runs_for: "(\<And>x. runs (m x) (f x) ()) \<Longrightarrow> runs (forE xs m) (fold f xs) ()"
  by (rule runs_for_if [where P = "\<lambda>_ _. True"])

lemma runs_tx_if:
  assumes "runs_if P m f x" "P (tables c)" "with_tx w m c = (r, c')"
  shows "if isl r then \<not> healthy c \<and> tables c' = tables c else r = Inr x \<and> tables c' = f (tables c) \<and> (healthy c \<longrightarrow> healthy c')"
proof -
  obtain rm cm where m: "m c = (rm, cm)" by fastforce
  note mc = runs_Inl [OF assms(1,2)] runs_Inr [OF assms(1,2)] m
  show ?thesis
  proof (cases r)
    case (Inl e)
    have "\<not> healthy c" using assms(3) Inl m mc(1) [of _ cm] by (cases rm) (auto simp: with_tx_healthy)
    with Inl assms(3) show ?thesis by (auto dest: with_tx_Inl)
  next
    case (Inr y)
    have h: "healthy c \<longrightarrow> healthy c'" using assms(3) Inr m mc(2) [of _ cm] by (cases rm) (auto simp: with_tx_healthy)
    obtain b where b: "tables b = tables c" "m b = (Inr y, c')" using assms(3) Inr by (auto elim: with_tx_Inr)
    then have "P (tables b)" using assms(2) by simp
    from runs_Inr [OF assms(1) this b(2)] b(1) Inr h show ?thesis by simp
  qed
qed

lemmas runs_tx = runs_tx_if [where P = "\<lambda>_. True", simplified]

section \<open>What Reconcile computes\<close>

definition delete_file_tables :: "string \<Rightarrow> string \<Rightarrow> string \<Rightarrow> graph_db \<Rightarrow> graph_db" where
  "delete_file_tables repo ext f = del_hyperedges repo ext f \<circ> del_members repo ext f
     \<circ> (if ext = ExtractorAST then del_symbols repo f else id) \<circ> del_entities repo ext f \<circ> del_edges repo ext f"

definition insert_hyperedge_tables :: "string \<Rightarrow> string \<Rightarrow> Hyperedge \<Rightarrow> graph_db \<Rightarrow> graph_db" where
  "insert_hyperedge_tables repo ext h = fold (ins_member repo (hyID h)) (hyMembers h) \<circ> ins_hyperedge repo ext h"

definition reconcile_tables :: "Time \<Rightarrow> GraphPush \<Rightarrow> graph_db \<Rightarrow> graph_db" where
  "reconcile_tables now p =
     (let repo = gpRepo p; ext = push_extractor p in
      mark_dirty now repo
      \<circ> fold (ins_extraction now repo) (gpFileSHAs p)
      \<circ> fold (insert_hyperedge_tables repo ext) (gpHyperedges p)
      \<circ> fold (ins_symbol repo) (gpSymbols p)
      \<circ> fold (ins_edge repo ext) (gpEdges p)
      \<circ> fold (ins_entity repo ext) (gpEntities p)
      \<circ> fold (delete_file_tables repo ext) (gpFiles p))"

lemma runs_delete_file: "runs (delete_file repo ext f) (delete_file_tables repo ext f) ()"
proof -
  have s: "runs (if ext = ExtractorAST then stmt (del_symbols repo f) else returnE ())
      (if ext = ExtractorAST then del_symbols repo f else id) ()" by auto
  show ?thesis
    unfolding delete_file_def delete_file_tables_def
    by (intro runs_then runs_stmt s)
qed

lemma runs_reconcile:
  "runs (reconcile_body now p) (reconcile_tables now p)
     \<lparr>puRepo = gpRepo p, puFiles = length (gpFiles p), puEntities = length (gpEntities p), puEdges = length (gpEdges p)\<rparr>"
proof -
  have h: "runs (insert_hyperedge repo ext h) (insert_hyperedge_tables repo ext h) ()"
    for repo ext h
    unfolding insert_hyperedge_def insert_hyperedge_tables_def by (intro runs_then runs_stmt runs_for)
  have "runs (reconcile_body now p) (id \<circ> id \<circ> reconcile_tables now p)
     \<lparr>puRepo = gpRepo p, puFiles = length (gpFiles p), puEntities = length (gpEntities p), puEdges = length (gpEdges p)\<rparr>"
    unfolding reconcile_body_def reconcile_tables_def Let_def comp_assoc [symmetric]
    by (intro runs_then runs_commit runs_return runs_stmt runs_for runs_delete_file h)
  then show ?thesis by simp
qed

lemmas reconcile_outcome = runs_tx [OF runs_reconcile, where w = id, folded CG_Reconcile_def]

section \<open>The tables after a push\<close>

lemmas statement_defs = del_edges_def del_entities_def del_symbols_def del_members_def del_hyperedges_def
  ins_entity_def ins_edge_def ins_symbol_def ins_hyperedge_def ins_member_def ins_extraction_def mark_dirty_def

lemma fold_ins_entity [simp]:
  "code_entities (fold (ins_entity repo ext) xs d) = fold (upsert entity_key entity_update) (map (entity_row_of repo ext) xs) (code_entities d)"
  "code_edges (fold (ins_entity repo ext) xs d) = code_edges d"
  "cross_repo_symbols (fold (ins_entity repo ext) xs d) = cross_repo_symbols d"
  "code_hyperedges (fold (ins_entity repo ext) xs d) = code_hyperedges d"
  "semantic_extractions (fold (ins_entity repo ext) xs d) = semantic_extractions d"
  "code_communities (fold (ins_entity repo ext) xs d) = code_communities d"
  "repo_analytics_state (fold (ins_entity repo ext) xs d) = repo_analytics_state d"
  by (induction xs arbitrary: d) (simp_all add: statement_defs)

lemma fold_ins_edge [simp]:
  "code_entities (fold (ins_edge repo ext) xs d) = code_entities d"
  "code_edges (fold (ins_edge repo ext) xs d) = fold (upsert edge_key (\<lambda>old new. new)) (map (edge_row_of repo ext) xs) (code_edges d)"
  "cross_repo_symbols (fold (ins_edge repo ext) xs d) = cross_repo_symbols d"
  "code_hyperedges (fold (ins_edge repo ext) xs d) = code_hyperedges d"
  "semantic_extractions (fold (ins_edge repo ext) xs d) = semantic_extractions d"
  "code_communities (fold (ins_edge repo ext) xs d) = code_communities d"
  "repo_analytics_state (fold (ins_edge repo ext) xs d) = repo_analytics_state d"
  by (induction xs arbitrary: d) (simp_all add: statement_defs)

lemma fold_ins_symbol [simp]:
  "code_entities (fold (ins_symbol repo) xs d) = code_entities d"
  "code_edges (fold (ins_symbol repo) xs d) = code_edges d"
  "cross_repo_symbols (fold (ins_symbol repo) xs d) = fold (upsert symbol_key (\<lambda>old new. new)) (map (symbol_row_of repo) xs) (cross_repo_symbols d)"
  "code_hyperedges (fold (ins_symbol repo) xs d) = code_hyperedges d"
  "semantic_extractions (fold (ins_symbol repo) xs d) = semantic_extractions d"
  "code_communities (fold (ins_symbol repo) xs d) = code_communities d"
  "repo_analytics_state (fold (ins_symbol repo) xs d) = repo_analytics_state d"
  by (induction xs arbitrary: d) (simp_all add: statement_defs)

lemma fold_ins_member [simp]:
  "code_entities (fold (ins_member repo h) xs d) = code_entities d"
  "code_edges (fold (ins_member repo h) xs d) = code_edges d"
  "cross_repo_symbols (fold (ins_member repo h) xs d) = cross_repo_symbols d"
  "code_hyperedges (fold (ins_member repo h) xs d) = code_hyperedges d"
  "semantic_extractions (fold (ins_member repo h) xs d) = semantic_extractions d"
  "code_communities (fold (ins_member repo h) xs d) = code_communities d"
  "repo_analytics_state (fold (ins_member repo h) xs d) = repo_analytics_state d"
  by (induction xs arbitrary: d) (simp_all add: statement_defs)

lemma fold_ins_hyperedge [simp]:
  "code_entities (fold (insert_hyperedge_tables repo ext) xs d) = code_entities d"
  "code_edges (fold (insert_hyperedge_tables repo ext) xs d) = code_edges d"
  "cross_repo_symbols (fold (insert_hyperedge_tables repo ext) xs d) = cross_repo_symbols d"
  "code_hyperedges (fold (insert_hyperedge_tables repo ext) xs d) = fold (upsert hyperedge_key (\<lambda>old new. new)) (map (hyperedge_row_of repo ext) xs) (code_hyperedges d)"
  "semantic_extractions (fold (insert_hyperedge_tables repo ext) xs d) = semantic_extractions d"
  "code_communities (fold (insert_hyperedge_tables repo ext) xs d) = code_communities d"
  "repo_analytics_state (fold (insert_hyperedge_tables repo ext) xs d) = repo_analytics_state d"
  by (induction xs arbitrary: d) (simp_all add: insert_hyperedge_tables_def, simp_all add: statement_defs)

lemma fold_ins_extraction [simp]:
  "code_entities (fold (ins_extraction now repo) xs d) = code_entities d"
  "code_edges (fold (ins_extraction now repo) xs d) = code_edges d"
  "cross_repo_symbols (fold (ins_extraction now repo) xs d) = cross_repo_symbols d"
  "code_hyperedges (fold (ins_extraction now repo) xs d) = code_hyperedges d"
  "semantic_extractions (fold (ins_extraction now repo) xs d) = fold (upsert extraction_key (\<lambda>old new. new)) (map (\<lambda>ps. \<lparr>xtRepo = repo, xtFilePath = fst ps, xtSHA = snd ps, xtAt = now\<rparr>) xs) (semantic_extractions d)"
  "code_communities (fold (ins_extraction now repo) xs d) = code_communities d"
  "repo_analytics_state (fold (ins_extraction now repo) xs d) = repo_analytics_state d"
  by (induction xs arbitrary: d) (simp_all add: statement_defs)

lemma fold_delete_file [simp]:
  "code_entities (fold (delete_file_tables repo ext) xs d) = tdelete (\<lambda>r. \<exists>f\<in>set xs. owned_entity repo ext f r) (code_entities d)"
  "code_edges (fold (delete_file_tables repo ext) xs d) = tdelete (\<lambda>r. \<exists>f\<in>set xs. owned_edge repo ext f r) (code_edges d)"
  "cross_repo_symbols (fold (delete_file_tables repo ext) xs d) = tdelete (\<lambda>r. ext = ExtractorAST \<and> (\<exists>f\<in>set xs. owned_symbol repo f r)) (cross_repo_symbols d)"
  "code_hyperedges (fold (delete_file_tables repo ext) xs d) = tdelete (\<lambda>r. \<exists>f\<in>set xs. owned_hyperedge repo ext f r) (code_hyperedges d)"
  "semantic_extractions (fold (delete_file_tables repo ext) xs d) = semantic_extractions d"
  "code_communities (fold (delete_file_tables repo ext) xs d) = code_communities d"
  "repo_analytics_state (fold (delete_file_tables repo ext) xs d) = repo_analytics_state d"
proof -
  show "code_entities (fold (delete_file_tables repo ext) xs d) = tdelete (\<lambda>r. \<exists>f\<in>set xs. owned_entity repo ext f r) (code_entities d)"
    by (induction xs arbitrary: d) (simp_all add: delete_file_tables_def statement_defs tdelete_tdelete tdelete_none)
  show "code_edges (fold (delete_file_tables repo ext) xs d) = tdelete (\<lambda>r. \<exists>f\<in>set xs. owned_edge repo ext f r) (code_edges d)"
    by (induction xs arbitrary: d) (simp_all add: delete_file_tables_def statement_defs tdelete_tdelete tdelete_none)
  show "cross_repo_symbols (fold (delete_file_tables repo ext) xs d) = tdelete (\<lambda>r. ext = ExtractorAST \<and> (\<exists>f\<in>set xs. owned_symbol repo f r)) (cross_repo_symbols d)"
    by (induction xs arbitrary: d) (simp_all add: delete_file_tables_def statement_defs tdelete_tdelete tdelete_none)
  show "code_hyperedges (fold (delete_file_tables repo ext) xs d) = tdelete (\<lambda>r. \<exists>f\<in>set xs. owned_hyperedge repo ext f r) (code_hyperedges d)"
    by (induction xs arbitrary: d) (simp_all add: delete_file_tables_def statement_defs tdelete_tdelete tdelete_none)
  show "semantic_extractions (fold (delete_file_tables repo ext) xs d) = semantic_extractions d"
    by (induction xs arbitrary: d) (simp_all add: delete_file_tables_def statement_defs tdelete_tdelete tdelete_none)
  show "code_communities (fold (delete_file_tables repo ext) xs d) = code_communities d"
    by (induction xs arbitrary: d) (simp_all add: delete_file_tables_def statement_defs tdelete_tdelete tdelete_none)
  show "repo_analytics_state (fold (delete_file_tables repo ext) xs d) = repo_analytics_state d"
    by (induction xs arbitrary: d) (simp_all add: delete_file_tables_def statement_defs tdelete_tdelete tdelete_none)
qed

lemmas reconcile_fields = reconcile_tables_def Let_def comp_def

lemma mark_dirty_frame [simp]:
  "code_entities (mark_dirty now repo d) = code_entities d" "code_edges (mark_dirty now repo d) = code_edges d"
  "cross_repo_symbols (mark_dirty now repo d) = cross_repo_symbols d" "code_hyperedges (mark_dirty now repo d) = code_hyperedges d"
  "semantic_extractions (mark_dirty now repo d) = semantic_extractions d"
  by (simp_all add: mark_dirty_def)

lemma state_frame [simp]:
  "repo_analytics_state (mark_dirty now repo d) = upsert stRepo (\<lambda>old new. old\<lparr>stDirty := True, stReconciledAt := Some now\<rparr>)
     \<lparr>stRepo = repo, stDirty = True, stReconciledAt = Some now, stComputedAt = None\<rparr> (repo_analytics_state d)"
  "code_communities (mark_dirty now repo d) = code_communities d"
  by (simp_all add: mark_dirty_def)

lemma row_keys [simp]:
  "edge_key (edge_row_of repo ext e) = (repo, cdFrom e, cdTo e, cdRelation e, ext)"
  "entity_key (entity_row_of repo ext n) = (repo, ceID n)"
  "hyperedge_key (hyperedge_row_of repo ext h) = (repo, hyID h)"
  "entity_key (entity_update old new) = entity_key new"
  by (simp_all add: edge_key_def edge_row_of_def entity_key_def entity_row_of_def hyperedge_key_def hyperedge_row_of_def entity_update_def)

text \<open>The unique indexes of the tables hold.\<close>

definition graph_wf :: "graph_db \<Rightarrow> bool" where
  "graph_wf d \<longleftrightarrow> distinct (map entity_key (code_entities d)) \<and> distinct (map edge_key (code_edges d))
     \<and> distinct (map symbol_key (cross_repo_symbols d)) \<and> distinct (map hyperedge_key (code_hyperedges d))
     \<and> distinct (map extraction_key (semantic_extractions d)) \<and> distinct (map stRepo (repo_analytics_state d))"

lemma graph_wf_reconcile: "graph_wf d \<Longrightarrow> graph_wf (reconcile_tables now p d)"
  unfolding graph_wf_def reconcile_fields by (simp add: distinct_upserts distinct_upsert distinct_map_tdelete)

text \<open>
  What a push asks of the graph, key by key.  A row the push names is the last one it names; any
  other row survives unless this extractor owned it through one of the files of the push.  An
  entity that survives under its old row keeps its analytics columns.
\<close>

definition surviving_edge :: "GraphPush \<Rightarrow> edge_row \<Rightarrow> bool" where
  "surviving_edge p r \<longleftrightarrow> \<not> (dRepo r = gpRepo p \<and> dExtractor r = push_extractor p \<and> dSrcFile r \<in> set (gpFiles p))"

definition surviving_entity :: "GraphPush \<Rightarrow> entity_row \<Rightarrow> bool" where
  "surviving_entity p r \<longleftrightarrow> \<not> (xRepo r = gpRepo p \<and> xExtractor r = push_extractor p \<and> xFilePath r \<in> set (gpFiles p))"

definition filter_opt :: "('a \<Rightarrow> bool) \<Rightarrow> 'a option \<Rightarrow> 'a option" where
  "filter_opt q x = (case x of Some r \<Rightarrow> if q r then Some r else None | None \<Rightarrow> None)"

definition edge_after :: "GraphPush \<Rightarrow> string \<times> string \<times> string \<times> string \<times> string \<Rightarrow> graph_db \<Rightarrow> edge_row option" where
  "edge_after p k d = (case find (\<lambda>r. edge_key r = k) (rev (map (edge_row_of (gpRepo p) (push_extractor p)) (gpEdges p))) of
     Some r \<Rightarrow> Some r
   | None \<Rightarrow> filter_opt (surviving_edge p) (lookup edge_key k (code_edges d)))"

definition entity_after :: "GraphPush \<Rightarrow> string \<times> string \<Rightarrow> graph_db \<Rightarrow> entity_row option" where
  "entity_after p k d =
     (let old = filter_opt (surviving_entity p) (lookup entity_key k (code_entities d)) in
      case find (\<lambda>r. entity_key r = k) (rev (map (entity_row_of (gpRepo p) (push_extractor p)) (gpEntities p))) of
        Some r \<Rightarrow> Some (case old of None \<Rightarrow> r | Some o1 \<Rightarrow> entity_update o1 r)
      | None \<Rightarrow> old)"

lemma edges_after_push:
  assumes "graph_wf d"
  shows "lookup edge_key k (code_edges (reconcile_tables now p d)) = edge_after p k d"
proof -
  have own: "lookup edge_key k (tdelete (\<lambda>r. \<exists>f\<in>set (gpFiles p). owned_edge (gpRepo p) (push_extractor p) f r) (code_edges d)) =
      filter_opt (surviving_edge p) (lookup edge_key k (code_edges d))"
    using assms by (auto simp: graph_wf_def lookup_tdelete filter_opt_def surviving_edge_def owned_edge_def split: option.splits)
  show ?thesis
    using assms by (simp add: reconcile_fields lookup_overwrites edge_after_def own split: option.splits)
qed

lemma entities_after_push:
  assumes "graph_wf d"
  shows "lookup entity_key k (code_entities (reconcile_tables now p d)) = entity_after p k d"
proof -
  have own: "lookup entity_key k (tdelete (\<lambda>r. \<exists>f\<in>set (gpFiles p). owned_entity (gpRepo p) (push_extractor p) f r) (code_entities d)) =
      filter_opt (surviving_entity p) (lookup entity_key k (code_entities d))"
    using assms by (auto simp: graph_wf_def lookup_tdelete filter_opt_def surviving_entity_def owned_entity_def split: option.splits)
  have "lookup entity_key k (fold (upsert entity_key entity_update) (map (entity_row_of (gpRepo p) (push_extractor p)) (gpEntities p)) t) =
      (case find (\<lambda>r. entity_key r = k) (rev (map (entity_row_of (gpRepo p) (push_extractor p)) (gpEntities p))) of
        None \<Rightarrow> lookup entity_key k t
      | Some r \<Rightarrow> Some (case lookup entity_key k t of None \<Rightarrow> r | Some x \<Rightarrow> entity_update x r))" for t
    by (rule lookup_upserts) (auto simp: entity_update_def entity_row_of_def entity_key_def)
  then show ?thesis
    using assms by (simp add: reconcile_fields entity_after_def own split: option.splits)
qed

text \<open>
  C20: a push to the code graph is atomic and replaces exactly what it owns.  Whatever driver call
  fails, an error leaves every table as it was, and a database that answers gives no error.  A
  success keeps the unique indexes, reports what was pushed, and afterwards every edge and every
  entity, looked up by its key, is the last one pushed under that key, or else the old one, unless
  the same extractor owned it through one of the files of the push.
\<close>

theorem reconcile_replaces:
  assumes "graph_wf (tables c)"
  shows "case CG_Reconcile now p c of
     (Inl e, c') \<Rightarrow> \<not> healthy c \<and> tables c' = tables c
   | (Inr r, c') \<Rightarrow> graph_wf (tables c') \<and> puEntities r = length (gpEntities p) \<and> puEdges r = length (gpEdges p)
       \<and> (\<forall>k. lookup edge_key k (code_edges (tables c')) = edge_after p k (tables c))
       \<and> (\<forall>k. lookup entity_key k (code_entities (tables c')) = entity_after p k (tables c))"
proof -
  obtain r c' where c: "CG_Reconcile now p c = (r, c')" by fastforce
  show ?thesis
    using reconcile_outcome [OF c] c assms
    by (cases r) (auto simp: graph_wf_reconcile edges_after_push entities_after_push)
qed

definition entity0 :: "string \<Rightarrow> string \<Rightarrow> CEntity" where
  "entity0 i f = \<lparr>ceID = i, ceName = i, ceType = ''func'', ceDescription = '''', ceFilePath = f, ceLineStart = 1, ceLineEnd = 2,
     ceSourceURL = '''', ceAuthor = '''', ceCapturedAt = '''', ceProperties = Map.empty\<rparr>"

definition edge0 :: "string \<Rightarrow> string \<Rightarrow> string \<Rightarrow> CEdge" where
  "edge0 a b f = \<lparr>cdFrom = a, cdTo = b, cdRelation = ''calls'', cdSrcFile = f, cdConfidenceScore = 0, cdConfidenceTier = '''', cdProperties = Map.empty\<rparr>"

definition push0 :: "string \<Rightarrow> CEntity list \<Rightarrow> CEdge list \<Rightarrow> GraphPush" where
  "push0 ext ns es = \<lparr>gpRepo = ''r'', gpCommit = '''', gpExtractor = ext, gpFiles = [''f''], gpEntities = ns, gpEdges = es,
     gpSymbols = [], gpHyperedges = [], gpFileSHAs = []\<rparr>"

definition empty_graph :: graph_db where
  "empty_graph = \<lparr>code_entities = [], code_edges = [], cross_repo_symbols = [], code_hyperedges = [], code_hyperedge_members = [],
     semantic_extractions = [], code_communities = [], repo_analytics_state = []\<rparr>"

lemma empty_graph_wf [simp]: "graph_wf empty_graph"
  by (simp add: graph_wf_def empty_graph_def)

theorem reconcile_replaces_witness:
  "lookup edge_key (''r'', ''a'', ''b'', ''calls'', ''ast'')
     (code_edges (tables (snd (CG_Reconcile 0 (push0 '''' [entity0 ''a'' ''f''] [edge0 ''a'' ''b'' ''f''])
       \<lparr>tables = empty_graph, script = []\<rparr>)))) = Some (edge_row_of ''r'' ''ast'' (edge0 ''a'' ''b'' ''f''))"
proof -
  let ?c = "\<lparr>tables = empty_graph, script = []\<rparr>"
  let ?p = "push0 '''' [entity0 ''a'' ''f''] [edge0 ''a'' ''b'' ''f'']"
  have "graph_wf (tables ?c)" "healthy ?c" by (simp_all add: healthy_def)
  with reconcile_replaces [where c = ?c and now = 0 and p = ?p]
  have "\<forall>k. lookup edge_key k (code_edges (tables (snd (CG_Reconcile 0 ?p ?c)))) = edge_after ?p k (tables ?c)"
    by (auto split: prod.splits sum.splits)
  moreover have "edge_after ?p (''r'', ''a'', ''b'', ''calls'', ''ast'') (tables ?c) = Some (edge_row_of ''r'' ''ast'' (edge0 ''a'' ''b'' ''f''))"
    by (simp add: edge_after_def push0_def edge0_def push_extractor_def ExtractorAST_def)
  ultimately show ?thesis by simp
qed

text \<open>
  Edges are owned per extractor, entities are not: the key of an entity has no extractor, so
  a push of the semantic extractor takes over an entity the AST extractor pushed for the same file,
  and the next push of the semantic extractor removes it although the AST extractor never did.
\<close>

theorem semantic_push_steals_entity:
  "let d1 = reconcile_tables 0 (push0 ''ast'' [entity0 ''a'' ''f''] [edge0 ''a'' ''b'' ''f'']) empty_graph;
       d2 = reconcile_tables 1 (push0 ''semantic'' [entity0 ''a'' ''f''] [edge0 ''a'' ''b'' ''f'']) d1;
       d3 = reconcile_tables 2 (push0 ''semantic'' [] []) d2
   in lookup entity_key (''r'', ''a'') (code_entities d1) \<noteq> None
    \<and> lookup entity_key (''r'', ''a'') (code_entities d3) = None
    \<and> lookup edge_key (''r'', ''a'', ''b'', ''calls'', ''ast'') (code_edges d3) \<noteq> None"
proof -
  define d1 where "d1 = reconcile_tables 0 (push0 ''ast'' [entity0 ''a'' ''f''] [edge0 ''a'' ''b'' ''f'']) empty_graph"
  define d2 where "d2 = reconcile_tables 1 (push0 ''semantic'' [entity0 ''a'' ''f''] [edge0 ''a'' ''b'' ''f'']) d1"
  define d3 where "d3 = reconcile_tables 2 (push0 ''semantic'' [] []) d2"
  note push = push0_def entity0_def edge0_def push_extractor_def filter_opt_def surviving_entity_def surviving_edge_def
    entity_after_def edge_after_def
  have wf: "graph_wf d1" "graph_wf d2" by (simp_all add: d1_def d2_def graph_wf_reconcile)
  have n1: "\<exists>r. lookup entity_key (''r'', ''a'') (code_entities d1) = Some r \<and> xExtractor r = ''ast''"
    by (simp add: d1_def entities_after_push push) (simp add: empty_graph_def entity_row_of_def)
  then have n2: "\<exists>r. lookup entity_key (''r'', ''a'') (code_entities d2) = Some r \<and> xExtractor r = ''semantic'' \<and> xRepo r = ''r'' \<and> xFilePath r = ''f''"
    by (auto simp: d2_def entities_after_push wf push) (simp_all add: entity_update_def entity_row_of_def)
  then have n3: "lookup entity_key (''r'', ''a'') (code_entities d3) = None"
    by (auto simp: d3_def entities_after_push wf push)
  have e1: "\<exists>r. lookup edge_key (''r'', ''a'', ''b'', ''calls'', ''ast'') (code_edges d1) = Some r \<and> dExtractor r = ''ast''"
    by (simp add: d1_def edges_after_push push) (simp add: edge_row_of_def)
  then have e2: "\<exists>r. lookup edge_key (''r'', ''a'', ''b'', ''calls'', ''ast'') (code_edges d2) = Some r \<and> dExtractor r = ''ast''"
    by (auto simp: d2_def edges_after_push wf push)
  then have e3: "\<exists>r. lookup edge_key (''r'', ''a'', ''b'', ''calls'', ''ast'') (code_edges d3) = Some r"
    by (auto simp: d3_def edges_after_push wf push)
  show ?thesis using n1 n3 e3 unfolding Let_def by (auto simp: d1_def d2_def d3_def)
qed

end
