(* ===== verification/Analytics_Compute.thy ===== *)
theory Analytics_Compute
  imports Prelude
begin

text \<open>
  Graph signals of a repository (\<^verbatim>\<open>internal/analytics/compute.go\<close>).

  The undirected graph, Louvain's communities and Brandes' betweenness are gonum's: the record
  \<open>gonum\<close> holds the operations \<open>Compute\<close> calls, and \<open>gonum_ok\<close> says what they are documented
  to do.  \<open>Modularize\<close> stands for \<^verbatim>\<open>community.Modularize(g, 1.0, src)\<close> with the fixed seed, followed by
  \<^verbatim>\<open>Communities()\<close>.  Floating point numbers are exact fractions; a duration is an argument.
\<close>

record 'g gonum =
  NewUndirectedGraph :: 'g
  AddNode :: "int \<Rightarrow> 'g \<Rightarrow> 'g"
  HasEdgeBetween :: "'g \<Rightarrow> int \<Rightarrow> int \<Rightarrow> bool"
  SetEdge :: "int \<Rightarrow> int \<Rightarrow> 'g \<Rightarrow> 'g"
  NodesFrom :: "'g \<Rightarrow> int \<Rightarrow> int list"
  Modularize :: "'g \<Rightarrow> int list list"
  Betweenness :: "'g \<Rightarrow> int \<rightharpoonup> rat"

record AEdge =
  aeFrom :: string
  aeTo :: string

record NodeSignal =
  nsID :: string
  nsCommunity :: nat
  nsBetweenness :: rat

record CommunitySignal =
  csCommunity :: nat
  csSize :: nat
  csCohesion :: rat
  csMembers :: "string list"

record AConfig =
  acMaxNodes :: int

record AResult =
  arNodes :: "NodeSignal list"
  arCommunities :: "CommunitySignal list"
  arNodeCount :: nat
  arEdgeCount :: nat
  arRawEdgeCount :: nat
  arDurationMs :: int
  arBetweennessSkipped :: bool

definition empty_result :: AResult where
  "empty_result = \<lparr>arNodes = [], arCommunities = [], arNodeCount = 0, arEdgeCount = 0, arRawEdgeCount = 0,
     arDurationMs = 0, arBetweennessSkipped = False\<rparr>"

section \<open>Compute\<close>

definition math_Round :: "rat \<Rightarrow> int" where
  "math_Round x = (if x < 0 then - \<lfloor>1 / 2 - x\<rfloor> else \<lfloor>x + 1 / 2\<rfloor>)"

definition idToNode :: "string list \<Rightarrow> string \<rightharpoonup> int" where
  "idToNode ids = map_of (rev (zip ids (map int [0..<length ids])))"

definition nodeToID :: "string list \<Rightarrow> int \<Rightarrow> string" where
  "nodeToID ids nid = (if 0 \<le> nid \<and> nat nid < length ids then ids ! nat nid else '''')"

definition add_nodes :: "'g gonum \<Rightarrow> string list \<Rightarrow> 'g" where
  "add_nodes G ids = fold (\<lambda>i. AddNode G (int i)) [0..<length ids] (NewUndirectedGraph G)"

definition add_edge :: "'g gonum \<Rightarrow> (string \<rightharpoonup> int) \<Rightarrow> AEdge \<Rightarrow> 'g \<times> nat \<Rightarrow> 'g \<times> nat" where
  "add_edge G nodes e s = (case s of (g, n) \<Rightarrow>
     (case (nodes (aeFrom e), nodes (aeTo e)) of
        (Some f, Some t) \<Rightarrow>
          if f = t then (g, n)
          else if HasEdgeBetween G g f t then (g, n)
          else (SetEdge G f t g, n + 1)
      | _ \<Rightarrow> (g, n)))"

definition cohesion :: "'g gonum \<Rightarrow> 'g \<Rightarrow> int list \<Rightarrow> rat" where
  "cohesion G g members =
     (let n = length members in
      if n < 2 then 0
      else let internal = sum_list (map (\<lambda>m. length (filter (\<lambda>v. v \<in> set members) (NodesFrom G g m))) members) div 2
           in of_nat internal / (of_nat (n * (n - 1)) / 2))"

definition normalize :: "nat \<Rightarrow> rat \<Rightarrow> rat" where
  "normalize n v =
     (let norm = (if n \<ge> 3 then of_nat ((n - 1) * (n - 2)) else 1)
      in of_int (math_Round (v / norm * 1000000)) / 1000000)"

definition community_of :: "(nat \<times> string list) list \<Rightarrow> string \<Rightarrow> nat" where
  "community_of comms i = fold (\<lambda>(ci, ms) c. if i \<in> set ms then ci else c) comms 0"

definition Compute :: "'g gonum \<Rightarrow> int \<Rightarrow> string list \<Rightarrow> AEdge list \<Rightarrow> AConfig \<Rightarrow> AResult" where
  "Compute G durationMs ids edges cfg =
     (if ids = [] then empty_result
      else
        let (g, edgeCount) = fold (add_edge G (idToNode ids)) edges (add_nodes G ids, 0);
            comms = Modularize G g;
            n = length ids;
            skipped = (0 < acMaxNodes cfg \<and> acMaxNodes cfg < int n);
            betweenness = (\<lambda>nid. if skipped then 0 else case Betweenness G g nid of None \<Rightarrow> 0 | Some v \<Rightarrow> normalize n v);
            named = zip [0..<length comms] (map (map (nodeToID ids)) comms);
            nodes = map (\<lambda>i. \<lparr>nsID = i, nsCommunity = community_of named i,
                              nsBetweenness = betweenness (case idToNode ids i of None \<Rightarrow> 0 | Some nid \<Rightarrow> nid)\<rparr>) ids;
            communities = map (\<lambda>(ci, ms). \<lparr>csCommunity = ci, csSize = length ms, csCohesion = cohesion G g (comms ! ci), csMembers = ms\<rparr>)
              (filter (\<lambda>(ci, ms). ms \<noteq> []) named)
        in \<lparr>arNodes = nodes, arCommunities = communities, arNodeCount = n, arEdgeCount = edgeCount,
             arRawEdgeCount = length edges, arDurationMs = durationMs, arBetweennessSkipped = skipped\<rparr>)"

section \<open>What gonum is documented to do\<close>

text \<open>
  \<open>nodes\<close> and \<open>adj\<close> read a graph as its node set and its symmetric adjacency.  Modularize returns a
  partition of the nodes into non-empty lists; Betweenness counts, for a node, at most all ordered
  pairs of other nodes.
\<close>

definition partition_of :: "'a set \<Rightarrow> 'a list list \<Rightarrow> bool" where
  "partition_of A xss \<longleftrightarrow> distinct (concat xss) \<and> set (concat xss) = A \<and> [] \<notin> set xss"

definition gonum_ok :: "'g gonum \<Rightarrow> ('g \<Rightarrow> int set) \<Rightarrow> ('g \<Rightarrow> (int \<times> int) set) \<Rightarrow> bool" where
  "gonum_ok G nodes adj \<longleftrightarrow>
     nodes (NewUndirectedGraph G) = {} \<and> adj (NewUndirectedGraph G) = {}
   \<and> (\<forall>g v. nodes (AddNode G v g) = insert v (nodes g) \<and> adj (AddNode G v g) = adj g)
   \<and> (\<forall>g u v. HasEdgeBetween G g u v \<longleftrightarrow> (u, v) \<in> adj g)
   \<and> (\<forall>g u v. u \<noteq> v \<longrightarrow> nodes (SetEdge G u v g) = insert u (insert v (nodes g))
        \<and> adj (SetEdge G u v g) = insert (u, v) (insert (v, u) (adj g)))
   \<and> (\<forall>g v. distinct (NodesFrom G g v) \<and> set (NodesFrom G g v) = {u. (v, u) \<in> adj g})
   \<and> (\<forall>g. finite (nodes g) \<longrightarrow> partition_of (nodes g) (Modularize G g))
   \<and> (\<forall>g v x. finite (nodes g) \<longrightarrow> Betweenness G g v = Some x \<longrightarrow>
        0 \<le> x \<and> x \<le> of_nat ((card (nodes g) - 1) * (card (nodes g) - 2)))"

section \<open>The graph that is built\<close>

definition pairs :: "(int \<times> int) set \<Rightarrow> int set set" where
  "pairs r = (\<lambda>(u, v). {u, v}) ` r"

definition simple_adj :: "int set \<Rightarrow> (int \<times> int) set \<Rightarrow> bool" where
  "simple_adj N r \<longleftrightarrow> r \<subseteq> N \<times> N \<and> sym r \<and> irrefl r"

lemma pairs_add:
  assumes "sym r" "irrefl r" "finite r" "(u, v) \<notin> r" "u \<noteq> v"
  shows "card (pairs (insert (u, v) (insert (v, u) r))) = Suc (card (pairs r))"
proof -
  have "{u, v} \<notin> pairs r" using assms by (auto simp: pairs_def doubleton_eq_iff dest: symD)
  moreover have "pairs (insert (u, v) (insert (v, u) r)) = insert {u, v} (pairs r)" by (auto simp: pairs_def)
  ultimately show ?thesis using assms(3) by (simp add: pairs_def)
qed

definition joined :: "(string \<rightharpoonup> int) \<Rightarrow> AEdge list \<Rightarrow> int set set" where
  "joined f edges = {{u, v} |u v e. e \<in> set edges \<and> f (aeFrom e) = Some u \<and> f (aeTo e) = Some v \<and> u \<noteq> v}"

lemma joined_Cons:
  "joined f (e # es) = (case (f (aeFrom e), f (aeTo e)) of (Some u, Some v) \<Rightarrow> if u = v then {} else {{u, v}} | _ \<Rightarrow> {}) \<union> joined f es"
  by (auto simp: joined_def split: option.splits)

lemma add_edges_graph:
  assumes ok: "gonum_ok G nodes adj" and N: "finite N" "ran f \<subseteq> N"
    and s: "nodes g = N" "simple_adj N (adj g)" "n = card (pairs (adj g))"
    and r: "fold (add_edge G f) edges (g, n) = (g', n')"
  shows "nodes g' = N \<and> simple_adj N (adj g') \<and> n' = card (pairs (adj g')) \<and> pairs (adj g') = pairs (adj g) \<union> joined f edges"
  using s r
proof (induction edges arbitrary: g n)
  case Nil
  then show ?case by (auto simp: joined_def)
next
  case (Cons e es)
  show ?case
  proof (cases "\<exists>u v. f (aeFrom e) = Some u \<and> f (aeTo e) = Some v \<and> u \<noteq> v")
    case False
    then have "add_edge G f e (g, n) = (g, n)" by (auto simp: add_edge_def split: option.splits)
    moreover have "joined f (e # es) = joined f es" using False by (auto simp: joined_Cons split: option.splits)
    ultimately show ?thesis using Cons.IH [OF Cons.prems(1-3)] Cons.prems(4) by simp
  next
    case True
    then obtain u v where uv: "f (aeFrom e) = Some u" "f (aeTo e) = Some v" "u \<noteq> v" by blast
    have mem: "u \<in> N" "v \<in> N" using uv N(2) by (auto intro: ranI)
    have has: "HasEdgeBetween G g u v \<longleftrightarrow> (u, v) \<in> adj g" using ok by (simp add: gonum_ok_def)
    have j: "joined f (e # es) = insert {u, v} (joined f es)" using uv by (simp add: joined_Cons)
    show ?thesis
    proof (cases "(u, v) \<in> adj g")
      case True
      then have "add_edge G f e (g, n) = (g, n)" using uv has by (simp add: add_edge_def)
      moreover have "{u, v} \<in> pairs (adj g)" using True by (force simp: pairs_def)
      ultimately show ?thesis using Cons.IH [OF Cons.prems(1-3)] Cons.prems(4) j by auto
    next
      case False
      have new: "add_edge G f e (g, n) = (SetEdge G u v g, n + 1)" using uv has False by (simp add: add_edge_def)
      have g': "nodes (SetEdge G u v g) = N" "adj (SetEdge G u v g) = insert (u, v) (insert (v, u) (adj g))"
        using ok uv(3) Cons.prems(1) mem by (auto simp: gonum_ok_def)
      have simp': "simple_adj N (adj (SetEdge G u v g))"
        using Cons.prems(2) mem uv(3) unfolding g'(2) simple_adj_def sym_def irrefl_def by auto
      have fin: "finite (adj g)" using Cons.prems(2) N(1) unfolding simple_adj_def by (meson finite_SigmaI finite_subset)
      have cnt: "n + 1 = card (pairs (adj (SetEdge G u v g)))"
        using pairs_add [OF _ _ fin False uv(3)] Cons.prems(2,3) unfolding g'(2) simple_adj_def by simp
      have "pairs (adj (SetEdge G u v g)) = insert {u, v} (pairs (adj g))" unfolding g'(2) by (auto simp: pairs_def)
      with Cons.IH [OF g'(1) simp' cnt] Cons.prems(4) new j show ?thesis by auto
    qed
  qed
qed

lemma add_nodes_graph:
  assumes "gonum_ok G nodes adj"
  shows "nodes (add_nodes G ids) = int ` {0..<length ids} \<and> adj (add_nodes G ids) = {}"
proof -
  have "nodes (fold (\<lambda>i. AddNode G (int i)) is g) = nodes g \<union> int ` set is \<and> adj (fold (\<lambda>i. AddNode G (int i)) is g) = adj g" for "is" g
    using assms by (induction "is" arbitrary: g) (auto simp: gonum_ok_def)
  then show ?thesis using assms by (simp add: add_nodes_def gonum_ok_def)
qed

lemma idToNode_distinct:
  assumes "distinct ids"
  shows "idToNode ids i = Some v \<longleftrightarrow> 0 \<le> v \<and> nat v < length ids \<and> ids ! nat v = i"
proof -
  have d: "distinct (map fst (rev (zip ids (map int [0..<length ids]))))" using assms by (simp add: rev_map [symmetric])
  have "idToNode ids i = Some v \<longleftrightarrow> (i, v) \<in> set (zip ids (map int [0..<length ids]))"
    unfolding idToNode_def using map_of_eq_Some_iff [OF d] by simp
  also have "\<dots> \<longleftrightarrow> (\<exists>k<length ids. ids ! k = i \<and> int k = v)" by (auto simp: in_set_zip)
  also have "\<dots> \<longleftrightarrow> 0 \<le> v \<and> nat v < length ids \<and> ids ! nat v = i" by (metis int_nat_eq nat_int of_nat_0_le_iff)
  finally show ?thesis .
qed

lemma graph_of_ids:
  assumes "gonum_ok G nodes adj" "distinct ids"
    and "fold (add_edge G (idToNode ids)) edges (add_nodes G ids, 0) = (g, n)"
  shows "nodes g = int ` {0..<length ids} \<and> simple_adj (nodes g) (adj g) \<and> n = card (joined (idToNode ids) edges)"
proof -
  let ?N = "int ` {0..<length ids}"
  have ran: "ran (idToNode ids) \<subseteq> ?N"
  proof
    fix v assume "v \<in> ran (idToNode ids)"
    then have "0 \<le> v" "nat v < length ids" using idToNode_distinct [OF assms(2)] by (auto simp: ran_def)
    then show "v \<in> ?N" by (intro image_eqI [of _ _ "nat v"]) auto
  qed
  have g0: "nodes (add_nodes G ids) = ?N" "adj (add_nodes G ids) = {}" using add_nodes_graph [OF assms(1)] by auto
  have s0: "simple_adj ?N (adj (add_nodes G ids))" "0 = card (pairs (adj (add_nodes G ids)))"
    by (simp_all add: g0 simple_adj_def pairs_def sym_def irrefl_def)
  show ?thesis
    using add_edges_graph [OF assms(1) _ ran g0(1) s0 assms(3)] by (simp add: g0 pairs_def)
qed

definition linked_ids :: "string list \<Rightarrow> AEdge list \<Rightarrow> string set set" where
  "linked_ids ids edges = {{aeFrom e, aeTo e} |e. e \<in> set edges \<and> aeFrom e \<noteq> aeTo e \<and> {aeFrom e, aeTo e} \<subseteq> set ids}"

lemma card_joined:
  assumes "distinct ids"
  shows "card (joined (idToNode ids) edges) = card (linked_ids ids edges)"
proof -
  note node = idToNode_distinct [OF assms]
  let ?f = "\<lambda>i. the (idToNode ids i)"
  have some: "\<exists>v. idToNode ids i = Some v" if "i \<in> set ids" for i
    using that node by (auto simp: in_set_conv_nth) (metis nat_int of_nat_0_le_iff)
  have inj: "inj_on ?f (set ids)"
  proof (rule inj_onI)
    fix i j assume ij: "i \<in> set ids" "j \<in> set ids" "?f i = ?f j"
    obtain u v where "idToNode ids i = Some u" "idToNode ids j = Some v" using some ij by blast
    with ij(3) show "i = j" using node [of i u] node [of j v] by simp
  qed
  have dom: "idToNode ids i = Some v \<Longrightarrow> i \<in> set ids" for i v using node by auto
  have "joined (idToNode ids) edges = (\<lambda>A. ?f ` A) ` linked_ids ids edges" (is "?L = ?R")
  proof (intro set_eqI iffI)
    fix P assume "P \<in> ?L"
    then obtain u v e where e: "P = {u, v}" "e \<in> set edges" "idToNode ids (aeFrom e) = Some u" "idToNode ids (aeTo e) = Some v" "u \<noteq> v"
      unfolding joined_def by blast
    moreover have "aeFrom e \<noteq> aeTo e" using e by auto
    ultimately have "{aeFrom e, aeTo e} \<in> linked_ids ids edges" unfolding linked_ids_def using dom [of "aeFrom e"] dom [of "aeTo e"] by auto
    moreover have "P = ?f ` {aeFrom e, aeTo e}" using e by simp
    ultimately show "P \<in> ?R" by blast
  next
    fix P assume "P \<in> ?R"
    then obtain e where e: "e \<in> set edges" "aeFrom e \<noteq> aeTo e" "aeFrom e \<in> set ids" "aeTo e \<in> set ids" "P = {?f (aeFrom e), ?f (aeTo e)}"
      unfolding linked_ids_def by auto
    moreover obtain u v where "idToNode ids (aeFrom e) = Some u" "idToNode ids (aeTo e) = Some v" using some e by blast
    moreover have "?f (aeFrom e) \<noteq> ?f (aeTo e)" using e inj by (meson inj_onD)
    ultimately show "P \<in> ?L" unfolding joined_def by auto
  qed
  moreover have "inj_on (\<lambda>A. ?f ` A) (linked_ids ids edges)"
    by (rule inj_on_subset [OF inj_on_image_Pow [OF inj]]) (auto simp: linked_ids_def)
  ultimately show ?thesis by (simp add: card_image)
qed

section \<open>Bounds of the signals\<close>

lemma math_Round_bounds: "0 \<le> x \<Longrightarrow> x \<le> of_int m \<Longrightarrow> 0 \<le> math_Round x \<and> math_Round x \<le> m"
proof -
  assume x: "0 \<le> x" "x \<le> of_int m"
  have "x + 1 / 2 < of_int (m + 1)" using x(2) by simp
  then have "\<lfloor>x + 1 / 2\<rfloor> < m + 1" by (simp only: floor_less_iff)
  with x(1) show ?thesis by (auto simp: math_Round_def)
qed

lemma normalize_bounds:
  assumes "0 \<le> v" "v \<le> of_nat ((n - 1) * (n - 2))"
  shows "0 \<le> normalize n v \<and> normalize n v \<le> 1"
proof -
  define q where "q = v / (if n \<ge> 3 then of_nat ((n - 1) * (n - 2)) else 1)"
  have q: "0 \<le> q" "q \<le> 1"
  proof -
    show "0 \<le> q" using assms(1) by (simp add: q_def)
    show "q \<le> 1"
    proof (cases "n \<ge> 3")
      case True
      then have "(0::rat) < of_nat ((n - 1) * (n - 2))" by (simp only: of_nat_0_less_iff) simp
      with assms(2) True show ?thesis by (simp add: q_def divide_le_eq)
    next
      case False
      then have "(n - 1) * (n - 2) = 0" by auto
      with assms(2) have "v \<le> 0" by (simp only: of_nat_0)
      with False show ?thesis by (simp add: q_def)
    qed
  qed
  have "0 \<le> math_Round (q * 1000000) \<and> math_Round (q * 1000000) \<le> 1000000"
    by (rule math_Round_bounds) (use q in simp_all)
  then show ?thesis unfolding normalize_def q_def [symmetric] Let_def by (simp add: divide_le_eq)
qed

lemma cohesion_bounds:
  assumes "gonum_ok G nodes adj" "simple_adj N (adj g)" "distinct members"
  shows "0 \<le> cohesion G g members \<and> cohesion G g members \<le> 1"
proof (cases "length members < 2")
  case False
  let ?n = "length members"
  let ?inside = "\<lambda>m. length (filter (\<lambda>v. v \<in> set members) (NodesFrom G g m))"
  define total where "total = sum_list (map ?inside members)"
  have inside: "?inside m \<le> ?n - 1" if "m \<in> set members" for m
  proof -
    have from_m: "distinct (NodesFrom G g m)" "set (NodesFrom G g m) = {u. (m, u) \<in> adj g}" using assms(1) by (auto simp: gonum_ok_def)
    have "m \<notin> set (NodesFrom G g m)" using assms(2) from_m(2) by (simp add: simple_adj_def irrefl_def)
    then have "set (filter (\<lambda>v. v \<in> set members) (NodesFrom G g m)) \<subseteq> set members - {m}" by auto
    then have "card (set (filter (\<lambda>v. v \<in> set members) (NodesFrom G g m))) \<le> card (set members - {m})"
      by (intro card_mono) auto
    moreover have "card (set (filter (\<lambda>v. v \<in> set members) (NodesFrom G g m))) = ?inside m"
      by (rule distinct_card) (simp add: from_m(1))
    ultimately show ?thesis using that assms(3) by (simp add: distinct_card card_Diff_singleton)
  qed
  have "sum_list (map ?inside members) \<le> sum_list (map (\<lambda>_. ?n - 1) members)" by (intro sum_list_mono inside)
  then have "total \<le> ?n * (?n - 1)" by (simp add: total_def sum_list_triv)
  then have "total div 2 * 2 \<le> ?n * (?n - 1)" by presburger
  then have "of_nat (total div 2 * 2) \<le> (of_nat (?n * (?n - 1)) :: rat)" by (simp only: of_nat_le_iff)
  moreover have "(0::rat) < of_nat (?n * (?n - 1))" using False by (simp only: of_nat_0_less_iff) auto
  ultimately have "of_nat (total div 2) / (of_nat (?n * (?n - 1)) / 2) \<le> (1::rat)" by (simp add: divide_le_eq)
  moreover have "cohesion G g members = of_nat (total div 2) / (of_nat (?n * (?n - 1)) / 2)"
    using False by (simp add: cohesion_def Let_def total_def)
  ultimately show ?thesis by simp
qed (simp add: cohesion_def)

section \<open>Communities\<close>

lemma fold_last_member:
  "(\<forall>(cj, mj) \<in> set cs. i \<in> set mj \<longrightarrow> cj = ci) \<Longrightarrow>
   fold (\<lambda>(ci, ms) c. if i \<in> set ms then ci else c) cs c0 = (if \<exists>(cj, mj) \<in> set cs. i \<in> set mj then ci else c0)"
proof (induction cs arbitrary: c0)
  case (Cons p cs)
  obtain a b where p: "p = (a, b)" by (cases p)
  have "\<forall>(cj, mj) \<in> set cs. i \<in> set mj \<longrightarrow> cj = ci" using Cons.prems by simp
  note IH = Cons.IH [OF this]
  show ?case
  proof (cases "i \<in> set b")
    case True
    then have "a = ci" using Cons.prems p by simp
    with True IH [of ci] p show ?thesis by simp
  next
    case False
    with IH [of c0] p show ?thesis by simp
  qed
qed simp

lemma community_of_unique:
  assumes "\<And>cj mj. (cj, mj) \<in> set comms \<Longrightarrow> i \<in> set mj \<Longrightarrow> cj = ci" "(ci, ms) \<in> set comms" "i \<in> set ms"
  shows "community_of comms i = ci"
proof -
  have "\<forall>(cj, mj) \<in> set comms. i \<in> set mj \<longrightarrow> cj = ci" using assms(1) by blast
  moreover have "\<exists>(cj, mj) \<in> set comms. i \<in> set mj" using assms(2,3) by blast
  ultimately show ?thesis unfolding community_of_def by (simp only: fold_last_member if_True)
qed

lemma distinct_concat_disjoint:
  "distinct (concat xss) \<Longrightarrow> a < length xss \<Longrightarrow> b < length xss \<Longrightarrow> x \<in> set (xss ! a) \<Longrightarrow> x \<in> set (xss ! b) \<Longrightarrow> a = b"
proof (induction xss arbitrary: a b)
  case (Cons xs xss)
  have off: "y \<notin> set xs" if "c < length xss" "y \<in> set (xss ! c)" for c y using Cons.prems(1) that by (fastforce dest: nth_mem)
  from Cons show ?case using off by (cases a; cases b) auto
qed simp

lemma sum_nonempty_lengths: "sum_list (map (\<lambda>p. length (snd p)) (filter (\<lambda>(ci, ms). ms \<noteq> []) ps)) = length (concat (map snd ps))"
  by (induction ps) auto

lemma named_partition:
  assumes "distinct ids" "partition_of (int ` {0..<length ids}) comms"
  shows "distinct (concat (map (map (nodeToID ids)) comms)) \<and> set (concat (map (map (nodeToID ids)) comms)) = set ids"
proof -
  let ?N = "int ` {0..<length ids}"
  have c: "distinct (concat comms)" "set (concat comms) = ?N" using assms(2) by (auto simp: partition_of_def)
  have "inj_on (nodeToID ids) ?N" using assms(1) by (auto simp: inj_on_def nodeToID_def nth_eq_iff_index_eq)
  moreover have "nodeToID ids ` ?N = set ids" 
  proof -
    have "nodeToID ids ` ?N = (\<lambda>k. ids ! k) ` {0..<length ids}" unfolding image_image by (intro image_cong) (simp_all add: nodeToID_def)
    then show ?thesis by (auto simp: in_set_conv_nth)
  qed
  ultimately show ?thesis using c unfolding map_concat [symmetric] distinct_map set_map by simp
qed

section \<open>What Compute returns\<close>

lemma gonum_partition: "gonum_ok G nodes adj \<Longrightarrow> finite (nodes g) \<Longrightarrow> partition_of (nodes g) (Modularize G g)"
  by (simp add: gonum_ok_def)

lemma community_rows:
  assumes "distinct (concat mss)" "named = zip [0..<length mss] mss" "i \<in> set (concat mss)"
  shows "\<forall>(ci, ms) \<in> set named. i \<in> set ms \<longleftrightarrow> ci = community_of named i"
proof -
  have mem: "(ci, ms) \<in> set named \<longleftrightarrow> ci < length mss \<and> ms = mss ! ci" for ci ms
  proof
    assume "(ci, ms) \<in> set named"
    then show "ci < length mss \<and> ms = mss ! ci" unfolding assms(2) by (auto simp: in_set_zip)
  next
    assume a: "ci < length mss \<and> ms = mss ! ci"
    then show "(ci, ms) \<in> set named" unfolding assms(2) in_set_zip by (intro exI [of _ ci]) simp
  qed
  obtain ci where ci: "ci < length mss" "i \<in> set (mss ! ci)" using assms(3) by (auto simp: in_set_conv_nth [of _ mss])
  have uniq: "cj = ci" if "(cj, mj) \<in> set named" "i \<in> set mj" for cj mj
    using that mem ci distinct_concat_disjoint [OF assms(1), of cj ci i] by simp
  have row: "(ci, mss ! ci) \<in> set named" using ci mem by simp
  have "community_of named i = ci" by (rule community_of_unique [OF uniq row ci(2)])
  then show ?thesis using uniq mem ci(2) by auto
qed

lemma community_totals:
  assumes "cs = map (\<lambda>(ci, ms). \<lparr>csCommunity = ci, csSize = length ms, csCohesion = f ci, csMembers = ms\<rparr>)
      (filter (\<lambda>(ci, ms). ms \<noteq> []) (zip [0..<n] mss))" "length mss = n" "distinct (concat mss)"
  shows "sum_list (map csSize cs) = card (set (concat mss))" "\<Union> (set ` csMembers ` set cs) = set (concat mss)"
proof -
  let ?named = "zip [0..<n] mss"
  have "sum_list (map csSize cs) = length (concat (map snd ?named))"
    unfolding assms(1) sum_nonempty_lengths [symmetric] by (simp add: comp_def case_prod_unfold)
  also have "\<dots> = length (concat mss)" using assms(2) by simp
  finally show "sum_list (map csSize cs) = card (set (concat mss))" using distinct_card [OF assms(3)] by simp
  have "\<Union> (set ` csMembers ` set cs) = \<Union> (set ` snd ` set ?named)" unfolding assms(1) by force
  also have "snd ` set ?named = set mss" using assms(2) by (simp add: set_map [symmetric] del: set_map)
  finally show "\<Union> (set ` csMembers ` set cs) = set (concat mss)" by simp
qed

lemma partition_cohesion:
  assumes "gonum_ok G nodes adj" "simple_adj (nodes g) (adj g)" "partition_of X comms" "ci < length comms"
  shows "0 \<le> cohesion G g (comms ! ci) \<and> cohesion G g (comms ! ci) \<le> 1"
proof -
  have "distinct (comms ! ci)" using assms(3,4) by (auto simp: partition_of_def distinct_concat_iff)
  with cohesion_bounds [OF assms(1)] assms(2) show ?thesis by metis
qed

lemma betweenness_bounds:
  assumes "gonum_ok G nodes adj" "card (nodes g) = n" "finite (nodes g)" "Betweenness G g v = Some x"
  shows "0 \<le> normalize n x \<and> normalize n x \<le> 1"
  using assms by (intro normalize_bounds) (auto simp: gonum_ok_def)

text \<open>
  C28: the analytics of a repository are sound whatever gonum finds: every entity gets exactly one
  signal, in order; the communities partition the entities and each entity's community is the one
  that lists it; cohesion and betweenness are between 0 and 1; and the edges counted are the distinct
  unordered pairs of known entities, self-loops left out.
\<close>

theorem compute_signals:
  assumes "gonum_ok G nodes adj" and "distinct ids" and "r = Compute G ms ids edges cfg"
  shows "map nsID (arNodes r) = ids
    \<and> (\<forall>v \<in> set (arNodes r). \<forall>c \<in> set (arCommunities r). nsID v \<in> set (csMembers c) \<longleftrightarrow> csCommunity c = nsCommunity v)
    \<and> sum_list (map csSize (arCommunities r)) = length ids
    \<and> \<Union> (set ` csMembers ` set (arCommunities r)) = set ids
    \<and> (\<forall>c \<in> set (arCommunities r). csSize c = length (csMembers c) \<and> 0 \<le> csCohesion c \<and> csCohesion c \<le> 1)
    \<and> (\<forall>v \<in> set (arNodes r). 0 \<le> nsBetweenness v \<and> nsBetweenness v \<le> 1)
    \<and> arEdgeCount r = card (linked_ids ids edges)"
proof (cases "ids = []")
  case True
  then show ?thesis unfolding assms(3) by (simp add: Compute_def empty_result_def linked_ids_def)
next
  case False
  obtain g n where g: "fold (add_edge G (idToNode ids)) edges (add_nodes G ids, 0) = (g, n)" by fastforce
  let ?comms = "Modularize G g"
  let ?mss = "map (map (nodeToID ids)) ?comms"
  let ?named = "zip [0..<length ?comms] ?mss"
  note graph = graph_of_ids [OF assms(1,2) g]
  have part: "partition_of (int ` {0..<length ids}) ?comms" using gonum_partition [OF assms(1), of g] graph by simp
  note mss = named_partition [OF assms(2) part]
  have named: "?named = zip [0..<length ?mss] ?mss" by simp
  have r: "arCommunities r = map (\<lambda>(ci, ms). \<lparr>csCommunity = ci, csSize = length ms, csCohesion = cohesion G g (?comms ! ci), csMembers = ms\<rparr>)
      (filter (\<lambda>(ci, ms). ms \<noteq> []) ?named)" "arEdgeCount r = n" "map nsID (arNodes r) = ids"
    unfolding assms(3) using False g by (simp_all add: Compute_def Let_def comp_def)
  have node: "v \<in> set (arNodes r) \<Longrightarrow> nsID v \<in> set ids \<and> nsCommunity v = community_of ?named (nsID v)" for v
    unfolding assms(3) using False g by (auto simp: Compute_def Let_def)
  have listed: "nsID v \<in> set (csMembers c) \<longleftrightarrow> csCommunity c = nsCommunity v" if vc: "v \<in> set (arNodes r)" "c \<in> set (arCommunities r)" for v c
  proof -
    have "nsID v \<in> set (concat ?mss)" using node [OF vc(1)] conjunct2 [OF mss] by (simp only:)
    note rows = community_rows [OF conjunct1 [OF mss] named this]
    obtain ci ms where "(ci, ms) \<in> set ?named" "csCommunity c = ci" "csMembers c = ms" using vc(2) unfolding r(1) by auto
    with bspec [OF rows, of "(ci, ms)"] node [OF vc(1)] show ?thesis by simp
  qed
  have coh: "csSize c = length (csMembers c) \<and> 0 \<le> csCohesion c \<and> csCohesion c \<le> 1" if "c \<in> set (arCommunities r)" for c
    using that partition_cohesion [OF assms(1) _ part] graph unfolding r(1) by (fastforce simp: in_set_zip)
  have "card (nodes g) = length ids" "finite (nodes g)" using graph by (simp_all add: card_image)
  then have btw: "0 \<le> nsBetweenness v \<and> nsBetweenness v \<le> 1" if "v \<in> set (arNodes r)" for v
    using betweenness_bounds [OF assms(1), of g "length ids"] that False g unfolding assms(3) by (auto simp: Compute_def Let_def split: option.splits)
  have "arEdgeCount r = card (linked_ids ids edges)" using graph r(2) card_joined [OF assms(2)] by simp
  moreover have "sum_list (map csSize (arCommunities r)) = length ids" "\<Union> (set ` csMembers ` set (arCommunities r)) = set ids"
    using community_totals [OF r(1) _ conjunct1 [OF mss]] conjunct2 [OF mss] distinct_card [OF assms(2)] by simp_all
  ultimately show ?thesis by (intro conjI ballI) (assumption | simp add: r(3) listed coh btw)+
qed

text \<open>
  Lists of nodes and edges, every node a community of its own and nobody between others, behave as
  documented; a triangle with a repeated edge, a self-loop and an unknown end has three edges.
\<close>

definition list_gonum :: "(int list \<times> (int \<times> int) list) gonum" where
  "list_gonum = \<lparr>NewUndirectedGraph = ([], []), AddNode = (\<lambda>v g. (v # fst g, snd g)),
     HasEdgeBetween = (\<lambda>g u v. (u, v) \<in> set (snd g)),
     SetEdge = (\<lambda>u v g. (u # v # fst g, (u, v) # (v, u) # snd g)),
     NodesFrom = (\<lambda>g v. remdups (map snd (filter (\<lambda>e. fst e = v) (snd g)))),
     Modularize = (\<lambda>g. map (\<lambda>v. [v]) (remdups (fst g))), Betweenness = (\<lambda>g v. None)\<rparr>"

lemma list_gonum_ok: "gonum_ok list_gonum (\<lambda>g. set (fst g)) (\<lambda>g. set (snd g))"
proof -
  have "concat (map (\<lambda>v. [v]) xs) = xs" for xs :: "int list" by (induction xs) auto
  then show ?thesis by (auto simp: gonum_ok_def list_gonum_def partition_of_def image_iff)
qed

definition triangle :: "AEdge list" where
  "triangle = map (\<lambda>(a, b). \<lparr>aeFrom = a, aeTo = b\<rparr>)
     [(''a'', ''b''), (''b'', ''a''), (''b'', ''c''), (''c'', ''a''), (''a'', ''a''), (''a'', ''z'')]"

lemma linked_ids_image:
  "linked_ids ids edges = (\<lambda>e. {aeFrom e, aeTo e}) `
     set (filter (\<lambda>e. aeFrom e \<noteq> aeTo e \<and> aeFrom e \<in> set ids \<and> aeTo e \<in> set ids) edges)"
  by (auto simp: linked_ids_def)

theorem compute_signals_witness:
  "arEdgeCount (Compute list_gonum 1 [''a'', ''b'', ''c''] triangle \<lparr>acMaxNodes = 0\<rparr>) = 3
   \<and> sum_list (map csSize (arCommunities (Compute list_gonum 1 [''a'', ''b'', ''c''] triangle \<lparr>acMaxNodes = 0\<rparr>))) = 3"
proof -
  have "linked_ids [''a'', ''b'', ''c''] triangle = {{''a'', ''b''}, {''b'', ''c''}, {''c'', ''a''}}"
    unfolding linked_ids_image triangle_def by (simp add: insert_commute)
  moreover have "card {{''a'', ''b''}, {''b'', ''c''}, {''c'', ''a''}} = 3" by (simp add: doubleton_eq_iff)
  ultimately show ?thesis
    using compute_signals [OF list_gonum_ok, of "[''a'', ''b'', ''c'']" _ 1 triangle "\<lparr>acMaxNodes = 0\<rparr>"] by simp
qed

end
