(* ===== verification/Analytics_Store.thy ===== *)
theory Analytics_Store
  imports Codegraph_Reconcile Analytics_Compute
begin

text \<open>
  Recomputing the analytics of a repository (\<^verbatim>\<open>internal/codegraph/analytics_store.go\<close>).

  \<open>RecomputeAnalytics\<close> reads the state row and the graph in three queries of their own, computes and
  labels outside any transaction, and writes in one.  Other connections may push in between:
  \<open>others k\<close> lists the pushes that commit after the k-th query.  A reconcile time that is NULL reads as
  \<open>None\<close>, the \<^verbatim>\<open>-infinity\<close> of the query.  A labeler is given by its answer to each call, since
  the model behind it may answer the same question differently.
\<close>

type_synonym CommunityLabeler = "nat \<Rightarrow> string list \<Rightarrow> err + string"

record RecomputeResult =
  rcEntities :: nat
  rcCommunities :: nat
  rcNodeCount :: nat
  rcEdgeCount :: nat
  rcComputeDurationMs :: int
  rcBetweennessSkipped :: bool

definition DirtyRepos :: "Time \<Rightarrow> int \<Rightarrow> (graph_conn, err, string list) call" where
  "DirtyRepos now debounceSecs = db_query (\<lambda>d. map stRepo (filter (\<lambda>r. stDirty r \<and>
     (case stReconciledAt r of None \<Rightarrow> False | Some t \<Rightarrow> t < now - debounceSecs * 1000000000)) (repo_analytics_state d)))"

text \<open>
  A missing \<^verbatim>\<open>reconciled_at\<close> is read as \<^verbatim>\<open>'-infinity'\<close>, which does not scan into a \<^verbatim>\<open>time.Time\<close>.
\<close>

definition infinity_scan :: err where
  "infinity_scan = Opaque ''sql: Scan error: unsupported Scan, storing driver.Value type string into type *time.Time''"

definition snapshot_reconciled :: "string \<Rightarrow> (graph_conn, err, Time option) call" where
  "snapshot_reconciled repo =
     bindE (db_query (\<lambda>d. map_option stReconciledAt (lookup stRepo repo (repo_analytics_state d)))) (\<lambda>row.
     case row of None \<Rightarrow> failE ErrNoRows | Some None \<Rightarrow> failE infinity_scan | Some (Some t) \<Rightarrow> returnE (Some t))"

definition repo_entities :: "string \<Rightarrow> graph_db \<Rightarrow> entity_row list" where
  "repo_entities repo d = sort_key xID (filter (\<lambda>r. xRepo r = repo) (code_entities d))"

definition loadEntityIDs :: "string \<Rightarrow> (graph_conn, err, string list \<times> smap) call" where
  "loadEntityIDs repo = db_query (\<lambda>d. let rs = repo_entities repo d in
     (map xID rs, map_of (rev (map (\<lambda>r. (xID r, xName r)) rs))))"

definition ast_edges :: "string \<Rightarrow> graph_db \<Rightarrow> AEdge list" where
  "ast_edges repo d = map (\<lambda>e. \<lparr>aeFrom = dFrom e, aeTo = dTo e\<rparr>)
     (filter (\<lambda>e. dRepo e = repo \<and> dExtractor e = ExtractorAST) (code_edges d))"

definition loadEdgePairs :: "string \<Rightarrow> (graph_conn, err, AEdge list) call" where
  "loadEdgePairs repo = db_query (ast_edges repo)"

definition labelCommunity :: "CommunityLabeler option \<Rightarrow> nat \<Rightarrow> CommunitySignal \<Rightarrow> smap \<Rightarrow> string" where
  "labelCommunity labeler call c names =
     (let memberNames = map (mget names) (csMembers c);
          fallback = (case find (\<lambda>i. mget names i \<noteq> '''') (csMembers c) of None \<Rightarrow> '''' | Some i \<Rightarrow> mget names i)
      in case labeler of
           None \<Rightarrow> fallback
         | Some l \<Rightarrow> (case l call memberNames of
              Inl _ \<Rightarrow> fallback
            | Inr lbl \<Rightarrow> if lbl = '''' then fallback else lbl))"

definition set_signal :: "string \<Rightarrow> AResult \<Rightarrow> entity_row \<Rightarrow> entity_row" where
  "set_signal repo res r =
     (if xRepo r = repo then
        (case lookup nsID (xID r) (arNodes res) of
           None \<Rightarrow> r
         | Some n \<Rightarrow> r\<lparr>xCommunity := Some (int (nsCommunity n)),
                      xBetweenness := (if arBetweennessSkipped res then xBetweenness r else Some (nsBetweenness n))\<rparr>)
      else r)"

definition update_signals :: "string \<Rightarrow> AResult \<Rightarrow> graph_db \<Rightarrow> graph_db" where
  "update_signals repo res d = d\<lparr>code_entities := map (set_signal repo res) (code_entities d)\<rparr>"

definition del_communities :: "string \<Rightarrow> graph_db \<Rightarrow> graph_db" where
  "del_communities repo d = d\<lparr>code_communities := tdelete (\<lambda>r. coRepo r = repo) (code_communities d)\<rparr>"

definition community_key :: "community_row \<Rightarrow> string \<times> int" where
  "community_key r = (coRepo r, coCommunity r)"

definition community_row_of :: "string \<Rightarrow> CommunitySignal \<times> string \<Rightarrow> community_row" where
  "community_row_of repo cl = \<lparr>coRepo = repo, coCommunity = int (csCommunity (fst cl)), coLabel = snd cl,
     coCohesion = csCohesion (fst cl), coSize = int (csSize (fst cl))\<rparr>"

definition add_community :: "community_row \<Rightarrow> graph_db \<Rightarrow> graph_db" where
  "add_community r d = d\<lparr>code_communities := code_communities d @ [r]\<rparr>"

definition ins_community :: "community_row \<Rightarrow> (graph_conn, err, unit) call" where
  "ins_community r = db_call (\<lambda>d.
     if community_key r \<in> community_key ` set (code_communities d)
     then (Inl unique_violation, d)
     else (Inr (), add_community r d))"

definition clear_dirty :: "Time \<Rightarrow> string \<Rightarrow> Time option \<Rightarrow> graph_db \<Rightarrow> graph_db" where
  "clear_dirty now repo snap d = d\<lparr>repo_analytics_state :=
     tupdate (\<lambda>r. stRepo r = repo \<and> stReconciledAt r = snap) (\<lambda>r. r\<lparr>stDirty := False, stComputedAt := Some now\<rparr>)
       (repo_analytics_state d)\<rparr>"

definition write_analytics :: "Time \<Rightarrow> string \<Rightarrow> Time option \<Rightarrow> AResult \<Rightarrow> string list \<Rightarrow> (graph_conn, err, RecomputeResult) call" where
  "write_analytics now repo snap res labels =
     bindE (if arNodes res = [] then returnE () else stmt (update_signals repo res)) (\<lambda>_.
     bindE (stmt (del_communities repo)) (\<lambda>_.
     bindE (forE (map (community_row_of repo) (zip (arCommunities res) labels)) ins_community) (\<lambda>_.
     bindE (stmt (clear_dirty now repo snap)) (\<lambda>_.
     bindE commit (\<lambda>_.
     returnE \<lparr>rcEntities = length (arNodes res), rcCommunities = length (arCommunities res), rcNodeCount = arNodeCount res,
       rcEdgeCount = arEdgeCount res, rcComputeDurationMs = arDurationMs res, rcBetweennessSkipped = arBetweennessSkipped res\<rparr>)))))"

definition push_all :: "(Time \<times> GraphPush) list \<Rightarrow> graph_db \<Rightarrow> graph_db" where
  "push_all ps d = fold (\<lambda>(now, p). reconcile_tables now p) ps d"

definition meanwhile :: "(Time \<times> GraphPush) list \<Rightarrow> (graph_conn, err, unit) call" where
  "meanwhile ps c = (Inr (), c\<lparr>tables := push_all ps (tables c)\<rparr>)"

definition RecomputeAnalytics ::
  "'g gonum \<Rightarrow> (nat \<Rightarrow> (Time \<times> GraphPush) list) \<Rightarrow> int \<Rightarrow> Time \<Rightarrow> string \<Rightarrow> CommunityLabeler option \<Rightarrow> int
     \<Rightarrow> (graph_conn, err, RecomputeResult) call" where
  "RecomputeAnalytics G others durationMs now repo labeler betweennessMaxNodes =
     bindE (snapshot_reconciled repo) (\<lambda>snap.
     bindE (meanwhile (others 0)) (\<lambda>_.
     bindE (loadEntityIDs repo) (\<lambda>(ids, names).
     bindE (meanwhile (others 1)) (\<lambda>_.
     bindE (loadEdgePairs repo) (\<lambda>edges.
     bindE (meanwhile (others 2)) (\<lambda>_.
     (let res = Compute G durationMs ids edges \<lparr>acMaxNodes = betweennessMaxNodes\<rparr>;
          labels = map (\<lambda>(i, c). labelCommunity labeler i c names) (zip [0..<length (arCommunities res)] (arCommunities res))
      in with_tx id (write_analytics now repo snap res labels))))))))"

section \<open>What the write transaction does\<close>

definition write_tables :: "Time \<Rightarrow> string \<Rightarrow> Time option \<Rightarrow> AResult \<Rightarrow> community_row list \<Rightarrow> graph_db \<Rightarrow> graph_db" where
  "write_tables now repo snap res rows = clear_dirty now repo snap \<circ> fold add_community rows \<circ> del_communities repo
     \<circ> (if arNodes res = [] then id else update_signals repo res)"

definition insertable :: "community_row list \<Rightarrow> graph_db \<Rightarrow> bool" where
  "insertable rows d \<longleftrightarrow> distinct (map community_key rows) \<and> community_key ` set rows \<inter> community_key ` set (code_communities d) = {}"

lemma runs_ins_community: "runs_if (insertable (r # rs)) (ins_community r) (add_community r) ()"
proof (rule runs_ifI)
  fix c :: graph_conn and e c' assume "insertable (r # rs) (tables c)" "ins_community r c = (Inl e, c')"
  then show "\<not> healthy c" by (auto simp: ins_community_def insertable_def)
next
  fix c :: graph_conn and y c' assume i: "insertable (r # rs) (tables c)" "ins_community r c = (Inr y, c')"
  have "healthy c \<Longrightarrow> c' = c\<lparr>tables := tables c'\<rparr>" using i by (auto simp: ins_community_def insertable_def)
  then have "healthy c \<longrightarrow> healthy c'" by (metis healthy_tables)
  with i show "y = () \<and> tables c' = add_community r (tables c) \<and> (healthy c \<longrightarrow> healthy c')"
    using db_call_Inr [OF i(2) [unfolded ins_community_def]] by (auto simp: insertable_def)
qed

lemma runs_write:
  assumes "distinct (map csCommunity (arCommunities res))"
  shows "runs (write_analytics now repo snap res labels)
    (write_tables now repo snap res (map (community_row_of repo) (zip (arCommunities res) labels)))
    \<lparr>rcEntities = length (arNodes res), rcCommunities = length (arCommunities res), rcNodeCount = arNodeCount res,
       rcEdgeCount = arEdgeCount res, rcComputeDurationMs = arDurationMs res, rcBetweennessSkipped = arBetweennessSkipped res\<rparr>"
    (is "runs _ _ ?rr")
proof -
  let ?rows = "map (community_row_of repo) (zip (arCommunities res) labels)"
  have keys: "distinct (map community_key ?rows)"
  proof -
    have "map community_key ?rows = map (\<lambda>i. (repo, int i)) (take (length labels) (map csCommunity (arCommunities res)))"
      by (rule nth_equalityI) (auto simp: community_key_def community_row_of_def)
    then show ?thesis using assms by (simp add: distinct_map inj_on_def)
  qed
  have ins: "insertable ?rows (del_communities repo d)" for d
    using keys by (auto simp: insertable_def del_communities_def community_key_def community_row_of_def tdelete_def)
  have nodes: "runs (if arNodes res = [] then returnE () else stmt (update_signals repo res))
      (if arNodes res = [] then id else update_signals repo res) ()" by auto
  have tail: "runs (bindE (stmt (clear_dirty now repo snap)) (\<lambda>_. bindE commit (\<lambda>_. returnE ?rr))) (id \<circ> id \<circ> clear_dirty now repo snap) ?rr"
    by (intro runs_then runs_stmt runs_commit runs_return)
  have rest: "runs_if (insertable ?rows) (bindE (forE ?rows ins_community) (\<lambda>_. bindE (stmt (clear_dirty now repo snap)) (\<lambda>_.
      bindE commit (\<lambda>_. returnE ?rr)))) ((id \<circ> id \<circ> clear_dirty now repo snap) \<circ> fold add_community ?rows) ?rr"
    by (rule runs_then [OF runs_for_if [of insertable, OF runs_ins_community] tail]) (auto simp: insertable_def add_community_def)
  have "runs (write_analytics now repo snap res labels)
     (((id \<circ> id \<circ> clear_dirty now repo snap) \<circ> fold add_community ?rows) \<circ> del_communities repo
        \<circ> (if arNodes res = [] then id else update_signals repo res)) ?rr"
    unfolding write_analytics_def
    by (rule runs_then [OF nodes]) (rule runs_then_if [OF runs_stmt rest ins])
  then show ?thesis by (simp add: write_tables_def)
qed

lemma compute_communities_distinct: "distinct (map csCommunity (arCommunities (Compute G ms ids edges cfg)))"
proof -
  have "distinct (map fst (filter P (zip [0..<length xs] ys)))" for P and xs :: "int list list" and ys :: "string list list"
  proof -
    have "distinct (map fst (zip [0..<length xs] ys))" by (simp add: map_fst_zip_take)
    then show ?thesis by (rule distinct_map_filter)
  qed
  then show ?thesis
    by (simp add: Compute_def empty_result_def Let_def comp_def case_prod_unfold split: prod.splits)
qed

section \<open>Pushes that land during a recompute\<close>

text \<open>A push to another repository leaves the graph and the state row of this one alone.\<close>

lemma filter_upserts_frame:
  assumes "\<And>r x. r \<in> set rs \<Longrightarrow> \<not> q r \<and> (key x = key r \<longrightarrow> \<not> q x \<and> \<not> q (upd x r))"
  shows "filter q (fold (upsert key upd) rs xs) = filter q xs"
  using assms
proof (induction rs arbitrary: xs)
  case (Cons r rs)
  have "filter q (upsert key upd r xs) = filter q xs" using Cons.prems [of r] by (intro filter_upsert_frame) auto
  moreover have "filter q (fold (upsert key upd) rs (upsert key upd r xs)) = filter q (upsert key upd r xs)"
    by (rule Cons.IH) (rule Cons.prems, simp)
  ultimately show ?case by simp
qed simp

lemma push_other_repo:
  assumes "gpRepo p \<noteq> repo"
  shows "repo_entities repo (reconcile_tables now p d) = repo_entities repo d"
    and "ast_edges repo (reconcile_tables now p d) = ast_edges repo d"
    and "lookup stRepo repo (repo_analytics_state (reconcile_tables now p d)) = lookup stRepo repo (repo_analytics_state d)"
proof -
  let ?own = "\<lambda>r. \<exists>f\<in>set (gpFiles p). owned_entity (gpRepo p) (push_extractor p) f r"
  have "filter (\<lambda>r. xRepo r = repo) (code_entities (reconcile_tables now p d)) = filter (\<lambda>r. xRepo r = repo) (tdelete ?own (code_entities d))"
    unfolding reconcile_fields
    by (simp, rule filter_upserts_frame) (use assms in \<open>auto simp: entity_row_of_def entity_key_def entity_update_def\<close>)
  also have "\<dots> = filter (\<lambda>r. xRepo r = repo) (code_entities d)"
    by (rule filter_tdelete_frame) (use assms in \<open>auto simp: owned_entity_def\<close>)
  finally show "repo_entities repo (reconcile_tables now p d) = repo_entities repo d" by (simp add: repo_entities_def)
  let ?q = "\<lambda>e. dRepo e = repo \<and> dExtractor e = ExtractorAST"
  have "filter ?q (code_edges (reconcile_tables now p d)) =
      filter ?q (tdelete (\<lambda>r. \<exists>f\<in>set (gpFiles p). owned_edge (gpRepo p) (push_extractor p) f r) (code_edges d))"
    unfolding reconcile_fields by (simp, rule filter_upserts_frame) (use assms in \<open>auto simp: edge_row_of_def edge_key_def\<close>)
  also have "\<dots> = filter ?q (code_edges d)" by (rule filter_tdelete_frame) (use assms in \<open>auto simp: owned_edge_def\<close>)
  finally show "ast_edges repo (reconcile_tables now p d) = ast_edges repo d" by (simp add: ast_edges_def)
  show "lookup stRepo repo (repo_analytics_state (reconcile_tables now p d)) = lookup stRepo repo (repo_analytics_state d)"
    unfolding reconcile_fields using assms by (simp add: lookup_upsert)
qed

lemma push_same_repo:
  assumes "gpRepo p = repo"
  shows "\<exists>row. lookup stRepo repo (repo_analytics_state (reconcile_tables now p d)) = Some row \<and> stDirty row \<and> stReconciledAt row = Some now"
  unfolding reconcile_fields using assms by (auto simp: lookup_upsert split: option.splits)

definition overtaken :: "string \<Rightarrow> Time option \<Rightarrow> graph_db \<Rightarrow> bool" where
  "overtaken repo snap d \<longleftrightarrow> (\<exists>row. lookup stRepo repo (repo_analytics_state d) = Some row \<and> stDirty row \<and> stReconciledAt row \<noteq> snap)"

definition touches :: "string \<Rightarrow> (Time \<times> GraphPush) list \<Rightarrow> bool" where
  "touches repo ps \<longleftrightarrow> (\<exists>(t, p) \<in> set ps. gpRepo p = repo)"

definition later_than :: "string \<Rightarrow> Time option \<Rightarrow> (Time \<times> GraphPush) list \<Rightarrow> bool" where
  "later_than repo snap ps \<longleftrightarrow> (\<forall>(t, p) \<in> set ps. gpRepo p = repo \<longrightarrow> Some t \<noteq> snap)"

lemma push_all_overtakes:
  "later_than repo snap ps \<Longrightarrow> touches repo ps \<or> overtaken repo snap d \<Longrightarrow> overtaken repo snap (push_all ps d)"
proof (induction ps arbitrary: d)
  case (Cons tp ps)
  obtain t p where tp: "tp = (t, p)" by (cases tp)
  have later: "later_than repo snap ps" using Cons.prems(1) by (simp add: later_than_def)
  show ?case
  proof (cases "gpRepo p = repo")
    case True
    then have "Some t \<noteq> snap" using Cons.prems(1) tp by (simp add: later_than_def)
    with push_same_repo [OF True, of t d] have "overtaken repo snap (reconcile_tables t p d)" by (auto simp: overtaken_def)
    with Cons.IH [OF later] tp show ?thesis by (simp add: push_all_def)
  next
    case False
    then have "touches repo ps \<or> overtaken repo snap (reconcile_tables t p d)"
      using Cons.prems(2) tp push_other_repo(3) [OF False] by (simp add: touches_def overtaken_def)
    with Cons.IH [OF later] tp show ?thesis by (simp add: push_all_def)
  qed
qed (simp add: push_all_def touches_def)

lemma push_all_elsewhere:
  assumes "\<not> touches repo ps"
  shows "repo_entities repo (push_all ps d) = repo_entities repo d" "ast_edges repo (push_all ps d) = ast_edges repo d"
    "lookup stRepo repo (repo_analytics_state (push_all ps d)) = lookup stRepo repo (repo_analytics_state d)"
proof -
  have "repo_entities repo (push_all ps d) = repo_entities repo d \<and> ast_edges repo (push_all ps d) = ast_edges repo d
    \<and> lookup stRepo repo (repo_analytics_state (push_all ps d)) = lookup stRepo repo (repo_analytics_state d)"
    using assms
  proof (induction ps arbitrary: d)
    case (Cons tp ps)
    obtain t p where tp: "tp = (t, p)" by (cases tp)
    with Cons.prems have "gpRepo p \<noteq> repo" "\<not> touches repo ps" by (auto simp: touches_def)
    with Cons.IH [OF this(2), of "reconcile_tables t p d"] push_other_repo [OF this(1), of t d] tp show ?case by (simp add: push_all_def)
  qed (simp add: push_all_def)
  then show "repo_entities repo (push_all ps d) = repo_entities repo d" "ast_edges repo (push_all ps d) = ast_edges repo d"
    "lookup stRepo repo (repo_analytics_state (push_all ps d)) = lookup stRepo repo (repo_analytics_state d)" by simp_all
qed

lemma graph_wf_push_all: "graph_wf d \<Longrightarrow> graph_wf (push_all ps d)"
  unfolding push_all_def by (induction ps arbitrary: d) (auto simp: graph_wf_reconcile)

section \<open>The dirty flag\<close>

lemma recompute_run:
  assumes "RecomputeAnalytics G others ms now repo labeler mx c = (Inr rr, c')"
  obtains row res labels where "lookup stRepo repo (repo_analytics_state (tables c)) = Some row"
    "res = Compute G ms (map xID (repo_entities repo (push_all (others 0) (tables c))))
       (ast_edges repo (push_all (others 1) (push_all (others 0) (tables c)))) \<lparr>acMaxNodes = mx\<rparr>"
    "length labels = length (arCommunities res)"
    "tables c' = write_tables now repo (stReconciledAt row) res (map (community_row_of repo) (zip (arCommunities res) labels))
       (push_all (others 2) (push_all (others 1) (push_all (others 0) (tables c))))"
proof -
  obtain snap c1 c2 ids names c3 edges where
    s: "snapshot_reconciled repo c = (Inr snap, c1)"
    and i: "loadEntityIDs repo (c1\<lparr>tables := push_all (others 0) (tables c1)\<rparr>) = (Inr (ids, names), c2)"
    and e: "loadEdgePairs repo (c2\<lparr>tables := push_all (others 1) (tables c2)\<rparr>) = (Inr edges, c3)"
    and w: "(let res = Compute G ms ids edges \<lparr>acMaxNodes = mx\<rparr>;
          labels = map (\<lambda>(i, c). labelCommunity labeler i c names) (zip [0..<length (arCommunities res)] (arCommunities res))
      in with_tx id (write_analytics now repo snap res labels)) (c3\<lparr>tables := push_all (others 2) (tables c3)\<rparr>) = (Inr rr, c')"
    using assms by (auto simp: RecomputeAnalytics_def bindE_eq_Inr meanwhile_def split: prod.splits)
  obtain row where row: "lookup stRepo repo (repo_analytics_state (tables c)) = Some row" "snap = stReconciledAt row" "tables c1 = tables c"
  proof -
    have "Some snap = map_option stReconciledAt (lookup stRepo repo (repo_analytics_state (tables c)))" "tables c1 = tables c"
      using s by (auto simp: snapshot_reconciled_def bindE_eq_Inr returnE_def failE_def split: option.splits dest!: db_query_Inr)
    then show thesis using that by (cases "lookup stRepo repo (repo_analytics_state (tables c))") simp_all
  qed
  have ids: "ids = map xID (repo_entities repo (push_all (others 0) (tables c)))" "tables c2 = push_all (others 0) (tables c)"
    using db_query_Inr [OF i [unfolded loadEntityIDs_def]] row(3) by (auto simp: Let_def)
  have edges: "edges = ast_edges repo (push_all (others 1) (push_all (others 0) (tables c)))"
    "tables c3 = push_all (others 1) (push_all (others 0) (tables c))"
    using db_query_Inr [OF e [unfolded loadEdgePairs_def]] ids(2) by auto
  define res where "res = Compute G ms ids edges \<lparr>acMaxNodes = mx\<rparr>"
  define labels where "labels = map (\<lambda>(i, c). labelCommunity labeler i c names) (zip [0..<length (arCommunities res)] (arCommunities res))"
  have d: "distinct (map csCommunity (arCommunities res))" unfolding res_def by (rule compute_communities_distinct)
  have w': "with_tx id (write_analytics now repo snap res labels) (c3\<lparr>tables := push_all (others 2) (tables c3)\<rparr>) = (Inr rr, c')"
    using w by (simp add: Let_def res_def labels_def)
  have "tables c' = write_tables now repo snap res (map (community_row_of repo) (zip (arCommunities res) labels))
      (push_all (others 2) (push_all (others 1) (push_all (others 0) (tables c))))"
    using runs_tx [OF runs_write [OF d] w'] edges(2) by simp
  moreover have "length labels = length (arCommunities res)" by (simp add: labels_def)
  ultimately show thesis using that [of row res labels] row ids(1) edges(1) res_def by simp
qed

lemma fold_add_community: "fold add_community rows d = d\<lparr>code_communities := code_communities d @ rows\<rparr>"
  by (induction rows arbitrary: d) (simp_all add: add_community_def)

lemma update_signals_id: "arNodes res = [] \<Longrightarrow> update_signals repo res d = d"
  by (simp add: update_signals_def set_signal_def map_idI)

lemma write_tables_fields:
  "code_entities (write_tables now repo snap res rows d) = code_entities (update_signals repo res d)"
  "code_edges (write_tables now repo snap res rows d) = code_edges d"
  "code_communities (write_tables now repo snap res rows d) = tdelete (\<lambda>r. coRepo r = repo) (code_communities d) @ rows"
  "repo_analytics_state (write_tables now repo snap res rows d) = tupdate (\<lambda>r. stRepo r = repo \<and> stReconciledAt r = snap)
     (\<lambda>r. r\<lparr>stDirty := False, stComputedAt := Some now\<rparr>) (repo_analytics_state d)"
  by (auto simp: write_tables_def clear_dirty_def fold_add_community del_communities_def update_signals_id)
    (simp_all add: update_signals_def)

lemma map_insort_key: "map f (insort_key f x xs) = insort (f x) (map f xs)"
  by (induction xs) auto

lemma map_sort_key_self: "map f (sort_key f xs) = sort (map f xs)"
  by (induction xs) (simp_all add: map_insort_key)

lemma repo_ids: "map xID (repo_entities repo d) = sort (map xID (filter (\<lambda>r. xRepo r = repo) (code_entities d)))"
  by (simp add: repo_entities_def map_sort_key_self)

lemma set_signal_key [simp]: "xRepo (set_signal repo res r) = xRepo r" "xID (set_signal repo res r) = xID r"
  by (simp_all add: set_signal_def split: option.split)

lemma update_signals_ids: "map xID (filter (\<lambda>r. xRepo r = repo) (code_entities (update_signals repo' res d))) = map xID (filter (\<lambda>r. xRepo r = repo) (code_entities d))"
  by (simp add: update_signals_def filter_map comp_def)

lemma compute_ids: "map nsID (arNodes (Compute G ms ids edges cfg)) = ids"
  by (cases "fold (add_edge G (idToNode ids)) edges (add_nodes G ids, 0)") (simp add: Compute_def empty_result_def Let_def comp_def)

lemma lookup_state_tupdate:
  "distinct (map stRepo rows) \<Longrightarrow> lookup stRepo repo (tupdate (\<lambda>r. stRepo r = repo \<and> stReconciledAt r = snap) (\<lambda>r. r\<lparr>stDirty := False, stComputedAt := Some now\<rparr>) rows)
     = map_option (\<lambda>r. if stReconciledAt r = snap then r\<lparr>stDirty := False, stComputedAt := Some now\<rparr> else r) (lookup stRepo repo rows)"
  by (induction rows) (auto simp: tupdate_def)

text \<open>The analytics in the tables are those of the graph in the tables.\<close>

definition analytics_current :: "'g gonum \<Rightarrow> int \<Rightarrow> int \<Rightarrow> string \<Rightarrow> graph_db \<Rightarrow> bool" where
  "analytics_current G ms mx repo d \<longleftrightarrow>
     (let res = Compute G ms (map xID (repo_entities repo d)) (ast_edges repo d) \<lparr>acMaxNodes = mx\<rparr> in
      map (\<lambda>r. (coCommunity r, coCohesion r, coSize r)) (filter (\<lambda>r. coRepo r = repo) (code_communities d))
        = map (\<lambda>c. (int (csCommunity c), csCohesion c, int (csSize c))) (arCommunities res)
      \<and> (\<forall>r\<in>set (code_entities d). xRepo r = repo \<longrightarrow> (\<exists>n\<in>set (arNodes res). nsID n = xID r
           \<and> xCommunity r = Some (int (nsCommunity n)) \<and> (\<not> arBetweennessSkipped res \<longrightarrow> xBetweenness r = Some (nsBetweenness n)))))"

lemma write_current:
  assumes "res = Compute G ms (map xID (repo_entities repo d)) (ast_edges repo d) \<lparr>acMaxNodes = mx\<rparr>"
    and "length labels = length (arCommunities res)"
    and "d' = write_tables now repo snap res (map (community_row_of repo) (zip (arCommunities res) labels)) d"
  shows "analytics_current G ms mx repo d'"
proof -
  let ?rows = "map (community_row_of repo) (zip (arCommunities res) labels)"
  have "map xID (repo_entities repo d') = map xID (repo_entities repo d)" "ast_edges repo d' = ast_edges repo d"
    unfolding assms(3) by (simp_all add: repo_ids write_tables_fields update_signals_ids ast_edges_def)
  then have res: "res = Compute G ms (map xID (repo_entities repo d')) (ast_edges repo d') \<lparr>acMaxNodes = mx\<rparr>" using assms(1) by simp
  have "filter (\<lambda>r. coRepo r = repo) (code_communities d') = ?rows"
    unfolding assms(3) write_tables_fields tdelete_def by (simp add: community_row_of_def)
  moreover have "map (\<lambda>r. (coCommunity r, coCohesion r, coSize r)) ?rows = map (\<lambda>c. (int (csCommunity c), csCohesion c, int (csSize c))) (arCommunities res)"
    using assms(2) by (intro nth_equalityI) (simp_all add: community_row_of_def)
  moreover have "\<exists>n\<in>set (arNodes res). nsID n = xID r \<and> xCommunity r = Some (int (nsCommunity n))
      \<and> (\<not> arBetweennessSkipped res \<longrightarrow> xBetweenness r = Some (nsBetweenness n))"
    if r: "r \<in> set (code_entities d')" "xRepo r = repo" for r
  proof -
    obtain r0 where r0: "r0 \<in> set (code_entities d)" "xRepo r0 = repo" "xID r0 = xID r" "r = set_signal repo res r0"
    proof -
      obtain r0 where "r0 \<in> set (code_entities d)" "r = set_signal repo res r0"
        using r(1) unfolding assms(3) write_tables_fields update_signals_def by auto
      with r(2) that [of r0] show thesis by simp
    qed
    have "xID r \<in> set (map nsID (arNodes res))"
      unfolding assms(1) compute_ids repo_ids using r0 by auto
    then obtain n where n: "lookup nsID (xID r) (arNodes res) = Some n" using lookup_None [of nsID "xID r" "arNodes res"] by fastforce
    then have "n \<in> set (arNodes res)" "nsID n = xID r" unfolding lookup_def by (auto dest: find_SomeD)
    moreover have "r = r0\<lparr>xCommunity := Some (int (nsCommunity n)), xBetweenness := (if arBetweennessSkipped res then xBetweenness r0 else Some (nsBetweenness n))\<rparr>"
      using r0 n by (simp add: set_signal_def)
    ultimately show ?thesis by (intro bexI [of _ n]) simp_all
  qed
  ultimately show ?thesis unfolding analytics_current_def res [symmetric] Let_def by simp
qed

text \<open>
  C24: the dirty flag never hides a stale graph.  However many pushes land while a recompute loads,
  computes and labels, if it succeeds the repository is dirty afterwards exactly when one of them was
  to this repository (its reconcile time differing from the one first read); and when the flag is
  clear, the communities and node signals in the tables are those of the graph in the tables.
\<close>

theorem recompute_fresh:
  assumes "RecomputeAnalytics G others ms now repo labeler mx c = (Inr rr, c')" and "graph_wf (tables c)"
    and "lookup stRepo repo (repo_analytics_state (tables c)) = Some row"
    and "\<forall>k<3. later_than repo (stReconciledAt row) (others k)"
  shows "\<exists>row'. lookup stRepo repo (repo_analytics_state (tables c')) = Some row'
    \<and> (stDirty row' \<longleftrightarrow> (\<exists>k<3. touches repo (others k)))
    \<and> (\<not> stDirty row' \<longrightarrow> analytics_current G ms mx repo (tables c'))"
proof -
  let ?d1 = "push_all (others 0) (tables c)" and ?snap = "stReconciledAt row"
  let ?d2 = "push_all (others 1) ?d1"
  let ?d3 = "push_all (others 2) ?d2"
  obtain res labels where res: "res = Compute G ms (map xID (repo_entities repo ?d1)) (ast_edges repo ?d2) \<lparr>acMaxNodes = mx\<rparr>"
    "length labels = length (arCommunities res)"
    "tables c' = write_tables now repo ?snap res (map (community_row_of repo) (zip (arCommunities res) labels)) ?d3"
    using recompute_run [OF assms(1)] assms(3) by (metis option.inject)
  have later: "later_than repo ?snap (others 0)" "later_than repo ?snap (others 1)" "later_than repo ?snap (others 2)"
    using assms(4) by simp_all
  have wf: "distinct (map stRepo (repo_analytics_state ?d3))"
    using graph_wf_push_all [OF graph_wf_push_all [OF graph_wf_push_all [OF assms(2)]]] by (simp add: graph_wf_def)
  have state: "lookup stRepo repo (repo_analytics_state (tables c')) =
      map_option (\<lambda>r. if stReconciledAt r = ?snap then r\<lparr>stDirty := False, stComputedAt := Some now\<rparr> else r)
        (lookup stRepo repo (repo_analytics_state ?d3))"
    unfolding res(3) write_tables_fields by (rule lookup_state_tupdate [OF wf])
  have three: "(\<exists>k<3. touches repo (others k)) \<longleftrightarrow> touches repo (others 0) \<or> touches repo (others 1) \<or> touches repo (others 2)"
  proof -
    have "k < 3 \<longleftrightarrow> k = 0 \<or> k = 1 \<or> k = 2" for k :: nat by auto
    then show ?thesis by auto
  qed
  show ?thesis
  proof (cases "\<exists>k<3. touches repo (others k)")
    case True
    then have "overtaken repo ?snap ?d3" unfolding three using push_all_overtakes later by blast
    with True state show ?thesis by (auto simp: overtaken_def)
  next
    case False
    then have no: "\<not> touches repo (others 0)" "\<not> touches repo (others 1)" "\<not> touches repo (others 2)" unfolding three by auto
    have "repo_entities repo ?d3 = repo_entities repo ?d1" "ast_edges repo ?d3 = ast_edges repo ?d2"
      "lookup stRepo repo (repo_analytics_state ?d3) = Some row"
      using push_all_elsewhere [OF no(1)] push_all_elsewhere [OF no(2)] push_all_elsewhere [OF no(3)] assms(3) by simp_all
    moreover from this have "analytics_current G ms mx repo (tables c')" using write_current [OF _ res(2,3)] res(1) by metis
    ultimately show ?thesis using state False by simp
  qed
qed

text \<open>On a database that answers, a recompute of a repository that was pushed succeeds.\<close>

lemma recompute_healthy:
  assumes "healthy c" "lookup stRepo repo (repo_analytics_state (tables c)) = Some row" "stReconciledAt row \<noteq> None"
  shows "\<exists>rr c'. RecomputeAnalytics G others ms now repo labeler mx c = (Inr rr, c')"
proof -
  define res where "res = Compute G ms (map xID (repo_entities repo (push_all (others 0) (tables c))))
     (ast_edges repo (push_all (others (Suc 0)) (push_all (others 0) (tables c)))) \<lparr>acMaxNodes = mx\<rparr>"
  have d: "distinct (map csCommunity (arCommunities res))" unfolding res_def by (rule compute_communities_distinct)
  have snap: "snapshot_reconciled repo c = (Inr (stReconciledAt row), c)" using assms by (auto simp: snapshot_reconciled_def bindE_def returnE_def)
  have "\<exists>rr c''. with_tx id (write_analytics now repo (stReconciledAt row) res labels) (c\<lparr>tables := dd\<rparr>) = (Inr rr, c'')" for labels dd
  proof -
    obtain r c'' where w: "with_tx id (write_analytics now repo (stReconciledAt row) res labels) (c\<lparr>tables := dd\<rparr>) = (r, c'')" by fastforce
    with runs_tx [OF runs_write [OF d] w] assms(1) show ?thesis by (cases r) auto
  qed
  then show ?thesis
    unfolding RecomputeAnalytics_def using assms(1)
    by (simp add: bindE_def snap meanwhile_def loadEntityIDs_def loadEdgePairs_def Let_def res_def [symmetric])
qed

definition pushed_once :: graph_conn where
  "pushed_once = \<lparr>tables = reconcile_tables 5 (push0 ''ast'' [entity0 ''a'' ''f''] []) empty_graph, script = []\<rparr>"

definition one_push_while_loading :: "nat \<Rightarrow> (Time \<times> GraphPush) list" where
  "one_push_while_loading k = (if k = 1 then [(9, push0 ''ast'' [entity0 ''b'' ''f''] [])] else [])"

theorem recompute_fresh_witness:
  "\<exists>rr c' row'. RecomputeAnalytics list_gonum one_push_while_loading 1 20 ''r'' None 0 pushed_once = (Inr rr, c')
     \<and> lookup stRepo ''r'' (repo_analytics_state (tables c')) = Some row' \<and> stDirty row'"
proof -
  let ?row = "\<lparr>stRepo = ''r'', stDirty = True, stReconciledAt = Some 5, stComputedAt = None\<rparr>"
  have state: "lookup stRepo ''r'' (repo_analytics_state (tables pushed_once)) = Some ?row"
    by (simp add: pushed_once_def reconcile_fields lookup_upsert) (simp add: push0_def empty_graph_def)
  have "healthy pushed_once" by (simp add: pushed_once_def healthy_def)
  then obtain rr c' where run: "RecomputeAnalytics list_gonum one_push_while_loading 1 20 ''r'' None 0 pushed_once = (Inr rr, c')"
    using recompute_healthy [OF _ state, of list_gonum one_push_while_loading 1 20 None 0] by auto
  have wf: "graph_wf (tables pushed_once)" unfolding pushed_once_def by (simp add: graph_wf_reconcile)
  have "\<forall>k<3. later_than ''r'' (stReconciledAt ?row) (one_push_while_loading k)"
    by (simp add: later_than_def one_push_while_loading_def)
  from recompute_fresh [OF run wf state this] obtain row' where
    "lookup stRepo ''r'' (repo_analytics_state (tables c')) = Some row'" "stDirty row' \<longleftrightarrow> (\<exists>k<3. touches ''r'' (one_push_while_loading k))" by blast
  moreover have "touches ''r'' (one_push_while_loading 1)" by (simp add: touches_def one_push_while_loading_def push0_def)
  ultimately show ?thesis using run by (metis numeral_3_eq_3 one_less_numeral_iff semiring_norm(77) zero_less_numeral)
qed

end
