(* ===== verification/Analytics_Worker.thy ===== *)
theory Analytics_Worker
  imports Analytics_Store
begin

text \<open>
  The worker that recomputes dirty repositories (\<^verbatim>\<open>internal/codegraph/worker.go\<close>,
  \<^verbatim>\<open>analytics_metrics.go\<close>) as a transition system: the loop of \<^verbatim>\<open>Run\<close> and \<^verbatim>\<open>processOnce\<close>, and the
  goroutines it launches, take turns one shared access at a time.  What the store answers is part of
  the event; log lines and histograms are left out.
\<close>

section \<open>Configuration\<close>

record AnalyticsWorkerConfig =
  awInterval :: int
  awDebounceSecs :: int
  awBetweennessMaxNodes :: int
  awRecomputeTimeout :: int
  awMaxConcurrency :: int

definition defaultBetweennessMaxNodes :: int where "defaultBetweennessMaxNodes = 5000"

definition analyticsResultSuccess :: string where "analyticsResultSuccess = ''success''"
definition analyticsResultError :: string where "analyticsResultError = ''error''"
definition analyticsResultTimeout :: string where "analyticsResultTimeout = ''timeout''"

record AnalyticsMetrics =
  amRuns :: "string \<Rightarrow> nat"
  amInFlight :: int
  amDirtyRepos :: nat
  amBetweennessSkipped :: nat

definition NewAnalyticsMetrics :: AnalyticsMetrics where
  "NewAnalyticsMetrics = \<lparr>amRuns = (\<lambda>_. 0), amInFlight = 0, amDirtyRepos = 0, amBetweennessSkipped = 0\<rparr>"

definition incRun :: "string \<Rightarrow> AnalyticsMetrics \<Rightarrow> AnalyticsMetrics" where
  "incRun result m = m\<lparr>amRuns := (amRuns m)(result := amRuns m result + 1)\<rparr>"

definition incInFlightRuns :: "AnalyticsMetrics \<Rightarrow> AnalyticsMetrics" where
  "incInFlightRuns m = m\<lparr>amInFlight := amInFlight m + 1\<rparr>"

definition decInFlightRuns :: "AnalyticsMetrics \<Rightarrow> AnalyticsMetrics" where
  "decInFlightRuns m = m\<lparr>amInFlight := amInFlight m - 1\<rparr>"

definition setDirtyRepos :: "nat \<Rightarrow> AnalyticsMetrics \<Rightarrow> AnalyticsMetrics" where
  "setDirtyRepos n m = m\<lparr>amDirtyRepos := n\<rparr>"

definition incBetweennessSkipped :: "AnalyticsMetrics \<Rightarrow> AnalyticsMetrics" where
  "incBetweennessSkipped m = m\<lparr>amBetweennessSkipped := amBetweennessSkipped m + 1\<rparr>"

section \<open>State\<close>

text \<open>Where the goroutine of a repository is: its statements and deferred calls in order.\<close>

datatype gphase = Spawned | Computing | Recorded | Decremented | Unclaimed | Released

record goroutine =
  gRepo :: string
  gPhase :: gphase

datatype loop =
    Selecting
  | Scanning "string list"
  | Acquiring string "string list"
  | Draining
  | Stopped

record AnalyticsWorker =
  wInterval :: int
  wDebounceSecs :: int
  wBetweennessMaxNodes :: int
  wRecomputeTimeout :: int
  wCapacity :: nat
  wMetrics :: AnalyticsMetrics
  wInflight :: "string list"
  wHeld :: nat
  wWaitGroup :: nat
  wGoroutines :: "goroutine list"
  wLoop :: loop
  wCanceled :: bool

definition NewAnalyticsWorker :: "int \<Rightarrow> AnalyticsWorkerConfig \<Rightarrow> AnalyticsWorker" where
  "NewAnalyticsWorker gomaxprocs cfg =
     (let c1 = (if awMaxConcurrency cfg < 1 then gomaxprocs else awMaxConcurrency cfg);
          concurrency = (if c1 < 1 then 1 else c1)
      in \<lparr>wInterval = (if awInterval cfg \<le> 0 then 30 * 1000000000 else awInterval cfg),
          wDebounceSecs = (if awDebounceSecs cfg \<le> 0 then 60 else awDebounceSecs cfg),
          wBetweennessMaxNodes = (if awBetweennessMaxNodes cfg = 0 then defaultBetweennessMaxNodes else awBetweennessMaxNodes cfg),
          wRecomputeTimeout = awRecomputeTimeout cfg, wCapacity = nat concurrency, wMetrics = NewAnalyticsMetrics,
          wInflight = [], wHeld = 0, wWaitGroup = 0, wGoroutines = [], wLoop = Selecting, wCanceled = False\<rparr>)"

section \<open>Steps\<close>

datatype wevent =
    Cancel
  | Tick "err + string list"
  | Loop
  | AbandonClaim
  | Step nat "err + RecomputeResult"

text \<open>The bookkeeping after \<^verbatim>\<open>RecomputeAnalytics\<close> returned.\<close>

definition record_run :: "bool \<Rightarrow> err + RecomputeResult \<Rightarrow> AnalyticsMetrics \<Rightarrow> AnalyticsMetrics" where
  "record_run canceled res m = (case res of
     Inl e \<Rightarrow> if \<not> canceled \<and> Is e DeadlineExceeded then incRun analyticsResultTimeout m else incRun analyticsResultError m
   | Inr rr \<Rightarrow> (let m1 = incRun analyticsResultSuccess m in if rcBetweennessSkipped rr then incBetweennessSkipped m1 else m1))"

definition goroutine_step :: "nat \<Rightarrow> err + RecomputeResult \<Rightarrow> AnalyticsWorker \<Rightarrow> AnalyticsWorker option" where
  "goroutine_step i res w =
     (if i < length (wGoroutines w) then
        let g = wGoroutines w ! i; goto = (\<lambda>p v. v\<lparr>wGoroutines := (wGoroutines v)[i := g\<lparr>gPhase := p\<rparr>]\<rparr>) in
        Some (case gPhase g of
          Spawned \<Rightarrow> goto Computing (w\<lparr>wMetrics := incInFlightRuns (wMetrics w)\<rparr>)
        | Computing \<Rightarrow> goto Recorded (w\<lparr>wMetrics := record_run (wCanceled w) res (wMetrics w)\<rparr>)
        | Recorded \<Rightarrow> goto Decremented (w\<lparr>wMetrics := decInFlightRuns (wMetrics w)\<rparr>)
        | Decremented \<Rightarrow> goto Unclaimed (w\<lparr>wInflight := filter (\<lambda>r. r \<noteq> gRepo g) (wInflight w)\<rparr>)
        | Unclaimed \<Rightarrow> goto Released (w\<lparr>wHeld := wHeld w - 1\<rparr>)
        | Released \<Rightarrow> w\<lparr>wWaitGroup := wWaitGroup w - 1, wGoroutines := take i (wGoroutines w) @ drop (Suc i) (wGoroutines w)\<rparr>)
      else None)"

definition loop_step :: "AnalyticsWorker \<Rightarrow> AnalyticsWorker option" where
  "loop_step w = (case wLoop w of
     Selecting \<Rightarrow> if wCanceled w then Some (w\<lparr>wLoop := Draining\<rparr>) else None
   | Scanning [] \<Rightarrow> Some (w\<lparr>wLoop := Selecting\<rparr>)
   | Scanning (repo # repos) \<Rightarrow>
       if repo \<in> set (wInflight w) then Some (w\<lparr>wLoop := Scanning repos\<rparr>)
       else Some (w\<lparr>wInflight := repo # wInflight w, wLoop := Acquiring repo repos\<rparr>)
   | Acquiring repo repos \<Rightarrow>
       if wHeld w < wCapacity w
       then Some (w\<lparr>wHeld := wHeld w + 1, wWaitGroup := wWaitGroup w + 1,
                    wGoroutines := wGoroutines w @ [\<lparr>gRepo = repo, gPhase = Spawned\<rparr>], wLoop := Scanning repos\<rparr>)
       else None
   | Draining \<Rightarrow> if wWaitGroup w = 0 then Some (w\<lparr>wLoop := Stopped\<rparr>) else None
   | Stopped \<Rightarrow> None)"

definition abandon_claim :: "AnalyticsWorker \<Rightarrow> AnalyticsWorker option" where
  "abandon_claim w = (case wLoop w of
     Acquiring repo repos \<Rightarrow>
       if wCanceled w then Some (w\<lparr>wInflight := filter (\<lambda>r. r \<noteq> repo) (wInflight w), wLoop := Selecting\<rparr>) else None
   | _ \<Rightarrow> None)"

definition tick_step :: "err + string list \<Rightarrow> AnalyticsWorker \<Rightarrow> AnalyticsWorker option" where
  "tick_step dirty w = (case wLoop w of
     Selecting \<Rightarrow> (case dirty of
        Inl e \<Rightarrow> Some w
      | Inr repos \<Rightarrow> Some (w\<lparr>wMetrics := setDirtyRepos (length repos) (wMetrics w), wLoop := Scanning repos\<rparr>))
   | _ \<Rightarrow> None)"

definition wstep :: "wevent \<Rightarrow> AnalyticsWorker \<Rightarrow> AnalyticsWorker option" where
  "wstep ev w = (case ev of
     Cancel \<Rightarrow> Some (w\<lparr>wCanceled := True\<rparr>)
   | Tick dirty \<Rightarrow> tick_step dirty w
   | Loop \<Rightarrow> loop_step w
   | AbandonClaim \<Rightarrow> abandon_claim w
   | Step i res \<Rightarrow> goroutine_step i res w)"

inductive wreach :: "AnalyticsWorker \<Rightarrow> AnalyticsWorker \<Rightarrow> bool" for w0 where
  wreach_start: "wreach w0 w0"
| wreach_step: "wreach w0 w \<Longrightarrow> wstep ev w = Some w' \<Longrightarrow> wreach w0 w'"

section \<open>The worker's invariant\<close>

definition holds_claim :: "goroutine \<Rightarrow> bool" where
  "holds_claim g \<longleftrightarrow> gPhase g \<notin> {Unclaimed, Released}"

definition in_gauge :: "goroutine \<Rightarrow> bool" where
  "in_gauge g \<longleftrightarrow> gPhase g \<in> {Computing, Recorded}"

definition claimed :: "AnalyticsWorker \<Rightarrow> string list" where
  "claimed w = map gRepo (filter holds_claim (wGoroutines w)) @ (case wLoop w of Acquiring r rs \<Rightarrow> [r] | _ \<Rightarrow> [])"

definition winv :: "AnalyticsWorker \<Rightarrow> bool" where
  "winv w \<longleftrightarrow> distinct (claimed w) \<and> set (wInflight w) = set (claimed w)
     \<and> wHeld w = count_if (\<lambda>g. gPhase g \<noteq> Released) (wGoroutines w) \<and> wHeld w \<le> wCapacity w
     \<and> wWaitGroup w = length (wGoroutines w)
     \<and> amInFlight (wMetrics w) = int (count_if in_gauge (wGoroutines w))
     \<and> (wLoop w = Stopped \<longrightarrow> wGoroutines w = []) \<and> (wLoop w \<in> {Draining, Stopped} \<longrightarrow> wCanceled w)"

lemmas winv_defs = winv_def claimed_def holds_claim_def in_gauge_def

lemma record_run_gauge [simp]: "amInFlight (record_run b res m) = amInFlight m"
  by (simp add: record_run_def incRun_def incBetweennessSkipped_def Let_def split: sum.splits)

lemma winv_new: "winv (NewAnalyticsWorker gomaxprocs cfg)"
  by (simp add: winv_defs NewAnalyticsWorker_def NewAnalyticsMetrics_def Let_def)

lemma winv_loop:
  assumes "winv w" "loop_step w = Some w'"
  shows "winv w'"
proof (cases "wLoop w")
  case Selecting
  with assms show ?thesis by (auto simp: winv_def claimed_def loop_step_def split: if_splits)
next
  case (Scanning repos)
  show ?thesis
  proof (cases repos)
    case Nil
    with Scanning assms show ?thesis by (auto simp: winv_def claimed_def loop_step_def)
  next
    case (Cons r rs)
    with Scanning assms show ?thesis
      by (cases "r \<in> set (wInflight w)") (auto simp: winv_def claimed_def loop_step_def)
  qed
next
  case (Acquiring r rs)
  with assms have w': "w' = w\<lparr>wHeld := wHeld w + 1, wWaitGroup := wWaitGroup w + 1,
      wGoroutines := wGoroutines w @ [\<lparr>gRepo = r, gPhase = Spawned\<rparr>], wLoop := Scanning rs\<rparr>" and room: "wHeld w < wCapacity w"
    by (auto simp: loop_step_def split: if_splits)
  from Acquiring room assms(1) show ?thesis by (simp add: w' winv_defs)
next
  case Draining
  with assms show ?thesis by (auto simp: winv_def claimed_def loop_step_def split: if_splits)
qed (use assms in \<open>simp add: loop_step_def\<close>)

lemma winv_tick: "winv w \<Longrightarrow> tick_step d w = Some w' \<Longrightarrow> winv w'"
  by (auto simp: winv_defs tick_step_def setDirtyRepos_def split: loop.splits sum.splits)

lemma winv_abandon: "winv w \<Longrightarrow> abandon_claim w = Some w' \<Longrightarrow> winv w'"
  by (auto simp: winv_defs abandon_claim_def split: loop.splits if_splits)

text \<open>The step of a goroutine, in the middle of the list of all of them.\<close>

definition advance :: "goroutine list \<Rightarrow> goroutine \<Rightarrow> goroutine list \<Rightarrow> err + RecomputeResult \<Rightarrow> AnalyticsWorker \<Rightarrow> AnalyticsWorker" where
  "advance xs g ys res w =
     (let goto = (\<lambda>p v. v\<lparr>wGoroutines := xs @ g\<lparr>gPhase := p\<rparr> # ys\<rparr>) in
      case gPhase g of
          Spawned \<Rightarrow> goto Computing (w\<lparr>wMetrics := incInFlightRuns (wMetrics w)\<rparr>)
        | Computing \<Rightarrow> goto Recorded (w\<lparr>wMetrics := record_run (wCanceled w) res (wMetrics w)\<rparr>)
        | Recorded \<Rightarrow> goto Decremented (w\<lparr>wMetrics := decInFlightRuns (wMetrics w)\<rparr>)
        | Decremented \<Rightarrow> goto Unclaimed (w\<lparr>wInflight := filter (\<lambda>r. r \<noteq> gRepo g) (wInflight w)\<rparr>)
        | Unclaimed \<Rightarrow> goto Released (w\<lparr>wHeld := wHeld w - 1\<rparr>)
        | Released \<Rightarrow> w\<lparr>wWaitGroup := wWaitGroup w - 1, wGoroutines := xs @ ys\<rparr>)"

lemma goroutine_step_at:
  assumes "goroutine_step i res w = Some w'"
  obtains xs g ys where "wGoroutines w = xs @ g # ys" "length xs = i" "w' = advance xs g ys res w"
proof -
  have i: "i < length (wGoroutines w)" using assms by (auto simp: goroutine_step_def split: if_splits)
  let ?xs = "take i (wGoroutines w)" and ?g = "wGoroutines w ! i" and ?ys = "drop (Suc i) (wGoroutines w)"
  have "w' = advance ?xs ?g ?ys res w"
    using assms i by (cases "gPhase ?g") (simp_all add: goroutine_step_def advance_def Let_def upd_conv_take_nth_drop)
  with i that [of ?xs ?g ?ys] show thesis by (simp add: id_take_nth_drop [symmetric])
qed

lemma winv_advance:
  assumes inv: "winv w" and gs: "wGoroutines w = xs @ g # ys"
  shows "winv (advance xs g ys res w)"
proof (cases "gPhase g")
  case Spawned
  with assms show ?thesis by (simp add: winv_defs advance_def Let_def incInFlightRuns_def)
next
  case Computing
  with assms show ?thesis by (simp add: winv_defs advance_def Let_def)
next
  case Recorded
  with assms show ?thesis by (simp add: winv_defs advance_def Let_def decInFlightRuns_def)
next
  case Decremented
  let ?w' = "advance xs g ys res w"
  define tail where "tail = map gRepo (filter holds_claim ys) @ (case wLoop w of Acquiring r rs \<Rightarrow> [r] | _ \<Rightarrow> [])"
  have w': "?w' = w\<lparr>wInflight := filter (\<lambda>r. r \<noteq> gRepo g) (wInflight w), wGoroutines := xs @ g\<lparr>gPhase := Unclaimed\<rparr> # ys\<rparr>"
    using Decremented by (simp add: advance_def)
  define front where "front = map gRepo (filter holds_claim xs)"
  have c: "claimed w = front @ gRepo g # tail" "claimed ?w' = front @ tail"
    using Decremented by (simp_all add: w' gs claimed_def holds_claim_def tail_def front_def)
  have "distinct (claimed w)" "set (wInflight w) = set (claimed w)" using inv unfolding winv_def by blast+
  then have "distinct (claimed ?w')" "set (wInflight ?w') = set (claimed ?w')" unfolding c by (auto simp: w')
  moreover have "wHeld ?w' = count_if (\<lambda>g. gPhase g \<noteq> Released) (wGoroutines ?w')" "amInFlight (wMetrics ?w') = int (count_if in_gauge (wGoroutines ?w'))"
    using inv Decremented by (simp_all add: w' winv_def gs in_gauge_def)
  ultimately show ?thesis using inv unfolding winv_def by (simp add: w' gs)
next
  case Unclaimed
  with assms show ?thesis by (simp add: winv_defs advance_def Let_def)
next
  case Released
  with assms show ?thesis by (simp add: winv_defs advance_def Let_def)
qed

lemma winv_reachable: "wreach (NewAnalyticsWorker gomaxprocs cfg) w \<Longrightarrow> winv w"
proof (induction rule: wreach.induct)
  case (wreach_step w ev w')
  show ?case
  proof (cases ev)
    case Cancel
    with wreach_step.hyps(2) have "w' = w\<lparr>wCanceled := True\<rparr>" by (simp add: wstep_def)
    with wreach_step.IH show ?thesis by (simp add: winv_def claimed_def)
  next
    case (Step i res)
    with wreach_step.hyps(2) have "goroutine_step i res w = Some w'" by (simp add: wstep_def)
    then obtain xs g ys where "wGoroutines w = xs @ g # ys" "w' = advance xs g ys res w" by (rule goroutine_step_at)
    with winv_advance [OF wreach_step.IH] show ?thesis by simp
  qed (use wreach_step in \<open>auto simp: wstep_def intro: winv_tick winv_loop winv_abandon\<close>)
qed (rule winv_new)

lemma capacity_step: "wstep ev w = Some w' \<Longrightarrow> wCapacity w' = wCapacity w"
  by (cases ev) (auto simp: wstep_def tick_step_def loop_step_def abandon_claim_def goroutine_step_def Let_def
      split: loop.splits list.splits sum.splits if_splits gphase.splits)

lemma capacity_kept: "wreach w0 w \<Longrightarrow> wCapacity w = wCapacity w0"
  by (induction rule: wreach.induct) (simp_all add: capacity_step)

lemma recomputes_bounded:
  assumes "wreach (NewAnalyticsWorker gomaxprocs cfg) w"
  shows "length (filter (\<lambda>g. gPhase g \<noteq> Released) (wGoroutines w)) \<le> wCapacity (NewAnalyticsWorker gomaxprocs cfg)"
  using winv_reachable [OF assms] capacity_kept [OF assms] by (simp add: winv_def count_if_def)

text \<open>
  C26: the worker is single-flight and bounded.  In every reachable state no two goroutines compute the
  same repository; no more of them hold a slot than the configured concurrency; the in-flight gauge is
  the number of recomputes under way, so it never exceeds that concurrency; and once \<^verbatim>\<open>Run\<close> has
  returned, the context was cancelled and no goroutine is left.
\<close>

theorem worker_single_flight:
  assumes "wreach (NewAnalyticsWorker gomaxprocs cfg) w"
  shows "distinct (map gRepo (filter (\<lambda>g. gPhase g \<in> {Spawned, Computing, Recorded, Decremented}) (wGoroutines w)))
    \<and> length (filter (\<lambda>g. gPhase g \<noteq> Released) (wGoroutines w)) \<le> wCapacity w
    \<and> amInFlight (wMetrics w) = int (length (filter (\<lambda>g. gPhase g \<in> {Computing, Recorded}) (wGoroutines w)))
    \<and> amInFlight (wMetrics w) \<le> int (wCapacity w)
    \<and> (wLoop w = Stopped \<longrightarrow> wCanceled w \<and> wGoroutines w = [])"
proof -
  have inv: "winv w" by (rule winv_reachable [OF assms])
  have phases: "holds_claim g \<longleftrightarrow> gPhase g \<in> {Spawned, Computing, Recorded, Decremented}" for g
    by (cases "gPhase g") (simp_all add: holds_claim_def)
  have "distinct (map gRepo (filter holds_claim (wGoroutines w)))" using inv by (simp add: winv_def claimed_def)
  moreover have "count_if in_gauge gs \<le> count_if (\<lambda>g. gPhase g \<noteq> Released) gs" for gs
    by (induction gs) (auto simp: in_gauge_def)
  then have "count_if in_gauge (wGoroutines w) \<le> wCapacity w" using inv unfolding winv_def by (metis order_trans)
  moreover have "count_if p gs = length (filter p gs)" for p and gs :: "goroutine list" by (simp add: count_if_def)
  ultimately show ?thesis using inv unfolding winv_def in_gauge_def phases by (simp only:) auto
qed

theorem worker_single_flight_witness:
  "\<exists>w. wreach (NewAnalyticsWorker 1 \<lparr>awInterval = 0, awDebounceSecs = 0, awBetweennessMaxNodes = 0, awRecomputeTimeout = 0, awMaxConcurrency = 0\<rparr>) w
     \<and> length (wGoroutines w) = 1 \<and> distinct (map gRepo (filter (\<lambda>g. gPhase g \<in> {Spawned, Computing, Recorded, Decremented}) (wGoroutines w)))"
proof -
  let ?w0 = "NewAnalyticsWorker 1 \<lparr>awInterval = 0, awDebounceSecs = 0, awBetweennessMaxNodes = 0, awRecomputeTimeout = 0, awMaxConcurrency = 0\<rparr>"
  note eval = wstep_def tick_step_def loop_step_def NewAnalyticsWorker_def
  have "\<exists>w3. wreach ?w0 w3 \<and> length (wGoroutines w3) = 1"
  proof -
    obtain w1 where 1: "wstep (Tick (Inr [''r''])) ?w0 = Some w1" "wLoop w1 = Scanning [''r'']" "wInflight w1 = []" "wHeld w1 = 0" "wCapacity w1 = 1" "wGoroutines w1 = []"
      by (simp add: eval)
    obtain w2 where 2: "wstep Loop w1 = Some w2" "wLoop w2 = Acquiring ''r'' []" "wHeld w2 = 0" "wCapacity w2 = 1" "wGoroutines w2 = []"
      using 1 by (simp add: eval)
    obtain w3 where 3: "wstep Loop w2 = Some w3" "length (wGoroutines w3) = 1" using 2 by (simp add: eval)
    show ?thesis using wreach_step [OF wreach_step [OF wreach_step [OF wreach_start 1(1)] 2(1)] 3(1)] 3(2) by blast
  qed
  then show ?thesis using worker_single_flight by blast
qed

section \<open>Shutdown\<close>

fun wrun :: "wevent list \<Rightarrow> AnalyticsWorker \<Rightarrow> AnalyticsWorker option" where
  "wrun [] w = Some w"
| "wrun (ev # evs) w = (case wstep ev w of None \<Rightarrow> None | Some w' \<Rightarrow> wrun evs w')"

definition own_step :: "wevent \<Rightarrow> bool" where
  "own_step ev \<longleftrightarrow> (case ev of Cancel \<Rightarrow> False | Tick d \<Rightarrow> False | _ \<Rightarrow> True)"

fun phase_left :: "gphase \<Rightarrow> nat" where
  "phase_left Spawned = 6"
| "phase_left Computing = 5"
| "phase_left Recorded = 4"
| "phase_left Decremented = 3"
| "phase_left Unclaimed = 2"
| "phase_left Released = 1"

fun loop_left :: "loop \<Rightarrow> nat" where
  "loop_left Selecting = 2"
| "loop_left (Scanning rs) = 8 * length rs + 3"
| "loop_left (Acquiring r rs) = 8 * length rs + 10"
| "loop_left Draining = 1"
| "loop_left Stopped = 0"

definition work_left :: "AnalyticsWorker \<Rightarrow> nat" where
  "work_left w = loop_left (wLoop w) + sum_list (map (\<lambda>g. phase_left (gPhase g)) (wGoroutines w))"

lemma advance_works: "wGoroutines w = xs @ g # ys \<Longrightarrow> work_left (advance xs g ys res w) < work_left w"
  by (cases "gPhase g") (simp_all add: advance_def work_left_def)

lemma own_step_works:
  assumes "wstep ev w = Some w'" "own_step ev"
  shows "work_left w' < work_left w"
proof (cases ev)
  case (Step i res)
  with assms(1) have "goroutine_step i res w = Some w'" by (simp add: wstep_def)
  then obtain xs g ys where "wGoroutines w = xs @ g # ys" "w' = advance xs g ys res w" by (rule goroutine_step_at)
  then show ?thesis by (simp add: advance_works)
next
  case Loop
  show ?thesis
  proof (cases "wLoop w")
    case (Scanning repos)
    with Loop assms(1) show ?thesis by (cases repos) (auto simp: wstep_def loop_step_def work_left_def split: if_splits)
  qed (use Loop assms(1) in \<open>auto simp: wstep_def loop_step_def work_left_def split: if_splits\<close>)
next
  case AbandonClaim
  with assms(1) show ?thesis by (auto simp: wstep_def abandon_claim_def work_left_def split: loop.splits if_splits)
qed (use assms(2) in \<open>simp_all add: own_step_def\<close>)

lemma canceled_not_stuck:
  assumes "winv w" "wCanceled w" "wLoop w \<noteq> Stopped"
  shows "\<exists>ev w'. own_step ev \<and> wstep ev w = Some w'"
proof (cases "wGoroutines w")
  case Nil
  show ?thesis
  proof (cases "wLoop w")
    case (Acquiring r rs)
    with assms(2) show ?thesis by (intro exI [of _ AbandonClaim]) (simp add: own_step_def wstep_def abandon_claim_def)
  next
    case (Scanning rs)
    then show ?thesis by (intro exI [of _ Loop]) (simp add: own_step_def wstep_def loop_step_def split: list.splits)
  next
    case Draining
    with assms(1) Nil show ?thesis by (intro exI [of _ Loop]) (simp add: own_step_def wstep_def loop_step_def winv_def)
  qed (use assms in \<open>auto simp: own_step_def wstep_def loop_step_def intro!: exI [of _ Loop]\<close>)
next
  case (Cons g gs)
  then show ?thesis by (intro exI [of _ "Step 0 undefined"]) (simp add: own_step_def wstep_def goroutine_step_def Let_def)
qed

lemma wrun_reach: "wreach w0 w \<Longrightarrow> wrun evs w = Some w' \<Longrightarrow> wreach w0 w'"
  by (induction evs arbitrary: w) (auto intro: wreach_step split: option.splits)

lemma own_steps_bounded:
  "wrun evs w = Some w' \<Longrightarrow> list_all own_step evs \<Longrightarrow> length evs + work_left w' \<le> work_left w"
proof (induction evs arbitrary: w)
  case (Cons ev evs)
  then obtain w1 where "wstep ev w = Some w1" "wrun evs w1 = Some w'" by (auto split: option.splits)
  with Cons.IH [of w1] own_step_works [of ev w w1] Cons.prems(2) show ?case by fastforce
qed simp

lemma step_keeps_canceled:
  assumes "wstep ev w = Some w'" "wCanceled w"
  shows "wCanceled w'"
proof (cases ev)
  case (Step i res)
  with assms(1) have "goroutine_step i res w = Some w'" by (simp add: wstep_def)
  then obtain xs g ys where "w' = advance xs g ys res w" by (rule goroutine_step_at)
  with assms(2) show ?thesis by (cases "gPhase g") (simp_all add: advance_def)
qed (use assms in \<open>auto simp: wstep_def tick_step_def loop_step_def abandon_claim_def
      split: loop.splits list.splits sum.splits if_splits\<close>)

lemma wrun_canceled: "wrun evs w = Some w' \<Longrightarrow> wCanceled w \<Longrightarrow> wCanceled w'"
  by (induction evs arbitrary: w) (auto dest: step_keeps_canceled split: option.splits)

text \<open>
  C27: shutdown drains.  After the context is cancelled, however the loop and the goroutines are
  scheduled and with no further tick, the worker takes at most \<open>work_left\<close> steps (eight per repository
  still to scan and at most six per goroutine), and as long as \<^verbatim>\<open>Run\<close> has not returned some step is
  possible: \<^verbatim>\<open>Run\<close> returns, with every goroutine gone.
\<close>

theorem worker_drains:
  assumes "wreach (NewAnalyticsWorker gomaxprocs cfg) w" and "wCanceled w"
    and "wrun evs w = Some w'" and "list_all own_step evs"
  shows "length evs \<le> work_left w
    \<and> (if wLoop w' = Stopped then wGoroutines w' = [] else \<exists>ev w''. own_step ev \<and> wstep ev w' = Some w'')"
proof -
  have inv: "winv w'" by (rule winv_reachable [OF wrun_reach [OF assms(1,3)]])
  moreover have "wCanceled w'" by (rule wrun_canceled [OF assms(3,2)])
  moreover have "length evs \<le> work_left w" using own_steps_bounded [OF assms(3,4)] by simp
  ultimately show ?thesis using canceled_not_stuck [of w'] by (simp add: winv_def)
qed

theorem worker_drains_witness:
  "\<exists>w evs w'. wreach (NewAnalyticsWorker 1 \<lparr>awInterval = 0, awDebounceSecs = 0, awBetweennessMaxNodes = 0, awRecomputeTimeout = 0, awMaxConcurrency = 0\<rparr>) w
     \<and> wrun evs w = Some w' \<and> wLoop w' = Stopped \<and> length evs \<le> work_left w"
proof -
  let ?w0 = "NewAnalyticsWorker 1 \<lparr>awInterval = 0, awDebounceSecs = 0, awBetweennessMaxNodes = 0, awRecomputeTimeout = 0, awMaxConcurrency = 0\<rparr>"
  obtain w1 where 1: "wstep Cancel ?w0 = Some w1" "wCanceled w1" "wLoop w1 = Selecting" "wWaitGroup w1 = 0"
    by (simp add: wstep_def NewAnalyticsWorker_def)
  have r: "wreach ?w0 w1" by (rule wreach_step [OF wreach_start 1(1)])
  obtain w' where "wrun [Loop, Loop] w1 = Some w'" "wLoop w' = Stopped" using 1 by (simp add: wstep_def loop_step_def)
  moreover from this worker_drains [OF r 1(2), of "[Loop, Loop]" w'] have "length [Loop, Loop] \<le> work_left w1" by (simp add: own_step_def)
  ultimately show ?thesis using r by blast
qed

end
