(* ===== verification/Http_Admission.thy ===== *)
theory Http_Admission
  imports Http_Errors "HOL-Library.Word"
begin

text \<open>
  Admission control of the bulk routes (\<^verbatim>\<open>internal/httpapi/admission.go\<close>) as a transition system: the
  requests of one class take turns, one shared access (a channel operation or a metric) at a time.
  The channel \<^verbatim>\<open>slots\<close> is its capacity and the number of elements in it; the metric families are those
  of the limiter's own class label; log lines and histograms are left out.
\<close>

section \<open>The limiter\<close>

definition admissionAdmitted :: string where "admissionAdmitted = ''admitted''"
definition admissionShed :: string where "admissionShed = ''shed''"
definition admissionCanceled :: string where "admissionCanceled = ''canceled''"

lemma admission_results [simp]:
  "admissionAdmitted \<noteq> admissionShed" "admissionAdmitted \<noteq> admissionCanceled" "admissionShed \<noteq> admissionCanceled"
  "admissionShed \<noteq> admissionAdmitted" "admissionCanceled \<noteq> admissionAdmitted" "admissionCanceled \<noteq> admissionShed"
  by (simp_all add: admissionAdmitted_def admissionShed_def admissionCanceled_def)

record AdmissionMetrics =
  admInFlight :: int
  admWaiting :: int
  admTotal :: "string \<Rightarrow> nat"

definition NewAdmissionMetrics :: AdmissionMetrics where
  "NewAdmissionMetrics = \<lparr>admInFlight = 0, admWaiting = 0, admTotal = (\<lambda>_. 0)\<rparr>"

record AdmissionConfig =
  acClass :: string
  acMaxInFlight :: int
  acWait :: int
  acRetryAfter :: int

record AdmissionLimiter =
  lmClass :: string
  lmCapacity :: "nat option"
  lmSlots :: nat
  lmWait :: int
  lmRetryAfter :: int
  lmMetrics :: AdmissionMetrics
  lmShedSeq :: "64 word"

definition NewAdmissionLimiter :: "AdmissionConfig \<Rightarrow> AdmissionLimiter" where
  "NewAdmissionLimiter cfg =
     \<lparr>lmClass = acClass cfg, lmCapacity = (if acMaxInFlight cfg > 0 then Some (nat (acMaxInFlight cfg)) else None), lmSlots = 0,
      lmWait = acWait cfg, lmRetryAfter = acRetryAfter cfg, lmMetrics = NewAdmissionMetrics, lmShedSeq = 0\<rparr>"

definition observe :: "string \<Rightarrow> AdmissionLimiter \<Rightarrow> AdmissionLimiter" where
  "observe result l = l\<lparr>lmMetrics := (lmMetrics l)\<lparr>admTotal := (admTotal (lmMetrics l))(result := admTotal (lmMetrics l) result + 1)\<rparr>\<rparr>"

definition add_in_flight :: "int \<Rightarrow> AdmissionLimiter \<Rightarrow> AdmissionLimiter" where
  "add_in_flight d l = l\<lparr>lmMetrics := (lmMetrics l)\<lparr>admInFlight := admInFlight (lmMetrics l) + d\<rparr>\<rparr>"

definition add_waiting :: "int \<Rightarrow> AdmissionLimiter \<Rightarrow> AdmissionLimiter" where
  "add_waiting d l = l\<lparr>lmMetrics := (lmMetrics l)\<lparr>admWaiting := admWaiting (lmMetrics l) + d\<rparr>\<rparr>"

definition take_slot :: "AdmissionLimiter \<Rightarrow> AdmissionLimiter" where
  "take_slot l = l\<lparr>lmSlots := lmSlots l + 1\<rparr>"

definition release_slot :: "AdmissionLimiter \<Rightarrow> AdmissionLimiter" where
  "release_slot l = l\<lparr>lmSlots := lmSlots l - 1\<rparr>"

text \<open>The seconds of a duration, rounded up: \<^verbatim>\<open>int(math.Ceil(d.Seconds()))\<close>.\<close>

definition ceil_seconds :: "int \<Rightarrow> int" where
  "ceil_seconds d = - ((- d) div 1000000000)"

definition retryAfterEighths :: "int list" where
  "retryAfterEighths = [0, 1, 2, 3]"

definition retry_base :: "AdmissionLimiter \<Rightarrow> int" where
  "retry_base l = (let base = ceil_seconds (lmRetryAfter l) in if base < 1 then 1 else base)"

definition retryAfterSeconds :: "AdmissionLimiter \<Rightarrow> int \<times> AdmissionLimiter" where
  "retryAfterSeconds l =
     (let s = lmShedSeq l + 1
      in (retry_base l + retry_base l * retryAfterEighths ! unat (and s 3) div 8, l\<lparr>lmShedSeq := s\<rparr>))"

definition admission_shed_response :: "string \<Rightarrow> int \<Rightarrow> err_response" where
  "admission_shed_response reqID secs = (WriteError 429 ''too many concurrent bulk requests, retry after backoff'' reqID)
     \<lparr>rsRetryAfter := Some (dec_int secs), rsLog := Some LevelWarn\<rparr>"

definition shed :: "string \<Rightarrow> AdmissionLimiter \<Rightarrow> err_response \<times> AdmissionLimiter" where
  "shed reqID l = (case retryAfterSeconds (observe admissionShed l) of (secs, l') \<Rightarrow> (admission_shed_response reqID secs, l'))"

definition client_gone :: "string \<Rightarrow> err_response" where
  "client_gone reqID = WriteError 499 ''client closed request'' reqID"

section \<open>Requests\<close>

text \<open>
  Where a request is between two shared accesses.  \<open>Passed\<close> is a request of a limiter without slots:
  \<^verbatim>\<open>Middleware\<close> returned the next handler itself.  A \<open>Waiting\<close> request carries the time at which its
  timer fires; \<open>Granted\<close> and \<open>Refused\<close> still have the deferred decrement of the gauge to run.
\<close>

datatype rphase =
    Passed
  | Arrived
  | Saturated
  | Waiting int
  | Granted
  | Refused err_response
  | Holding
  | Executing
  | Leaving
  | Served
  | Rejected err_response

record request_at =
  raID :: string
  raPhase :: rphase

text \<open>
  The choices of a step: \<open>Proceed\<close> is the next statement, the other three are the cases of the
  \<^verbatim>\<open>select\<close> in \<^verbatim>\<open>queue\<close>.  A case that is not ready gives \<open>None\<close>.
\<close>

datatype choice = Proceed | SlotFree | TimerFires | ContextDone

definition Middleware_enter :: "AdmissionLimiter \<Rightarrow> rphase" where
  "Middleware_enter l = (if lmCapacity l = None then Passed else Arrived)"

definition slot_free :: "AdmissionLimiter \<Rightarrow> bool" where
  "slot_free l \<longleftrightarrow> (case lmCapacity l of None \<Rightarrow> False | Some n \<Rightarrow> lmSlots l < n)"

definition queue_select :: "int \<Rightarrow> string \<Rightarrow> int \<Rightarrow> choice \<Rightarrow> AdmissionLimiter \<Rightarrow> (rphase \<times> AdmissionLimiter) option" where
  "queue_select now reqID fires c l = (case c of
     SlotFree \<Rightarrow> if slot_free l then Some (Granted, observe admissionAdmitted (take_slot l)) else None
   | TimerFires \<Rightarrow> if fires \<le> now then (case shed reqID l of (resp, l') \<Rightarrow> Some (Refused resp, l')) else None
   | ContextDone \<Rightarrow> Some (Refused (client_gone reqID), observe admissionCanceled l)
   | Proceed \<Rightarrow> None)"

definition Middleware_step :: "int \<Rightarrow> string \<Rightarrow> choice \<Rightarrow> rphase \<Rightarrow> AdmissionLimiter \<Rightarrow> (rphase \<times> AdmissionLimiter) option" where
  "Middleware_step now reqID c ph l = (case ph of
     Waiting fires \<Rightarrow> queue_select now reqID fires c l
   | _ \<Rightarrow> if c \<noteq> Proceed then None else (case ph of
       Passed \<Rightarrow> Some (Served, l)
     | Arrived \<Rightarrow> if slot_free l then Some (Holding, observe admissionAdmitted (take_slot l)) else Some (Saturated, l)
     | Saturated \<Rightarrow> Some (Waiting (now + max (lmWait l) 0), add_waiting 1 l)
     | Granted \<Rightarrow> Some (Holding, add_waiting (- 1) l)
     | Refused resp \<Rightarrow> Some (Rejected resp, add_waiting (- 1) l)
     | Holding \<Rightarrow> Some (Executing, add_in_flight 1 l)
     | Executing \<Rightarrow> Some (Leaving, add_in_flight (- 1) l)
     | Leaving \<Rightarrow> Some (Served, release_slot l)
     | _ \<Rightarrow> None))"

record admission =
  anLimiter :: AdmissionLimiter
  anRequests :: "request_at list"
  anNow :: int

definition new_admission :: "AdmissionConfig \<Rightarrow> int \<Rightarrow> admission" where
  "new_admission cfg now = \<lparr>anLimiter = NewAdmissionLimiter cfg, anRequests = [], anNow = now\<rparr>"

datatype aevent = Arrive string | Advance nat choice | Elapse nat

fun astep :: "aevent \<Rightarrow> admission \<Rightarrow> admission option" where
  "astep (Arrive reqID) s = Some (s\<lparr>anRequests := anRequests s @ [\<lparr>raID = reqID, raPhase = Middleware_enter (anLimiter s)\<rparr>]\<rparr>)"
| "astep (Advance i c) s =
     (if i < length (anRequests s) then
        let r = anRequests s ! i in
        (case Middleware_step (anNow s) (raID r) c (raPhase r) (anLimiter s) of
           None \<Rightarrow> None
         | Some (ph, l) \<Rightarrow> Some (s\<lparr>anLimiter := l, anRequests := (anRequests s)[i := r\<lparr>raPhase := ph\<rparr>]\<rparr>))
      else None)"
| "astep (Elapse d) s = Some (s\<lparr>anNow := anNow s + int d\<rparr>)"

text \<open>The states that any schedule of arrivals, steps and passing time leads to.\<close>

inductive areachable :: "AdmissionConfig \<Rightarrow> int \<Rightarrow> admission \<Rightarrow> bool" for cfg t0 where
  start: "areachable cfg t0 (new_admission cfg t0)"
| step: "areachable cfg t0 s \<Longrightarrow> astep ev s = Some s' \<Longrightarrow> areachable cfg t0 s'"

inductive_cases areachable_cases: "areachable cfg t0 s"

section \<open>The invariant\<close>

definition holds_slot :: "rphase \<Rightarrow> bool" where
  "holds_slot ph \<longleftrightarrow> ph \<in> {Granted, Holding, Executing, Leaving}"

definition is_waiting :: "rphase \<Rightarrow> bool" where
  "is_waiting ph = (case ph of Waiting _ \<Rightarrow> True | Granted \<Rightarrow> True | Refused _ \<Rightarrow> True | _ \<Rightarrow> False)"

definition was_admitted :: "rphase \<Rightarrow> bool" where
  "was_admitted ph \<longleftrightarrow> ph \<in> {Granted, Holding, Executing, Leaving, Served}"

definition refusal :: "rphase \<Rightarrow> err_response option" where
  "refusal ph = (case ph of Refused r \<Rightarrow> Some r | Rejected r \<Rightarrow> Some r | _ \<Rightarrow> None)"

definition refused_with :: "int \<Rightarrow> rphase \<Rightarrow> bool" where
  "refused_with st ph = (case refusal ph of None \<Rightarrow> False | Some r \<Rightarrow> rsStatus r = st)"

definition in_phase :: "(rphase \<Rightarrow> bool) \<Rightarrow> admission \<Rightarrow> nat" where
  "in_phase p s = count_if (\<lambda>r. p (raPhase r)) (anRequests s)"

lemmas limiter_defs = observe_def add_in_flight_def add_waiting_def take_slot_def release_slot_def shed_def retryAfterSeconds_def
  retry_base_def client_gone_def admission_shed_response_def WriteError_def Let_def

lemmas phase_defs = holds_slot_def is_waiting_def was_admitted_def refusal_def refused_with_def

definition same_limits :: "AdmissionLimiter \<Rightarrow> AdmissionLimiter \<Rightarrow> bool" where
  "same_limits l l' \<longleftrightarrow> lmCapacity l' = lmCapacity l \<and> lmWait l' = lmWait l \<and> lmRetryAfter l' = lmRetryAfter l"

text \<open>A refusal as the client sees it.\<close>

definition good_refusal :: "AdmissionLimiter \<Rightarrow> string \<Rightarrow> err_response \<Rightarrow> bool" where
  "good_refusal l reqID r \<longleftrightarrow> r = client_gone reqID
     \<or> (\<exists>k \<in> {0, 1, 2, 3}. r = admission_shed_response reqID (retry_base l + retry_base l * k div 8))"

lemma eighths_range: "retryAfterEighths ! unat (and s 3 :: 64 word) \<in> {0, 1, 2, 3}"
proof -
  have "and s 3 = take_bit 2 s" by (simp add: take_bit_eq_mask mask_eq_exp_minus_1)
  then have "unat (and s 3) = take_bit 2 (unat s)" by (simp add: unsigned_take_bit_eq)
  then have "unat (and s 3) < 4" by (simp add: take_bit_eq_mod)
  then show ?thesis by (auto simp: retryAfterEighths_def less_Suc_eq numeral_eq_Suc nth_Cons' )
qed

lemma retry_base_observe: "retry_base (observe res l) = retry_base l"
  by (simp add: retry_base_def observe_def)

lemma retryAfterSeconds_range:
  "retryAfterSeconds l = (secs, l') \<Longrightarrow> \<exists>k \<in> {0, 1, 2, 3}. secs = retry_base l + retry_base l * k div 8"
  using eighths_range [of "lmShedSeq l + 1"] by (auto simp: retryAfterSeconds_def Let_def)

text \<open>What one step changes, for every phase and choice.\<close>

lemma Middleware_step_limits:
  "Middleware_step now reqID c ph l = Some (ph', l') \<Longrightarrow> same_limits l l'"
  by (cases ph; cases c) (auto simp: Middleware_step_def queue_select_def limiter_defs same_limits_def split: if_splits)

lemma Middleware_step_slots:
  "Middleware_step now reqID c ph l = Some (ph', l') \<Longrightarrow> (ph = Leaving \<Longrightarrow> lmSlots l > 0) \<Longrightarrow>
   int (lmSlots l') = int (lmSlots l) + of_bool (holds_slot ph') - of_bool (holds_slot ph)"
  by (cases ph; cases c) (auto simp: Middleware_step_def queue_select_def limiter_defs phase_defs split: if_splits)

lemma Middleware_step_bound:
  "Middleware_step now reqID c ph l = Some (ph', l') \<Longrightarrow> lmCapacity l = Some n \<Longrightarrow> lmSlots l \<le> n \<Longrightarrow> lmSlots l' \<le> n"
  by (cases ph; cases c) (auto simp: Middleware_step_def queue_select_def slot_free_def limiter_defs split: if_splits)

lemma Middleware_step_gauges:
  "Middleware_step now reqID c ph l = Some (ph', l') \<Longrightarrow>
     admInFlight (lmMetrics l') = admInFlight (lmMetrics l) + of_bool (ph' = Executing) - of_bool (ph = Executing)
     \<and> admWaiting (lmMetrics l') = admWaiting (lmMetrics l) + of_bool (is_waiting ph') - of_bool (is_waiting ph)"
  by (cases ph; cases c) (auto simp: Middleware_step_def queue_select_def limiter_defs phase_defs split: if_splits)

lemma shed_effect:
  assumes "shed reqID l = (r, l')"
  shows "rsStatus r = 429" "lmMetrics l' = lmMetrics (observe admissionShed l)"
  using assms by (auto simp: shed_def retryAfterSeconds_def admission_shed_response_def WriteError_def Let_def)

definition outcome_of :: "string \<Rightarrow> rphase \<Rightarrow> bool" where
  "outcome_of result ph = (if result = admissionAdmitted then was_admitted ph
     else if result = admissionShed then refused_with 429 ph else result = admissionCanceled \<and> refused_with 499 ph)"

lemma outcome_of_new [simp]: "\<not> outcome_of result Passed" "\<not> outcome_of result Arrived"
  by (simp_all add: outcome_of_def phase_defs)

lemma outcome_of_results: "outcome_of admissionAdmitted = was_admitted" "outcome_of admissionShed = refused_with 429"
  "outcome_of admissionCanceled = refused_with 499"
  by (simp_all add: outcome_of_def fun_eq_iff)

lemma observe_total: "int (admTotal (lmMetrics (observe r l)) result) = int (admTotal (lmMetrics l) result) + of_bool (result = r)"
  by (simp add: observe_def)

lemma Middleware_step_totals:
  assumes "Middleware_step now reqID c ph l = Some (ph', l')" "ph \<noteq> Passed"
  shows "int (admTotal (lmMetrics l') result) = int (admTotal (lmMetrics l) result) + of_bool (outcome_of result ph') - of_bool (outcome_of result ph)"
proof (cases "\<exists>t. ph = Waiting t")
  case True
  then obtain t where ph: "ph = Waiting t" ..
  have o: "\<not> outcome_of result ph" by (simp add: ph outcome_of_def phase_defs)
  from assms(1) ph consider "ph' = Granted" "l' = observe admissionAdmitted (take_slot l)"
    | r where "ph' = Refused r" "shed reqID l = (r, l')" | "ph' = Refused (client_gone reqID)" "l' = observe admissionCanceled l"
    by (cases c) (auto simp: Middleware_step_def queue_select_def split: if_splits prod.splits)
  then show ?thesis
  proof cases
    case 1
    then show ?thesis using o by (auto simp: observe_total outcome_of_def phase_defs take_slot_def)
  next
    case (2 r)
    then show ?thesis using o shed_effect [OF 2(2)] by (simp add: observe_total outcome_of_def phase_defs)
  next
    case 3
    then show ?thesis using o by (auto simp: observe_total outcome_of_def phase_defs client_gone_def WriteError_def)
  qed
next
  case False
  with assms have "ph = Arrived \<and> ph' = Holding \<and> l' = observe admissionAdmitted (take_slot l)
      \<or> admTotal (lmMetrics l') = admTotal (lmMetrics l) \<and> was_admitted ph' = was_admitted ph \<and> refusal ph' = refusal ph"
    by (cases ph) (simp_all add: Middleware_step_def was_admitted_def refusal_def add_waiting_def add_in_flight_def release_slot_def split: if_splits, fastforce+)
  then show ?thesis
  proof
    assume "ph = Arrived \<and> ph' = Holding \<and> l' = observe admissionAdmitted (take_slot l)"
    then show ?thesis by (simp add: observe_total outcome_of_def phase_defs take_slot_def)
  next
    assume "admTotal (lmMetrics l') = admTotal (lmMetrics l) \<and> was_admitted ph' = was_admitted ph \<and> refusal ph' = refusal ph"
    then show ?thesis by (simp add: outcome_of_def refused_with_def)
  qed
qed

lemma Middleware_step_phase:
  "Middleware_step now reqID c ph l = Some (ph', l') \<Longrightarrow> ph' \<noteq> Passed \<and> (ph = Passed \<longrightarrow> ph' = Served \<and> l' = l)"
  by (cases ph; cases c) (auto simp: Middleware_step_def queue_select_def split: if_splits prod.splits)

lemma Middleware_step_refusal:
  assumes "Middleware_step now reqID c ph l = Some (ph', l')" "\<And>r. refusal ph = Some r \<Longrightarrow> good_refusal l reqID r"
  shows "refusal ph' = Some r \<Longrightarrow> good_refusal l reqID r"
proof (cases "\<exists>t. ph = Waiting t \<and> c = TimerFires")
  case True
  then obtain secs l1 where "retryAfterSeconds (observe admissionShed l) = (secs, l1)"
    and ph': "ph' = Refused (admission_shed_response reqID secs)"
    using assms(1) by (auto simp: Middleware_step_def queue_select_def shed_def split: if_splits prod.splits)
  then obtain k where "k \<in> {0, 1, 2, 3}" "secs = retry_base l + retry_base l * k div 8"
    using retryAfterSeconds_range [of "observe admissionShed l" secs l1] by (simp only: retry_base_observe) blast
  then show "refusal ph' = Some r \<Longrightarrow> good_refusal l reqID r" using ph' by (auto simp: good_refusal_def refusal_def)
next
  case False
  then show "refusal ph' = Some r \<Longrightarrow> good_refusal l reqID r" using assms
    by (cases ph; cases c) (auto simp: Middleware_step_def queue_select_def good_refusal_def refusal_def split: if_splits)
qed

definition request_ok :: "AdmissionLimiter \<Rightarrow> int \<Rightarrow> request_at \<Rightarrow> bool" where
  "request_ok l now r \<longleftrightarrow>
     (if lmCapacity l = None then raPhase r \<in> {Passed, Served} else raPhase r \<noteq> Passed)
     \<and> (\<forall>resp. refusal (raPhase r) = Some resp \<longrightarrow> good_refusal l (raID r) resp)
     \<and> (\<forall>fires. raPhase r = Waiting fires \<longrightarrow> fires \<le> now + max (lmWait l) 0)"

definition counts_ok :: "admission \<Rightarrow> bool" where
  "counts_ok s \<longleftrightarrow> (let l = anLimiter s in
     lmSlots l = in_phase holds_slot s
     \<and> (\<forall>n. lmCapacity l = Some n \<longrightarrow> lmSlots l \<le> n)
     \<and> admInFlight (lmMetrics l) = int (in_phase (\<lambda>ph. ph = Executing) s)
     \<and> admWaiting (lmMetrics l) = int (in_phase is_waiting s)
     \<and> (lmCapacity l \<noteq> None \<longrightarrow> (\<forall>result. admTotal (lmMetrics l) result = in_phase (outcome_of result) s)))"

definition adm_inv :: "AdmissionConfig \<Rightarrow> admission \<Rightarrow> bool" where
  "adm_inv cfg s \<longleftrightarrow> same_limits (NewAdmissionLimiter cfg) (anLimiter s) \<and> counts_ok s
     \<and> (\<forall>r \<in> set (anRequests s). request_ok (anLimiter s) (anNow s) r)"

lemma in_phase_update:
  assumes "i < length (anRequests s)"
  shows "int (in_phase p (s\<lparr>anLimiter := l, anRequests := (anRequests s)[i := (anRequests s ! i)\<lparr>raPhase := ph\<rparr>]\<rparr>)) =
    int (in_phase p s) - of_bool (p (raPhase (anRequests s ! i))) + of_bool (p ph)"
  using count_if_update [OF assms, of "\<lambda>r. p (raPhase r)"] by (simp add: in_phase_def)

lemma request_ok_limits: "same_limits l l' \<Longrightarrow> request_ok l' = request_ok l"
  by (auto simp: same_limits_def request_ok_def good_refusal_def retry_base_def fun_eq_iff)

lemma Middleware_step_waiting:
  "Middleware_step now reqID c ph l = Some (Waiting fires, l') \<Longrightarrow> fires \<le> now + max (lmWait l) 0"
  by (cases ph; cases c) (auto simp: Middleware_step_def queue_select_def split: if_splits prod.splits)

lemma counts_ok_step:
  assumes s: "counts_ok s" and i: "i < length (anRequests s)" and ok: "request_ok (anLimiter s) (anNow s) (anRequests s ! i)"
    and st: "Middleware_step (anNow s) (raID (anRequests s ! i)) c (raPhase (anRequests s ! i)) (anLimiter s) = Some (ph, l)"
  shows "counts_ok (s\<lparr>anLimiter := l, anRequests := (anRequests s)[i := (anRequests s ! i)\<lparr>raPhase := ph\<rparr>]\<rparr>)" (is "counts_ok ?s'")
proof -
  let ?ph = "raPhase (anRequests s ! i)" and ?l = "anLimiter s"
  note upd = in_phase_update [OF i, where l = l and ph = ph]
  have slots: "lmSlots ?l = in_phase holds_slot s" using s by (simp add: counts_ok_def Let_def)
  have "lmSlots ?l > 0" if "?ph = Leaving"
    using slots that i nth_mem [OF i] count_if_zero [of "\<lambda>r. holds_slot (raPhase r)" "anRequests s"]
    by (fastforce simp: in_phase_def holds_slot_def)
  from Middleware_step_slots [OF st this] upd [of holds_slot] slots
  have 1: "lmSlots l = in_phase holds_slot ?s'" by (simp del: of_nat_eq_iff add: of_nat_eq_iff [where 'a = int, symmetric])
  have lim: "lmCapacity l = lmCapacity ?l" using Middleware_step_limits [OF st] by (simp add: same_limits_def)
  have 2: "lmSlots l \<le> n" if "lmCapacity l = Some n" for n
    using Middleware_step_bound [OF st, of n] lim that s by (auto simp: counts_ok_def Let_def)
  have 3: "admInFlight (lmMetrics l) = int (in_phase (\<lambda>ph. ph = Executing) ?s')" "admWaiting (lmMetrics l) = int (in_phase is_waiting ?s')"
    using Middleware_step_gauges [OF st] upd [of "\<lambda>ph. ph = Executing"] upd [of is_waiting] s by (simp_all add: counts_ok_def Let_def)
  have 4: "admTotal (lmMetrics l) result = in_phase (outcome_of result) ?s'" if "lmCapacity l \<noteq> None" for result
  proof -
    have "?ph \<noteq> Passed" using ok that lim by (auto simp: request_ok_def)
    from Middleware_step_totals [OF st this, of result] upd [of "outcome_of result"] s that lim
    show ?thesis by (simp add: counts_ok_def Let_def)
  qed
  from 1 2 3 4 show ?thesis by (auto simp: counts_ok_def Let_def)
qed

lemma request_ok_step:
  assumes "request_ok l now r" "Middleware_step now (raID r) c (raPhase r) l = Some (ph, l')"
  shows "request_ok l now (r\<lparr>raPhase := ph\<rparr>)"
  using assms Middleware_step_phase [OF assms(2)] Middleware_step_refusal [OF assms(2)] Middleware_step_waiting [of now "raID r" c "raPhase r" l _ l']
  by (auto simp: request_ok_def Middleware_step_def split: if_splits)

lemma adm_inv_step:
  assumes inv: "adm_inv cfg s" and st: "astep ev s = Some s'"
  shows "adm_inv cfg s'"
proof (cases ev)
  case (Arrive reqID)
  have same: "in_phase p s' = in_phase p s" if "\<not> p Passed" "\<not> p Arrived" for p
    using st Arrive that by (auto simp: in_phase_def Middleware_enter_def)
  have new: "\<not> holds_slot Passed" "\<not> holds_slot Arrived" "\<not> is_waiting Passed" "\<not> is_waiting Arrived" by (simp_all add: phase_defs)
  note eq = same [OF new(1,2)] same [OF new(3,4)] same [of "\<lambda>ph. ph = Executing", simplified] same [OF outcome_of_new]
  have "counts_ok s'" using inv st Arrive by (auto simp: adm_inv_def counts_ok_def Let_def eq)
  moreover have "request_ok (anLimiter s) (anNow s) \<lparr>raID = reqID, raPhase = Middleware_enter (anLimiter s)\<rparr>"
    by (auto simp: request_ok_def Middleware_enter_def refusal_def)
  ultimately show ?thesis using inv st Arrive by (auto simp: adm_inv_def)
next
  case (Advance i c)
  then obtain ph l where i: "i < length (anRequests s)"
    and m: "Middleware_step (anNow s) (raID (anRequests s ! i)) c (raPhase (anRequests s ! i)) (anLimiter s) = Some (ph, l)"
    and s': "s' = s\<lparr>anLimiter := l, anRequests := (anRequests s)[i := (anRequests s ! i)\<lparr>raPhase := ph\<rparr>]\<rparr>"
    using st by (auto simp: Let_def split: if_splits option.splits)
  have ok: "request_ok (anLimiter s) (anNow s) (anRequests s ! i)" using inv i by (simp add: adm_inv_def)
  have lim: "same_limits (anLimiter s) l" using Middleware_step_limits [OF m] .
  have "counts_ok s'" using counts_ok_step [OF _ i ok m] inv s' by (simp add: adm_inv_def)
  moreover have "\<forall>r \<in> set (anRequests s'). request_ok (anLimiter s) (anNow s) r"
    using request_ok_step [OF ok m] inv s' set_update_subset_insert [of "anRequests s" i] by (auto simp: adm_inv_def)
  ultimately show ?thesis using inv s' lim by (auto simp: adm_inv_def request_ok_limits [OF lim] same_limits_def)
next
  case (Elapse d)
  then have "s' = s\<lparr>anNow := anNow s + int d\<rparr>" using st by simp
  then show ?thesis using inv by (fastforce simp: adm_inv_def counts_ok_def request_ok_def in_phase_def Let_def)
qed

lemma areachable_inv: "areachable cfg t0 s \<Longrightarrow> adm_inv cfg s"
proof (induction rule: areachable.induct)
  case start
  show ?case by (simp add: adm_inv_def counts_ok_def new_admission_def same_limits_def in_phase_def NewAdmissionLimiter_def NewAdmissionMetrics_def)
next
  case (step s ev s')
  then show ?case using adm_inv_step by blast
qed

lemma executing_bounded:
  assumes "areachable cfg t0 s" "acMaxInFlight cfg > 0"
  shows "in_phase (\<lambda>ph. ph = Executing) s \<le> nat (acMaxInFlight cfg)"
proof -
  have inv: "adm_inv cfg s" using assms(1) by (rule areachable_inv)
  have "in_phase (\<lambda>ph. ph = Executing) s \<le> in_phase holds_slot s"
    unfolding in_phase_def by (rule count_if_mono) (simp add: holds_slot_def)
  then show ?thesis using inv assms(2) by (auto simp: adm_inv_def same_limits_def NewAdmissionLimiter_def counts_ok_def Let_def)
qed

lemma retry_good:
  assumes "good_refusal l reqID resp"
  shows "resp = client_gone reqID
    \<or> (\<exists>secs. resp = admission_shed_response reqID secs \<and> retry_base l \<le> secs \<and> 8 * secs \<le> 11 * retry_base l)"
proof -
  have "1 \<le> retry_base l" by (simp add: retry_base_def Let_def)
  then have "retry_base l \<le> retry_base l + retry_base l * k div 8 \<and> 8 * (retry_base l + retry_base l * k div 8) \<le> 11 * retry_base l"
    if "k \<in> {0, 1, 2, 3}" for k using that by auto
  then show ?thesis using assms unfolding good_refusal_def by blast
qed

section \<open>Properties\<close>

text \<open>
  C33: in every state that any schedule of arrivals, timers, disconnects and steps leads to, at most
  \<^verbatim>\<open>MaxInFlight\<close> requests of the class execute, the gauges and the counters by result are exact, and a
  request that was turned away got either 499 or 429 with a \<^verbatim>\<open>Retry-After\<close> of the base and at most three
  eighths more.
\<close>

theorem admission_exact:
  assumes "areachable cfg t0 s" "acMaxInFlight cfg > 0"
  shows "in_phase (\<lambda>ph. ph = Executing) s \<le> nat (acMaxInFlight cfg)
    \<and> admInFlight (lmMetrics (anLimiter s)) = int (in_phase (\<lambda>ph. ph = Executing) s)
    \<and> admWaiting (lmMetrics (anLimiter s)) = int (in_phase is_waiting s)
    \<and> admTotal (lmMetrics (anLimiter s)) admissionAdmitted = in_phase was_admitted s
    \<and> admTotal (lmMetrics (anLimiter s)) admissionShed = in_phase (refused_with 429) s
    \<and> admTotal (lmMetrics (anLimiter s)) admissionCanceled = in_phase (refused_with 499) s
    \<and> (\<forall>r resp. r \<in> set (anRequests s) \<and> raPhase r = Rejected resp \<longrightarrow> resp = client_gone (raID r)
       \<or> (\<exists>secs. resp = admission_shed_response (raID r) secs \<and> retry_base (NewAdmissionLimiter cfg) \<le> secs
            \<and> 8 * secs \<le> 11 * retry_base (NewAdmissionLimiter cfg)))"
proof -
  let ?l = "anLimiter s"
  have inv: "adm_inv cfg s" using assms(1) by (rule areachable_inv)
  have cap: "lmCapacity ?l = Some (nat (acMaxInFlight cfg))"
    using inv assms(2) by (simp add: adm_inv_def same_limits_def NewAdmissionLimiter_def)
  note 1 = executing_bounded [OF assms]
  have 2: "admInFlight (lmMetrics ?l) = int (in_phase (\<lambda>ph. ph = Executing) s)" "admWaiting (lmMetrics ?l) = int (in_phase is_waiting s)"
    using inv by (simp_all add: adm_inv_def counts_ok_def Let_def)
  have tot: "admTotal (lmMetrics ?l) result = in_phase (outcome_of result) s" for result
    using inv cap by (simp add: adm_inv_def counts_ok_def Let_def)
  have 3: "admTotal (lmMetrics ?l) admissionAdmitted = in_phase was_admitted s" "admTotal (lmMetrics ?l) admissionShed = in_phase (refused_with 429) s"
    "admTotal (lmMetrics ?l) admissionCanceled = in_phase (refused_with 499) s"
    by (simp_all add: tot outcome_of_results)
  have "good_refusal ?l (raID r) resp" if "r \<in> set (anRequests s)" "raPhase r = Rejected resp" for r resp
    using inv that by (auto simp: adm_inv_def request_ok_def refusal_def)
  moreover have b: "retry_base ?l = retry_base (NewAdmissionLimiter cfg)" using inv by (simp add: adm_inv_def same_limits_def retry_base_def)
  ultimately have 4: "resp = client_gone (raID r)
       \<or> (\<exists>secs. resp = admission_shed_response (raID r) secs \<and> retry_base (NewAdmissionLimiter cfg) \<le> secs
            \<and> 8 * secs \<le> 11 * retry_base (NewAdmissionLimiter cfg))"
    if "r \<in> set (anRequests s)" "raPhase r = Rejected resp" for r resp
    using that retry_good [of ?l] by metis
  show ?thesis using 1 2 3 4 by simp
qed

text \<open>How many steps of its own a request still has to take at most.\<close>

fun rank :: "rphase \<Rightarrow> nat" where
  "rank Passed = 1" | "rank Arrived = 7" | "rank Saturated = 6" | "rank (Waiting _) = 5" | "rank Granted = 4" | "rank Holding = 3"
| "rank Executing = 2" | "rank Leaving = 1" | "rank (Refused _) = 1" | "rank Served = 0" | "rank (Rejected _) = 0"

lemma Middleware_step_rank: "Middleware_step now reqID c ph l = Some (ph', l') \<Longrightarrow> rank ph' < rank ph"
  by (cases ph; cases c) (auto simp: Middleware_step_def queue_select_def split: if_splits prod.splits)

text \<open>
  C34: no request starves: whatever the others do, a request that has not been answered can take its
  next step now or, queued behind a full class, at the latest when its wait is over, and it needs at
  most seven steps.
\<close>

theorem admission_no_starvation:
  assumes "areachable cfg t0 s" "i < length (anRequests s)" "rank (raPhase (anRequests s ! i)) > 0"
  shows "(\<exists>d c s'. d \<le> nat (acWait cfg) \<and> astep (Advance i c) (s\<lparr>anNow := anNow s + int d\<rparr>) = Some s')
    \<and> rank (raPhase (anRequests s ! i)) \<le> 7
    \<and> (\<forall>ev s'. astep ev s = Some s' \<longrightarrow> i < length (anRequests s') \<and> rank (raPhase (anRequests s' ! i)) \<le> rank (raPhase (anRequests s ! i))
      \<and> (\<forall>c. ev = Advance i c \<longrightarrow> rank (raPhase (anRequests s' ! i)) < rank (raPhase (anRequests s ! i))))"
proof -
  let ?r = "anRequests s ! i"
  have inv: "adm_inv cfg s" using assms(1) by (rule areachable_inv)
  have ok: "request_ok (anLimiter s) (anNow s) ?r" using inv assms(2) by (simp add: adm_inv_def)
  have w: "lmWait (anLimiter s) = acWait cfg" using inv by (simp add: adm_inv_def same_limits_def NewAdmissionLimiter_def)
  have 1: "\<exists>d c s'. d \<le> nat (acWait cfg) \<and> astep (Advance i c) (s\<lparr>anNow := anNow s + int d\<rparr>) = Some s'"
  proof (cases "\<exists>t. raPhase ?r = Waiting t")
    case True
    then obtain t where t: "raPhase ?r = Waiting t" ..
    then have "t \<le> anNow s + int (nat (acWait cfg))" using ok w by (auto simp: request_ok_def)
    then have "\<exists>s'. astep (Advance i TimerFires) (s\<lparr>anNow := anNow s + int (nat (acWait cfg))\<rparr>) = Some s'"
      using assms(2) t by (simp add: Middleware_step_def queue_select_def Let_def split: prod.split)
    then show ?thesis by blast
  next
    case False
    then have "\<exists>s'. astep (Advance i Proceed) (s\<lparr>anNow := anNow s + int 0\<rparr>) = Some s'"
      using assms(2,3) by (cases "raPhase ?r") (simp_all add: Middleware_step_def Let_def)
    then show ?thesis by blast
  qed
  have 2: "rank (raPhase ?r) \<le> 7" by (cases "raPhase ?r") simp_all
  have 3: "i < length (anRequests s') \<and> rank (raPhase (anRequests s' ! i)) \<le> rank (raPhase ?r)
      \<and> (\<forall>c. ev = Advance i c \<longrightarrow> rank (raPhase (anRequests s' ! i)) < rank (raPhase ?r))" if st: "astep ev s = Some s'" for ev s'
  proof (cases ev)
    case (Advance j c)
    then obtain ph l where "j < length (anRequests s)" "anRequests s' = (anRequests s)[j := (anRequests s ! j)\<lparr>raPhase := ph\<rparr>]"
      "Middleware_step (anNow s) (raID (anRequests s ! j)) c (raPhase (anRequests s ! j)) (anLimiter s) = Some (ph, l)"
      using st by (auto simp: Let_def split: if_splits option.splits)
    then show ?thesis using Advance assms(2) Middleware_step_rank by (cases "j = i") (fastforce simp: nth_list_update)+
  qed (use assms(2) st in \<open>auto simp: nth_append\<close>)
  from 1 2 3 show ?thesis by blast
qed

section \<open>A schedule\<close>

fun asteps :: "aevent list \<Rightarrow> admission \<Rightarrow> admission option" where
  "asteps [] s = Some s"
| "asteps (ev # evs) s = (case astep ev s of None \<Rightarrow> None | Some s' \<Rightarrow> asteps evs s')"

lemma areachable_asteps: "areachable cfg t0 s \<Longrightarrow> asteps evs s = Some s' \<Longrightarrow> areachable cfg t0 s'"
  by (induction evs arbitrary: s) (auto split: option.splits intro: areachable.step)

text \<open>One slot: the first request executes, the second waits for ten nanoseconds and is shed, the third still waits.\<close>

definition cfg_one :: AdmissionConfig where
  "cfg_one = \<lparr>acClass = ''memories_bulk'', acMaxInFlight = 1, acWait = 10, acRetryAfter = 16000000000\<rparr>"

definition shed_run :: "aevent list" where
  "shed_run = [Arrive ''a'', Arrive ''b'', Arrive ''c'', Advance 0 Proceed, Advance 0 Proceed, Advance 1 Proceed, Advance 1 Proceed,
     Advance 2 Proceed, Elapse 10, Advance 2 Proceed, Advance 1 TimerFires, Advance 1 Proceed]"

definition shed_state :: admission where
  "shed_state = the (asteps shed_run (new_admission cfg_one 0))"

lemma shed_run_ok: "asteps shed_run (new_admission cfg_one 0) \<noteq> None"
  by code_simp

lemma shed_reachable: "areachable cfg_one 0 shed_state"
  using shed_run_ok areachable_asteps [OF areachable.start [of cfg_one 0], of shed_run] by (auto simp: shed_state_def)

lemma shed_requests: "map (\<lambda>r. (raID r, raPhase r)) (anRequests shed_state) =
    [(''a'', Executing), (''b'', Rejected (admission_shed_response ''b'' 18)), (''c'', Waiting 20)]"
  by code_simp

theorem admission_exact_witness:
  "admInFlight (lmMetrics (anLimiter shed_state)) = 1 \<and> admTotal (lmMetrics (anLimiter shed_state)) admissionShed = 1"
proof -
  have "acMaxInFlight cfg_one > 0" by (simp add: cfg_one_def)
  from admission_exact [OF shed_reachable this]
  have "admInFlight (lmMetrics (anLimiter shed_state)) = int (in_phase (\<lambda>ph. ph = Executing) shed_state)"
    "admTotal (lmMetrics (anLimiter shed_state)) admissionShed = in_phase (refused_with 429) shed_state" by blast+
  moreover have "in_phase (\<lambda>ph. ph = Executing) shed_state = 1" "in_phase (refused_with 429) shed_state = 1" by code_simp+
  ultimately show ?thesis by simp
qed

theorem admission_no_starvation_witness:
  "\<exists>d c s'. d \<le> 10 \<and> astep (Advance 2 c) (shed_state\<lparr>anNow := anNow shed_state + int d\<rparr>) = Some s'"
proof -
  have "2 < length (anRequests shed_state)" "rank (raPhase (anRequests shed_state ! 2)) > 0" by code_simp+
  from admission_no_starvation [OF shed_reachable this] show ?thesis by (simp add: cfg_one_def)
qed

end
