(* ===== verification/Http_Middleware.thy ===== *)
theory Http_Middleware
  imports Http_Request "HOL-Library.Word"
begin

text \<open>
  What surrounds every handler: the middleware of \<^verbatim>\<open>internal/httpapi/middleware.go\<close> and the token check of
  \<^verbatim>\<open>internal/auth\<close>.  A handler is the list of calls it makes on its \<^verbatim>\<open>http.ResponseWriter\<close> and whether it
  then panics; a writer is the stack of \<^verbatim>\<open>statusRecorder\<close> wrappers, innermost first, over the connection.
  Durations, log lines other than the access log and the OIDC library are left out or parameters.
\<close>

section \<open>Response writers\<close>

datatype body = Envelope string string | Text string

datatype wop = SetHeader string string | WriteHeader int | Write body

record http_conn =
  hcHeader :: "string \<rightharpoonup> string"
  hcSent :: "(int \<times> (string \<rightharpoonup> string)) option"
  hcBody :: "body list"

definition new_conn :: http_conn where
  "new_conn = \<lparr>hcHeader = Map.empty, hcSent = None, hcBody = []\<rparr>"

text \<open>
  \<^verbatim>\<open>net/http\<close>: the first final status goes out with the headers set so far, a second one is ignored.  An
  informational status (1xx except 101) goes out at once and decides nothing.
\<close>

definition informational :: "int \<Rightarrow> bool" where
  "informational c \<longleftrightarrow> 100 \<le> c \<and> c \<le> 199 \<and> c \<noteq> 101"

definition conn_WriteHeader :: "int \<Rightarrow> http_conn \<Rightarrow> http_conn" where
  "conn_WriteHeader c w = (if hcSent w = None \<and> \<not> informational c then w\<lparr>hcSent := Some (c, hcHeader w)\<rparr> else w)"

definition conn_Write :: "body \<Rightarrow> http_conn \<Rightarrow> http_conn" where
  "conn_Write b w = (let w' = conn_WriteHeader 200 w in w'\<lparr>hcBody := hcBody w' @ [b]\<rparr>)"

record statusRecorder =
  srStatus :: int
  srWroteHeader :: bool

type_synonym writer = "statusRecorder list \<times> http_conn"

definition new_recorder :: statusRecorder where
  "new_recorder = \<lparr>srStatus = 200, srWroteHeader = False\<rparr>"

fun rec_WriteHeader :: "int \<Rightarrow> statusRecorder list \<Rightarrow> http_conn \<Rightarrow> writer" where
  "rec_WriteHeader c [] w = ([], conn_WriteHeader c w)"
| "rec_WriteHeader c (s # ss) w =
     (if srWroteHeader s then (s # ss, w)
      else case rec_WriteHeader c ss w of (ss', w') \<Rightarrow> (\<lparr>srStatus = c, srWroteHeader = True\<rparr> # ss', w'))"

lemma length_rec_WriteHeader [simp]: "length (fst (rec_WriteHeader c ss w)) = length ss"
  by (induction ss) (auto split: prod.split)

function rec_Write :: "body \<Rightarrow> statusRecorder list \<Rightarrow> http_conn \<Rightarrow> writer" where
  "rec_Write b [] w = ([], conn_Write b w)"
| "rec_Write b (s # ss) w =
     (if srWroteHeader s then (case rec_Write b ss w of (ss', w') \<Rightarrow> (s # ss', w'))
      else let wr = rec_WriteHeader 200 (s # ss) w
        in (case rec_Write b (tl (fst wr)) (snd wr) of (ss', w') \<Rightarrow> (hd (fst wr) # ss', w')))"
  by pat_completeness auto

termination
proof (relation "measure (\<lambda>(b, ss, w). length ss)", goal_cases)
  case (3 b s ss w wr)
  then show ?case using length_rec_WriteHeader [of 200 "s # ss" w] by simp
qed simp_all

fun run_op :: "wop \<Rightarrow> writer \<Rightarrow> writer" where
  "run_op (SetHeader k v) (ss, w) = (ss, w\<lparr>hcHeader := (hcHeader w)(k \<mapsto> v)\<rparr>)"
| "run_op (WriteHeader c) (ss, w) = rec_WriteHeader c ss w"
| "run_op (Write b) (ss, w) = rec_Write b ss w"

definition run_ops :: "wop list \<Rightarrow> writer \<Rightarrow> writer" where
  "run_ops ops wr = fold run_op ops wr"

text \<open>When the handler has returned, \<^verbatim>\<open>net/http\<close> sends 200 if nothing was sent.\<close>

definition finish_conn :: "http_conn \<Rightarrow> http_conn" where
  "finish_conn w = conn_WriteHeader 200 w"

fun response_ops :: "response \<Rightarrow> wop list" where
  "response_ops (Failure r) = (case rsRetryAfter r of None \<Rightarrow> [] | Some s \<Rightarrow> [SetHeader ''Retry-After'' s])
     @ [SetHeader ''Content-Type'' ''application/json'', WriteHeader (rsStatus r), Write (Envelope (rsMessage r) (rsRequestID r))]"
| "response_ops (Body status s) = [SetHeader ''Content-Type'' ''application/json'', WriteHeader status, Write (Text s)]"
| "response_ops (Bare status) = [WriteHeader status]"

text \<open>\<^verbatim>\<open>http.Error\<close>\<close>

definition http_Error :: "string \<Rightarrow> int \<Rightarrow> wop list" where
  "http_Error msg status = [SetHeader ''Content-Type'' ''text/plain; charset=utf-8'', SetHeader ''X-Content-Type-Options'' ''nosniff'',
     WriteHeader status, Write (Text (msg @ [CHR 0x0A]))]"

text \<open>\<^verbatim>\<open>http.StatusText\<close>: empty for a code it does not know, as 499.\<close>

definition status_texts :: "(int \<times> string) list" where
  "status_texts =
     [(100, ''Continue''), (101, ''Switching Protocols''), (102, ''Processing''), (103, ''Early Hints''), (200, ''OK''),
      (201, ''Created''), (202, ''Accepted''), (203, ''Non-Authoritative Information''), (204, ''No Content''),
      (205, ''Reset Content''), (206, ''Partial Content''), (207, ''Multi-Status''), (208, ''Already Reported''),
      (226, ''IM Used''), (300, ''Multiple Choices''), (301, ''Moved Permanently''), (302, ''Found''), (303, ''See Other''),
      (304, ''Not Modified''), (305, ''Use Proxy''), (307, ''Temporary Redirect''), (308, ''Permanent Redirect''),
      (400, ''Bad Request''), (401, ''Unauthorized''), (402, ''Payment Required''), (403, ''Forbidden''), (404, ''Not Found''),
      (405, ''Method Not Allowed''), (406, ''Not Acceptable''), (407, ''Proxy Authentication Required''),
      (408, ''Request Timeout''), (409, ''Conflict''), (410, ''Gone''), (411, ''Length Required''),
      (412, ''Precondition Failed''), (413, ''Request Entity Too Large''), (414, ''Request URI Too Long''),
      (415, ''Unsupported Media Type''), (416, ''Requested Range Not Satisfiable''), (417, ''Expectation Failed''),
      (418, ''I'' @ [CHR 0x27] @ ''m a teapot''), (421, ''Misdirected Request''), (422, ''Unprocessable Entity''),
      (423, ''Locked''), (424, ''Failed Dependency''), (425, ''Too Early''), (426, ''Upgrade Required''),
      (428, ''Precondition Required''), (429, ''Too Many Requests''), (431, ''Request Header Fields Too Large''),
      (451, ''Unavailable For Legal Reasons''), (500, ''Internal Server Error''), (501, ''Not Implemented''),
      (502, ''Bad Gateway''), (503, ''Service Unavailable''), (504, ''Gateway Timeout''), (505, ''HTTP Version Not Supported''),
      (506, ''Variant Also Negotiates''), (507, ''Insufficient Storage''), (508, ''Loop Detected''), (510, ''Not Extended''),
      (511, ''Network Authentication Required'')]"

definition StatusText :: "int \<Rightarrow> string" where
  "StatusText c = (case map_of status_texts c of None \<Rightarrow> '''' | Some t \<Rightarrow> t)"

section \<open>Handlers and middleware\<close>

text \<open>What the middleware keeps: the metrics, the access log, the counter of the fallback request IDs; \<open>svInner\<close> is the rest.\<close>

record 'a http_server =
  svInFlight :: int
  svRequests :: "(string \<times> string \<times> string) list"
  svPanics :: nat
  svAccess :: "(string \<times> string \<times> string \<times> int) list"
  svIDCounter :: "64 word"
  svInner :: 'a

type_synonym 'a inner = "http_request \<Rightarrow> 'a \<Rightarrow> (wop list \<times> bool) \<times> 'a"
type_synonym 'a http = "http_request \<Rightarrow> writer \<Rightarrow> 'a http_server \<Rightarrow> bool \<times> writer \<times> 'a http_server"

definition serve_inner :: "'a inner \<Rightarrow> 'a http" where
  "serve_inner h r wr s = (case h r (svInner s) of ((ops, panics), a) \<Rightarrow> (panics, run_ops ops wr, s\<lparr>svInner := a\<rparr>))"

definition push_recorder :: "writer \<Rightarrow> writer" where
  "push_recorder wr = (new_recorder # fst wr, snd wr)"

definition pop_recorder :: "writer \<Rightarrow> writer" where
  "pop_recorder wr = (tl (fst wr), snd wr)"

definition top_recorder :: "writer \<Rightarrow> statusRecorder" where
  "top_recorder wr = (case fst wr of [] \<Rightarrow> new_recorder | s # ss \<Rightarrow> s)"

definition RecoverWithLogger :: "'a http \<Rightarrow> 'a http" where
  "RecoverWithLogger next1 r wr s = (case next1 r (push_recorder wr) s of
     (panics, wr', s') \<Rightarrow>
       if panics then
         (False,
          pop_recorder (if srWroteHeader (top_recorder wr') then wr' else run_ops (response_ops (Failure (WriteError 500 ''internal error'' (hqID r)))) wr'),
          s'\<lparr>svPanics := svPanics s' + 1\<rparr>)
       else (False, pop_recorder wr', s'))"

definition AccessLog :: "(http_request \<Rightarrow> string) \<Rightarrow> 'a http \<Rightarrow> 'a http" where
  "AccessLog routeLabel next1 r wr s = (case next1 r (push_recorder wr) s of
     (panics, wr', s') \<Rightarrow>
       (panics, pop_recorder wr',
        if panics then s' else s'\<lparr>svAccess := svAccess s' @ [(hqID r, routeLabel r, hqMethod r, srStatus (top_recorder wr'))]\<rparr>))"

definition Metrics_Middleware :: "(http_request \<Rightarrow> string) \<Rightarrow> 'a http \<Rightarrow> 'a http" where
  "Metrics_Middleware routeLabel next1 r wr s = (case next1 r (push_recorder wr) (s\<lparr>svInFlight := svInFlight s + 1\<rparr>) of
     (panics, wr', s') \<Rightarrow>
       (let s'' = (if panics then s' else s'\<lparr>svRequests := svRequests s' @ [(routeLabel r, hqMethod r, StatusText (srStatus (top_recorder wr')))]\<rparr>)
        in (panics, pop_recorder wr', s''\<lparr>svInFlight := svInFlight s'' - 1\<rparr>)))"

section \<open>Request identifiers\<close>

definition id_char :: "char \<Rightarrow> bool" where
  "id_char c \<longleftrightarrow> (let n = of_char c :: nat in 48 \<le> n \<and> n \<le> 57 \<or> 65 \<le> n \<and> n \<le> 90 \<or> 97 \<le> n \<and> n \<le> 122 \<or> c \<in> {CHR ''.'', CHR ''_'', CHR ''-''})"

definition requestIDRe :: "string \<Rightarrow> bool" where
  "requestIDRe s \<longleftrightarrow> s \<noteq> [] \<and> list_all id_char s"

definition hex_byte :: "nat \<Rightarrow> string" where
  "hex_byte n = [hex_digit (n div 16 mod 16), hex_digit (n mod 16)]"

text \<open>\<^verbatim>\<open>%016x\<close> of a 64-bit number\<close>

fun hex_pad :: "nat \<Rightarrow> nat \<Rightarrow> string" where
  "hex_pad 0 n = []"
| "hex_pad (Suc k) n = hex_pad k (n div 16) @ [hex_digit (n mod 16)]"

text \<open>\<open>rand\<close> is what \<^verbatim>\<open>crypto/rand\<close> gave for this request: eight bytes, or an error.\<close>

definition generateRequestID :: "nat list option \<Rightarrow> 64 word \<Rightarrow> string \<times> 64 word" where
  "generateRequestID rand counter = (case rand of
     Some bytes \<Rightarrow> (concat (map hex_byte (take 8 (bytes @ replicate 8 0))), counter)
   | None \<Rightarrow> (hex_pad 16 (unat (counter + 1)), counter + 1))"

definition RequestID :: "nat list option \<Rightarrow> 'a http \<Rightarrow> 'a http" where
  "RequestID rand next1 r wr s =
     (let given = Get (hqHeader r) ''X-Request-Id'' in
      case (if given = '''' \<or> length given > 64 \<or> \<not> requestIDRe given then generateRequestID rand (svIDCounter s) else (given, svIDCounter s)) of
        (ident, counter) \<Rightarrow> next1 (r\<lparr>hqID := ident\<rparr>) (run_op (SetHeader ''X-Request-Id'' ident) wr) (s\<lparr>svIDCounter := counter\<rparr>))"

text \<open>The stack of \<^verbatim>\<open>NewRouter\<close>, outermost first; \<^verbatim>\<open>WithLogger\<close> only adds the logger to the context.\<close>

definition middleware_stack :: "(http_request \<Rightarrow> string) \<Rightarrow> nat list option \<Rightarrow> 'a inner \<Rightarrow> 'a http" where
  "middleware_stack routeLabel rand h =
     RequestID rand (RecoverWithLogger (AccessLog routeLabel (Metrics_Middleware routeLabel (serve_inner h))))"

definition serve_request :: "(http_request \<Rightarrow> string) \<Rightarrow> nat list option \<Rightarrow> 'a inner \<Rightarrow> http_request \<Rightarrow> 'a http_server \<Rightarrow> bool \<times> http_conn \<times> 'a http_server" where
  "serve_request routeLabel rand h r s = (case middleware_stack routeLabel rand h r ([], new_conn) s of
     (panics, (_, w), s') \<Rightarrow> (panics, finish_conn w, s'))"

section \<open>Authentication\<close>

record auth_Config =
  auIssuer :: string
  auAudience :: string

definition auth_Validate :: "auth_Config \<Rightarrow> err option" where
  "auth_Validate c =
     (if auIssuer c = '''' then Some (Opaque ''auth: issuer is required'')
      else if auAudience c = '''' then Some (Opaque ''auth: audience is required'')
      else None)"

record Claims =
  caSubject :: string
  caPreferredUsername :: string
  caIssuer :: string

text \<open>The OIDC library: a token it has verified, and the decoding of its claims.\<close>

record id_token =
  tkIssuer :: string
  tkSubject :: string
  tkClaims :: "err + Claims"

type_synonym Verifier = "string \<Rightarrow> err + id_token"

definition NewVerifier :: "(string \<Rightarrow> err + (string \<Rightarrow> Verifier)) \<Rightarrow> auth_Config \<Rightarrow> err + Verifier" where
  "NewVerifier discover cfg = (case auth_Validate cfg of
     Some e \<Rightarrow> Inl e
   | None \<Rightarrow> (case discover (auIssuer cfg) of
       Inl e \<Rightarrow> Inl (Wrap ''auth: discover issuer'' e)
     | Inr provider \<Rightarrow> Inr (provider (auAudience cfg))))"

definition Verify :: "Verifier \<Rightarrow> string \<Rightarrow> err + Claims" where
  "Verify v raw = (case v raw of
     Inl e \<Rightarrow> Inl (Wrap ''auth: verify token'' e)
   | Inr tok \<Rightarrow> (case tkClaims tok of
       Inl e \<Rightarrow> Inl (Wrap ''auth: decode claims'' e)
     | Inr c \<Rightarrow>
         (let c' = c\<lparr>caIssuer := tkIssuer tok, caSubject := tkSubject tok\<rparr> in
          if caSubject c' = '''' then Inl (Opaque ''auth: missing sub claim'') else Inr c')))"

definition bearer_prefix :: string where "bearer_prefix = ''Bearer ''"

definition bearerToken :: "http_request \<Rightarrow> string \<times> string" where
  "bearerToken r =
     (let h = Get (hqHeader r) ''Authorization'' in
      if h = '''' then ('''', ''missing_token'')
      else if length h < length bearer_prefix \<or> ToLower (take (length bearer_prefix) h) \<noteq> ToLower bearer_prefix then ('''', ''invalid_scheme'')
      else let tok = TrimSpace (drop (length bearer_prefix) h) in
        if tok = '''' then ('''', ''missing_token'') else (tok, ''''))"

definition wwwAuthenticate :: string where
  "wwwAuthenticate = ''Bearer realm='' @ quoteq ''tatara-memory''"

text \<open>\<^verbatim>\<open>auth_attempts_total\<close> by result, beside the state of the services.\<close>

record 'b authed =
  atAttempts :: "string \<Rightarrow> nat"
  atInner :: 'b

definition inc_attempt :: "string \<Rightarrow> 'b authed \<Rightarrow> 'b authed" where
  "inc_attempt result a = a\<lparr>atAttempts := (atAttempts a)(result := atAttempts a result + 1)\<rparr>"

definition unauthorized :: "string \<Rightarrow> wop list" where
  "unauthorized msg = SetHeader ''WWW-Authenticate'' wwwAuthenticate # http_Error msg 401"

definition on_inner :: "'b inner \<Rightarrow> 'b authed inner" where
  "on_inner h r a = (case h r (atInner a) of (res, b) \<Rightarrow> (res, a\<lparr>atInner := b\<rparr>))"

definition auth_middleware :: "Verifier \<Rightarrow> 'b inner \<Rightarrow> 'b authed inner" where
  "auth_middleware v h r a = (case bearerToken r of
     (raw, reason) \<Rightarrow>
       if raw = '''' then ((unauthorized ''missing bearer token'', False), inc_attempt reason a)
       else (case Verify v raw of
         Inl e \<Rightarrow> ((unauthorized ''invalid token'', False), inc_attempt ''invalid_token'' a)
       | Inr claims \<Rightarrow> on_inner h (r\<lparr>hqSubject := Some (caSubject claims)\<rparr>) (inc_attempt ''success'' a)))"

section \<open>The recorders agree with each other\<close>

text \<open>
  All recorders of a request are in the same state, so the stack is one recorder over the connection.
\<close>

abbreviation agreeing :: "nat \<Rightarrow> statusRecorder \<times> http_conn \<Rightarrow> writer" where
  "agreeing n q \<equiv> (replicate n (fst q), snd q)"

definition mark_recorder :: "int \<Rightarrow> statusRecorder \<Rightarrow> statusRecorder" where
  "mark_recorder c s = (if srWroteHeader s then s else \<lparr>srStatus = c, srWroteHeader = True\<rparr>)"

fun conn_op :: "wop \<Rightarrow> statusRecorder \<times> http_conn \<Rightarrow> statusRecorder \<times> http_conn" where
  "conn_op (SetHeader k v) (s, w) = (s, w\<lparr>hcHeader := (hcHeader w)(k \<mapsto> v)\<rparr>)"
| "conn_op (WriteHeader c) (s, w) = (mark_recorder c s, if srWroteHeader s then w else conn_WriteHeader c w)"
| "conn_op (Write b) (s, w) = (mark_recorder 200 s, conn_Write b w)"

lemma rec_WriteHeader_fresh:
  "\<not> srWroteHeader s \<Longrightarrow> rec_WriteHeader c (replicate n s) w = (replicate n \<lparr>srStatus = c, srWroteHeader = True\<rparr>, conn_WriteHeader c w)"
  by (induction n) simp_all

lemma rec_WriteHeader_agreeing: "rec_WriteHeader c (replicate (Suc n) s) w = agreeing (Suc n) (conn_op (WriteHeader c) (s, w))"
proof (cases "srWroteHeader s")
  case False
  then show ?thesis using rec_WriteHeader_fresh [OF False, of c "Suc n" w] by (simp only: conn_op.simps mark_recorder_def fst_conv snd_conv if_False)
qed (simp add: mark_recorder_def)

lemma rec_Write_marked: "srWroteHeader s \<Longrightarrow> rec_Write b (replicate n s) w = (replicate n s, conn_Write b w)"
  by (induction n) simp_all

lemma conn_Write_sent: "conn_Write b (conn_WriteHeader 200 w) = conn_Write b w"
  by (simp add: conn_Write_def conn_WriteHeader_def Let_def)

lemma rec_Write_agreeing: "rec_Write b (replicate (Suc n) s) w = agreeing (Suc n) (conn_op (Write b) (s, w))"
proof (cases "srWroteHeader s")
  case True
  then show ?thesis using rec_Write_marked [of s b "Suc n" w] by (simp only: conn_op.simps mark_recorder_def fst_conv snd_conv if_True)
next
  case False
  let ?s = "\<lparr>srStatus = 200, srWroteHeader = True\<rparr>"
  have "rec_WriteHeader 200 (s # replicate n s) w = (replicate (Suc n) ?s, conn_WriteHeader 200 w)"
    using rec_WriteHeader_fresh [OF False, of 200 "Suc n" w] by simp
  with False rec_Write_marked [of ?s b n "conn_WriteHeader 200 w"] show ?thesis
    by (simp add: mark_recorder_def conn_Write_sent)
qed

lemma run_op_agreeing: "run_op x (agreeing (Suc n) q) = agreeing (Suc n) (conn_op x q)"
  by (cases q; cases x) (simp_all add: rec_WriteHeader_agreeing rec_Write_agreeing del: replicate_Suc)

lemma run_ops_agreeing: "run_ops ops (agreeing (Suc n) q) = agreeing (Suc n) (fold conn_op ops q)"
  unfolding run_ops_def by (induction ops arbitrary: q) (simp_all add: run_op_agreeing del: replicate_Suc)

lemma push_agreeing: "push_recorder (agreeing n (new_recorder, w)) = agreeing (Suc n) (new_recorder, w)"
  by (simp add: push_recorder_def)

lemma pop_agreeing [simp]: "pop_recorder (agreeing (Suc n) q) = agreeing n q" "top_recorder (agreeing (Suc n) q) = fst q"
  by (simp_all add: pop_recorder_def top_recorder_def)

text \<open>
  The status a handler writes first, and the final status that this leaves to the connection: behind
  a recorder nothing can follow an informational one, so that the response goes out with 200.
\<close>

fun first_header :: "wop list \<Rightarrow> int option" where
  "first_header [] = None"
| "first_header (SetHeader k v # ops) = first_header ops"
| "first_header (WriteHeader c # ops) = Some c"
| "first_header (Write b # ops) = Some 200"

definition final_of :: "int \<Rightarrow> int" where
  "final_of c = (if informational c then 200 else c)"

definition first_status :: "wop list \<Rightarrow> int option" where
  "first_status ops = map_option final_of (first_header ops)"

lemma marked_stays: "srWroteHeader s \<Longrightarrow> fst (fold conn_op ops (s, w)) = s"
proof (induction ops arbitrary: w)
  case (Cons op1 ops)
  then show ?case by (cases op1) (simp_all add: mark_recorder_def)
qed simp

lemma recorded_first:
  "fst (fold conn_op ops (new_recorder, w)) =
    (case first_header ops of None \<Rightarrow> new_recorder | Some c \<Rightarrow> \<lparr>srStatus = c, srWroteHeader = True\<rparr>)"
proof (induction ops arbitrary: w)
  case (Cons op1 ops)
  then show ?case by (cases op1) (simp_all add: mark_recorder_def new_recorder_def marked_stays)
qed simp

text \<open>What the recorder knows of the connection.\<close>

definition matches :: "statusRecorder \<times> http_conn \<Rightarrow> bool" where
  "matches q \<longleftrightarrow> (case hcSent (snd q) of
     None \<Rightarrow> srWroteHeader (fst q) \<longrightarrow> informational (srStatus (fst q))
   | Some (c, _) \<Rightarrow> srWroteHeader (fst q) \<and> c = final_of (srStatus (fst q)))"

lemma matches_op: "matches q \<Longrightarrow> matches (conn_op x q)"
  by (cases q; cases x)
     (auto simp: matches_def mark_recorder_def conn_WriteHeader_def conn_Write_def final_of_def informational_def Let_def
       split: option.splits if_splits)

lemma matches_ops: "matches q \<Longrightarrow> matches (fold conn_op ops q)"
  by (induction ops arbitrary: q) (simp_all add: matches_op)

lemma matches_new: "hcSent w = None \<Longrightarrow> matches (new_recorder, w)"
  by (simp add: matches_def new_recorder_def)

lemma matches_finish:
  assumes "matches q" "srWroteHeader (fst q) \<or> srStatus (fst q) = 200"
  shows "map_option fst (hcSent (finish_conn (snd q))) = Some (final_of (srStatus (fst q)))"
  using assms by (auto simp: matches_def finish_conn_def conn_WriteHeader_def final_of_def informational_def split: option.splits)

definition keeps_header :: "string \<Rightarrow> wop list \<Rightarrow> bool" where
  "keeps_header k ops \<longleftrightarrow> (\<forall>v. SetHeader k v \<notin> set ops)"

definition carries :: "string \<Rightarrow> string \<Rightarrow> http_conn \<Rightarrow> bool" where
  "carries k v w \<longleftrightarrow> hcHeader w k = Some v \<and> (\<forall>c h. hcSent w = Some (c, h) \<longrightarrow> h k = Some v)"

lemma carries_ops: "carries k v (snd q) \<Longrightarrow> keeps_header k ops \<Longrightarrow> carries k v (snd (fold conn_op ops q))"
proof (induction ops arbitrary: q)
  case (Cons op1 ops)
  have "carries k v (snd (conn_op op1 q))"
    using Cons.prems by (cases q; cases op1) (auto simp: carries_def keeps_header_def conn_WriteHeader_def conn_Write_def Let_def)
  then show ?case using Cons by (simp add: keeps_header_def)
qed simp

section \<open>One request through the stack\<close>

text \<open>The connection after the handler and, if it panicked before writing anything, the recovery.\<close>

definition settled :: "string \<Rightarrow> wop list \<Rightarrow> bool \<Rightarrow> http_conn \<Rightarrow> http_conn" where
  "settled ident ops panics w = (let q = fold conn_op ops (new_recorder, w) in
     snd (if panics \<and> \<not> srWroteHeader (fst q) then fold conn_op (response_ops (Failure (WriteError 500 ''internal error'' ident))) q else q))"

lemma metrics_run:
  assumes "h r (svInner s) = ((ops, panics), a)"
  shows "Metrics_Middleware routeLabel (serve_inner h) r (agreeing n (new_recorder, w)) s = (panics, agreeing n (fold conn_op ops (new_recorder, w)),
    s\<lparr>svInner := a, svRequests := svRequests s @
      (if panics then [] else [(routeLabel r, hqMethod r, StatusText (srStatus (fst (fold conn_op ops (new_recorder, w)))))])\<rparr>)"
  using assms
  by (simp add: Metrics_Middleware_def push_agreeing [simplified] serve_inner_def run_ops_agreeing [of ops n "(new_recorder, w)", simplified] Let_def
      pop_recorder_def top_recorder_def)

lemma access_run:
  assumes "next1 r (agreeing (Suc n) (new_recorder, w)) s = (panics, agreeing (Suc n) q, s')"
  shows "AccessLog routeLabel next1 r (agreeing n (new_recorder, w)) s = (panics, agreeing n q,
    s'\<lparr>svAccess := svAccess s' @ (if panics then [] else [(hqID r, routeLabel r, hqMethod r, srStatus (fst q))])\<rparr>)"
  using assms by (simp add: AccessLog_def push_agreeing [simplified] pop_recorder_def top_recorder_def)

lemma recover_run:
  assumes "next1 r (agreeing (Suc 0) (new_recorder, w)) s = (panics, agreeing (Suc 0) (fold conn_op ops (new_recorder, w)), s')"
  shows "RecoverWithLogger next1 r ([], w) s =
    (False, ([], settled (hqID r) ops panics w), s'\<lparr>svPanics := svPanics s' + of_bool panics\<rparr>)"
proof -
  have "push_recorder ([], w) = agreeing (Suc 0) (new_recorder, w)" by (simp add: push_recorder_def)
  with assms show ?thesis
    by (simp add: RecoverWithLogger_def run_ops_agreeing settled_def Let_def del: replicate_Suc replicate_0 response_ops.simps)
qed

lemma stack_run:
  assumes "h r (svInner s) = ((ops, panics), a)"
  shows "RecoverWithLogger (AccessLog routeLabel (Metrics_Middleware routeLabel (serve_inner h))) r ([], w) s =
    (False, ([], settled (hqID r) ops panics w),
     (let st = srStatus (fst (fold conn_op ops (new_recorder, w))) in
      s\<lparr>svInner := a, svPanics := svPanics s + of_bool panics,
        svRequests := svRequests s @ (if panics then [] else [(routeLabel r, hqMethod r, StatusText st)]),
        svAccess := svAccess s @ (if panics then [] else [(hqID r, routeLabel r, hqMethod r, st)])\<rparr>))"
proof -
  let ?m = "Metrics_Middleware routeLabel (serve_inner h)"
  note m = metrics_run [of h r s ops panics a routeLabel "Suc (Suc 0)" w, OF assms]
  note ac = access_run [where ?next1.0 = ?m and r = r and n = "Suc 0" and s = s and routeLabel = routeLabel, OF m]
  show ?thesis
    using recover_run [where ?next1.0 = "AccessLog routeLabel ?m" and r = r and s = s, OF ac]
    by (simp add: Let_def)
qed

lemma hex_digit_id: "n < 16 \<Longrightarrow> id_char (hex_digit n)"
  by (auto simp: id_char_def hex_digit_def Let_def)

lemma hex_pad_id: "list_all id_char (hex_pad k n) \<and> length (hex_pad k n) = k"
  by (induction k arbitrary: n) (simp_all add: hex_digit_id)

lemma generated_id:
  assumes "generateRequestID rand counter = (ident, counter')"
  shows "requestIDRe ident \<and> length ident \<le> 64"
proof (cases rand)
  case None
  then show ?thesis using assms hex_pad_id [of 16 "unat (counter + 1)"] by (auto simp: generateRequestID_def requestIDRe_def)
next
  case (Some bytes)
  let ?bs = "take 8 (bytes @ replicate 8 0)"
  have l: "length (concat (map hex_byte bs)) = 2 * length bs" for bs by (induction bs) (simp_all add: hex_byte_def)
  have c: "list_all id_char (concat (map hex_byte bs))" for bs by (induction bs) (simp_all add: hex_byte_def hex_digit_id)
  have "length ident = 16" "list_all id_char ident" using assms Some l [of ?bs] c [of ?bs] by (auto simp: generateRequestID_def)
  then show ?thesis by (auto simp: requestIDRe_def)
qed

lemma settled_status:
  assumes "hcSent w = None"
  shows "map_option fst (hcSent (finish_conn (settled ident ops panics w))) =
    Some (case first_status ops of Some c \<Rightarrow> c | None \<Rightarrow> if panics then 500 else 200)"
proof -
  let ?q = "fold conn_op ops (new_recorder, w)" and ?r = "response_ops (Failure (WriteError 500 ''internal error'' ident))"
  note q = matches_ops [OF matches_new [OF assms], of ops] and f = recorded_first [of ops w]
  show ?thesis
  proof (cases "first_header ops")
    case None
    then have new: "?q = (new_recorder, snd ?q)" using f by (cases ?q) simp
    have "fst (fold conn_op ?r ?q) = \<lparr>srStatus = 500, srWroteHeader = True\<rparr>"
      by (subst new, subst recorded_first) (simp add: WriteError_def)
    then show ?thesis
      using matches_finish [OF matches_ops [OF q, of ?r]] matches_finish [OF q] None f
      by (simp add: settled_def Let_def first_status_def final_of_def informational_def new_recorder_def del: response_ops.simps)
  next
    case (Some c)
    then show ?thesis using matches_finish [OF q] f by (simp add: settled_def Let_def first_status_def)
  qed
qed

lemma settled_carries:
  assumes "carries ''X-Request-Id'' v w" "keeps_header ''X-Request-Id'' ops"
  shows "carries ''X-Request-Id'' v (finish_conn (settled ident ops panics w))"
proof -
  have "keeps_header ''X-Request-Id'' (response_ops (Failure (WriteError 500 ''internal error'' ident)))"
    by (simp add: keeps_header_def WriteError_def)
  then have "carries ''X-Request-Id'' v (settled ident ops panics w)"
    using assms carries_ops [of _ _ "(new_recorder, w)" ops]
    by (auto simp: settled_def Let_def simp del: response_ops.simps intro!: carries_ops)
  then show ?thesis by (auto simp: finish_conn_def conn_WriteHeader_def carries_def)
qed

lemma served:
  assumes "\<And>i. keeps_header ''X-Request-Id'' (fst (fst (h (r\<lparr>hqID := i\<rparr>) (svInner s))))"
    and "serve_request routeLabel rand h r s = (p, w, s')"
  shows "\<exists>ident ops panics status logged header. requestIDRe ident \<and> length ident \<le> 64
    \<and> h (r\<lparr>hqID := ident\<rparr>) (svInner s) = ((ops, panics), svInner s')
    \<and> \<not> p \<and> hcSent w = Some (status, header) \<and> header ''X-Request-Id'' = Some ident
    \<and> status = (case first_status ops of Some c \<Rightarrow> c | None \<Rightarrow> if panics then 500 else 200)
    \<and> svInFlight s' = svInFlight s \<and> svPanics s' = svPanics s + of_bool panics
    \<and> (logged = status \<or> informational logged \<and> status = 200)
    \<and> logged = (case first_header ops of Some c \<Rightarrow> c | None \<Rightarrow> if panics then 500 else 200)
    \<and> svAccess s' = svAccess s @ (if panics then [] else [(ident, routeLabel (r\<lparr>hqID := ident\<rparr>), hqMethod r, logged)])
    \<and> svRequests s' = svRequests s @ (if panics then [] else [(routeLabel (r\<lparr>hqID := ident\<rparr>), hqMethod r, StatusText logged)])
    \<and> w = finish_conn (settled ident ops panics (new_conn\<lparr>hcHeader := [''X-Request-Id'' \<mapsto> ident]\<rparr>))"
proof -
  obtain ident counter where idc: "(if Get (hqHeader r) ''X-Request-Id'' = '''' \<or> length (Get (hqHeader r) ''X-Request-Id'') > 64
      \<or> \<not> requestIDRe (Get (hqHeader r) ''X-Request-Id'') then generateRequestID rand (svIDCounter s)
    else (Get (hqHeader r) ''X-Request-Id'', svIDCounter s)) = (ident, counter)" by (metis prod.exhaust)
  have ok: "requestIDRe ident \<and> length ident \<le> 64"
    using idc generated_id [of rand "svIDCounter s" ident counter] by (auto split: if_splits)
  let ?r = "r\<lparr>hqID := ident\<rparr>" and ?w = "new_conn\<lparr>hcHeader := [''X-Request-Id'' \<mapsto> ident]\<rparr>"
  obtain ops panics a where h: "h ?r (svInner (s\<lparr>svIDCounter := counter\<rparr>)) = ((ops, panics), a)" by (metis prod.exhaust)
  have w0: "hcSent ?w = None" by (simp add: new_conn_def)
  have "middleware_stack routeLabel rand h r ([], new_conn) s =
      RecoverWithLogger (AccessLog routeLabel (Metrics_Middleware routeLabel (serve_inner h))) ?r ([], ?w) (s\<lparr>svIDCounter := counter\<rparr>)"
    unfolding middleware_stack_def RequestID_def Let_def idc by (simp add: new_conn_def)
  from assms(2) [unfolded serve_request_def this stack_run [of h ?r "s\<lparr>svIDCounter := counter\<rparr>" ops panics a routeLabel ?w, OF h]]
  have res: "\<not> p" "w = finish_conn (settled ident ops panics ?w)" "svInner s' = a" "svInFlight s' = svInFlight s"
    "svPanics s' = svPanics s + of_bool panics"
    "svAccess s' = svAccess s @ (if panics then [] else [(ident, routeLabel ?r, hqMethod r, srStatus (fst (fold conn_op ops (new_recorder, ?w))))])"
    "svRequests s' = svRequests s @ (if panics then [] else [(routeLabel ?r, hqMethod r, StatusText (srStatus (fst (fold conn_op ops (new_recorder, ?w)))))])"
    by (auto simp: Let_def)
  obtain status header where sent: "hcSent w = Some (status, header)"
    "status = (case first_status ops of Some c \<Rightarrow> c | None \<Rightarrow> if panics then 500 else 200)"
    using settled_status [OF w0, of ident ops panics] res(2) by (cases "hcSent w") auto
  have "keeps_header ''X-Request-Id'' ops" using assms(1) [of ident] h by simp
  from settled_carries [OF _ this, of ident ?w ident panics] have hd: "header ''X-Request-Id'' = Some ident"
    using res(2) sent(1) by (simp add: carries_def new_conn_def)
  define logged where "logged = (case first_header ops of Some c \<Rightarrow> c | None \<Rightarrow> if panics then 500 else 200)"
  have "\<not> panics \<Longrightarrow> srStatus (fst (fold conn_op ops (new_recorder, ?w))) = logged"
    unfolding recorded_first by (simp add: logged_def new_recorder_def split: option.splits)
  moreover have "logged = status \<or> informational logged \<and> status = 200"
    by (auto simp: logged_def sent(2) first_status_def final_of_def split: option.splits)
  ultimately show ?thesis using ok h res sent hd logged_def
    by (intro exI [of _ ident] exI [of _ ops] exI [of _ panics] exI [of _ status] exI [of _ logged] exI [of _ header]) auto
qed

text \<open>
  C11: whatever a handler does, its panic never leaves the server; exactly one final status is sent,
  that of the handler if it got to one, else 500 after a panic and 200 otherwise, with a valid request
  identifier in the header; the in-flight gauge is back where it was, and the panic counter counts
  exactly the panics.  A request whose handler panics is missing from the access log and from the
  request counter; every other one is in both, with the status that was sent (in the counter its text),
  except that a handler that begins with an informational status is logged with that while 200 is sent.
\<close>

theorem request_served:
  assumes "\<And>i. keeps_header ''X-Request-Id'' (fst (fst (h (r\<lparr>hqID := i\<rparr>) (svInner s))))"
    and "serve_request routeLabel rand h r s = (p, w, s')"
  shows "\<exists>ident ops panics status logged header. requestIDRe ident \<and> length ident \<le> 64
    \<and> h (r\<lparr>hqID := ident\<rparr>) (svInner s) = ((ops, panics), svInner s')
    \<and> \<not> p \<and> hcSent w = Some (status, header) \<and> header ''X-Request-Id'' = Some ident
    \<and> status = (case first_status ops of Some c \<Rightarrow> c | None \<Rightarrow> if panics then 500 else 200)
    \<and> svInFlight s' = svInFlight s \<and> svPanics s' = svPanics s + of_bool panics
    \<and> (logged = status \<or> informational logged \<and> status = 200)
    \<and> logged = (case first_header ops of Some c \<Rightarrow> c | None \<Rightarrow> if panics then 500 else 200)
    \<and> svAccess s' = svAccess s @ (if panics then [] else [(ident, routeLabel (r\<lparr>hqID := ident\<rparr>), hqMethod r, logged)])
    \<and> svRequests s' = svRequests s @ (if panics then [] else [(routeLabel (r\<lparr>hqID := ident\<rparr>), hqMethod r, StatusText logged)])"
  using served [OF assms] by blast

text \<open>A handler that panics before it writes anything, with a random source that fails.\<close>

theorem request_served_witness:
  "case serve_request (\<lambda>_. ''/x'') None (\<lambda>_ n. (([], True), n + 1))
     \<lparr>hqMethod = ''GET'', hqHeader = [], hqPathID = '''', hqQuery = [], hqBody = '''', hqID = '''', hqSubject = None\<rparr>
     \<lparr>svInFlight = 0, svRequests = [], svPanics = 0, svAccess = [], svIDCounter = - 1, svInner = 6 :: nat\<rparr>
   of (p, w, s') \<Rightarrow> \<not> p \<and> map_option fst (hcSent w) = Some 500 \<and> svPanics s' = 1 \<and> svInner s' = 7 \<and> svAccess s' = [] \<and> svRequests s' = []"
proof -
  let ?r = "\<lparr>hqMethod = ''GET'', hqHeader = [], hqPathID = '''', hqQuery = [], hqBody = '''', hqID = '''', hqSubject = None\<rparr>"
    and ?s = "\<lparr>svInFlight = 0, svRequests = [], svPanics = 0, svAccess = [], svIDCounter = - 1, svInner = 6 :: nat\<rparr>"
    and ?h = "\<lambda>_ n. (([], True), n + 1)"
  obtain p w s' where "serve_request (\<lambda>_. ''/x'') None ?h ?r ?s = (p, w, s')" by (metis prod.exhaust)
  with request_served [of ?h ?r ?s "\<lambda>_. ''/x''" None p w s'] show ?thesis by (auto simp: keeps_header_def first_status_def)
qed


end
