(* ===== verification/Memory_Handlers.thy ===== *)
theory Memory_Handlers
  imports Http_Request Memory_Service Ingest_Correct
begin

text \<open>
  The memory, query, entity, edge and ingest endpoints (\<^verbatim>\<open>memories.go\<close>, \<^verbatim>\<open>queries.go\<close>,
  \<^verbatim>\<open>entities.go\<close>, \<^verbatim>\<open>edges.go\<close> and \<^verbatim>\<open>ingest.go\<close> of \<^verbatim>\<open>internal/httpapi\<close>) over the memory service and the
  enqueuer.  The JSON codec is a parameter; information log lines are left out.
\<close>

section \<open>Answers\<close>

datatype mem_payload =
    M_memory Memory
  | M_query QueryResult
  | M_describe DescribeResult
  | M_entity Entity
  | M_entities "Entity list"
  | M_edge Edge
  | M_edges "Edge list"
  | M_job IngestJob

record BulkMemoriesRequest =
  bmRepo :: string
  bmReconcileFiles :: "string list"
  bmItems :: "IngestItem list"

text \<open>The decoders of the bodies; \<open>mcItems\<close> is \<^verbatim>\<open>json.Unmarshal\<close> of a bare array, which accepts unknown fields.\<close>

record mem_codec =
  mcMarshal :: "mem_payload \<Rightarrow> string option"
  mcMemory :: "string \<Rightarrow> Memory option"
  mcQuery :: "string \<Rightarrow> Query option"
  mcEntity :: "string \<Rightarrow> Entity option"
  mcEdge :: "string \<Rightarrow> Edge option"
  mcItems :: "string \<Rightarrow> IngestItem list option"
  mcBulk :: "string \<Rightarrow> BulkMemoriesRequest option"

definition mem_json :: "mem_codec \<Rightarrow> int \<Rightarrow> ('a \<Rightarrow> mem_payload) \<Rightarrow> 'a \<Rightarrow> response" where
  "mem_json C status payload x = WriteJSON (mcMarshal C) status (payload x)"

section \<open>Memories\<close>

definition handlePostMemory :: "mem_codec \<Rightarrow> ('l, 't, 's) Service \<Rightarrow> ctx \<Rightarrow> Time \<Rightarrow> ('l, 't, 's) world handler" where
  "handlePostMemory C sv cx now r =
     withParam (decodeStrict (mcMemory C) r) (\<lambda>m. reply r (CreateMemory sv cx now m) (mem_json C 201 M_memory))"

definition handleGetMemory ::
  "mem_codec \<Rightarrow> (string \<Rightarrow> Time option) \<Rightarrow> (string \<Rightarrow> Time option) \<Rightarrow> ('l, 't, 's) Service \<Rightarrow> ctx \<Rightarrow> ('l, 't, 's) world handler" where
  "handleGetMemory C parse parseNano sv cx r = reply r (GetMemory parse parseNano sv cx (hqPathID r)) (mem_json C 200 M_memory)"

definition handleDeleteMemory :: "('l, 't, 's) Service \<Rightarrow> ctx \<Rightarrow> ('l, 't, 's) world handler" where
  "handleDeleteMemory sv cx r = reply r (DeleteMemory sv cx (hqPathID r)) (\<lambda>_. Bare 204)"

section \<open>Queries\<close>

definition maxTopK :: int where "maxTopK = 500"
definition defaultTopK :: int where "defaultTopK = 10"

definition clampTopK :: "http_request \<Rightarrow> Query \<Rightarrow> response + Query" where
  "clampTopK r q =
     (if qTopK q < 0 then Inl (bad_request r ''top_k must be non-negative'')
      else let k = (if qTopK q = 0 then defaultTopK else qTopK q) in Inr (q\<lparr>qTopK := (if k > maxTopK then maxTopK else k)\<rparr>))"

text \<open>The checks that the three query handlers repeat.\<close>

definition checked_query :: "mem_codec \<Rightarrow> http_request \<Rightarrow> response + Query" where
  "checked_query C r = (case decodeStrict (mcQuery C) r of
     Inl resp \<Rightarrow> Inl resp
   | Inr q \<Rightarrow>
       if \<not> QueryMode_Valid (qMode q) then Inl (bad_request r ''invalid mode'')
       else if qText q = '''' then Inl (bad_request r ''text required'')
       else clampTopK r q)"

definition handlePostQuery :: "mem_codec \<Rightarrow> ('l, 't, 's) Service \<Rightarrow> ctx \<Rightarrow> ('l, 't, 's) world handler" where
  "handlePostQuery C sv cx r = withParam (checked_query C r) (\<lambda>q. reply r (svc_Query sv cx q) (mem_json C 200 M_query))"

definition handlePostQueryDescribe :: "mem_codec \<Rightarrow> ('l, 't, 's) Service \<Rightarrow> ctx \<Rightarrow> ('l, 't, 's) world handler" where
  "handlePostQueryDescribe C sv cx r = withParam (checked_query C r) (\<lambda>q. reply r (svc_Describe sv cx q) (mem_json C 200 M_describe))"

definition handlePostQueryData :: "mem_codec \<Rightarrow> ('l, 't, 's) Service \<Rightarrow> ctx \<Rightarrow> ('l, 't, 's) world handler" where
  "handlePostQueryData C sv cx r = withParam (checked_query C r) (\<lambda>q. reply r (svc_QueryData sv cx q) (mem_json C 200 M_query))"

section \<open>Entities and edges\<close>

definition handleGetEntity :: "mem_codec \<Rightarrow> ('l, 't, 's) Service \<Rightarrow> ctx \<Rightarrow> ('l, 't, 's) world handler" where
  "handleGetEntity C sv cx r = reply r (GetEntity sv cx (hqPathID r)) (mem_json C 200 M_entity)"

definition handleSearchEntities :: "mem_codec \<Rightarrow> ('l, 't, 's) Service \<Rightarrow> ctx \<Rightarrow> ('l, 't, 's) world handler" where
  "handleSearchEntities C sv cx r =
     (let q = Get (hqQuery r) ''q'' in
      withParam (if q = '''' then Inl (bad_request r ''missing query parameter q'') else Inr q)
        (\<lambda>q. reply r (SearchEntities sv cx q) (mem_json C 200 M_entities)))"

definition handlePatchEntity :: "mem_codec \<Rightarrow> ('l, 't, 's) Service \<Rightarrow> ctx \<Rightarrow> ('l, 't, 's) world handler" where
  "handlePatchEntity C sv cx r =
     withParam (decodeStrict (mcEntity C) r) (\<lambda>patch. reply r (PatchEntity sv cx (hqPathID r) patch) (mem_json C 200 M_entity))"

definition handleListEdges :: "mem_codec \<Rightarrow> ('l, 't, 's) Service \<Rightarrow> ctx \<Rightarrow> ('l, 't, 's) world handler" where
  "handleListEdges C sv cx r = reply r (ListEdges sv cx) (mem_json C 200 M_edges)"

definition edge_check :: "http_request \<Rightarrow> Edge \<Rightarrow> response + Edge" where
  "edge_check r e = (if gFrom e = '''' \<or> gTo e = '''' \<or> gRelation e = ''''
     then Inl (bad_request r ''from_entity, to_entity, relation required'') else Inr e)"

definition handleCreateEdge :: "mem_codec \<Rightarrow> ('l, 't, 's) Service \<Rightarrow> ctx \<Rightarrow> ('l, 't, 's) world handler" where
  "handleCreateEdge C sv cx r =
     withParam (decodeStrict (mcEdge C) r) (\<lambda>e. withParam (edge_check r e) (\<lambda>e.
     reply r (CreateEdge sv cx e) (mem_json C 201 M_edge)))"

definition handleDeleteEdge :: "('l, 't, 's) Service \<Rightarrow> ctx \<Rightarrow> ('l, 't, 's) world handler" where
  "handleDeleteEdge sv cx r = reply r (DeleteEdge sv cx (hqPathID r)) (\<lambda>_. Bare 204)"

section \<open>Bulk ingest\<close>

definition is_json_space :: "char \<Rightarrow> bool" where
  "is_json_space c \<longleftrightarrow> c \<in> {CHR '' '', CHR 0x09, CHR 0x0D, CHR 0x0A}"

definition decodeBulk :: "mem_codec \<Rightarrow> string \<Rightarrow> BulkMemoriesRequest option" where
  "decodeBulk C body =
     (let trimmed = dropWhile is_json_space body in
      if trimmed \<noteq> [] \<and> hd trimmed = CHR ''[''
      then map_option (\<lambda>items. \<lparr>bmRepo = '''', bmReconcileFiles = [], bmItems = items\<rparr>) (mcItems C body)
      else mcBulk C body)"

fun repoFromItems :: "IngestItem list \<Rightarrow> string" where
  "repoFromItems [] = ''''"
| "repoFromItems (it # its) = (let r = mget (iMetadata it) ''repo'' in if r \<noteq> '''' then r else repoFromItems its)"

definition readAllLimited :: "http_request \<Rightarrow> string option" where
  "readAllLimited r = (if length (hqBody r) > maxBulkBody then None else Some (hqBody r))"

text \<open>The two services behind the bulk route and their stores.\<close>

record ('l, 't, 's, 'j) ingest_world =
  iwMemory :: "('l, 't, 's) world"
  iwPool :: "'j pool"

text \<open>What the enqueuer draws: the identifiers of items and job, and the clock.\<close>

record 'j enqueuer =
  enStore :: "'j JobStore"
  enItemID :: "nat \<Rightarrow> string"
  enJobID :: string
  enNow :: Time

definition Enqueuer_GetJob :: "'j enqueuer \<Rightarrow> string \<Rightarrow> ('j pool, err, IngestJob) call" where
  "Enqueuer_GetJob en k p = (case GetJob (enStore en) k (pStore p) of (r, s) \<Rightarrow> (r, p\<lparr>pStore := s\<rparr>))"

definition bulk_body :: "mem_codec \<Rightarrow> http_request \<Rightarrow> response + BulkMemoriesRequest" where
  "bulk_body C r = (case readAllLimited r of
     None \<Rightarrow> Inl (bad_request r ''invalid json'')
   | Some body \<Rightarrow> (case decodeBulk C body of
       None \<Rightarrow> Inl (bad_request r ''invalid json'')
     | Some req \<Rightarrow> if bmItems req = [] \<and> bmReconcileFiles req = [] then Inl (bad_request r ''items must not be empty'') else Inr req))"

definition bulk_repo :: "BulkMemoriesRequest \<Rightarrow> string" where
  "bulk_repo req = (if bmRepo req = '''' then repoFromItems (bmItems req) else bmRepo req)"

definition bulk_purge :: "('l, 't, 's) Service \<Rightarrow> ctx \<Rightarrow> Time \<Rightarrow> http_request \<Rightarrow> BulkMemoriesRequest \<Rightarrow> ('l, 't, 's) world \<Rightarrow> response option \<times> ('l, 't, 's) world" where
  "bulk_purge sv cx now r req w =
     (if bmReconcileFiles req = [] then (None, w)
      else if bulk_repo req = '''' then (Some (bad_request r ''repo is required when reconcile_files is set''), w)
      else case DeleteMemoriesBySources sv cx now (bulk_repo req) (bmReconcileFiles req) w of
        ((n, Some e), w') \<Rightarrow> (Some (service_error r e), w')
      | ((n, None), w') \<Rightarrow> (None, w'))"

text \<open>The zero \<^verbatim>\<open>IngestJob\<close> with status succeeded, the answer to a pure deletion.\<close>

definition no_job :: IngestJob where
  "no_job = \<lparr>jID = '''', jStatus = JobStatusSucceeded, jTotal = 0, jDone = 0, jFailed = 0, jErrors = [], jCreatedAt = 0, jUpdatedAt = 0\<rparr>"

definition bulk_enqueue :: "mem_codec \<Rightarrow> 'j enqueuer \<Rightarrow> http_request \<Rightarrow> BulkMemoriesRequest \<Rightarrow> 'j pool \<Rightarrow> response \<times> 'j pool" where
  "bulk_enqueue C en r req p =
     (if bmItems req = [] then (mem_json C 200 M_job no_job, p)
      else case Enqueue (enStore en) (enItemID en) (enJobID en) (enNow en) (bmItems req) p of
        (Inl e, p') \<Rightarrow> (service_error r e, p')
      | (Inr job, p') \<Rightarrow> (mem_json C 202 M_job job, p'))"

definition handleBulkIngest ::
  "mem_codec \<Rightarrow> ('l, 't, 's) Service \<Rightarrow> 'j enqueuer \<Rightarrow> ctx \<Rightarrow> Time \<Rightarrow> ('l, 't, 's, 'j) ingest_world handler" where
  "handleBulkIngest C sv en cx now r =
     withParam (bulk_body C r) (\<lambda>req w. case bulk_purge sv cx now r req (iwMemory w) of
        (Some resp, m) \<Rightarrow> (resp, w\<lparr>iwMemory := m\<rparr>)
      | (None, m) \<Rightarrow> (case bulk_enqueue C en r req (iwPool w) of (resp, p) \<Rightarrow> (resp, w\<lparr>iwMemory := m, iwPool := p\<rparr>)))"

definition handleGetJob :: "mem_codec \<Rightarrow> 'j enqueuer \<Rightarrow> 'j pool handler" where
  "handleGetJob C en r = reply r (Enqueuer_GetJob en (hqPathID r)) (mem_json C 200 M_job)"

section \<open>Properties\<close>

lemma service_error_status: "status_of (service_error r e) \<in> {400, 404, 429, 499, 500, 502, 503}"
  by (simp add: service_error_def mapServiceError_def WriteError_def)

lemma decodeStrict_Inl: "decodeStrict decode r = Inl resp \<Longrightarrow> status_of resp = 400"
  by (simp add: decodeStrict_def decode_limited_Inl)

lemma bulk_body_Inl: "bulk_body C r = Inl resp \<Longrightarrow> status_of resp = 400"
  by (auto simp: bulk_body_def split: option.splits if_splits)

lemma service_error_not_ok [simp]: "status_of (service_error r e) \<noteq> 200" "status_of (service_error r e) \<noteq> 202"
  using service_error_status [of r e] by auto

text \<open>What the purge leaves of the source index: a prefix of the files is cleared, all of them when it succeeds.\<close>

definition cleared :: "string \<Rightarrow> string list \<Rightarrow> (string \<Rightarrow> string \<Rightarrow> string set) \<Rightarrow> string \<Rightarrow> string \<Rightarrow> string set" where
  "cleared repo files ids = (\<lambda>r g. if r = repo \<and> g \<in> set files then {} else ids r g)"

lemma cleared_Nil [simp]: "cleared repo [] ids = ids"
  by (simp add: cleared_def fun_eq_iff)

lemma bulk_purge_effect:
  assumes "bulk_purge (pg_service L now b) cx t r req w = (x, w')"
  shows "\<exists>m \<le> length (bmReconcileFiles req).
    file_ids (wSrc w') = cleared (bulk_repo req) (take m (bmReconcileFiles req)) (file_ids (wSrc w))
    \<and> (x = None \<longrightarrow> m = length (bmReconcileFiles req)) \<and> (\<forall>resp. x = Some resp \<longrightarrow> status_of resp \<notin> {200, 202})"
proof (cases "bmReconcileFiles req = [] \<or> bulk_repo req = ''''")
  case True
  then show ?thesis using assms by (intro exI [of _ 0]) (auto simp: bulk_purge_def split: if_splits)
next
  case False
  obtain n res v where d: "DeleteMemoriesBySources (pg_service L now b) cx t (bulk_repo req) (bmReconcileFiles req) w = ((n, res), v)"
    by (metis prod.exhaust)
  from pgs.sources_loop_effect [OF _ _ d [unfolded DeleteMemoriesBySources_def], of now] obtain m where
    "m \<le> length (bmReconcileFiles req)" "res = None \<longleftrightarrow> m = length (bmReconcileFiles req)"
    "file_ids (wSrc v) = cleared (bulk_repo req) (take m (bmReconcileFiles req)) (file_ids (wSrc w))"
    by (auto simp: cleared_def)
  moreover have "w' = v" "x = map_option (service_error r) res" using assms False d by (cases res; simp add: bulk_purge_def)+
  ultimately show ?thesis by (intro exI [of _ m]) (cases res; auto)
qed

lemma bulk_enqueue_effect:
  assumes "pg_inv (pStore p)" "enStore en = PGStore_ops gen" "\<forall>x. mcMarshal C x \<noteq> None"
    and "bulk_enqueue C en r req p = (resp, p')"
  shows "(status_of resp = 202 \<longrightarrow> bmItems req \<noteq> [] \<and> pg_jobs (pStore p) (enJobID en) = None
      \<and> pg_jobs (pStore p') = (pg_jobs (pStore p))(enJobID en \<mapsto>
          view_of (queued_job (enJobID en) (enNow en) (assignKeys (enItemID en) (bmItems req))) (fresh_items (assignKeys (enItemID en) (bmItems req)))))
    \<and> (status_of resp = 200 \<longrightarrow> bmItems req = [] \<and> p' = p)
    \<and> (status_of resp \<notin> {200, 202} \<longrightarrow> pg_jobs (pStore p') = pg_jobs (pStore p) \<and> pNotify p' = pNotify p)"
proof (cases "bmItems req = []")
  case True
  then show ?thesis using assms(3,4) by (auto simp: bulk_enqueue_def mem_json_def WriteJSON_def WriteError_def split: option.splits)
next
  case False
  obtain x q where e: "Enqueue (PGStore_ops gen) (enItemID en) (enJobID en) (enNow en) (bmItems req) p = (x, q)" by fastforce
  have m: "status_of (mem_json C 202 M_job job) = 202" for job
    using spec [OF assms(3), of "M_job job"] by (auto simp: mem_json_def WriteJSON_def)
  show ?thesis
  proof (cases x)
    case (Inl er)
    then have "resp = service_error r er" "p' = q" using False e assms(2,4) by (simp_all add: bulk_enqueue_def)
    then show ?thesis using enqueue_effect [OF assms(1) e] Inl by simp
  next
    case (Inr job)
    then have "resp = mem_json C 202 M_job job" "p' = q" using False e assms(2,4) by (simp_all add: bulk_enqueue_def)
    then show ?thesis using enqueue_effect [OF assms(1) e] Inr m by simp
  qed
qed

lemma bulk_purge_succeeds:
  assumes "bulk_purge (pg_service L now b) cx t r req w = (x, w')"
    and "bmReconcileFiles req = [] \<or> bulk_repo req \<noteq> '''' \<and> healthy (wTomb w) \<and> healthy (wSrc w) \<and> (\<forall>cx k l. lr_answer (L cx) k l \<noteq> Refused)"
  shows "x = None"
proof (cases "bmReconcileFiles req = []")
  case True
  with assms(1) show ?thesis by (simp add: bulk_purge_def)
next
  case False
  obtain n res v where d: "DeleteMemoriesBySources (pg_service L now b) cx t (bulk_repo req) (bmReconcileFiles req) w = ((n, res), v)"
    by (metis prod.exhaust)
  have "res = None"
    using assms(2) False by (intro pgp.sources_loop_succeeds [OF _ _ _ _ _ d [unfolded DeleteMemoriesBySources_def], of now]) auto
  with d assms False show ?thesis by (simp add: bulk_purge_def)
qed

lemma bulk_enqueue_succeeds:
  assumes "pg_inv (pStore p)" "enStore en = PGStore_ops gen" "\<forall>x. mcMarshal C x \<noteq> None"
    and "bmItems req = [] \<or> healthy (pStore p) \<and> pg_jobs (pStore p) (enJobID en) = None
      \<and> distinct (map iKey (assignKeys (enItemID en) (bmItems req))) \<and> fresh_rows (gen (enJobID en)) (length (bmItems req)) (tables (pStore p))"
    and "bulk_enqueue C en r req p = (resp, p')"
  shows "status_of resp = (if bmItems req = [] then 200 else 202)"
proof -
  have m: "status_of (mem_json C s payload x) = s" for s and payload :: "IngestJob \<Rightarrow> mem_payload" and x
    using spec [OF assms(3), of "payload x"] by (auto simp: mem_json_def WriteJSON_def)
  show ?thesis
  proof (cases "bmItems req = []")
    case True
    then show ?thesis using assms(5) m by (auto simp: bulk_enqueue_def)
  next
    case False
    let ?its = "assignKeys (enItemID en) (bmItems req)"
    have "length ?its = length (bmItems req)" by (simp add: assignKeys_def)
    then obtain c where "PG_CreateJob gen (enNow en) (queued_job (enJobID en) (enNow en) ?its) ?its (pStore p) = (Inr (), c)"
      using pg_create_live [of "pStore p" "queued_job (enJobID en) (enNow en) ?its" ?its gen "enNow en"] assms(1,4) False
      by (auto simp: queued_job_def)
    then have "resp = mem_json C 202 M_job (queued_job (enJobID en) (enNow en) ?its)"
      using assms(2,4,5) False by (auto simp: bulk_enqueue_def Enqueue_def Let_def PGStore_ops_def)
    then show ?thesis using False m by simp
  qed
qed

text \<open>
  C37: \<^verbatim>\<open>POST /memories:bulk\<close> for every body, with a codec that encodes every answer, and under any
  database or LightRAG failure.  A body that is too long, is not JSON or asks for nothing is answered 400 and nothing happens.  Any other
  is a request: of its reconcile files a prefix is purged from its own repository, in order, and then
  \<^item> 202 means that there are items, every file is purged and the job is stored queued with all items pending;
  \<^item> 200 means that there are no items, every file is purged and the pool is untouched;
  \<^item> any other status means that no job is stored or notified, and is 400 when files are given without a repository.
  The answer is 200 without items and 202 with items if the databases answer every call, LightRAG refuses no deletion, the files (if any)
  come with a repository, the keys of the items are distinct and the drawn IDs are new.
\<close>

theorem bulk_ingest_outcome:
  assumes "pg_inv (pStore (iwPool w))" "enStore en = PGStore_ops gen" "\<forall>x. mcMarshal C x \<noteq> None"
    and h: "handleBulkIngest C (pg_service L now b) en cx t r w = (resp, w')"
  shows "case bulk_body C r of
      Inl bad \<Rightarrow> resp = bad \<and> status_of bad = 400 \<and> w' = w
    | Inr req \<Rightarrow>
      (\<exists>m \<le> length (bmReconcileFiles req).
          file_ids (wSrc (iwMemory w')) = cleared (bulk_repo req) (take m (bmReconcileFiles req)) (file_ids (wSrc (iwMemory w)))
          \<and> (status_of resp \<in> {200, 202} \<longrightarrow> m = length (bmReconcileFiles req)))
      \<and> (status_of resp = 202 \<longrightarrow> bmItems req \<noteq> [] \<and> pg_jobs (pStore (iwPool w)) (enJobID en) = None
          \<and> pg_jobs (pStore (iwPool w')) = (pg_jobs (pStore (iwPool w)))(enJobID en \<mapsto>
              view_of (queued_job (enJobID en) (enNow en) (assignKeys (enItemID en) (bmItems req))) (fresh_items (assignKeys (enItemID en) (bmItems req)))))
      \<and> (status_of resp = 200 \<longrightarrow> bmItems req = [] \<and> iwPool w' = iwPool w)
      \<and> (status_of resp \<notin> {200, 202} \<longrightarrow> pg_jobs (pStore (iwPool w')) = pg_jobs (pStore (iwPool w)) \<and> pNotify (iwPool w') = pNotify (iwPool w))
      \<and> (bmReconcileFiles req \<noteq> [] \<and> bulk_repo req = '''' \<longrightarrow> status_of resp = 400 \<and> w' = w)
      \<and> ((bmReconcileFiles req = [] \<or> bulk_repo req \<noteq> '''' \<and> healthy (wTomb (iwMemory w)) \<and> healthy (wSrc (iwMemory w))
            \<and> (\<forall>cx k l. lr_answer (L cx) k l \<noteq> Refused))
          \<and> (bmItems req = [] \<or> healthy (pStore (iwPool w)) \<and> pg_jobs (pStore (iwPool w)) (enJobID en) = None
            \<and> distinct (map iKey (assignKeys (enItemID en) (bmItems req)))
            \<and> fresh_rows (gen (enJobID en)) (length (bmItems req)) (tables (pStore (iwPool w))))
          \<longrightarrow> status_of resp = (if bmItems req = [] then 200 else 202))"
proof (cases "bulk_body C r")
  case (Inl bad)
  then show ?thesis using bulk_body_Inl [OF Inl] h by (simp add: handleBulkIngest_def)
next
  case (Inr req)
  obtain x v where p: "bulk_purge (pg_service L now b) cx t r req (iwMemory w) = (x, v)" by fastforce
  note purged = bulk_purge_succeeds [OF p]
  from bulk_purge_effect [OF p] obtain m where m: "m \<le> length (bmReconcileFiles req)"
    "file_ids (wSrc v) = cleared (bulk_repo req) (take m (bmReconcileFiles req)) (file_ids (wSrc (iwMemory w)))"
    "x = None \<Longrightarrow> m = length (bmReconcileFiles req)" "\<And>resp. x = Some resp \<Longrightarrow> status_of resp \<notin> {200, 202}" by auto
  have no_repo: "bmReconcileFiles req \<noteq> [] \<and> bulk_repo req = '''' \<Longrightarrow> v = iwMemory w \<and> (\<exists>bad. x = Some bad \<and> status_of bad = 400)"
    using p by (auto simp: bulk_purge_def)
  show ?thesis
  proof (cases x)
    case (Some bad)
    then have r: "resp = bad" "w' = w\<lparr>iwMemory := v\<rparr>" using h p Inr by (simp_all add: handleBulkIngest_def)
    have "status_of bad \<noteq> 200" "status_of bad \<noteq> 202" using m(4) [OF Some] by simp_all
    with m(1,2) r no_repo purged Some show ?thesis by (auto simp: Inr)
  next
    case None
    obtain y q where e: "bulk_enqueue C en r req (iwPool w) = (y, q)" by fastforce
    then have r: "resp = y" "iwMemory w' = v" "iwPool w' = q" using h p Inr None by (auto simp: handleBulkIngest_def)
    note eff = bulk_enqueue_effect [OF assms(1-3) e] and live = bulk_enqueue_succeeds [OF assms(1-3) _ e]
    have repo: "\<not> (bmReconcileFiles req \<noteq> [] \<and> bulk_repo req = '''')" using no_repo None by auto
    have "\<exists>m \<le> length (bmReconcileFiles req).
        file_ids (wSrc v) = cleared (bulk_repo req) (take m (bmReconcileFiles req)) (file_ids (wSrc (iwMemory w)))
        \<and> (status_of y \<in> {200, 202} \<longrightarrow> m = length (bmReconcileFiles req))"
      using m(1,2) m(3) [OF None] by blast
    then show ?thesis
      unfolding Inr sum.case r
      using repo eff by (elim conjE, intro conjI) (assumption | (rule impI, rule live, erule conjunct2) | (rule impI, erule (1) notE))+
  qed
qed

text \<open>
  A poll of a job that does not exist is answered 500 and logged as an internal error: the error
  mapping does not know \<^verbatim>\<open>ErrJobNotFound\<close>.
\<close>

theorem unknown_job_internal_error:
  assumes "healthy (pStore p)" "\<forall>j \<in> set (ingest_jobs (tables (pStore p))). rjID j \<noteq> hqPathID r" "enStore en = PGStore_ops gen"
  shows "\<exists>resp p'. handleGetJob C en r p = (Failure resp, p') \<and> rsStatus resp = 500 \<and> rsLog resp = Some LevelError"
proof -
  have "find (\<lambda>j. rjID j = hqPathID r) (ingest_jobs (tables (pStore p))) = None" using assms(2) by (simp add: find_None_iff)
  then have "PG_GetJob (hqPathID r) (pStore p) = (Inl ErrJobNotFound, pStore p)"
    using assms(1) by (simp add: PG_GetJob_def query_row_def bindE_def mapErr_def Is_def)
  then show ?thesis using assms(3)
    by (simp add: handleGetJob_def reply_def Enqueuer_GetJob_def PGStore_ops_def service_error_def mapServiceError_def WriteError_def
        Is_def isDBLockContention_def isDBUnavailable_def AsPg_def AsConnect_def AsNet_def)
qed

text \<open>Every query that reaches LightRAG has a valid mode, a text and between 1 and 500 results to fetch.\<close>

lemma checked_query_bounds:
  "checked_query C r = Inr q \<Longrightarrow> QueryMode_Valid (qMode q) \<and> qText q \<noteq> '''' \<and> 1 \<le> qTopK q \<and> qTopK q \<le> 500"
  by (auto simp: checked_query_def clampTopK_def maxTopK_def defaultTopK_def Let_def split: sum.splits if_splits)

section \<open>A bulk request\<close>

definition demo_mem_codec :: mem_codec where
  "demo_mem_codec = \<lparr>mcMarshal = (\<lambda>_. Some ''{}''), mcMemory = (\<lambda>_. None), mcQuery = (\<lambda>_. None), mcEntity = (\<lambda>_. None), mcEdge = (\<lambda>_. None),
     mcItems = (\<lambda>_. Some [item_a]), mcBulk = (\<lambda>_. None)\<rparr>"

definition demo_enqueuer :: "pg_conn enqueuer" where
  "demo_enqueuer = \<lparr>enStore = PGStore_ops ids0, enItemID = (\<lambda>_. ''x''), enJobID = ''j1'', enNow = 1\<rparr>"

definition bulk_request :: http_request where
  "bulk_request = \<lparr>hqMethod = ''POST'', hqHeader = [], hqPathID = '''', hqQuery = [], hqBody = '' [..]'', hqID = ''q'', hqSubject = None\<rparr>"

definition bulk_world :: "(string list, tomb_conn, source_conn, pg_conn) ingest_world" where
  "bulk_world = \<lparr>iwMemory = world0 [], iwPool = newPool (empty_pg []) 1 8 False\<rparr>"

theorem bulk_ingest_outcome_witness:
  "\<exists>resp w'. handleBulkIngest demo_mem_codec demo demo_enqueuer cx0 0 bulk_request bulk_world = (resp, w')
     \<and> status_of resp = 202 \<and> pg_jobs (pStore (iwPool w')) ''j1'' \<noteq> None"
proof -
  let ?h = "handleBulkIngest demo_mem_codec demo demo_enqueuer cx0 0 bulk_request bulk_world"
  obtain resp w' where h: "?h = (resp, w')" by fastforce
  have body: "bulk_body demo_mem_codec bulk_request = Inr \<lparr>bmRepo = '''', bmReconcileFiles = [], bmItems = [item_a]\<rparr>"
    by (simp add: bulk_body_def readAllLimited_def bulk_request_def maxBulkBody_def decodeBulk_def demo_mem_codec_def is_json_space_def)
  have "pg_inv (pStore (iwPool bulk_world))" "enStore demo_enqueuer = PGStore_ops ids0" "\<forall>x. mcMarshal demo_mem_codec x \<noteq> None"
    by (simp_all add: bulk_world_def newPool_def demo_enqueuer_def demo_mem_codec_def)
  note o = bulk_ingest_outcome [OF this h [unfolded demo_def], unfolded body sum.case]
  have "healthy (pStore (iwPool bulk_world)) \<and> pg_jobs (pStore (iwPool bulk_world)) (enJobID demo_enqueuer) = None
    \<and> distinct (map iKey (assignKeys (enItemID demo_enqueuer) [item_a]))
    \<and> fresh_rows (ids0 (enJobID demo_enqueuer)) (length [item_a]) (tables (pStore (iwPool bulk_world)))"
    by (simp add: bulk_world_def newPool_def empty_pg_def healthy_def demo_enqueuer_def pg_jobs_def db_jobs_def assignKeys_def fresh_rows_def)
  with o have "status_of resp = 202" by simp
  with o h show ?thesis by (auto simp: demo_enqueuer_def)
qed

theorem unknown_job_internal_error_witness:
  "\<exists>resp p'. handleGetJob demo_mem_codec demo_enqueuer (bulk_request\<lparr>hqPathID := ''nope''\<rparr>) (newPool (empty_pg []) 1 8 False) = (Failure resp, p')
     \<and> rsStatus resp = 500"
proof -
  have "healthy (pStore (newPool (empty_pg []) 1 8 False))"
    "\<forall>j \<in> set (ingest_jobs (tables (pStore (newPool (empty_pg []) 1 8 False)))). rjID j \<noteq> hqPathID (bulk_request\<lparr>hqPathID := ''nope''\<rparr>)"
    "enStore demo_enqueuer = PGStore_ops ids0"
    by (simp_all add: newPool_def empty_pg_def healthy_def demo_enqueuer_def)
  from unknown_job_internal_error [OF this, of demo_mem_codec] show ?thesis by auto
qed

end
