(* ===== verification/Codegraph_Traversal.thy ===== *)
theory Codegraph_Traversal
  imports Codegraph_Reconcile
begin

text \<open>
  The two graph walks of \<^verbatim>\<open>internal/codegraph/pgstore.go\<close>: \<^verbatim>\<open>Neighbors\<close>, whose recursive query collects
  what lies within a number of hops, and \<^verbatim>\<open>ShortestPath\<close>, whose recursive query enumerates simple
  paths.  A recursive query is evaluated level by level, as PostgreSQL does: the rows of the next
  level are the join of the rows of the last one with the edges.  Text columns are compared byte by
  byte (collation C).
\<close>

section \<open>Rows to values\<close>

definition scanEntity :: "entity_row \<Rightarrow> CEntity" where
  "scanEntity r = \<lparr>ceID = xID r, ceName = xName r, ceType = xType r, ceDescription = xDescription r, ceFilePath = xFilePath r,
     ceLineStart = 0, ceLineEnd = 0, ceSourceURL = '''', ceAuthor = '''', ceCapturedAt = '''', ceProperties = xProperties r\<rparr>"

definition scanEdge :: "edge_row \<Rightarrow> CEdge" where
  "scanEdge r = \<lparr>cdFrom = dFrom r, cdTo = dTo r, cdRelation = dRelation r, cdSrcFile = dSrcFile r,
     cdConfidenceScore = 0, cdConfidenceTier = '''', cdProperties = dProperties r\<rparr>"

definition scanEdgeWithConfidence :: "edge_row \<Rightarrow> CEdge" where
  "scanEdgeWithConfidence r = (scanEdge r)\<lparr>cdConfidenceScore := dScore r, cdConfidenceTier := dTier r\<rparr>"

text \<open>\<^verbatim>\<open>$3='' OR e.relation = ANY(string_to_array($3, ','))\<close>\<close>

definition relation_ok :: "string \<Rightarrow> string \<Rightarrow> bool" where
  "relation_ok relStr rel \<longleftrightarrow> relStr = '''' \<or> rel \<in> set (split_on (CHR '','') relStr)"

definition confidence_ok :: "ConfidenceFilter \<Rightarrow> edge_row \<Rightarrow> bool" where
  "confidence_ok cf e \<longleftrightarrow>
     (if cfMinConfidence cf > 0 \<or> cfTier cf \<noteq> ''''
      then dScore e \<ge> cfMinConfidence cf \<and> (cfTier cf = '''' \<or> dTier e = cfTier cf)
      else True)"

text \<open>The edges a walk may take, each as the node it leaves and the node it enters.\<close>

definition walk_edges :: "string \<Rightarrow> string \<Rightarrow> string \<Rightarrow> ConfidenceFilter \<Rightarrow> graph_db \<Rightarrow> (string \<times> string) list" where
  "walk_edges repo relStr dir cf d =
     map (\<lambda>e. if dir = ''in'' then (dTo e, dFrom e) else (dFrom e, dTo e))
       (filter (\<lambda>e. dRepo e = repo \<and> relation_ok relStr (dRelation e) \<and> confidence_ok cf e) (code_edges d))"

definition next_ids :: "(string \<times> string) list \<Rightarrow> string \<Rightarrow> string list" where
  "next_ids es i = map snd (filter (\<lambda>e. fst e = i) es)"

section \<open>Neighbors\<close>

text \<open>\<^verbatim>\<open>UNION\<close> keeps one copy of a row (id, depth).\<close>

fun walk_levels :: "(string \<times> string) list \<Rightarrow> nat \<Rightarrow> nat \<Rightarrow> string list \<Rightarrow> (string \<times> nat) list" where
  "walk_levels es 0 d ids = map (\<lambda>i. (i, d)) ids"
| "walk_levels es (Suc n) d ids = map (\<lambda>i. (i, d)) ids @ walk_levels es n (d + 1) (remdups (concat (map (next_ids es) ids)))"

text \<open>\<^verbatim>\<open>SELECT DISTINCT ON (key)\<close>: the first row of each key.\<close>

fun distinct_on :: "('r \<Rightarrow> 'k) \<Rightarrow> 'r list \<Rightarrow> 'r list" where
  "distinct_on key [] = []"
| "distinct_on key (x # xs) = x # distinct_on key (filter (\<lambda>y. key y \<noteq> key x) xs)"

definition reached :: "string \<Rightarrow> (string \<times> string) list \<Rightarrow> nat \<Rightarrow> string \<Rightarrow> graph_db \<Rightarrow> (entity_row \<times> nat) list" where
  "reached repo es depth start d =
     distinct_on (xID \<circ> fst) (sort_key (xID \<circ> fst) (sort_key snd
       (concat (map (\<lambda>(i, k). map (\<lambda>n. (n, k)) (filter (\<lambda>n. xRepo n = repo \<and> xID n = i) (code_entities d)))
         (filter (\<lambda>(i, k). k > 0) (walk_levels es depth 0 [start]))))))"

definition CG_Neighbors :: "string \<Rightarrow> string \<Rightarrow> string list \<Rightarrow> string \<Rightarrow> int \<Rightarrow> int \<Rightarrow> ConfidenceFilter \<Rightarrow> (graph_conn, err, PathNode list) call" where
  "CG_Neighbors repo i relations dir depth limit cf = db_query (\<lambda>d.
     map (\<lambda>(n, k). \<lparr>pnEntity = scanEntity n, pnDepth = k\<rparr>)
       (take (nat limit) (reached repo (walk_edges repo (join '','' relations) dir cf d) (nat depth) i d)))"

section \<open>ShortestPath\<close>

text \<open>One round of the enumeration of simple paths: a path that has arrived is not extended.\<close>

definition extend_path :: "(string \<times> string) list \<Rightarrow> string \<Rightarrow> string list \<Rightarrow> string list list" where
  "extend_path es target p =
     (if last p = target then [] else map (\<lambda>t. p @ [t]) (filter (\<lambda>t. t \<notin> set p) (next_ids es (last p))))"

fun path_levels :: "(string \<times> string) list \<Rightarrow> string \<Rightarrow> nat \<Rightarrow> string list list \<Rightarrow> string list list" where
  "path_levels es target 0 ps = ps"
| "path_levels es target (Suc n) ps = ps @ path_levels es target n (concat (map (extend_path es target) ps))"

definition shortest_path :: "(string \<times> string) list \<Rightarrow> string \<Rightarrow> string \<Rightarrow> nat \<Rightarrow> string list option" where
  "shortest_path es from to depth =
     (case sort_key length (filter (\<lambda>p. last p = to) (path_levels es to depth [[from]])) of
        [] \<Rightarrow> None
      | p # _ \<Rightarrow> Some p)"

text \<open>The entities of the path, or nothing if one of them is not there.\<close>

fun chain_entities :: "(string \<rightharpoonup> CEntity) \<Rightarrow> string list \<Rightarrow> CEntity list option" where
  "chain_entities byID [] = Some []"
| "chain_entities byID (i # is) = (case byID i of
     None \<Rightarrow> None
   | Some e \<Rightarrow> map_option ((#) e) (chain_entities byID is))"

definition entity_by_id :: "string \<Rightarrow> string list \<Rightarrow> graph_db \<Rightarrow> string \<rightharpoonup> CEntity" where
  "entity_by_id repo ids d i = (if i \<in> set ids then map_option scanEntity (lookup entity_key (repo, i) (code_entities d)) else None)"

definition no_filter :: ConfidenceFilter where
  "no_filter = \<lparr>cfMinConfidence = 0, cfTier = ''''\<rparr>"

definition CG_ShortestPath :: "string \<Rightarrow> string \<Rightarrow> string \<Rightarrow> string list \<Rightarrow> int \<Rightarrow> (graph_conn, err, CEntity list) call" where
  "CG_ShortestPath repo from to relations depth =
     bindE (db_query (\<lambda>d. map_option (join ''|'')
         (shortest_path (walk_edges repo (join '','' relations) ''out'' no_filter d) from to (nat depth)))) (\<lambda>row.
     case row of
       None \<Rightarrow> returnE []
     | Some pathStr \<Rightarrow>
         let ids = split_on (CHR ''|'') pathStr in
         bindE (db_query (\<lambda>d. entity_by_id repo ids d)) (\<lambda>byID.
         returnE (case chain_entities byID ids of None \<Rightarrow> [] | Some out \<Rightarrow> out)))"

section \<open>The relation filter\<close>

lemma relation_ok_join:
  assumes "rels \<noteq> []" "\<And>r. r \<in> set rels \<Longrightarrow> r \<noteq> '''' \<and> CHR '','' \<notin> set r"
  shows "relation_ok (join '','' rels) rel \<longleftrightarrow> rel \<in> set rels"
proof -
  have "join '','' rels \<noteq> ''''" using assms by (cases rels; cases "tl rels") auto
  with assms show ?thesis by (simp add: relation_ok_def split_on_join)
qed

section \<open>Neighbors finds what is within reach\<close>

lemma next_ids_rel [simp]: "set (next_ids es i) = {t. (i, t) \<in> set es}"
  by (force simp: next_ids_def)

lemma relpow_first: "(s, i) \<in> R ^^ Suc k \<longleftrightarrow> (\<exists>t. (s, t) \<in> R \<and> (t, i) \<in> R ^^ k)"
  by (meson relpow_Suc_D2 relpow_Suc_I2)

lemma walk_levels_set:
  "set (walk_levels es n d ids) = {(i, d + k) | i k. k \<le> n \<and> (\<exists>s\<in>set ids. (s, i) \<in> set es ^^ k)}"
proof (induction n arbitrary: d ids)
  case 0
  then show ?case by auto
next
  case (Suc n)
  have step: "(\<exists>s\<in>set (remdups (concat (map (next_ids es) ids))). (s, i) \<in> set es ^^ k) \<longleftrightarrow> (\<exists>s\<in>set ids. (s, i) \<in> set es ^^ Suc k)" for i k
    unfolding relpow_first by auto
  show ?case
  proof (intro set_eqI iffI)
    fix x
    assume "x \<in> set (walk_levels es (Suc n) d ids)"
    then show "x \<in> {(i, d + k) | i k. k \<le> Suc n \<and> (\<exists>s\<in>set ids. (s, i) \<in> set es ^^ k)}"
    proof (simp only: walk_levels.simps set_append Un_iff Suc.IH, elim disjE)
      assume "x \<in> set (map (\<lambda>i. (i, d)) ids)"
      then show ?thesis by (auto intro!: exI [of _ 0])
    next
      assume "x \<in> {(i, d + 1 + k) | i k. k \<le> n \<and> (\<exists>s\<in>set (remdups (concat (map (next_ids es) ids))). (s, i) \<in> set es ^^ k)}"
      then obtain i k where "x = (i, d + Suc k)" "k \<le> n" "\<exists>s\<in>set ids. (s, i) \<in> set es ^^ Suc k"
        unfolding step by auto
      then show ?thesis by blast
    qed
  next
    fix x
    assume "x \<in> {(i, d + k) | i k. k \<le> Suc n \<and> (\<exists>s\<in>set ids. (s, i) \<in> set es ^^ k)}"
    then obtain i k where x: "x = (i, d + k)" "k \<le> Suc n" "\<exists>s\<in>set ids. (s, i) \<in> set es ^^ k" by blast
    show "x \<in> set (walk_levels es (Suc n) d ids)"
    proof (cases k)
      case 0
      with x show ?thesis by auto
    next
      case (Suc m)
      with x(3) have "\<exists>s\<in>set (remdups (concat (map (next_ids es) ids))). (s, i) \<in> set es ^^ m" unfolding step by simp
      moreover have "x = (i, d + 1 + m)" "m \<le> n" using x Suc by auto
      ultimately show ?thesis unfolding walk_levels.simps set_append Suc.IH by blast
    qed
  qed
qed

lemma distinct_on_set: "y \<in> set (distinct_on key xs) \<longleftrightarrow> (\<exists>zs. filter (\<lambda>z. key z = key y) xs = y # zs)"
proof (induction xs rule: distinct_on.induct [of _ key])
  case (2 key x xs)
  show ?case
  proof (cases "key y = key x")
    case True
    then have "y \<notin> set (distinct_on key (filter (\<lambda>y. key y \<noteq> key x) xs))"
      unfolding "2.IH" by (auto simp: filter_empty_conv dest: arg_cong [where f = length])
    with True show ?thesis by auto
  next
    case False
    then have "filter (\<lambda>z. key z = key y) (filter (\<lambda>y. key y \<noteq> key x) xs) = filter (\<lambda>z. key z = key y) xs"
      by (auto intro: filter_cong)
    with False "2.IH" show ?thesis by auto
  qed
qed simp

lemma sorted_distinct_on: "sorted (map key xs) \<Longrightarrow> sorted (map key (distinct_on key xs))"
proof (induction xs rule: distinct_on.induct [of _ key])
  case (2 key x xs)
  have "set (distinct_on key (filter (\<lambda>y. key y \<noteq> key x) xs)) \<subseteq> set xs"
    by (auto simp: distinct_on_set dest!: filter_eq_ConsD)
  with 2 show ?case by (auto intro: sorted_filter)
qed simp

lemma distinct_distinct_on: "distinct (map key (distinct_on key xs))"
proof (induction xs rule: distinct_on.induct [of _ key])
  case (2 key x xs)
  have "set (distinct_on key (filter (\<lambda>y. key y \<noteq> key x) xs)) \<subseteq> {y. key y \<noteq> key x}"
    by (auto simp: distinct_on_set dest!: filter_eq_ConsD)
  with 2 show ?case by auto
qed simp

text \<open>\<^verbatim>\<open>DISTINCT ON (key) .. ORDER BY key, m\<close> keeps the rows with the least \<open>m\<close>.\<close>

lemma distinct_on_min:
  fixes m :: "'r \<Rightarrow> 'm::linorder" and key :: "'r \<Rightarrow> 'k::linorder"
  assumes uniq: "\<And>y z. y \<in> set xs \<Longrightarrow> z \<in> set xs \<Longrightarrow> key y = key z \<Longrightarrow> m y = m z \<Longrightarrow> y = z"
  shows "y \<in> set (distinct_on key (sort_key key (sort_key m xs))) \<longleftrightarrow> y \<in> set xs \<and> (\<forall>z\<in>set xs. key z = key y \<longrightarrow> m y \<le> m z)"
proof -
  define F where "F = filter (\<lambda>z. key z = key y) (sort_key m xs)"
  have sorted: "sorted (map m F)" unfolding F_def by (rule sorted_filter) simp
  have mem: "z \<in> set F \<longleftrightarrow> z \<in> set xs \<and> key z = key y" for z by (auto simp: F_def)
  have "y \<in> set (distinct_on key (sort_key key (sort_key m xs))) \<longleftrightarrow> (\<exists>zs. F = y # zs)"
    by (simp add: distinct_on_set sort_key_stable F_def)
  also have "\<dots> \<longleftrightarrow> y \<in> set F \<and> (\<forall>z\<in>set F. m y \<le> m z)"
  proof
    assume "\<exists>zs. F = y # zs"
    then show "y \<in> set F \<and> (\<forall>z\<in>set F. m y \<le> m z)" using sorted by auto
  next
    assume y: "y \<in> set F \<and> (\<forall>z\<in>set F. m y \<le> m z)"
    then obtain x zs where x: "F = x # zs" by (cases F) auto
    with sorted y have "m x = m y" by (auto intro: antisym)
    moreover have "x \<in> set xs" "key x = key y" using mem [of x] x by auto
    ultimately have "x = y" using uniq [of x y] y mem [of y] by auto
    with x show "\<exists>zs. F = y # zs" by auto
  qed
  finally show ?thesis using mem by blast
qed

lemma reached_set:
  assumes "distinct (map entity_key (code_entities d))"
  shows "(n, k) \<in> set (reached repo es depth start d) \<longleftrightarrow>
    n \<in> set (code_entities d) \<and> xRepo n = repo \<and> 0 < k \<and> k \<le> depth \<and> (start, xID n) \<in> set es ^^ k
    \<and> (\<forall>m. 0 < m \<and> m < k \<longrightarrow> (start, xID n) \<notin> set es ^^ m)"
proof -
  define rows where "rows = concat (map (\<lambda>(i, k). map (\<lambda>n. (n, k)) (filter (\<lambda>n. xRepo n = repo \<and> xID n = i) (code_entities d)))
    (filter (\<lambda>(i, k). k > 0) (walk_levels es depth 0 [start])))"
  have rows: "(n, k) \<in> set rows \<longleftrightarrow> n \<in> set (code_entities d) \<and> xRepo n = repo \<and> 0 < k \<and> k \<le> depth \<and> (start, xID n) \<in> set es ^^ k"
    for n k by (auto simp: rows_def walk_levels_set)
  have uniq: "y = z" if u: "y \<in> set rows" "z \<in> set rows" "(xID \<circ> fst) y = (xID \<circ> fst) z" "snd y = snd z" for y z
  proof -
    obtain n k n' where "y = (n, k)" "z = (n', k)" using u(4) by (metis prod.collapse)
    with u rows [of n k] rows [of n' k] show ?thesis
      using distinct_key_eq [OF assms, of n n'] by (simp add: entity_key_def)
  qed
  have "(n, k) \<in> set (reached repo es depth start d) \<longleftrightarrow>
      (n, k) \<in> set rows \<and> (\<forall>z\<in>set rows. (xID \<circ> fst) z = (xID \<circ> fst) (n, k) \<longrightarrow> snd (n, k) \<le> snd z)"
    unfolding reached_def rows_def [symmetric] by (rule distinct_on_min [OF uniq])
  moreover have "(\<forall>z\<in>set rows. xID (fst z) = xID n \<longrightarrow> k \<le> snd z) \<longleftrightarrow> (\<forall>m. 0 < m \<and> m < k \<longrightarrow> (start, xID n) \<notin> set es ^^ m)"
    if nk: "(n, k) \<in> set rows"
  proof
    assume all: "\<forall>z\<in>set rows. xID (fst z) = xID n \<longrightarrow> k \<le> snd z"
    show "\<forall>m. 0 < m \<and> m < k \<longrightarrow> (start, xID n) \<notin> set es ^^ m"
    proof (intro allI impI notI)
      fix m assume m: "0 < m \<and> m < k" "(start, xID n) \<in> set es ^^ m"
      with nk have "(n, m) \<in> set rows" by (auto simp: rows)
      with all m show False by fastforce
    qed
  next
    assume none: "\<forall>m. 0 < m \<and> m < k \<longrightarrow> (start, xID n) \<notin> set es ^^ m"
    show "\<forall>z\<in>set rows. xID (fst z) = xID n \<longrightarrow> k \<le> snd z"
    proof (intro ballI impI)
      fix z assume "z \<in> set rows" "xID (fst z) = xID n"
      with rows [of "fst z" "snd z"] none show "k \<le> snd z" by (auto simp: not_less [symmetric])
    qed
  qed
  ultimately show ?thesis unfolding rows by auto
qed

lemma neighbors_reach:
  assumes "graph_wf (tables c)" and "CG_Neighbors repo i rels dir depth limit cf c = (Inr out, c')"
    and "R = set (walk_edges repo (join '','' rels) dir cf (tables c))"
  shows "\<exists>reach. out = take (nat limit) reach
    \<and> sorted (map (ceID \<circ> pnEntity) reach) \<and> distinct (map (ceID \<circ> pnEntity) reach)
    \<and> (\<forall>n k. \<lparr>pnEntity = n, pnDepth = k\<rparr> \<in> set reach \<longleftrightarrow>
         (\<exists>r\<in>set (code_entities (tables c)). xRepo r = repo \<and> n = scanEntity r) \<and> 0 < k \<and> k \<le> nat depth
         \<and> (i, ceID n) \<in> R ^^ k \<and> (\<forall>m. 0 < m \<and> m < k \<longrightarrow> (i, ceID n) \<notin> R ^^ m))"
proof -
  let ?es = "walk_edges repo (join '','' rels) dir cf (tables c)"
  let ?rows = "reached repo ?es (nat depth) i (tables c)"
  let ?mk = "\<lambda>(n, k). \<lparr>pnEntity = scanEntity n, pnDepth = k\<rparr>"
  have out: "out = take (nat limit) (map ?mk ?rows)"
    using assms(2) by (auto simp: CG_Neighbors_def take_map dest!: db_query_Inr)
  have key: "map (ceID \<circ> pnEntity) (map ?mk ?rows) = map (xID \<circ> fst) ?rows"
    by (auto simp: scanEntity_def)
  have "sorted (map (xID \<circ> fst) ?rows)" "distinct (map (xID \<circ> fst) ?rows)"
    unfolding reached_def by (intro sorted_distinct_on distinct_distinct_on sorted_sort_key)+
  then have ord: "sorted (map (ceID \<circ> pnEntity) (map ?mk ?rows))" "distinct (map (ceID \<circ> pnEntity) (map ?mk ?rows))"
    unfolding key by simp_all
  have wf: "distinct (map entity_key (code_entities (tables c)))" using assms(1) by (simp add: graph_wf_def)
  have "\<lparr>pnEntity = n, pnDepth = k\<rparr> \<in> set (map ?mk ?rows) \<longleftrightarrow> (\<exists>r. (r, k) \<in> set ?rows \<and> n = scanEntity r)" for n k
    by (auto intro: rev_image_eqI)
  moreover have "ceID (scanEntity r) = xID r" for r by (simp add: scanEntity_def)
  ultimately have "\<forall>n k. \<lparr>pnEntity = n, pnDepth = k\<rparr> \<in> set (map ?mk ?rows) \<longleftrightarrow>
      (\<exists>r\<in>set (code_entities (tables c)). xRepo r = repo \<and> n = scanEntity r) \<and> 0 < k \<and> k \<le> nat depth
      \<and> (i, ceID n) \<in> R ^^ k \<and> (\<forall>m. 0 < m \<and> m < k \<longrightarrow> (i, ceID n) \<notin> R ^^ m)"
    unfolding assms(3) reached_set [OF wf] by auto
  with out ord show ?thesis by blast
qed

text \<open>
  C21: \<^verbatim>\<open>Neighbors\<close> returns, in the order of their IDs and cut at the limit, exactly the entities of
  the repository that lie between one and \<open>depth\<close> hops from the start along the edges the filters
  let through, each once and with the least number of hops that leads to it.
\<close>

theorem neighbors_exact:
  assumes "graph_wf (tables c)" and "CG_Neighbors repo i rels dir depth limit cf c = (Inr out, c')"
    and "R = set (walk_edges repo (join '','' rels) dir cf (tables c))"
  shows "\<exists>reach. out = take (nat limit) reach
    \<and> sorted (map (ceID \<circ> pnEntity) reach) \<and> distinct (map (ceID \<circ> pnEntity) reach)
    \<and> (\<forall>n k. \<lparr>pnEntity = n, pnDepth = k\<rparr> \<in> set reach \<longleftrightarrow>
         (\<exists>r\<in>set (code_entities (tables c)). xRepo r = repo \<and> n = scanEntity r) \<and> 0 < k \<and> k \<le> nat depth
         \<and> (i, ceID n) \<in> R ^^ k \<and> (\<forall>m. 0 < m \<and> m < k \<longrightarrow> (i, ceID n) \<notin> R ^^ m))"
  using assms by (rule neighbors_reach)

definition ring :: graph_conn where
  "ring = \<lparr>tables = reconcile_tables 0 (push0 '''' [entity0 ''a'' ''f'', entity0 ''b'' ''f'', entity0 ''c'' ''f'']
     [edge0 ''a'' ''b'' ''f'', edge0 ''b'' ''c'' ''f'', edge0 ''c'' ''a'' ''f'']) empty_graph, script = []\<rparr>"

lemma ring_healthy [simp]: "healthy ring"
  by (simp add: ring_def healthy_def)

lemma ring_wf: "graph_wf (tables ring)"
  by (simp add: ring_def graph_wf_reconcile)

theorem neighbors_exact_witness:
  "\<exists>out c'. CG_Neighbors ''r'' ''a'' [''calls''] ''out'' 3 1000 no_filter ring = (Inr out, c')
     \<and> distinct (map (ceID \<circ> pnEntity) out)"
proof -
  obtain out c' where c: "CG_Neighbors ''r'' ''a'' [''calls''] ''out'' 3 1000 no_filter ring = (Inr out, c')"
    by (simp add: CG_Neighbors_def ring_def healthy_def)
  then show ?thesis using neighbors_exact [OF ring_wf c refl] by (metis distinct_take take_map)
qed

section \<open>ShortestPath finds a shortest path\<close>

text \<open>A simple path that does not pass through the target before its end.\<close>

definition spath :: "(string \<times> string) list \<Rightarrow> string \<Rightarrow> string list \<Rightarrow> bool" where
  "spath es to p \<longleftrightarrow> p \<noteq> [] \<and> distinct p \<and> to \<notin> set (butlast p) \<and> (\<forall>j. Suc j < length p \<longrightarrow> (p ! j, p ! Suc j) \<in> set es)"

lemma spath_snoc:
  assumes "p \<noteq> []"
  shows "spath es to (p @ [t]) \<longleftrightarrow> spath es to p \<and> last p \<noteq> to \<and> t \<notin> set p \<and> (last p, t) \<in> set es"
proof -
  have edges: "(\<forall>j. Suc j < length (p @ [t]) \<longrightarrow> ((p @ [t]) ! j, (p @ [t]) ! Suc j) \<in> set es) \<longleftrightarrow>
      (\<forall>j. Suc j < length p \<longrightarrow> (p ! j, p ! Suc j) \<in> set es) \<and> (last p, t) \<in> set es" (is "?L \<longleftrightarrow> ?R")
  proof
    assume L: ?L
    have "(p ! j, p ! Suc j) \<in> set es" if "Suc j < length p" for j using L [rule_format, of j] that by (simp add: nth_append)
    moreover have "(last p, t) \<in> set es"
      using L [rule_format, of "length p - 1"] assms by (simp add: nth_append last_conv_nth)
    ultimately show ?R by blast
  next
    assume R: ?R
    have "(p ! j, t) \<in> set es" if "Suc j = length p" for j
      using R assms that [symmetric] by (simp add: last_conv_nth)
    with R show ?L by (auto simp: nth_append less_Suc_eq)
  qed
  have "to \<notin> set p \<longleftrightarrow> to \<notin> set (butlast p) \<and> last p \<noteq> to"
    using assms by (cases p rule: rev_cases) auto
  then show ?thesis using edges assms unfolding spath_def by auto
qed

lemma extend_path_iff:
  assumes "p \<noteq> []" "spath es to p"
  shows "q \<in> set (extend_path es to p) \<longleftrightarrow> (\<exists>t. q = p @ [t] \<and> spath es to q)"
  using assms by (auto simp: extend_path_def spath_snoc)

lemma path_levels_set:
  assumes "set ps = {p. spath es to p \<and> hd p = from \<and> length p = Suc k}"
  shows "set (path_levels es to n ps) = {p. spath es to p \<and> hd p = from \<and> k < length p \<and> length p \<le> Suc (k + n)}"
  using assms
proof (induction n arbitrary: k ps)
  case 0
  have "(k < l \<and> l \<le> Suc k) = (l = Suc k)" for l by auto
  with 0 show ?case by simp
next
  case (Suc n)
  have next_level: "set (concat (map (extend_path es to) ps)) = {p. spath es to p \<and> hd p = from \<and> length p = Suc (Suc k)}"
  proof (intro set_eqI iffI)
    fix q assume "q \<in> set (concat (map (extend_path es to) ps))"
    then obtain p where p: "spath es to p" "hd p = from" "length p = Suc k" "q \<in> set (extend_path es to p)"
      using Suc.prems by auto
    then have "p \<noteq> []" by auto
    with p show "q \<in> {p. spath es to p \<and> hd p = from \<and> length p = Suc (Suc k)}" by (auto simp: extend_path_iff)
  next
    fix q assume "q \<in> {p. spath es to p \<and> hd p = from \<and> length p = Suc (Suc k)}"
    then have q: "spath es to q" "hd q = from" "length q = Suc (Suc k)" by auto
    then obtain p t where pt: "q = p @ [t]" by (cases q rule: rev_cases) auto
    with q have "p \<noteq> []" by auto
    with pt q have "spath es to p" "hd p = from" "length p = Suc k" by (auto simp: spath_snoc)
    with \<open>p \<noteq> []\<close> pt q Suc.prems show "q \<in> set (concat (map (extend_path es to) ps))" by (auto simp: extend_path_iff)
  qed
  show ?case unfolding path_levels.simps set_append Suc.prems Suc.IH [OF next_level] by auto
qed

lemma start_level: "set [[from]] = {p. spath es to p \<and> hd p = from \<and> length p = Suc 0}"
  by (auto simp: spath_def length_Suc_conv)

lemma spath_relpow:
  assumes "spath es to p"
  shows "(hd p, last p) \<in> set es ^^ (length p - 1)"
  using assms unfolding spath_def relpow_fun_conv
  by (intro exI [of _ "\<lambda>j. p ! j"]) (auto simp: hd_conv_nth last_conv_nth)

text \<open>A walk with the least number of steps is a simple path.\<close>

lemma least_walk_spath:
  assumes walk: "(a, b) \<in> set es ^^ m" and least: "\<And>j. j < m \<Longrightarrow> (a, b) \<notin> set es ^^ j"
  shows "\<exists>p. spath es b p \<and> hd p = a \<and> last p = b \<and> length p = Suc m"
proof -
  obtain f where f: "f 0 = a" "f m = b" "\<And>j. j < m \<Longrightarrow> (f j, f (Suc j)) \<in> set es"
    using walk unfolding relpow_fun_conv by auto
  have seg: "(f i, f j) \<in> set es ^^ (j - i)" if "i \<le> j" "j \<le> m" for i j
    unfolding relpow_fun_conv using that f(3) by (intro exI [of _ "\<lambda>l. f (i + l)"]) auto
  have inj: "f i \<noteq> f j" if "i < j" "j \<le> m" for i j
  proof
    assume eq: "f i = f j"
    have "(f 0, f i) \<in> set es ^^ i" "(f j, f m) \<in> set es ^^ (m - j)" using seg [of 0 i] seg [of j m] that by auto
    then have "(a, b) \<in> set es ^^ (i + (m - j))" using eq f by (metis relpow_trans)
    moreover have "i + (m - j) < m" using that by simp
    ultimately show False using least by blast
  qed
  let ?p = "map f [0..<Suc m]"
  have "spath es b ?p"
    unfolding spath_def
  proof (intro conjI allI impI)
    have "f i = f j \<Longrightarrow> i = j" if "i \<le> m" "j \<le> m" for i j using inj [of i j] inj [of j i] that by (metis nat_neq_iff)
    then have "inj_on f {0..<Suc m}" by (auto simp: inj_on_def)
    then show "distinct ?p" by (simp add: distinct_map del: upt_Suc)
    have "butlast ?p = map f [0..<m]" by simp
    moreover have "b \<notin> f ` {0..<m}" using inj [of _ m] f(2) by fastforce
    ultimately show "b \<notin> set (butlast ?p)" by (simp only: set_map set_upt not_False_eq_True)
    fix j assume "Suc j < length ?p"
    then show "(?p ! j, ?p ! Suc j) \<in> set es" using f(3) by (simp add: nth_append del: upt_Suc)
  qed simp
  moreover have "hd ?p = a" "last ?p = b" "length ?p = Suc m" using f by (simp_all add: hd_map del: upt_Suc) (simp add: last_map)
  ultimately show ?thesis by blast
qed

lemma walk_spath:
  assumes "(a, b) \<in> set es ^^ m"
  shows "\<exists>p. spath es b p \<and> hd p = a \<and> last p = b \<and> length p \<le> Suc m"
proof -
  define n where "n = (LEAST n. (a, b) \<in> set es ^^ n)"
  have "(a, b) \<in> set es ^^ n" "n \<le> m" unfolding n_def using assms by (auto intro: LeastI Least_le)
  moreover have "\<And>j. j < n \<Longrightarrow> (a, b) \<notin> set es ^^ j" unfolding n_def by (rule not_less_Least)
  ultimately show ?thesis using least_walk_spath [where a = a and b = b and es = es and m = n] by fastforce
qed

lemma shortest_path_cases:
  "case shortest_path es a b n of
     None \<Rightarrow> \<forall>m\<le>n. (a, b) \<notin> set es ^^ m
   | Some p \<Rightarrow> spath es b p \<and> hd p = a \<and> last p = b \<and> length p \<le> Suc n \<and> (\<forall>m. Suc m < length p \<longrightarrow> (a, b) \<notin> set es ^^ m)"
proof -
  define F where "F = filter (\<lambda>p. last p = b) (path_levels es b n [[a]])"
  have F: "set F = {p. spath es b p \<and> hd p = a \<and> last p = b \<and> length p \<le> Suc n}"
    using path_levels_set [OF start_level [of a es b], of n] by (auto simp: F_def spath_def)
  have walk: "\<exists>p\<in>set F. length p \<le> Suc m" if m: "(a, b) \<in> set es ^^ m" "m \<le> n" for m
    using walk_spath [OF m(1)] m(2) unfolding F by fastforce
  show ?thesis
  proof (cases "sort_key length F")
    case Nil
    then have "F = []" by (metis length_0_conv length_sort)
    with walk have "\<forall>m\<le>n. (a, b) \<notin> set es ^^ m" by fastforce
    with Nil show ?thesis by (simp add: shortest_path_def F_def [symmetric])
  next
    case (Cons p ps)
    have p: "p \<in> set F" by (metis Cons list.set_intros(1) set_sort)
    have "sorted (map length (sort_key length F))" by simp
    moreover have "set F = insert p (set ps)" by (metis Cons list.set(2) set_sort)
    ultimately have "\<forall>q\<in>set F. length p \<le> length q" unfolding Cons by auto
    then have "\<forall>m. Suc m < length p \<longrightarrow> (a, b) \<notin> set es ^^ m"
      using walk p unfolding F by fastforce
    with p Cons show ?thesis unfolding F by (simp add: shortest_path_def F_def [symmetric])
  qed
qed

lemma spath_ids:
  assumes "spath es to p" "x \<in> set p"
  shows "x = hd p \<or> (\<exists>a. (a, x) \<in> set es)"
proof -
  obtain j where j: "j < length p" "p ! j = x" using assms(2) by (auto simp: in_set_conv_nth)
  show ?thesis
  proof (cases j)
    case 0
    with j assms(1) show ?thesis by (simp add: hd_conv_nth spath_def)
  next
    case (Suc l)
    with j assms(1) show ?thesis unfolding spath_def by blast
  qed
qed

lemma chain_entities_cases:
  "chain_entities byID ids = (if \<exists>i\<in>set ids. byID i = None then None else Some (map (the \<circ> byID) ids))"
  by (induction ids) (auto split: option.splits)

text \<open>The entities of a path, if all of them are known.\<close>

lemma chain_found:
  assumes "out = (case chain_entities (entity_by_id repo p d) p of None \<Rightarrow> [] | Some out \<Rightarrow> out)"
  shows "if \<exists>i\<in>set p. lookup entity_key (repo, i) (code_entities d) = None then out = [] else map ceID out = p"
proof -
  have known: "(\<exists>i\<in>set p. entity_by_id repo p d i = None) \<longleftrightarrow> (\<exists>i\<in>set p. lookup entity_key (repo, i) (code_entities d) = None)"
    by (auto simp: entity_by_id_def)
  have "ceID (the (entity_by_id repo p d i)) = i" if "i \<in> set p" "lookup entity_key (repo, i) (code_entities d) = Some r" for i r
    using that by (auto simp: entity_by_id_def scanEntity_def lookup_def entity_key_def dest: find_SomeD)
  then show ?thesis unfolding assms chain_entities_cases known by (auto intro!: map_idI)
qed

text \<open>
  C22: for graphs whose IDs have no vertical bar, \<^verbatim>\<open>ShortestPath\<close> answers with nothing exactly when
  there is no walk of at most \<open>depth\<close> steps or the path it picked passes through an ID that is no
  entity of the repository; otherwise it returns the entities of a path from the first to the second
  ID along the edges of the relations asked for, none visited twice, and no walk is shorter.
\<close>

theorem shortest_path_correct:
  assumes bar: "CHR ''|'' \<notin> set a" "\<And>e. e \<in> set (code_edges (tables c)) \<Longrightarrow> CHR ''|'' \<notin> set (dTo e)"
    and run: "CG_ShortestPath repo a b rels depth c = (Inr out, c')"
    and R: "R = set (walk_edges repo (join '','' rels) ''out'' no_filter (tables c))"
  shows "if \<forall>m\<le>nat depth. (a, b) \<notin> R ^^ m then out = []
    else \<exists>p. hd p = a \<and> last p = b \<and> distinct p \<and> p \<noteq> [] \<and> length p \<le> Suc (nat depth)
      \<and> (\<forall>j. Suc j < length p \<longrightarrow> (p ! j, p ! Suc j) \<in> R) \<and> (\<forall>m. Suc m < length p \<longrightarrow> (a, b) \<notin> R ^^ m)
      \<and> (if \<exists>i\<in>set p. lookup entity_key (repo, i) (code_entities (tables c)) = None then out = [] else map ceID out = p)"
proof -
  let ?es = "walk_edges repo (join '','' rels) ''out'' no_filter (tables c)"
  obtain row c1 where q: "db_query (\<lambda>d. map_option (join ''|'') (shortest_path (walk_edges repo (join '','' rels) ''out'' no_filter d)
      a b (nat depth))) c = (Inr row, c1)"
    and rest: "(case row of None \<Rightarrow> returnE [] | Some pathStr \<Rightarrow> let ids = split_on (CHR ''|'') pathStr in
         bindE (db_query (\<lambda>d. entity_by_id repo ids d)) (\<lambda>byID. returnE (case chain_entities byID ids of None \<Rightarrow> [] | Some out \<Rightarrow> out))) c1
       = (Inr out, c')"
    using run unfolding CG_ShortestPath_def by (auto simp: bindE_eq_Inr)
  have row: "row = map_option (join ''|'') (shortest_path ?es a b (nat depth))" "tables c1 = tables c"
    using db_query_Inr [OF q] by auto
  note sp = shortest_path_cases [where es = ?es and a = a and b = b and n = "nat depth"]
  show ?thesis
  proof (cases "shortest_path ?es a b (nat depth)")
    case None
    with row rest sp show ?thesis by (simp add: R returnE_def)
  next
    case (Some p)
    with sp have p: "spath ?es b p" "hd p = a" "last p = b" "length p \<le> Suc (nat depth)"
      "\<forall>m. Suc m < length p \<longrightarrow> (a, b) \<notin> R ^^ m" by (simp_all add: R)
    have "CHR ''|'' \<notin> set x" if "x \<in> set p" for x
      using spath_ids [OF p(1) that] p(2) bar by (auto simp: walk_edges_def)
    moreover have ne: "p \<noteq> []" using p(1) by (simp add: spath_def)
    ultimately have ids: "split_on (CHR ''|'') (join ''|'' p) = p" by (intro split_on_join)
    have "(a, b) \<in> R ^^ (length p - 1)" using spath_relpow [OF p(1)] p(2,3) by (simp add: R)
    then have reach: "\<not> (\<forall>m\<le>nat depth. (a, b) \<notin> R ^^ m)" using p(4) by (metis diff_le_mono diff_Suc_1)
    have out: "out = (case chain_entities (entity_by_id repo p (tables c)) p of None \<Rightarrow> [] | Some out \<Rightarrow> out)"
      using rest row(2) unfolding row(1) Some
      by (auto simp: ids bindE_eq_Inr returnE_def dest!: db_query_Inr)
    note found = chain_found [OF out]
    have "distinct p" "\<forall>j. Suc j < length p \<longrightarrow> (p ! j, p ! Suc j) \<in> R" using p(1) by (simp_all add: spath_def R)
    then show ?thesis unfolding if_not_P [OF reach] using p ne found by blast
  qed
qed

lemma shortest_path_healthy: "healthy c \<Longrightarrow> \<exists>out. CG_ShortestPath repo a b rels depth c = (Inr out, c)"
  by (cases "shortest_path (walk_edges repo (join '','' rels) ''out'' no_filter (tables c)) a b (nat depth)")
     (simp_all add: CG_ShortestPath_def bindE_def returnE_def Let_def)

lemma ring_tables:
  "code_edges (tables ring) = map (edge_row_of ''r'' ''ast'') [edge0 ''a'' ''b'' ''f'', edge0 ''b'' ''c'' ''f'', edge0 ''c'' ''a'' ''f'']"
  "code_entities (tables ring) = map (entity_row_of ''r'' ''ast'') [entity0 ''a'' ''f'', entity0 ''b'' ''f'', entity0 ''c'' ''f'']"
  by (simp_all add: ring_def reconcile_fields push0_def push_extractor_def ExtractorAST_def empty_graph_def
      tdelete_def delete_file_tables_def statement_defs)
     (simp_all add: edge0_def entity0_def)

theorem shortest_path_correct_witness:
  "\<exists>out c'. CG_ShortestPath ''r'' ''a'' ''c'' [''calls''] 3 ring = (Inr out, c')
     \<and> map ceID out \<noteq> [] \<and> hd (map ceID out) = ''a'' \<and> last (map ceID out) = ''c''"
proof -
  let ?es = "[(''a'', ''b''), (''b'', ''c''), (''c'', ''a'')]"
  have es: "walk_edges ''r'' (join '','' [''calls'']) ''out'' no_filter (tables ring) = ?es"
    by (simp add: walk_edges_def ring_tables relation_ok_def confidence_ok_def no_filter_def edge_row_of_def edge0_def)
  obtain out c' where run: "CG_ShortestPath ''r'' ''a'' ''c'' [''calls''] 3 ring = (Inr out, c')"
    using shortest_path_healthy [of ring "''r''" "''a''" "''c''" "[''calls'']" 3] ring_healthy by blast
  have bar: "CHR ''|'' \<notin> set (dTo e)" if "e \<in> set (code_edges (tables ring))" for e
    using that by (auto simp: ring_tables edge_row_of_def edge0_def)
  have "(''a'', ''c'') \<in> set ?es ^^ 2" by (simp add: numeral_2_eq_2 relcomp_unfold)
  then have reach: "\<not> (\<forall>m\<le>nat 3. (''a'', ''c'') \<notin> set ?es ^^ m)" by (intro notI) (drule spec [of _ 2], simp)
  have ents: "lookup entity_key (''r'', i) (code_entities (tables ring)) \<noteq> None" if "i \<in> {''a'', ''b'', ''c''}" for i
    using that by (auto simp: ring_tables entity0_def)
  have "CHR ''|'' \<notin> set ''a''" by simp
  from shortest_path_correct [OF this bar run es [symmetric, THEN arg_cong [where f = set]], unfolded if_not_P [OF reach]]
  obtain p where p: "hd p = ''a''" "last p = ''c''" "p \<noteq> []" "\<forall>j. Suc j < length p \<longrightarrow> (p ! j, p ! Suc j) \<in> set ?es"
    "if \<exists>i\<in>set p. lookup entity_key (''r'', i) (code_entities (tables ring)) = None then out = [] else map ceID out = p"
    by blast
  have "i \<in> {''a'', ''b'', ''c''}" if "i \<in> set p" for i
  proof -
    obtain j where j: "j < length p" "p ! j = i" using \<open>i \<in> set p\<close> by (auto simp: in_set_conv_nth)
    show ?thesis using j p(1,3) p(4) [rule_format, of "j - 1"] by (cases j) (auto simp: hd_conv_nth)
  qed
  with ents p(5) have "map ceID out = p" by (metis (no_types, lifting))
  with p run show ?thesis by auto
qed

text \<open>
  An ID with a vertical bar breaks the answer: the path is sent through the database as one
  string joined with bars and split again, so a direct edge to such an entity is reported as no path.
\<close>

theorem shortest_path_bar:
  "let p = push0 '''' [entity0 ''a'' ''f'', entity0 ''x|y'' ''f''] [edge0 ''a'' ''x|y'' ''f''];
       c = \<lparr>tables = reconcile_tables 0 p empty_graph, script = []\<rparr>
   in (''a'', ''x|y'') \<in> set (walk_edges ''r'' '''' ''out'' no_filter (tables c))
    \<and> fst (CG_ShortestPath ''r'' ''a'' ''x|y'' [] 3 c) = Inr []"
proof -
  define d where "d = reconcile_tables 0 (push0 '''' [entity0 ''a'' ''f'', entity0 ''x|y'' ''f''] [edge0 ''a'' ''x|y'' ''f'']) empty_graph"
  have t: "code_edges d = [edge_row_of ''r'' ''ast'' (edge0 ''a'' ''x|y'' ''f'')]"
    "code_entities d = map (entity_row_of ''r'' ''ast'') [entity0 ''a'' ''f'', entity0 ''x|y'' ''f'']"
    by (simp_all add: d_def reconcile_fields push0_def push_extractor_def ExtractorAST_def empty_graph_def
        tdelete_def delete_file_tables_def statement_defs)
       (simp_all add: edge0_def entity0_def)
  have es: "walk_edges ''r'' '''' ''out'' no_filter d = [(''a'', ''x|y'')]"
    by (simp add: walk_edges_def t relation_ok_def confidence_ok_def no_filter_def edge_row_of_def edge0_def)
  have "shortest_path [(''a'', ''x|y'')] ''a'' ''x|y'' 3 = Some [''a'', ''x|y'']"
    by (simp add: shortest_path_def extend_path_def next_ids_def numeral_3_eq_3)
  then have "fst (CG_ShortestPath ''r'' ''a'' ''x|y'' [] 3 \<lparr>tables = d, script = []\<rparr>) = Inr []"
    by (simp add: CG_ShortestPath_def bindE_def returnE_def healthy_def es entity_by_id_def t entity0_def Let_def)
  with es show ?thesis by (simp add: d_def Let_def)
qed

end
