(* ===== verification/Codegraph_Queries.thy ===== *)
theory Codegraph_Queries
  imports Codegraph_Traversal
begin

text \<open>
  The other queries of the code graph store (\<^verbatim>\<open>internal/codegraph/pgstore.go\<close>): search, an entity with
  its edges, statistics, rankings, cross-repository links, the semantic cache, hyperedges and
  communities.  Each query is a function of the tables run as one driver call; an \<^verbatim>\<open>ORDER BY\<close> is a
  stable sort, so rows it does not order stay in the order of the table.
\<close>

section \<open>Search\<close>

text \<open>\<^verbatim>\<open>strings.ReplaceAll\<close> of one byte.\<close>

definition replace_char :: "char \<Rightarrow> string \<Rightarrow> string \<Rightarrow> string" where
  "replace_char c w s = concat (map (\<lambda>x. if x = c then w else [x]) s)"

definition escapeLike :: "string \<Rightarrow> string" where
  "escapeLike s =
     (let s1 = replace_char (CHR 0x5C) [CHR 0x5C, CHR 0x5C] s;
          s2 = replace_char (CHR ''%'') [CHR 0x5C, CHR ''%''] s1
      in replace_char (CHR ''_'') [CHR 0x5C, CHR ''_''] s2)"

text \<open>
  \<^verbatim>\<open>LIKE .. ESCAPE\<close> with a backslash, and \<^verbatim>\<open>ILIKE\<close>, which compares in lower case (here ASCII).  A pattern
  that ends in a lone backslash, which PostgreSQL rejects, matches nothing; \<^verbatim>\<open>escapeLike\<close> makes none.
\<close>

function like :: "string \<Rightarrow> string \<Rightarrow> bool" where
  "like [] s \<longleftrightarrow> s = []"
| "like (c # p) s \<longleftrightarrow>
     (if c = CHR ''%'' then like p s \<or> (case s of [] \<Rightarrow> False | _ # s' \<Rightarrow> like (c # p) s')
      else if c = CHR ''_'' then (case s of [] \<Rightarrow> False | _ # s' \<Rightarrow> like p s')
      else if c = CHR 0x5C then
        (case p of [] \<Rightarrow> False | d # p' \<Rightarrow> (case s of [] \<Rightarrow> False | x # s' \<Rightarrow> x = d \<and> like p' s'))
      else (case s of [] \<Rightarrow> False | x # s' \<Rightarrow> x = c \<and> like p s'))"
  by pat_completeness auto
termination by (relation "measure (\<lambda>(p, s). length p + length s)") auto

declare like.simps(2) [simp del]

definition ilike :: "string \<Rightarrow> string \<Rightarrow> bool" where
  "ilike s p = like (ToLower p) (ToLower s)"

definition search_match :: "string \<Rightarrow> string \<Rightarrow> string \<Rightarrow> entity_row \<Rightarrow> bool" where
  "search_match repo q typ r \<longleftrightarrow> xRepo r = repo
     \<and> (q = '''' \<or> ilike (xName r) (''%'' @ q @ ''%'') \<or> ilike (xDescription r) (''%'' @ q @ ''%''))
     \<and> (typ = '''' \<or> xType r = typ)"

definition search_rank :: "string \<Rightarrow> entity_row \<Rightarrow> nat" where
  "search_rank q r = (if q = '''' then 4 else if ilike (xName r) q then 0 else if ilike (xName r) (q @ ''%'') then 1
     else if ilike (xName r) (''%'' @ q @ ''%'') then 2 else 3)"

definition CG_SearchEntities :: "string \<Rightarrow> string \<Rightarrow> string \<Rightarrow> int \<Rightarrow> (graph_conn, err, CEntity list) call" where
  "CG_SearchEntities repo q typ limit = (let qEsc = escapeLike q in
     db_query (\<lambda>d. map scanEntity (take (nat limit)
       (sort_key (search_rank qEsc) (sort_key xName (filter (search_match repo qEsc typ) (code_entities d)))))))"

section \<open>Entities and edges\<close>

definition CG_CountEntities :: "string \<Rightarrow> (graph_conn, err, nat) call" where
  "CG_CountEntities repo = db_query (\<lambda>d. count_if (\<lambda>r. xRepo r = repo) (code_entities d))"

definition queryEdges :: "(edge_row \<Rightarrow> bool) \<Rightarrow> (graph_conn, err, CEdge list) call" where
  "queryEdges p = db_query (\<lambda>d. map scanEdge (filter p (code_edges d)))"

text \<open>\<^verbatim>\<open>QueryRow(..).Scan(..)\<close> with \<^verbatim>\<open>sql.ErrNoRows\<close> turned into the sentinel.\<close>

definition query_row :: "('d \<Rightarrow> 'a option) \<Rightarrow> ('d conn, err, 'a) call" where
  "query_row q = mapErr (\<lambda>e. if Is e ErrNoRows then ErrEntityNotFound else e)
     (db_call (\<lambda>d. (case q d of None \<Rightarrow> Inl ErrNoRows | Some r \<Rightarrow> Inr r, d)))"

definition CG_GetEntity :: "string \<Rightarrow> string \<Rightarrow> (graph_conn, err, EntityDetail) call" where
  "CG_GetEntity repo i =
     bindE (query_row (\<lambda>d. lookup entity_key (repo, i) (code_entities d))) (\<lambda>r.
     bindE (queryEdges (\<lambda>e. dRepo e = repo \<and> dFrom e = i)) (\<lambda>outs.
     bindE (queryEdges (\<lambda>e. dRepo e = repo \<and> dTo e = i)) (\<lambda>ins.
     returnE \<lparr>edEntity = scanEntity r, edOutEdges = outs, edInEdges = ins\<rparr>)))"

definition line_of :: "int option \<Rightarrow> int" where
  "line_of l = (case l of None \<Rightarrow> 0 | Some v \<Rightarrow> v)"

definition queryNeighborEntities :: "string \<Rightarrow> string \<Rightarrow> bool \<Rightarrow> (graph_conn, err, NeighborEntity list) call" where
  "queryNeighborEntities repo i outbound = db_query (\<lambda>d.
     map (\<lambda>n. \<lparr>neID = xID n, neName = xName n, neType = xType n, neFilePath = xFilePath n,
         neLineStart = line_of (xLineStart n), neLineEnd = line_of (xLineEnd n)\<rparr>)
       (sort_key xName (concat (map (\<lambda>e.
          filter (\<lambda>n. xRepo n = dRepo e \<and> xID n = (if outbound then dTo e else dFrom e)) (code_entities d))
          (filter (\<lambda>e. dRepo e = repo \<and> (if outbound then dFrom e else dTo e) = i) (code_edges d))))))"

definition CG_EntityExplain :: "string \<Rightarrow> string \<Rightarrow> (graph_conn, err, EntityExplain) call" where
  "CG_EntityExplain repo i =
     bindE (CG_GetEntity repo i) (\<lambda>det.
     bindE (queryNeighborEntities repo i True) (\<lambda>outs.
     bindE (queryNeighborEntities repo i False) (\<lambda>ins.
     returnE \<lparr>exDetail = det, exOutNeighbors = outs, exInNeighbors = ins\<rparr>)))"

definition CG_FileImports :: "string \<Rightarrow> string \<Rightarrow> int \<Rightarrow> (graph_conn, err, CEdge list) call" where
  "CG_FileImports repo path limit = db_query (\<lambda>d. map scanEdge (take (nat limit) (sort_key dFrom
     (filter (\<lambda>e. dRepo e = repo \<and> dSrcFile e = path \<and> dRelation e = ''imports'') (code_edges d)))))"

definition CG_AmbiguousEdges :: "string \<Rightarrow> int \<Rightarrow> (graph_conn, err, CEdge list) call" where
  "CG_AmbiguousEdges repo limit = db_query (\<lambda>d. map scanEdgeWithConfidence (take (nat limit) (sort_key dScore
     (filter (\<lambda>e. dRepo e = repo \<and> (dTier e = ''AMBIGUOUS'' \<or> dScore e \<le> ambiguousScoreThreshold)) (code_edges d)))))"

section \<open>Rankings\<close>

definition degree :: "string \<Rightarrow> graph_db \<Rightarrow> entity_row \<Rightarrow> nat" where
  "degree repo d n = count_if (\<lambda>e. dRepo e = repo \<and> dFrom e \<noteq> dTo e \<and> dFrom e = xID n) (code_edges d)
     + count_if (\<lambda>e. dRepo e = repo \<and> dFrom e \<noteq> dTo e \<and> dTo e = xID n) (code_edges d)"

definition CG_ImportantEntities :: "string \<Rightarrow> int \<Rightarrow> (graph_conn, err, EntityDegree list) call" where
  "CG_ImportantEntities repo limit = db_query (\<lambda>d.
     map (\<lambda>n. \<lparr>dgEntity = scanEntity n, dgDegree = degree repo d n\<rparr>) (take (nat limit)
       (sort_key (\<lambda>n. - int (degree repo d n)) (filter (\<lambda>n. xRepo n = repo) (code_entities d)))))"

text \<open>\<^verbatim>\<open>ORDER BY en.betweenness DESC NULLS LAST, en.id\<close>\<close>

definition by_betweenness :: "entity_row list \<Rightarrow> entity_row list" where
  "by_betweenness ns = sort_key (\<lambda>n. xBetweenness n = None)
     (sort_key (\<lambda>n. case xBetweenness n of None \<Rightarrow> 0 | Some b \<Rightarrow> - b) (sort_key xID ns))"

definition CG_ImportantEntitiesBy :: "string \<Rightarrow> string \<Rightarrow> int \<Rightarrow> (graph_conn, err, EntityDegree list) call" where
  "CG_ImportantEntitiesBy repo by limit =
     (if by \<noteq> ImportantByBetweenness then CG_ImportantEntities repo limit
      else db_query (\<lambda>d. map (\<lambda>n. \<lparr>dgEntity = scanEntity n, dgDegree = degree repo d n\<rparr>) (take (nat limit)
        (by_betweenness (filter (\<lambda>n. xRepo n = repo) (code_entities d))))))"

text \<open>The communities of the neighbours of an entity, without duplicates.\<close>

definition neighbor_comms :: "string \<Rightarrow> graph_db \<Rightarrow> entity_row \<Rightarrow> int list" where
  "neighbor_comms repo d n = remdups (List.map_filter xCommunity (concat (map (\<lambda>e.
     filter (\<lambda>nb. xRepo nb = xRepo n \<and> xID nb = (if dFrom e = xID n then dTo e else dFrom e)) (code_entities d))
     (filter (\<lambda>e. dRepo e = xRepo n \<and> (dFrom e = xID n \<or> dTo e = xID n) \<and> dFrom e \<noteq> dTo e) (code_edges d)))))"

definition CG_Bridges :: "string \<Rightarrow> int \<Rightarrow> (graph_conn, err, Bridge list) call" where
  "CG_Bridges repo limit = db_query (\<lambda>d.
     map (\<lambda>n. \<lparr>brEntity = scanEntity n, brBetweenness = (case xBetweenness n of None \<Rightarrow> 0 | Some b \<Rightarrow> b),
         brCommunity = (case xCommunity n of None \<Rightarrow> 0 | Some c \<Rightarrow> c),
         brNeighborCommunities = length (neighbor_comms repo d n)\<rparr>) (take (nat limit)
       (by_betweenness (filter (\<lambda>n. xRepo n = repo \<and> length (neighbor_comms repo d n) > 1) (code_entities d)))))"

definition CG_Communities :: "string \<Rightarrow> int \<Rightarrow> (graph_conn, err, CommunityRow list) call" where
  "CG_Communities repo limit = db_query (\<lambda>d.
     map (\<lambda>c. \<lparr>cmCommunity = coCommunity c, cmLabel = coLabel c, cmSize = coSize c, cmCohesion = coCohesion c\<rparr>) (take (nat limit)
       (sort_key (\<lambda>c. - coSize c) (sort_key coCommunity (filter (\<lambda>c. coRepo c = repo) (code_communities d))))))"

definition CG_Community :: "string \<Rightarrow> int \<Rightarrow> int \<Rightarrow> (graph_conn, err, CEntity list) call" where
  "CG_Community repo community limit = db_query (\<lambda>d. map scanEntity (take (nat limit)
     (sort_key xID (filter (\<lambda>n. xRepo n = repo \<and> xCommunity n = Some community) (code_entities d)))))"

section \<open>Statistics\<close>

definition maxImportCycleDepth :: nat where "maxImportCycleDepth = 20"

text \<open>\<^verbatim>\<open>SELECT key, count(*) .. GROUP BY key\<close>\<close>

definition group_count :: "('r \<Rightarrow> string) \<Rightarrow> 'r list \<Rightarrow> string \<rightharpoonup> nat" where
  "group_count key rs k = (if k \<in> key ` set rs then Some (count_if (\<lambda>r. key r = k) rs) else None)"

text \<open>The recursive query over import edges: rows (start, current) of one depth after the other.\<close>

fun cycle_rows :: "(string \<times> string) list \<Rightarrow> nat \<Rightarrow> (string \<times> string) list \<Rightarrow> (string \<times> string) list" where
  "cycle_rows es 0 rows = rows"
| "cycle_rows es (Suc n) rows = rows @ cycle_rows es n
     (remdups (concat (map (\<lambda>(s, c). if c = s then [] else map (\<lambda>t. (s, t)) (next_ids es c)) rows)))"

definition import_edges :: "string \<Rightarrow> graph_db \<Rightarrow> (string \<times> string) list" where
  "import_edges repo d = map (\<lambda>e. (dFrom e, dTo e)) (filter (\<lambda>e. dRepo e = repo \<and> dRelation e = ''imports'') (code_edges d))"

definition import_cycles :: "(string \<times> string) list \<Rightarrow> nat" where
  "import_cycles es = length (remdups (map fst (filter (\<lambda>(s, c). c = s)
     (cycle_rows es (maxImportCycleDepth - 1) (remdups (filter (\<lambda>(a, b). a \<noteq> b) es))))))"

definition isolated :: "string \<Rightarrow> graph_db \<Rightarrow> entity_row \<Rightarrow> bool" where
  "isolated repo d n \<longleftrightarrow> \<not> list_ex (\<lambda>e. dRepo e = repo \<and> (dFrom e = xID n \<or> dTo e = xID n)) (code_edges d)"

definition CG_Stats :: "string \<Rightarrow> (graph_conn, err, GraphStats) call" where
  "CG_Stats repo =
     (let ns = (\<lambda>d. filter (\<lambda>n. xRepo n = repo) (code_entities d)); es = (\<lambda>d. filter (\<lambda>e. dRepo e = repo) (code_edges d)) in
      bindE (db_query (\<lambda>d. length (ns d))) (\<lambda>entities.
      bindE (db_query (\<lambda>d. length (es d))) (\<lambda>edges.
      bindE (db_query (\<lambda>d. group_count xType (ns d))) (\<lambda>byType.
      bindE (db_query (\<lambda>d. group_count dRelation (es d))) (\<lambda>byRelation.
      bindE (db_query (\<lambda>d. group_count dTier (es d))) (\<lambda>byTier.
      bindE (db_query (\<lambda>d. count_if (isolated repo d) (ns d))) (\<lambda>isolated.
      bindE (db_query (\<lambda>d. import_cycles (import_edges repo d))) (\<lambda>cycles.
      returnE \<lparr>gsEntities = entities, gsEdges = edges, gsEntitiesByType = byType, gsEdgesByRelation = byRelation,
        gsEdgesByTier = byTier, gsIsolated = isolated, gsImportCycles = cycles\<rparr>))))))))"

section \<open>Cross-repository links\<close>

definition cross_ref :: "symbol_row \<Rightarrow> CrossRef" where
  "cross_ref r = \<lparr>crRepo = yRepo r, crEntityID = yEntityID r, crSymbol = ySymbol r, crLang = yLang r\<rparr>"

text \<open>Both queries: the rows with role \<open>theirs\<close> of other repositories that share a symbol with a row of role \<open>mine\<close>.\<close>

definition cross_rows :: "string \<Rightarrow> string \<Rightarrow> string \<Rightarrow> string \<Rightarrow> graph_db \<Rightarrow> symbol_row list" where
  "cross_rows mine theirs repo i d = concat (map (\<lambda>p.
     filter (\<lambda>r. ySymbol r = ySymbol p \<and> yLang r = yLang p \<and> yRole r = theirs \<and> yRepo r \<noteq> repo) (cross_repo_symbols d))
     (filter (\<lambda>p. yRepo p = repo \<and> yEntityID p = i \<and> yRole p = mine) (cross_repo_symbols d)))"

definition queryCrossRefs :: "string \<Rightarrow> string \<Rightarrow> string \<Rightarrow> string \<Rightarrow> int \<Rightarrow> (graph_conn, err, CrossRef list) call" where
  "queryCrossRefs mine theirs repo i limit = db_query (\<lambda>d.
     map cross_ref (take (nat limit) (sort_key yRepo (sort_key yEntityID (cross_rows mine theirs repo i d)))))"

definition CG_CrossRepo :: "string \<Rightarrow> string \<Rightarrow> int \<Rightarrow> (graph_conn, err, CrossRepoLinks) call" where
  "CG_CrossRepo repo i limit =
     bindE (queryCrossRefs RoleProvides RoleRequires repo i limit) (\<lambda>consumers.
     bindE (queryCrossRefs RoleRequires RoleProvides repo i limit) (\<lambda>providers.
     returnE \<lparr>clConsumers = consumers, clProviders = providers\<rparr>))"

section \<open>Semantic extraction\<close>

fun CG_SemanticMisses :: "string \<Rightarrow> FileSHA list \<Rightarrow> (graph_conn, err, string list) call" where
  "CG_SemanticMisses repo [] = returnE []"
| "CG_SemanticMisses repo (f # fs) =
     bindE (db_query (\<lambda>d. map_option xtSHA (lookup extraction_key (repo, fsPath f) (semantic_extractions d)))) (\<lambda>stored.
     bindE (CG_SemanticMisses repo fs) (\<lambda>rest.
     returnE (if stored = Some (fsContentSHA f) then rest else fsPath f # rest)))"

definition semanticRelations :: "string list" where
  "semanticRelations = [''conceptually_related_to'', ''semantically_similar_to'', ''rationale_for'', ''shares_data_with'', ''cites'']"

definition CG_Related :: "string \<Rightarrow> string \<Rightarrow> string list \<Rightarrow> rat \<Rightarrow> int \<Rightarrow> (graph_conn, err, RelatedResult list) call" where
  "CG_Related repo i relations minConfidence limit =
     (let relStr = join '','' (if relations = [] then semanticRelations else relations) in
      db_query (\<lambda>d. map (\<lambda>(n, e). \<lparr>rlEntity = scanEntity n, rlRelation = dRelation e, rlScore = dScore e, rlTier = dTier e\<rparr>)
        (take (nat limit) (sort_key (\<lambda>(n, e). - dScore e) (sort_key (\<lambda>(n, e). xID n)
          (concat (map (\<lambda>e. map (\<lambda>n. (n, e)) (filter (\<lambda>n. xRepo n = dRepo e \<and> xID n = dTo e) (code_entities d)))
            (filter (\<lambda>e. dRepo e = repo \<and> dFrom e = i \<and> dExtractor e = ''semantic''
               \<and> dRelation e \<in> set (split_on (CHR '','') relStr) \<and> dScore e \<ge> minConfidence) (code_edges d)))))))))"

definition scanHyperedge :: "hyperedge_row \<Rightarrow> Hyperedge" where
  "scanHyperedge h = \<lparr>hyID = zID h, hyLabel = zLabel h, hyRelation = zRelation h, hyConfidenceScore = zScore h,
     hySrcFile = zSrcFile h, hyMembers = [], hyProperties = zProperties h\<rparr>"

definition hyperedgeMembers :: "string \<Rightarrow> string \<Rightarrow> (graph_conn, err, string list) call" where
  "hyperedgeMembers repo i = db_query (\<lambda>d. sort (map mbEntity
     (filter (\<lambda>m. mbRepo m = repo \<and> mbHyperedge m = i) (code_hyperedge_members d))))"

fun fill_members :: "string \<Rightarrow> Hyperedge list \<Rightarrow> (graph_conn, err, Hyperedge list) call" where
  "fill_members repo [] = returnE []"
| "fill_members repo (h # hs) = bindE (hyperedgeMembers repo (hyID h)) (\<lambda>ms.
     bindE (fill_members repo hs) (\<lambda>rest. returnE (h\<lparr>hyMembers := ms\<rparr> # rest)))"

definition CG_Hyperedges :: "string \<Rightarrow> string \<Rightarrow> int \<Rightarrow> (graph_conn, err, Hyperedge list) call" where
  "CG_Hyperedges repo entityID limit =
     bindE (db_query (\<lambda>d. map scanHyperedge (take (nat limit) (sort_key zID
       (if entityID = '''' then filter (\<lambda>h. zRepo h = repo) (code_hyperedges d)
        else concat (map (\<lambda>h. map (\<lambda>m. h) (filter (\<lambda>m. mbRepo m = zRepo h \<and> mbHyperedge m = zID h \<and> mbEntity m = entityID)
            (code_hyperedge_members d))) (filter (\<lambda>h. zRepo h = repo) (code_hyperedges d)))))))) (fill_members repo)"

definition CG_Hyperedge :: "string \<Rightarrow> string \<Rightarrow> (graph_conn, err, Hyperedge) call" where
  "CG_Hyperedge repo i =
     bindE (query_row (\<lambda>d. lookup hyperedge_key (repo, i) (code_hyperedges d))) (\<lambda>h.
     bindE (hyperedgeMembers repo i) (\<lambda>ms. returnE ((scanHyperedge h)\<lparr>hyMembers := ms\<rparr>)))"

section \<open>Search matches literally\<close>

definition special :: "char \<Rightarrow> bool" where
  "special c \<longleftrightarrow> c = CHR 0x5C \<or> c = CHR ''%'' \<or> c = CHR ''_''"

definition escape1 :: "char \<Rightarrow> string" where
  "escape1 c = (if special c then [CHR 0x5C, c] else [c])"

lemma escapeLike_chars: "escapeLike s = concat (map escape1 s)"
  by (induction s) (auto simp: escapeLike_def replace_char_def escape1_def special_def Let_def)

lemma lower_special: "special c \<Longrightarrow> lower_char c = c"
  by (auto simp: special_def lower_char_def)

lemma special_lower: "special (lower_char c) \<longleftrightarrow> special c"
proof (cases "65 \<le> (of_char c :: nat) \<and> (of_char c :: nat) \<le> 90")
  case True
  then have "lower_char c = char_of ((of_char c :: nat) + 32)" by (simp add: lower_char_def)
  moreover have "(of_char (char_of ((of_char c :: nat) + 32) :: char) :: nat) = of_char c + 32" using True by simp
  ultimately have l: "(of_char (lower_char c) :: nat) = of_char c + 32" by simp
  have "\<not> special c" using True by (auto simp: special_def)
  moreover have "\<not> special (lower_char c)" using l True by (auto simp: special_def)
  ultimately show ?thesis by simp
next
  case False
  then show ?thesis by (auto simp: lower_char_def Let_def)
qed

lemma ToLower_escapeLike: "ToLower (escapeLike q) = escapeLike (ToLower q)"
  unfolding escapeLike_chars
  by (induction q) (auto simp: escape1_def str_simps special_lower lower_special, simp add: lower_char_def)

lemma like_percent: "like (CHR ''%'' # p) s \<longleftrightarrow> (\<exists>u v. s = u @ v \<and> like p v)"
proof (induction s)
  case Nil
  then show ?case by (simp add: like.simps(2))
next
  case (Cons x s)
  show ?case
  proof
    assume "like (CHR ''%'' # p) (x # s)"
    then consider "like p (x # s)" | "like (CHR ''%'' # p) s" by (auto simp: like.simps(2))
    then show "\<exists>u v. x # s = u @ v \<and> like p v"
      by cases (use Cons in \<open>auto intro: exI [of _ "[]"]\<close>, metis append_Cons)
  next
    assume "\<exists>u v. x # s = u @ v \<and> like p v"
    then obtain u v where uv: "x # s = u @ v" "like p v" by blast
    then have "like p (x # s) \<or> like (CHR ''%'' # p) s" using Cons by (cases u) auto
    then show "like (CHR ''%'' # p) (x # s)" by (auto simp: like.simps(2))
  qed
qed

lemma like_literal: "like (escapeLike q @ p) s \<longleftrightarrow> (\<exists>t. s = q @ t \<and> like p t)"
  unfolding escapeLike_chars
proof (induction q arbitrary: s)
  case (Cons c q)
  have "like (escape1 c @ r) s \<longleftrightarrow> (\<exists>t. s = c # t \<and> like r t)" for r
    by (cases s) (auto simp: escape1_def special_def like.simps(2))
  then show ?case using Cons by auto
qed simp

definition contains :: "string \<Rightarrow> string \<Rightarrow> bool" where
  "contains s q \<longleftrightarrow> (\<exists>u v. s = u @ q @ v)"

lemma ilike_escaped:
  "ilike s (escapeLike q) \<longleftrightarrow> ToLower s = ToLower q"
  "ilike s (escapeLike q @ ''%'') \<longleftrightarrow> HasPrefix (ToLower s) (ToLower q)"
  "ilike s (CHR ''%'' # escapeLike q @ ''%'') \<longleftrightarrow> contains (ToLower s) (ToLower q)"
proof -
  have pct: "ToLower ''%'' = ''%''" by (simp add: ToLower_def lower_char_def)
  have all: "like ''%'' t" for t by (simp add: like_percent)
  show "ilike s (escapeLike q) \<longleftrightarrow> ToLower s = ToLower q"
    using like_literal [of "ToLower q" "[]" "ToLower s"] by (simp add: ilike_def ToLower_escapeLike)
  show "ilike s (escapeLike q @ ''%'') \<longleftrightarrow> HasPrefix (ToLower s) (ToLower q)"
    unfolding ilike_def ToLower_append pct ToLower_escapeLike like_literal HasPrefix_def
    using all by auto (metis append_take_drop_id)
  have "ToLower (CHR ''%'' # escapeLike q @ ''%'') = CHR ''%'' # escapeLike (ToLower q) @ ''%''"
    using pct by (simp add: str_simps ToLower_escapeLike)
  then show "ilike s (CHR ''%'' # escapeLike q @ ''%'') \<longleftrightarrow> contains (ToLower s) (ToLower q)"
    unfolding ilike_def contains_def using all by (simp add: like_percent like_literal) auto
qed

text \<open>
  Search takes the query literally, whatever wildcards it has: an entity matches exactly when
  the query is empty or occurs in its name or description, ignoring case, and the type agrees; and it
  is ranked by how: the whole name, a prefix of it, a part of it, the description.
\<close>

theorem search_literal:
  "(search_match repo (escapeLike q) typ r \<longleftrightarrow> xRepo r = repo \<and> (typ = '''' \<or> xType r = typ)
     \<and> (q = '''' \<or> contains (ToLower (xName r)) (ToLower q) \<or> contains (ToLower (xDescription r)) (ToLower q)))
   \<and> search_rank (escapeLike q) r =
     (if q = '''' then 4 else if ToLower (xName r) = ToLower q then 0 else if HasPrefix (ToLower (xName r)) (ToLower q) then 1
      else if contains (ToLower (xName r)) (ToLower q) then 2 else 3)"
proof
  have nil: "escapeLike q = '''' \<longleftrightarrow> q = ''''" by (cases q) (auto simp: escapeLike_chars escape1_def)
  show "search_match repo (escapeLike q) typ r \<longleftrightarrow> xRepo r = repo \<and> (typ = '''' \<or> xType r = typ)
     \<and> (q = '''' \<or> contains (ToLower (xName r)) (ToLower q) \<or> contains (ToLower (xDescription r)) (ToLower q))"
    by (auto simp: search_match_def ilike_escaped nil)
  show "search_rank (escapeLike q) r =
     (if q = '''' then 4 else if ToLower (xName r) = ToLower q then 0 else if HasPrefix (ToLower (xName r)) (ToLower q) then 1
      else if contains (ToLower (xName r)) (ToLower q) then 2 else 3)"
    by (simp add: search_rank_def ilike_escaped nil)
qed

section \<open>The semantic cache\<close>

definition cached_sha :: "GraphPush \<Rightarrow> graph_db \<Rightarrow> string \<Rightarrow> string option" where
  "cached_sha p d path = (case map_of (gpFileSHAs p) path of
     Some sha \<Rightarrow> Some sha
   | None \<Rightarrow> map_option xtSHA (lookup extraction_key (gpRepo p, path) (semantic_extractions d)))"

lemma find_rev_distinct:
  assumes "distinct (map key xs)"
  shows "find (\<lambda>r. key r = k) (rev xs) = find (\<lambda>r. key r = k) xs"
proof (cases "find (\<lambda>r. key r = k) xs")
  case None
  then have "find (\<lambda>r. key r = k) (rev xs) = None" unfolding find_None_iff by simp
  with None show ?thesis by simp
next
  case (Some x)
  have "distinct (map key (rev xs))" using assms by (simp add: rev_map [symmetric])
  with Some assms have "find (\<lambda>r. key r = k) (rev xs) = Some x" by (simp add: find_distinct_key)
  with Some show ?thesis by simp
qed

lemma extraction_after_push:
  assumes "distinct (map fst (gpFileSHAs p))"
  shows "map_option xtSHA (lookup extraction_key (gpRepo p, path) (semantic_extractions (reconcile_tables now p d))) = cached_sha p d path"
proof -
  let ?row = "\<lambda>ps. \<lparr>xtRepo = gpRepo p, xtFilePath = fst ps, xtSHA = snd ps, xtAt = now\<rparr>"
  have key: "extraction_key (?row ps) = (gpRepo p, fst ps)" for ps by (simp add: extraction_key_def)
  have "distinct (map extraction_key (map ?row (gpFileSHAs p)))" using assms by (simp add: key comp_def distinct_map inj_on_def)
  note rev = find_rev_distinct [OF this, of "(gpRepo p, path)"]
  have "find (\<lambda>r. extraction_key r = (gpRepo p, path)) (map ?row ss) = map_option (\<lambda>sha. ?row (path, sha)) (map_of ss path)" for ss
    by (induction ss) (auto simp: key)
  then show ?thesis
    by (simp add: reconcile_fields lookup_overwrites rev cached_sha_def del: rev_map split: option.splits)
qed

lemma misses_run:
  assumes "CG_SemanticMisses repo fs c = (Inr out, c')"
  shows "out = map fsPath (filter (\<lambda>f. map_option xtSHA (lookup extraction_key (repo, fsPath f) (semantic_extractions (tables c))) \<noteq> Some (fsContentSHA f)) fs)
    \<and> tables c' = tables c"
  using assms
proof (induction fs arbitrary: out c)
  case Nil
  then show ?case by (simp add: returnE_def)
next
  case (Cons f fs)
  then obtain stored c1 rest where s: "db_query (\<lambda>d. map_option xtSHA (lookup extraction_key (repo, fsPath f) (semantic_extractions d))) c = (Inr stored, c1)"
    "CG_SemanticMisses repo fs c1 = (Inr rest, c')" "out = (if stored = Some (fsContentSHA f) then rest else fsPath f # rest)"
    by (auto simp: bindE_eq_Inr returnE_def)
  have "stored = map_option xtSHA (lookup extraction_key (repo, fsPath f) (semantic_extractions (tables c)))" "tables c1 = tables c"
    using db_query_Inr [OF s(1)] by auto
  with Cons.IH [OF s(2)] s(3) show ?case by auto
qed

text \<open>
  C23: the cache of the semantic extractor round-trips: after a push with content hashes, the files
  reported as misses are exactly those whose hash is not the one pushed, or, for a file the push did
  not mention, not the one cached before; pushing a file's hash makes it a hit.
\<close>

theorem semantic_cache_round_trip:
  assumes "CG_Reconcile now p c = (Inr r, c1)" and "distinct (map fst (gpFileSHAs p))"
    and "CG_SemanticMisses (gpRepo p) files c1 = (Inr out, c2)"
  shows "out = map fsPath (filter (\<lambda>f. cached_sha p (tables c) (fsPath f) \<noteq> Some (fsContentSHA f)) files)"
proof -
  have "tables c1 = reconcile_tables now p (tables c)" using reconcile_outcome [OF assms(1)] by simp
  with misses_run [OF assms(3)] show ?thesis by (simp add: extraction_after_push [OF assms(2)])
qed

definition sha_push :: GraphPush where
  "sha_push = (push0 ''semantic'' [] [])\<lparr>gpFileSHAs := [(''f'', ''1''), (''g'', ''2'')]\<rparr>"

theorem semantic_cache_round_trip_witness:
  "\<exists>r c1 out c2. CG_Reconcile 0 sha_push \<lparr>tables = empty_graph, script = []\<rparr> = (Inr r, c1)
     \<and> CG_SemanticMisses (gpRepo sha_push) [\<lparr>fsPath = ''f'', fsContentSHA = ''1''\<rparr>, \<lparr>fsPath = ''g'', fsContentSHA = ''3''\<rparr>,
         \<lparr>fsPath = ''h'', fsContentSHA = ''4''\<rparr>] c1 = (Inr out, c2) \<and> out = [''g'', ''h'']"
proof -
  let ?c = "\<lparr>tables = empty_graph, script = []\<rparr>"
  obtain r0 c1 where c: "CG_Reconcile 0 sha_push ?c = (r0, c1)" by fastforce
  have h: "healthy ?c" by (simp add: healthy_def)
  with reconcile_outcome [OF c] obtain r where r: "r0 = Inr r" "healthy c1" by (cases r0) auto
  let ?fs = "[\<lparr>fsPath = ''f'', fsContentSHA = ''1''\<rparr>, \<lparr>fsPath = ''g'', fsContentSHA = ''3''\<rparr>, \<lparr>fsPath = ''h'', fsContentSHA = ''4''\<rparr>]"
  obtain out c2 where m: "CG_SemanticMisses (gpRepo sha_push) ?fs c1 = (Inr out, c2)"
    using r(2) by (simp add: bindE_def returnE_def)
  have "distinct (map fst (gpFileSHAs sha_push))" by (simp add: sha_push_def)
  with semantic_cache_round_trip [OF c [unfolded r(1)] _ m] have "out = [''g'', ''h'']"
    by (simp add: cached_sha_def sha_push_def empty_graph_def)
  with c r m show ?thesis by blast
qed

section \<open>Links between repositories\<close>

lemma cross_refs_run:
  assumes "queryCrossRefs mine theirs repo i limit c = (Inr out, c')" "length out < nat limit"
  shows "set out = cross_ref ` set (cross_rows mine theirs repo i (tables c)) \<and> tables c' = tables c"
proof -
  let ?all = "sort_key yRepo (sort_key yEntityID (cross_rows mine theirs repo i (tables c)))"
  have "out = map cross_ref (take (nat limit) ?all)" "tables c' = tables c"
    using db_query_Inr [OF assms(1) [unfolded queryCrossRefs_def]] by auto
  with assms(2) show ?thesis by auto
qed

lemma cross_listed:
  "(\<exists>x \<in> cross_ref ` set (cross_rows mine theirs repo i d). crRepo x = repo' \<and> crEntityID x = j) \<longleftrightarrow>
   (\<exists>t \<in> set (cross_repo_symbols d). \<exists>m \<in> set (cross_repo_symbols d). yRole t = theirs \<and> yRepo t = repo' \<and> yEntityID t = j
      \<and> repo' \<noteq> repo \<and> yRepo m = repo \<and> yEntityID m = i \<and> yRole m = mine \<and> ySymbol m = ySymbol t \<and> yLang m = yLang t)"
  by (auto simp: cross_rows_def cross_ref_def; metis)

text \<open>
  The links between repositories are symmetric: an entity of another repository is listed among
  the consumers of an entity exactly when, asked from the other side, that entity is listed among its
  providers, as long as neither answer is cut by the limit.
\<close>

theorem cross_repo_dual:
  assumes "queryCrossRefs RoleProvides RoleRequires repo i limit c = (Inr consumers, c1)"
    and "queryCrossRefs RoleRequires RoleProvides repo' j limit c1 = (Inr providers, c2)"
    and "length consumers < nat limit" "length providers < nat limit" "repo \<noteq> repo'"
  shows "(\<exists>x\<in>set consumers. crRepo x = repo' \<and> crEntityID x = j) \<longleftrightarrow> (\<exists>x\<in>set providers. crRepo x = repo \<and> crEntityID x = i)"
proof -
  have "set consumers = cross_ref ` set (cross_rows RoleProvides RoleRequires repo i (tables c))"
    "set providers = cross_ref ` set (cross_rows RoleRequires RoleProvides repo' j (tables c))"
    using cross_refs_run [OF assms(1,3)] cross_refs_run [OF assms(2,4)] by auto
  with assms(5) show ?thesis by (simp only: cross_listed) (auto; metis)
qed

definition sym0 :: "string \<Rightarrow> string \<Rightarrow> string \<Rightarrow> symbol_row" where
  "sym0 repo role i = \<lparr>yRepo = repo, ySymbol = ''s'', yLang = ''go'', yKind = '''', yRole = role, yEntityID = i, ySrcFile = ''f''\<rparr>"

definition linked :: graph_conn where
  "linked = \<lparr>tables = empty_graph\<lparr>cross_repo_symbols := [sym0 ''r'' ''provides'' ''a'', sym0 ''q'' ''requires'' ''b'']\<rparr>, script = []\<rparr>"

theorem cross_repo_dual_witness:
  "\<exists>consumers c1 providers c2. queryCrossRefs RoleProvides RoleRequires ''r'' ''a'' 10 linked = (Inr consumers, c1)
     \<and> queryCrossRefs RoleRequires RoleProvides ''q'' ''b'' 10 c1 = (Inr providers, c2)
     \<and> (\<exists>x\<in>set consumers. crRepo x = ''q'' \<and> crEntityID x = ''b'') \<and> (\<exists>x\<in>set providers. crRepo x = ''r'' \<and> crEntityID x = ''a'')"
proof -
  have 1: "queryCrossRefs RoleProvides RoleRequires ''r'' ''a'' 10 linked = (Inr [cross_ref (sym0 ''q'' ''requires'' ''b'')], linked)"
    by (simp add: queryCrossRefs_def linked_def healthy_def cross_rows_def sym0_def RoleProvides_def RoleRequires_def)
  have 2: "queryCrossRefs RoleRequires RoleProvides ''q'' ''b'' 10 linked = (Inr [cross_ref (sym0 ''r'' ''provides'' ''a'')], linked)"
    by (simp add: queryCrossRefs_def linked_def healthy_def cross_rows_def sym0_def RoleProvides_def RoleRequires_def)
  show ?thesis
    using cross_repo_dual [OF 1 2] 1 2 by (simp add: cross_ref_def sym0_def)
qed

section \<open>Import cycles\<close>

lemma cycle_rows_closed:
  "(s, s) \<in> set (cycle_rows es n rows) \<longleftrightarrow> (\<exists>c k. (s, c) \<in> set rows \<and> k \<le> n \<and> (c, s) \<in> set es ^^ k)"
proof (induction n arbitrary: rows)
  case (Suc n)
  let ?next = "remdups (concat (map (\<lambda>(s, c). if c = s then [] else map (\<lambda>t. (s, t)) (next_ids es c)) rows))"
  have next_row: "(s, t) \<in> set ?next \<longleftrightarrow> (\<exists>c. (s, c) \<in> set rows \<and> c \<noteq> s \<and> (c, t) \<in> set es)" for t by force
  have "(s, s) \<in> set (cycle_rows es (Suc n) rows) \<longleftrightarrow> (s, s) \<in> set rows \<or> (\<exists>t k. (s, t) \<in> set ?next \<and> k \<le> n \<and> (t, s) \<in> set es ^^ k)"
    using Suc.IH [of ?next] by simp
  also have "\<dots> \<longleftrightarrow> (\<exists>c k. (s, c) \<in> set rows \<and> k \<le> Suc n \<and> (c, s) \<in> set es ^^ k)" (is "?L \<longleftrightarrow> ?R")
  proof
    assume ?L
    then consider "(s, s) \<in> set rows" | c t k where "(s, c) \<in> set rows" "(c, t) \<in> set es" "k \<le> n" "(t, s) \<in> set es ^^ k"
      unfolding next_row by blast
    then show ?R
    proof cases
      case 1
      then show ?thesis by (intro exI [of _ s] exI [of _ 0]) simp
    next
      case 2
      then have "(c, s) \<in> set es ^^ Suc k" unfolding relpow_first by blast
      with 2 show ?thesis by (intro exI [of _ c] exI [of _ "Suc k"]) simp
    qed
  next
    assume ?R
    then obtain c k where ck: "(s, c) \<in> set rows" "k \<le> Suc n" "(c, s) \<in> set es ^^ k" by blast
    show ?L
    proof (cases "c = s \<or> k = 0")
      case True
      with ck show ?thesis by auto
    next
      case False
      then obtain m where m: "k = Suc m" by (cases k) auto
      with ck obtain t where "(c, t) \<in> set es" "(t, s) \<in> set es ^^ m" unfolding m relpow_first by blast
      with ck m False show ?thesis unfolding next_row by auto
    qed
  qed
  finally show ?case .
qed auto

lemma sum_count_if: "finite K \<Longrightarrow> key ` set rs \<subseteq> K \<Longrightarrow> (\<Sum>k\<in>K. count_if (\<lambda>r. key r = k) rs) = length rs"
proof (induction rs)
  case (Cons x rs)
  have "(\<Sum>k\<in>K. count_if (\<lambda>r. key r = k) (x # rs)) = (\<Sum>k\<in>K. (if k = key x then 1 else 0) + count_if (\<lambda>r. key r = k) rs)"
    by (intro sum.cong) auto
  also have "\<dots> = 1 + length rs" using Cons by (simp add: sum.distrib sum.delta)
  finally show ?case by simp
qed simp

lemma group_count_sum: "(\<Sum>k\<in>dom (group_count key rs). the (group_count key rs k)) = length rs"
proof -
  have d: "dom (group_count key rs) = key ` set rs" by (auto simp: group_count_def dom_def)
  have "(\<Sum>k\<in>key ` set rs. the (group_count key rs k)) = (\<Sum>k\<in>key ` set rs. count_if (\<lambda>r. key r = k) rs)"
    by (intro sum.cong) (auto simp: group_count_def)
  then show ?thesis unfolding d by (simp add: sum_count_if)
qed

text \<open>
  The statistics of a repository add up: the counts by type are a partition of the entities, the
  counts by relation and by tier are partitions of the edges, and the number of import cycles is the
  number of nodes that import some other node from which a chain of at most 19 imports leads back.
\<close>

theorem stats_exact:
  assumes "CG_Stats repo c = (Inr gs, c')" and "E = set (import_edges repo (tables c))"
  shows "(\<Sum>k\<in>dom (gsEntitiesByType gs). the (gsEntitiesByType gs k)) = gsEntities gs
    \<and> (\<Sum>k\<in>dom (gsEdgesByRelation gs). the (gsEdgesByRelation gs k)) = gsEdges gs
    \<and> (\<Sum>k\<in>dom (gsEdgesByTier gs). the (gsEdgesByTier gs k)) = gsEdges gs
    \<and> gsIsolated gs \<le> gsEntities gs
    \<and> gsImportCycles gs = card {s. \<exists>t k. (s, t) \<in> E \<and> s \<noteq> t \<and> k \<le> 19 \<and> (t, s) \<in> E ^^ k}"
proof -
  let ?ns = "filter (\<lambda>n. xRepo n = repo) (code_entities (tables c))"
  let ?es = "filter (\<lambda>e. dRepo e = repo) (code_edges (tables c))"
  have gs: "gs = \<lparr>gsEntities = length ?ns, gsEdges = length ?es, gsEntitiesByType = group_count xType ?ns,
      gsEdgesByRelation = group_count dRelation ?es, gsEdgesByTier = group_count dTier ?es,
      gsIsolated = count_if (isolated repo (tables c)) ?ns, gsImportCycles = import_cycles (import_edges repo (tables c))\<rparr>"
    using assms(1) by (auto simp: CG_Stats_def Let_def bindE_eq_Inr returnE_def dest!: db_query_Inr)
  have "import_cycles es = card {s. \<exists>t k. (s, t) \<in> set es \<and> s \<noteq> t \<and> k \<le> 19 \<and> (t, s) \<in> set es ^^ k}" for es
  proof -
    have "set (map fst (filter (\<lambda>(s, c). c = s) (cycle_rows es 19 rows))) = {s. (s, s) \<in> set (cycle_rows es 19 rows)}" for rows
      by force
    then show ?thesis
      by (simp add: import_cycles_def maxImportCycleDepth_def length_remdups_card_conv cycle_rows_closed)
  qed
  then show ?thesis unfolding gs assms(2) by (simp add: group_count_sum count_if_le_length)
qed

theorem stats_exact_witness:
  "\<exists>gs c'. CG_Stats ''r'' ring = (Inr gs, c') \<and> (\<Sum>k\<in>dom (gsEntitiesByType gs). the (gsEntitiesByType gs k)) = 3"
proof -
  obtain gs c' where c: "CG_Stats ''r'' ring = (Inr gs, c')"
    by (simp add: CG_Stats_def Let_def bindE_def returnE_def)
  moreover have "gsEntities gs = 3"
    using c by (auto simp: CG_Stats_def Let_def bindE_eq_Inr returnE_def ring_tables entity_row_of_def dest!: db_query_Inr)
  ultimately show ?thesis using stats_exact [OF c refl] by auto
qed

end
