(* ===== verification/Codegraph_Service.thy ===== *)
theory Codegraph_Service
  imports Codegraph_Queries Analytics_Store Http_Errors
begin

text \<open>
  The code graph service (\<^verbatim>\<open>internal/codegraph/service.go\<close>, \<^verbatim>\<open>metrics.go\<close>) over the store interface
  (\<^verbatim>\<open>store.go\<close>): it validates pushes, caps limits and depths, and counts what it did.  The interface is
  a record of operations on a store state; the locale \<open>code_store\<close> is what the service relies on.
  Durations are left out of the metrics.
\<close>

section \<open>The store interface\<close>

record 's CStore =
  soReconcile :: "Time \<Rightarrow> GraphPush \<Rightarrow> ('s, err, PushResult) call"
  soSearchEntities :: "string \<Rightarrow> string \<Rightarrow> string \<Rightarrow> int \<Rightarrow> ('s, err, CEntity list) call"
  soGetEntity :: "string \<Rightarrow> string \<Rightarrow> ('s, err, EntityDetail) call"
  soNeighbors :: "string \<Rightarrow> string \<Rightarrow> string list \<Rightarrow> string \<Rightarrow> int \<Rightarrow> int \<Rightarrow> ConfidenceFilter \<Rightarrow> ('s, err, PathNode list) call"
  soFileImports :: "string \<Rightarrow> string \<Rightarrow> int \<Rightarrow> ('s, err, CEdge list) call"
  soCountEntities :: "string \<Rightarrow> ('s, err, nat) call"
  soCrossRepo :: "string \<Rightarrow> string \<Rightarrow> int \<Rightarrow> ('s, err, CrossRepoLinks) call"
  soShortestPath :: "string \<Rightarrow> string \<Rightarrow> string \<Rightarrow> string list \<Rightarrow> int \<Rightarrow> ('s, err, CEntity list) call"
  soImportantEntities :: "string \<Rightarrow> int \<Rightarrow> ('s, err, EntityDegree list) call"
  soStats :: "string \<Rightarrow> ('s, err, GraphStats) call"
  soAmbiguousEdges :: "string \<Rightarrow> int \<Rightarrow> ('s, err, CEdge list) call"
  soEntityExplain :: "string \<Rightarrow> string \<Rightarrow> ('s, err, EntityExplain) call"
  soSemanticMisses :: "string \<Rightarrow> FileSHA list \<Rightarrow> ('s, err, string list) call"
  soRelated :: "string \<Rightarrow> string \<Rightarrow> string list \<Rightarrow> rat \<Rightarrow> int \<Rightarrow> ('s, err, RelatedResult list) call"
  soHyperedges :: "string \<Rightarrow> string \<Rightarrow> int \<Rightarrow> ('s, err, Hyperedge list) call"
  soHyperedge :: "string \<Rightarrow> string \<Rightarrow> ('s, err, Hyperedge) call"
  soCommunities :: "string \<Rightarrow> int \<Rightarrow> ('s, err, CommunityRow list) call"
  soCommunity :: "string \<Rightarrow> int \<Rightarrow> int \<Rightarrow> ('s, err, CEntity list) call"
  soBridges :: "string \<Rightarrow> int \<Rightarrow> ('s, err, Bridge list) call"
  soImportantEntitiesBy :: "string \<Rightarrow> string \<Rightarrow> int \<Rightarrow> ('s, err, EntityDegree list) call"
  soDirtyRepos :: "Time \<Rightarrow> int \<Rightarrow> ('s, err, string list) call"
  soRecomputeAnalytics :: "Time \<Rightarrow> string \<Rightarrow> CommunityLabeler option \<Rightarrow> int \<Rightarrow> ('s, err, RecomputeResult) call"

section \<open>Metrics\<close>

record CMetrics =
  cmEntitiesUpserted :: "string \<Rightarrow> nat"
  cmEdgesUpserted :: "string \<Rightarrow> nat"
  cmQueryTotal :: "string \<Rightarrow> string \<Rightarrow> nat"

definition NewMetrics :: CMetrics where
  "NewMetrics = \<lparr>cmEntitiesUpserted = (\<lambda>_. 0), cmEdgesUpserted = (\<lambda>_. 0), cmQueryTotal = (\<lambda>_ _. 0)\<rparr>"

definition observePush :: "string \<Rightarrow> nat \<Rightarrow> nat \<Rightarrow> CMetrics option \<Rightarrow> CMetrics option" where
  "observePush repo entities edges m = (case m of
     None \<Rightarrow> None
   | Some v \<Rightarrow> Some (v\<lparr>cmEntitiesUpserted := (cmEntitiesUpserted v)(repo := cmEntitiesUpserted v repo + entities),
       cmEdgesUpserted := (cmEdgesUpserted v)(repo := cmEdgesUpserted v repo + edges)\<rparr>))"

definition observeQuery :: "string \<Rightarrow> err + 'a \<Rightarrow> CMetrics option \<Rightarrow> CMetrics option" where
  "observeQuery op r m = (case m of
     None \<Rightarrow> None
   | Some v \<Rightarrow>
       let result = (case r of Inl _ \<Rightarrow> ''error'' | Inr _ \<Rightarrow> ''success'')
       in Some (v\<lparr>cmQueryTotal := (cmQueryTotal v)(op := (cmQueryTotal v op)(result := cmQueryTotal v op result + 1))\<rparr>))"

section \<open>The service\<close>

record 's cworld =
  cwStore :: 's
  cwMetrics :: "CMetrics option"

definition on_store :: "('s, err, 'a) call \<Rightarrow> ('s cworld, err, 'a) call" where
  "on_store m w = (case m (cwStore w) of (r, s') \<Rightarrow> (r, w\<lparr>cwStore := s'\<rparr>))"

definition observed :: "string \<Rightarrow> ('s, err, 'a) call \<Rightarrow> ('s cworld, err, 'a) call" where
  "observed op m w = (case on_store m w of (r, w') \<Rightarrow> (r, w'\<lparr>cwMetrics := observeQuery op r (cwMetrics w')\<rparr>))"

definition defaultSearchLimit :: int where "defaultSearchLimit = 50"
definition maxSearchLimit :: int where "maxSearchLimit = 500"
definition defaultImportantLimit :: int where "defaultImportantLimit = 20"
definition maxImportantLimit :: int where "maxImportantLimit = 200"
definition defaultAmbiguousLimit :: int where "defaultAmbiguousLimit = 50"
definition maxAmbiguousLimit :: int where "maxAmbiguousLimit = 500"

text \<open>\<^verbatim>\<open>if limit <= 0 { limit = default }; if limit > max { limit = max }\<close>\<close>

definition cap_limit :: "int \<Rightarrow> int \<Rightarrow> int \<Rightarrow> int" where
  "cap_limit dflt mx limit = (let l = (if limit \<le> 0 then dflt else limit) in if l > mx then mx else l)"

definition entity_scope_error :: "string list \<Rightarrow> CEntity \<Rightarrow> string option" where
  "entity_scope_error files e =
     (if ceFilePath e = '''' then None
      else if ceFilePath e \<notin> set files
      then Some (''entity '' @ ceID e @ '' file_path '' @ quoteq (ceFilePath e) @ '' not in files'')
      else None)"

definition edge_scope_error :: "string list \<Rightarrow> CEdge \<Rightarrow> string option" where
  "edge_scope_error files e =
     (if cdSrcFile e \<notin> set files
      then Some (''edge '' @ cdFrom e @ ''->'' @ cdTo e @ '' src_file '' @ quoteq (cdSrcFile e) @ '' not in files'')
      else None)"

definition symbol_scope_error :: "string list \<Rightarrow> SymbolRow \<Rightarrow> string option" where
  "symbol_scope_error files s =
     (if sySrcFile s \<notin> set files
      then Some (''symbol '' @ sySymbol s @ '' src_file '' @ quoteq (sySrcFile s) @ '' not in files'')
      else if syRole s \<noteq> RoleProvides \<and> syRole s \<noteq> RoleRequires
      then Some (''symbol '' @ sySymbol s @ '' role '' @ quoteq (syRole s) @ '' must be provides|requires'')
      else None)"

fun first_error :: "('a \<Rightarrow> string option) \<Rightarrow> 'a list \<Rightarrow> string option" where
  "first_error f [] = None"
| "first_error f (x # xs) = (case f x of None \<Rightarrow> first_error f xs | Some m \<Rightarrow> Some m)"

definition scope_error :: "GraphPush \<Rightarrow> string option" where
  "scope_error p =
     (if gpRepo p = '''' then Some ''repo required''
      else if gpFiles p = [] then Some ''files required''
      else case first_error (entity_scope_error (gpFiles p)) (gpEntities p) of
        Some m \<Rightarrow> Some m
      | None \<Rightarrow> (case first_error (edge_scope_error (gpFiles p)) (gpEdges p) of
          Some m \<Rightarrow> Some m
        | None \<Rightarrow> first_error (symbol_scope_error (gpFiles p)) (gpSymbols p)))"

definition Push :: "'s CStore \<Rightarrow> Time \<Rightarrow> GraphPush \<Rightarrow> ('s cworld, err, PushResult) call" where
  "Push st now p = (case scope_error p of
     Some m \<Rightarrow> failE (Suffix ErrInvalidScope m)
   | None \<Rightarrow>
       bindE (on_store (soReconcile st now p)) (\<lambda>res w.
         (Inr res, w\<lparr>cwMetrics := observePush (gpRepo p) (puEntities res) (puEdges res) (cwMetrics w)\<rparr>)))"

definition cs_Search :: "'s CStore \<Rightarrow> string \<Rightarrow> string \<Rightarrow> string \<Rightarrow> int \<Rightarrow> ('s cworld, err, CEntity list) call" where
  "cs_Search st repo q typ limit = observed ''search'' (soSearchEntities st repo q typ (cap_limit defaultSearchLimit maxSearchLimit limit))"

definition cs_Entity :: "'s CStore \<Rightarrow> string \<Rightarrow> string \<Rightarrow> ('s cworld, err, EntityDetail) call" where
  "cs_Entity st repo i = observed ''entity'' (soGetEntity st repo i)"

definition cs_Neighbors :: "'s CStore \<Rightarrow> string \<Rightarrow> string \<Rightarrow> string list \<Rightarrow> string \<Rightarrow> int \<Rightarrow> int \<Rightarrow> ConfidenceFilter \<Rightarrow> ('s cworld, err, PathNode list) call" where
  "cs_Neighbors st repo i relations dir depth limit cf = observed ''neighbors''
     (soNeighbors st repo i relations (normalizeDir dir) (clampDepth depth) (clampNeighborLimit limit) cf)"

definition cs_Callers :: "'s CStore \<Rightarrow> string \<Rightarrow> string \<Rightarrow> int \<Rightarrow> ConfidenceFilter \<Rightarrow> ('s cworld, err, PathNode list) call" where
  "cs_Callers st repo i depth cf = cs_Neighbors st repo i callRelations ''in'' depth 0 cf"

definition cs_Callees :: "'s CStore \<Rightarrow> string \<Rightarrow> string \<Rightarrow> int \<Rightarrow> ConfidenceFilter \<Rightarrow> ('s cworld, err, PathNode list) call" where
  "cs_Callees st repo i depth cf = cs_Neighbors st repo i callRelations ''out'' depth 0 cf"

definition cs_Dependents :: "'s CStore \<Rightarrow> string \<Rightarrow> string \<Rightarrow> int \<Rightarrow> ConfidenceFilter \<Rightarrow> ('s cworld, err, PathNode list) call" where
  "cs_Dependents st repo i depth cf = cs_Neighbors st repo i dependencyRelations ''in'' depth 0 cf"

definition cs_Dependencies :: "'s CStore \<Rightarrow> string \<Rightarrow> string \<Rightarrow> int \<Rightarrow> ConfidenceFilter \<Rightarrow> ('s cworld, err, PathNode list) call" where
  "cs_Dependencies st repo i depth cf = cs_Neighbors st repo i dependencyRelations ''out'' depth 0 cf"

definition cs_ResourceGraph :: "'s CStore \<Rightarrow> string \<Rightarrow> string \<Rightarrow> int \<Rightarrow> ConfidenceFilter \<Rightarrow> ('s cworld, err, PathNode list) call" where
  "cs_ResourceGraph st repo i depth cf = cs_Neighbors st repo i resourceRelations ''out'' depth 0 cf"

definition cs_FileImports :: "'s CStore \<Rightarrow> string \<Rightarrow> string \<Rightarrow> int \<Rightarrow> ('s cworld, err, CEdge list) call" where
  "cs_FileImports st repo path limit = observed ''file_imports'' (soFileImports st repo path limit)"

definition cs_CrossRepo :: "'s CStore \<Rightarrow> string \<Rightarrow> string \<Rightarrow> int \<Rightarrow> ('s cworld, err, CrossRepoLinks) call" where
  "cs_CrossRepo st repo i limit = observed ''cross_repo'' (soCrossRepo st repo i limit)"

definition cs_ShortestPath :: "'s CStore \<Rightarrow> string \<Rightarrow> string \<Rightarrow> string \<Rightarrow> string list \<Rightarrow> int \<Rightarrow> ('s cworld, err, CEntity list) call" where
  "cs_ShortestPath st repo fromID toID relations depth = observed ''shortest_path'' (soShortestPath st repo fromID toID relations (clampDepth depth))"

abbreviation cap_important :: "int \<Rightarrow> int" where
  "cap_important \<equiv> cap_limit defaultImportantLimit maxImportantLimit"

definition cs_ImportantEntities :: "'s CStore \<Rightarrow> string \<Rightarrow> int \<Rightarrow> ('s cworld, err, EntityDegree list) call" where
  "cs_ImportantEntities st repo limit = observed ''important_entities'' (soImportantEntities st repo (cap_important limit))"

definition cs_Stats :: "'s CStore \<Rightarrow> string \<Rightarrow> ('s cworld, err, GraphStats) call" where
  "cs_Stats st repo = observed ''stats'' (soStats st repo)"

definition cs_AmbiguousEdges :: "'s CStore \<Rightarrow> string \<Rightarrow> int \<Rightarrow> ('s cworld, err, CEdge list) call" where
  "cs_AmbiguousEdges st repo limit = observed ''ambiguous'' (soAmbiguousEdges st repo (cap_limit defaultAmbiguousLimit maxAmbiguousLimit limit))"

definition cs_EntityExplain :: "'s CStore \<Rightarrow> string \<Rightarrow> string \<Rightarrow> ('s cworld, err, EntityExplain) call" where
  "cs_EntityExplain st repo i = observed ''entity_explain'' (soEntityExplain st repo i)"

definition cs_SemanticMisses :: "'s CStore \<Rightarrow> string \<Rightarrow> FileSHA list \<Rightarrow> ('s cworld, err, string list) call" where
  "cs_SemanticMisses st repo files = observed ''semantic_misses'' (soSemanticMisses st repo files)"

definition cs_Related :: "'s CStore \<Rightarrow> string \<Rightarrow> string \<Rightarrow> string list \<Rightarrow> rat \<Rightarrow> int \<Rightarrow> ('s cworld, err, RelatedResult list) call" where
  "cs_Related st repo i relations minConfidence limit = observed ''related'' (soRelated st repo i relations minConfidence (cap_important limit))"

definition cs_Hyperedges :: "'s CStore \<Rightarrow> string \<Rightarrow> string \<Rightarrow> int \<Rightarrow> ('s cworld, err, Hyperedge list) call" where
  "cs_Hyperedges st repo entityID limit = observed ''hyperedges'' (soHyperedges st repo entityID (cap_important limit))"

definition cs_Hyperedge :: "'s CStore \<Rightarrow> string \<Rightarrow> string \<Rightarrow> ('s cworld, err, Hyperedge) call" where
  "cs_Hyperedge st repo i = observed ''hyperedge'' (soHyperedge st repo i)"

definition cs_Communities :: "'s CStore \<Rightarrow> string \<Rightarrow> int \<Rightarrow> ('s cworld, err, CommunityRow list) call" where
  "cs_Communities st repo limit = observed ''communities'' (soCommunities st repo (cap_important limit))"

definition cs_Community :: "'s CStore \<Rightarrow> string \<Rightarrow> int \<Rightarrow> int \<Rightarrow> ('s cworld, err, CEntity list) call" where
  "cs_Community st repo community limit = observed ''community'' (soCommunity st repo community (cap_important limit))"

definition cs_Bridges :: "'s CStore \<Rightarrow> string \<Rightarrow> int \<Rightarrow> ('s cworld, err, Bridge list) call" where
  "cs_Bridges st repo limit = observed ''bridges'' (soBridges st repo (cap_important limit))"

definition cs_ImportantEntitiesBy :: "'s CStore \<Rightarrow> string \<Rightarrow> string \<Rightarrow> int \<Rightarrow> ('s cworld, err, EntityDegree list) call" where
  "cs_ImportantEntitiesBy st repo by limit = observed ''important_by'' (soImportantEntitiesBy st repo by (cap_important limit))"

section \<open>What the service relies on\<close>

text \<open>A call that leaves the view \<open>graph\<close> of the store alone, and one that answers with at most \<open>n\<close> rows.\<close>

definition reads :: "('s \<Rightarrow> 'g) \<Rightarrow> ('s, err, 'a) call \<Rightarrow> bool" where
  "reads graph m \<longleftrightarrow> (\<forall>s r s'. m s = (r, s') \<longrightarrow> graph s' = graph s)"

definition at_most :: "nat \<Rightarrow> ('s, err, 'a list) call \<Rightarrow> bool" where
  "at_most n m \<longleftrightarrow> (\<forall>s out s'. m s = (Inr out, s') \<longrightarrow> length out \<le> n)"

lemma readsD: "reads graph m \<Longrightarrow> m s = (r, s') \<Longrightarrow> graph s' = graph s"
  by (simp add: reads_def)

lemma at_mostD: "at_most n m \<Longrightarrow> m s = (Inr out, s') \<Longrightarrow> length out \<le> n"
  unfolding at_most_def by blast

lemma at_most_mono: "at_most n m \<Longrightarrow> n \<le> k \<Longrightarrow> at_most k m"
  by (auto simp: at_most_def intro: order_trans)

lemma observed_at_most: "at_most n m \<Longrightarrow> at_most n (observed op m)"
  by (auto simp: at_most_def observed_def on_store_def split: prod.splits)

lemma observed_reads: "reads graph m \<Longrightarrow> reads (graph \<circ> cwStore) (observed op m)"
  by (auto simp: reads_def observed_def on_store_def split: prod.splits)

lemma cap_limit_le: "0 \<le> mx \<Longrightarrow> nat (cap_limit dflt mx limit) \<le> nat mx"
  by (auto simp: cap_limit_def Let_def)

locale code_store =
  fixes st :: "'s CStore" and graph :: "'s \<Rightarrow> 'g"
  assumes search_reads: "reads graph (soSearchEntities st repo q typ limit)"
    and search_limited: "at_most (nat limit) (soSearchEntities st repo q typ limit)"
    and neighbors_reads: "reads graph (soNeighbors st repo i rels dir depth limit cf)"
    and neighbors_limited: "at_most (nat limit) (soNeighbors st repo i rels dir depth limit cf)"
    and important_reads: "reads graph (soImportantEntitiesBy st repo by limit)"
    and important_limited: "at_most (nat limit) (soImportantEntitiesBy st repo by limit)"
    and ambiguous_reads: "reads graph (soAmbiguousEdges st repo limit)"
    and ambiguous_limited: "at_most (nat limit) (soAmbiguousEdges st repo limit)"
    and related_reads: "reads graph (soRelated st repo i rels score limit)"
    and related_limited: "at_most (nat limit) (soRelated st repo i rels score limit)"
    and hyperedges_reads: "reads graph (soHyperedges st repo i limit)"
    and hyperedges_limited: "at_most (nat limit) (soHyperedges st repo i limit)"
    and communities_reads: "reads graph (soCommunities st repo limit)"
    and communities_limited: "at_most (nat limit) (soCommunities st repo limit)"
    and community_reads: "reads graph (soCommunity st repo k limit)"
    and community_limited: "at_most (nat limit) (soCommunity st repo k limit)"
    and bridges_reads: "reads graph (soBridges st repo limit)"
    and bridges_limited: "at_most (nat limit) (soBridges st repo limit)"
    and failed_push: "soReconcile st now p s = (Inl e, s') \<Longrightarrow> graph s' = graph s"
begin

text \<open>Every list answer is capped, whatever limit the caller asked for.\<close>

lemma answers_capped:
  "at_most 500 (cs_Search st repo q typ limit)" "at_most 5000 (cs_Neighbors st repo i rels dir depth limit cf)"
  "at_most 200 (cs_ImportantEntitiesBy st repo by limit)" "at_most 500 (cs_AmbiguousEdges st repo limit)"
  "at_most 200 (cs_Related st repo i rels score limit)" "at_most 200 (cs_Hyperedges st repo i limit)"
  "at_most 200 (cs_Communities st repo limit)" "at_most 200 (cs_Community st repo k limit)" "at_most 200 (cs_Bridges st repo limit)"
proof -
  have imp: "nat (cap_important l) \<le> 200" for l
    using cap_limit_le [of maxImportantLimit defaultImportantLimit l] by (simp add: maxImportantLimit_def)
  have se: "nat (cap_limit defaultSearchLimit maxSearchLimit l) \<le> 500" for l
    using cap_limit_le [of maxSearchLimit defaultSearchLimit l] by (simp add: maxSearchLimit_def)
  have am: "nat (cap_limit defaultAmbiguousLimit maxAmbiguousLimit l) \<le> 500" for l
    using cap_limit_le [of maxAmbiguousLimit defaultAmbiguousLimit l] by (simp add: maxAmbiguousLimit_def)
  have ne: "nat (clampNeighborLimit l) \<le> 5000" for l by (auto simp: clampNeighborLimit_def maxNeighborLimit_def defaultNeighborLimit_def)
  show "at_most 500 (cs_Search st repo q typ limit)" unfolding cs_Search_def
    by (rule observed_at_most [OF at_most_mono [OF search_limited se]])
  show "at_most 5000 (cs_Neighbors st repo i rels dir depth limit cf)" unfolding cs_Neighbors_def
    by (rule observed_at_most [OF at_most_mono [OF neighbors_limited ne]])
  show "at_most 200 (cs_ImportantEntitiesBy st repo by limit)" unfolding cs_ImportantEntitiesBy_def
    by (rule observed_at_most [OF at_most_mono [OF important_limited imp]])
  show "at_most 500 (cs_AmbiguousEdges st repo limit)" unfolding cs_AmbiguousEdges_def
    by (rule observed_at_most [OF at_most_mono [OF ambiguous_limited am]])
  show "at_most 200 (cs_Related st repo i rels score limit)" unfolding cs_Related_def
    by (rule observed_at_most [OF at_most_mono [OF related_limited imp]])
  show "at_most 200 (cs_Hyperedges st repo i limit)" unfolding cs_Hyperedges_def
    by (rule observed_at_most [OF at_most_mono [OF hyperedges_limited imp]])
  show "at_most 200 (cs_Communities st repo limit)" unfolding cs_Communities_def
    by (rule observed_at_most [OF at_most_mono [OF communities_limited imp]])
  show "at_most 200 (cs_Community st repo k limit)" unfolding cs_Community_def
    by (rule observed_at_most [OF at_most_mono [OF community_limited imp]])
  show "at_most 200 (cs_Bridges st repo limit)" unfolding cs_Bridges_def
    by (rule observed_at_most [OF at_most_mono [OF bridges_limited imp]])
qed

lemma answers_read:
  "reads (graph \<circ> cwStore) (cs_Search st repo q typ limit)" "reads (graph \<circ> cwStore) (cs_Neighbors st repo i rels dir depth limit cf)"
  "reads (graph \<circ> cwStore) (cs_ImportantEntitiesBy st repo by limit)" "reads (graph \<circ> cwStore) (cs_AmbiguousEdges st repo limit)"
  "reads (graph \<circ> cwStore) (cs_Related st repo i rels score limit)" "reads (graph \<circ> cwStore) (cs_Hyperedges st repo i limit)"
  "reads (graph \<circ> cwStore) (cs_Communities st repo limit)" "reads (graph \<circ> cwStore) (cs_Community st repo k limit)"
  "reads (graph \<circ> cwStore) (cs_Bridges st repo limit)"
  unfolding cs_Search_def cs_Neighbors_def cs_ImportantEntitiesBy_def cs_AmbiguousEdges_def cs_Related_def cs_Hyperedges_def
    cs_Communities_def cs_Community_def cs_Bridges_def
  by (intro observed_reads search_reads neighbors_reads important_reads ambiguous_reads related_reads hyperedges_reads
      communities_reads community_reads bridges_reads)+

lemma push_failed: "Push st now p w = (Inl e, w') \<Longrightarrow> graph (cwStore w') = graph (cwStore w) \<and> cwMetrics w' = cwMetrics w"
  by (auto simp: Push_def failE_def bindE_eq_Inl on_store_def dest: failed_push split: option.splits prod.splits)

end

section \<open>The PostgreSQL store provides it\<close>

definition PGStore :: "'g gonum \<Rightarrow> (nat \<Rightarrow> (Time \<times> GraphPush) list) \<Rightarrow> int \<Rightarrow> graph_conn CStore" where
  "PGStore G others ms = \<lparr>soReconcile = CG_Reconcile, soSearchEntities = CG_SearchEntities, soGetEntity = CG_GetEntity,
     soNeighbors = CG_Neighbors, soFileImports = CG_FileImports, soCountEntities = CG_CountEntities, soCrossRepo = CG_CrossRepo,
     soShortestPath = CG_ShortestPath, soImportantEntities = CG_ImportantEntities, soStats = CG_Stats,
     soAmbiguousEdges = CG_AmbiguousEdges, soEntityExplain = CG_EntityExplain, soSemanticMisses = CG_SemanticMisses,
     soRelated = CG_Related, soHyperedges = CG_Hyperedges, soHyperedge = CG_Hyperedge, soCommunities = CG_Communities,
     soCommunity = CG_Community, soBridges = CG_Bridges, soImportantEntitiesBy = CG_ImportantEntitiesBy,
     soDirtyRepos = DirtyRepos, soRecomputeAnalytics = RecomputeAnalytics G others ms\<rparr>"

lemma reads_query: "reads tables (db_query q)"
  unfolding reads_def
proof (intro allI impI)
  fix c :: "'a conn" and r c' assume "db_query q c = (r, c')"
  then show "tables c' = tables c" by (cases r) (auto dest: db_query_Inl db_query_Inr)
qed

lemma reads_bind: "reads g m \<Longrightarrow> (\<And>x. reads g (k x)) \<Longrightarrow> reads g (bindE m k)"
  unfolding reads_def bindE_def by (auto split: prod.splits sum.splits)

lemma reads_return: "reads g (returnE x)"
  by (simp add: reads_def returnE_def)

lemma at_most_query: "(\<And>d. length (q d) \<le> n) \<Longrightarrow> at_most n (db_query q)"
  unfolding at_most_def by (auto dest!: db_query_Inr)

lemma reads_fill: "reads tables (fill_members repo hs)"
  by (induction hs) (auto intro!: reads_bind reads_return reads_query simp: hyperedgeMembers_def)

lemma reads_hyperedges: "reads tables (CG_Hyperedges repo i limit)"
  unfolding CG_Hyperedges_def by (intro reads_bind reads_query reads_fill)

lemma fill_length: "fill_members repo hs c = (Inr out, c') \<Longrightarrow> length out = length hs"
  by (induction hs arbitrary: out c) (auto simp: returnE_def bindE_eq_Inr)

lemma hyperedges_limited: "at_most (nat limit) (CG_Hyperedges repo i limit)"
  unfolding at_most_def CG_Hyperedges_def by (auto simp: bindE_eq_Inr dest!: db_query_Inr dest: fill_length)

interpretation pgc: code_store "PGStore G others ms" tables
proof (unfold_locales, goal_cases)
  case (19 now p s e s')
  then show ?case using reconcile_outcome [of now p s "Inl e" s'] by (simp add: PGStore_def)
qed (auto simp: PGStore_def CG_SearchEntities_def CG_Neighbors_def CG_ImportantEntitiesBy_def CG_ImportantEntities_def CG_AmbiguousEdges_def
    CG_Related_def CG_Communities_def CG_Community_def CG_Bridges_def Let_def hyperedges_limited reads_hyperedges
    intro: reads_query at_most_query)

section \<open>Pushes through the service\<close>

definition in_scope :: "GraphPush \<Rightarrow> bool" where
  "in_scope p \<longleftrightarrow> gpRepo p \<noteq> '''' \<and> gpFiles p \<noteq> []
     \<and> (\<forall>e\<in>set (gpEntities p). ceFilePath e = '''' \<or> ceFilePath e \<in> set (gpFiles p))
     \<and> (\<forall>e\<in>set (gpEdges p). cdSrcFile e \<in> set (gpFiles p))
     \<and> (\<forall>s\<in>set (gpSymbols p). sySrcFile s \<in> set (gpFiles p) \<and> syRole s \<in> {RoleProvides, RoleRequires})"

lemma first_error_None: "first_error f xs = None \<longleftrightarrow> (\<forall>x\<in>set xs. f x = None)"
  by (induction xs) (auto split: option.splits)

lemma scope_error_None: "scope_error p = None \<longleftrightarrow> in_scope p"
proof -
  have "scope_error p = None \<longleftrightarrow> gpRepo p \<noteq> '''' \<and> gpFiles p \<noteq> [] \<and> first_error (entity_scope_error (gpFiles p)) (gpEntities p) = None
      \<and> first_error (edge_scope_error (gpFiles p)) (gpEdges p) = None \<and> first_error (symbol_scope_error (gpFiles p)) (gpSymbols p) = None"
    by (simp add: scope_error_def split: option.split)
  then show ?thesis
    unfolding first_error_None by (auto simp: in_scope_def entity_scope_error_def edge_scope_error_def symbol_scope_error_def)
qed

lemma push_service:
  assumes "Push (PGStore G others ms) now p w = (r, w')"
  shows "if \<not> in_scope p then (\<exists>m. r = Inl (Suffix ErrInvalidScope m)) \<and> w' = w
    else (case r of
        Inl e \<Rightarrow> tables (cwStore w') = tables (cwStore w) \<and> cwMetrics w' = cwMetrics w \<and> \<not> healthy (cwStore w)
      | Inr res \<Rightarrow> tables (cwStore w') = reconcile_tables now p (tables (cwStore w)) \<and> puEntities res = length (gpEntities p)
          \<and> cwMetrics w' = observePush (gpRepo p) (length (gpEntities p)) (length (gpEdges p)) (cwMetrics w))"
proof (cases "scope_error p")
  case (Some m)
  then have "\<not> in_scope p" by (simp add: scope_error_None [symmetric])
  with Some assms show ?thesis by (auto simp: Push_def failE_def)
next
  case None
  then have s: "in_scope p" by (simp add: scope_error_None)
  obtain r0 s' where c: "CG_Reconcile now p (cwStore w) = (r0, s')" by fastforce
  with reconcile_outcome [OF c] None s assms show ?thesis
    by (cases r0) (auto simp: Push_def bindE_def on_store_def PGStore_def)
qed

text \<open>
  C25: a push reaches the graph exactly when it is in scope: a repository and files are named, every
  entity with a file, every edge and every symbol belongs to one of them and every symbol provides or
  requires.  Otherwise it is answered 400 with the scope error and neither the graph nor the counters
  move; and a push the database fails leaves both alone too.
\<close>

theorem push_outcome:
  assumes "Push (PGStore G others ms) now p w = (r, w')"
  shows "(\<not> in_scope p \<longrightarrow> (\<exists>m. r = Inl (Suffix ErrInvalidScope m) \<and> rsStatus (mapServiceError reqID (Suffix ErrInvalidScope m)) = 400) \<and> w' = w)
    \<and> (isl r \<longrightarrow> tables (cwStore w') = tables (cwStore w) \<and> cwMetrics w' = cwMetrics w)
    \<and> (\<not> isl r \<longrightarrow> in_scope p \<and> tables (cwStore w') = reconcile_tables now p (tables (cwStore w))
         \<and> cwMetrics w' = observePush (gpRepo p) (length (gpEntities p)) (length (gpEdges p)) (cwMetrics w))
    \<and> (in_scope p \<and> healthy (cwStore w) \<longrightarrow> \<not> isl r)"
proof -
  have "rsStatus (mapServiceError reqID (Suffix ErrInvalidScope m)) = 400" for m
    by (simp add: mapServiceError_def WriteError_def Is_def)
  with push_service [OF assms] show ?thesis by (cases "in_scope p"; cases r) auto
qed

theorem push_outcome_witness:
  "\<exists>r w'. Push (PGStore list_gonum (\<lambda>_. []) 0) 3 (push0 ''ast'' [entity0 ''a'' ''g''] [])
      \<lparr>cwStore = \<lparr>tables = empty_graph, script = []\<rparr>, cwMetrics = Some NewMetrics\<rparr> = (r, w')
     \<and> isl r \<and> w' = \<lparr>cwStore = \<lparr>tables = empty_graph, script = []\<rparr>, cwMetrics = Some NewMetrics\<rparr>"
proof -
  let ?p = "push0 ''ast'' [entity0 ''a'' ''g''] []"
  let ?w = "\<lparr>cwStore = \<lparr>tables = empty_graph, script = []\<rparr>, cwMetrics = Some NewMetrics\<rparr>"
  obtain r w' where c: "Push (PGStore list_gonum (\<lambda>_. []) 0) 3 ?p ?w = (r, w')" by fastforce
  have "\<not> in_scope ?p" by (simp add: in_scope_def push0_def entity0_def)
  with push_outcome [OF c] c show ?thesis by auto
qed

text \<open>
  The service caps every list it returns, for any requested limit, any database content and any
  failure pattern, and none of these queries changes the graph.
\<close>

theorem service_capped:
  "at_most 500 (cs_Search (PGStore G others ms) repo q typ limit)
   \<and> at_most 5000 (cs_Neighbors (PGStore G others ms) repo i rels dir depth limit cf)
   \<and> at_most 200 (cs_ImportantEntitiesBy (PGStore G others ms) repo by limit)
   \<and> at_most 500 (cs_AmbiguousEdges (PGStore G others ms) repo limit)
   \<and> at_most 200 (cs_Related (PGStore G others ms) repo i rels score limit)
   \<and> at_most 200 (cs_Hyperedges (PGStore G others ms) repo i limit)
   \<and> at_most 200 (cs_Communities (PGStore G others ms) repo limit)
   \<and> at_most 200 (cs_Community (PGStore G others ms) repo k limit)
   \<and> at_most 200 (cs_Bridges (PGStore G others ms) repo limit)
   \<and> reads (tables \<circ> cwStore) (cs_Search (PGStore G others ms) repo q typ limit)
   \<and> reads (tables \<circ> cwStore) (cs_Neighbors (PGStore G others ms) repo i rels dir depth limit cf)"
  by (intro conjI pgc.answers_capped pgc.answers_read)

text \<open>
  The shape of stored rows: symbols have one of two roles, a tier is never empty, an unknown line,
  author or source is NULL rather than a zero value, and no hyperedge has score zero.
\<close>

definition rows_typed :: "graph_db \<Rightarrow> bool" where
  "rows_typed d \<longleftrightarrow> (\<forall>s\<in>set (cross_repo_symbols d). yRole s \<in> {RoleProvides, RoleRequires})
     \<and> (\<forall>e\<in>set (code_edges d). dTier e \<noteq> '''')
     \<and> (\<forall>n\<in>set (code_entities d). xLineStart n \<noteq> Some 0 \<and> xLineEnd n \<noteq> Some 0 \<and> xAuthor n \<noteq> Some '''' \<and> xSourceURL n \<noteq> Some '''')
     \<and> (\<forall>h\<in>set (code_hyperedges d). zScore h \<noteq> 0)"

lemma all_upserts:
  assumes "\<forall>x\<in>set xs. P x" "\<forall>r\<in>set rs. P r" "\<And>x r. P x \<Longrightarrow> P r \<Longrightarrow> P (upd x r)"
  shows "\<forall>x\<in>set (fold (upsert key upd) rs xs). P x"
  using assms(1,2)
proof (induction rs arbitrary: xs)
  case (Cons r rs)
  have "\<forall>x\<in>set (upsert key upd r xs). P x" using Cons.prems assms(3) by (auto dest!: set_upsertD)
  with Cons show ?case by simp
qed simp

lemma all_tdelete: "\<forall>x\<in>set xs. P x \<Longrightarrow> \<forall>x\<in>set (tdelete q xs). P x"
  by (simp add: tdelete_def)

lemma rows_typed_reconcile:
  assumes "rows_typed d" "in_scope p"
  shows "rows_typed (reconcile_tables now p d)"
proof -
  let ?role = "\<lambda>s. yRole s \<in> {RoleProvides, RoleRequires}" and ?tier = "\<lambda>e. dTier e \<noteq> ''''"
  let ?null = "\<lambda>n. xLineStart n \<noteq> Some 0 \<and> xLineEnd n \<noteq> Some 0 \<and> xAuthor n \<noteq> Some '''' \<and> xSourceURL n \<noteq> Some ''''"
  have "\<forall>s\<in>set (cross_repo_symbols (reconcile_tables now p d)). ?role s"
    unfolding reconcile_fields by (simp, rule all_upserts [where P = ?role, simplified])
      (use assms in \<open>auto simp: rows_typed_def in_scope_def symbol_row_of_def tdelete_def\<close>)
  moreover have "\<forall>e\<in>set (code_edges (reconcile_tables now p d)). ?tier e"
    unfolding reconcile_fields by (simp, rule all_upserts [where P = ?tier, simplified])
      (use assms in \<open>auto simp: rows_typed_def edge_row_of_def edge_confidence_def TierFor_def TierExtracted_def TierInferred_def TierAmbiguous_def
          tdelete_def split: if_splits prod.splits\<close>)
  moreover have "\<forall>n\<in>set (code_entities (reconcile_tables now p d)). ?null n"
    unfolding reconcile_fields by (simp, rule all_upserts [where P = ?null, simplified])
      (use assms in \<open>auto simp: rows_typed_def entity_row_of_def entity_update_def nullInt_def nullStr_def tdelete_def split: if_splits\<close>)
  moreover have "\<forall>h\<in>set (code_hyperedges (reconcile_tables now p d)). zScore h \<noteq> 0"
    unfolding reconcile_fields by (simp, rule all_upserts [where P = "\<lambda>h. zScore h \<noteq> 0", simplified])
      (use assms in \<open>auto simp: rows_typed_def hyperedge_row_of_def tdelete_def split: if_splits\<close>)
  ultimately show ?thesis by (simp add: rows_typed_def)
qed

text \<open>
  C29: whatever is pushed through the service, the stored rows keep their shape: a symbol only ever
  provides or requires, every edge has a confidence tier, a missing line, author or source is NULL and
  every hyperedge has a score.
\<close>

theorem push_rows_typed:
  assumes "Push (PGStore G others ms) now p w = (r, w')" and "rows_typed (tables (cwStore w))"
  shows "rows_typed (tables (cwStore w'))"
  using push_service [OF assms(1)] assms(2)
  by (cases "in_scope p"; cases r) (simp_all add: rows_typed_reconcile)

theorem push_rows_typed_witness:
  "\<exists>r w'. Push (PGStore list_gonum (\<lambda>_. []) 0) 3 (push0 ''ast'' [entity0 ''a'' ''f''] [edge0 ''a'' ''b'' ''f''])
      \<lparr>cwStore = \<lparr>tables = empty_graph, script = []\<rparr>, cwMetrics = None\<rparr> = (r, w') \<and> rows_typed (tables (cwStore w'))"
proof -
  let ?w = "\<lparr>cwStore = \<lparr>tables = empty_graph, script = []\<rparr>, cwMetrics = None\<rparr>"
  obtain r w' where c: "Push (PGStore list_gonum (\<lambda>_. []) 0) 3 (push0 ''ast'' [entity0 ''a'' ''f''] [edge0 ''a'' ''b'' ''f'']) ?w = (r, w')" by fastforce
  have "rows_typed (tables (cwStore ?w))" by (simp add: rows_typed_def empty_graph_def)
  with push_rows_typed [OF c] c show ?thesis by blast
qed

end
