(* ===== verification/Codegraph_Handlers.thy ===== *)
theory Codegraph_Handlers
  imports Http_Request Codegraph_Service
begin

text \<open>
  The code graph endpoints (\<^verbatim>\<open>internal/httpapi/codegraph.go\<close>) over the code graph service.  The JSON
  codec is a parameter: \<open>marshal\<close> of an answer, \<open>decode\<close> of a body; so is \<open>parseFloat\<close>, the finite
  numbers that \<^verbatim>\<open>strconv.ParseFloat\<close> accepts.  A nil and an empty slice are both \<open>[]\<close>; clearing the
  write deadline and the log line of a push are left out.
\<close>

section \<open>Answers\<close>

datatype cg_payload =
    P_push PushResult
  | P_entities "CEntity list"
  | P_entity EntityDetail
  | P_nodes "PathNode list"
  | P_edges "CEdge list"
  | P_links CrossRepoLinks
  | P_path "CEntity list"
  | P_degrees "EntityDegree list"
  | P_related "RelatedResult list"
  | P_hyperedges "Hyperedge list"
  | P_hyperedge Hyperedge
  | P_misses "string list"
  | P_communities "CommunityRow list"
  | P_bridges "Bridge list"
  | P_stats GraphStats
  | P_explain EntityExplain

record codec =
  cdMarshal :: "cg_payload \<Rightarrow> string option"
  cdParseFloat :: "string \<Rightarrow> rat option"

definition ok_json :: "codec \<Rightarrow> ('a \<Rightarrow> cg_payload) \<Rightarrow> 'a \<Rightarrow> response" where
  "ok_json C payload x = WriteJSON (cdMarshal C) 200 (payload x)"

section \<open>Parameters\<close>

definition maxListLimit :: int where "maxListLimit = 500"
definition defaultListLimit :: int where "defaultListLimit = 100"

definition clampListLimit :: "int \<Rightarrow> int" where
  "clampListLimit n = (if n \<le> 0 then defaultListLimit else if n > maxListLimit then maxListLimit else n)"

definition parseMinConfidence :: "codec \<Rightarrow> http_request \<Rightarrow> response + rat" where
  "parseMinConfidence C r =
     (let s = Get (hqQuery r) ''min_confidence'' in
      if s = '''' then Inr 0
      else case cdParseFloat C s of
        None \<Rightarrow> Inl (bad_request r ''min_confidence must be a number'')
      | Some v \<Rightarrow> if v < 0 \<or> v > 1 then Inl (bad_request r ''min_confidence must be between 0 and 1'') else Inr v)"

definition confidenceFilter :: "codec \<Rightarrow> http_request \<Rightarrow> response + ConfidenceFilter" where
  "confidenceFilter C r = (case parseMinConfidence C r of
     Inl resp \<Rightarrow> Inl resp
   | Inr v \<Rightarrow>
       (let t = Get (hqQuery r) ''tier'' in
        if t = '''' then Inr \<lparr>cfMinConfidence = v, cfTier = ''''\<rparr>
        else if t \<notin> set ValidTiers then Inl (bad_request r ''tier must be EXTRACTED, INFERRED, or AMBIGUOUS'')
        else Inr \<lparr>cfMinConfidence = v, cfTier = t\<rparr>))"

definition relations_param :: "http_request \<Rightarrow> string list" where
  "relations_param r = (let rel = Get (hqQuery r) ''relations'' in if rel = '''' then [] else split_on (CHR '','') rel)"

section \<open>Handlers\<close>

definition handlePostCodeGraph :: "codec \<Rightarrow> (string \<Rightarrow> GraphPush option) \<Rightarrow> 's CStore \<Rightarrow> Time \<Rightarrow> 's cworld handler" where
  "handlePostCodeGraph C decode st now r =
     withParam (decode_limited maxBulkBody decode r) (\<lambda>p. reply r (Push st now p) (ok_json C P_push))"

definition handleSearchCodeEntities :: "codec \<Rightarrow> 's CStore \<Rightarrow> 's cworld handler" where
  "handleSearchCodeEntities C st r =
     withParam (reqRepo r) (\<lambda>repo. withParam (required r ''q'') (\<lambda>q. withParam (limitParam r) (\<lambda>limit.
     reply r (cs_Search st repo q (Get (hqQuery r) ''type'') limit) (ok_json C P_entities))))"

definition handleGetCodeEntity :: "codec \<Rightarrow> 's CStore \<Rightarrow> 's cworld handler" where
  "handleGetCodeEntity C st r =
     withParam (reqRepo r) (\<lambda>repo. withParam (reqIDParam r) (\<lambda>i. reply r (cs_Entity st repo i) (ok_json C P_entity)))"

definition writeNodes :: "codec \<Rightarrow> http_request \<Rightarrow> ('s, err, PathNode list) call \<Rightarrow> 's \<Rightarrow> response \<times> 's" where
  "writeNodes C r m = reply r m (ok_json C P_nodes)"

definition direction_param :: "http_request \<Rightarrow> response + string" where
  "direction_param r = (let dir = Get (hqQuery r) ''direction'' in
     if dir \<noteq> '''' \<and> dir \<noteq> ''in'' \<and> dir \<noteq> ''out'' then Inl (bad_request r ''direction must be in or out'') else Inr dir)"

definition handleNeighbors :: "codec \<Rightarrow> 's CStore \<Rightarrow> 's cworld handler" where
  "handleNeighbors C st r =
     withParam (reqRepo r) (\<lambda>repo. withParam (reqIDParam r) (\<lambda>i. withParam (required r ''relation'') (\<lambda>rel.
     withParam (confidenceFilter C r) (\<lambda>cf. withParam (direction_param r) (\<lambda>dir.
     withParam (depthParam r) (\<lambda>depth. withParam (limitParam r) (\<lambda>limit.
     writeNodes C r (cs_Neighbors st repo i (split_on (CHR '','') rel) dir depth limit cf))))))))"

text \<open>
  The five handlers \<^verbatim>\<open>handleCallers\<close> .. \<^verbatim>\<open>handleResourceGraph\<close> read the same parameters in the same order.
\<close>

definition walk_handler :: "codec \<Rightarrow> (string \<Rightarrow> string \<Rightarrow> int \<Rightarrow> ConfidenceFilter \<Rightarrow> ('s cworld, err, PathNode list) call) \<Rightarrow> 's cworld handler" where
  "walk_handler C walk r =
     withParam (reqRepo r) (\<lambda>repo. withParam (reqIDParam r) (\<lambda>i. withParam (confidenceFilter C r) (\<lambda>cf.
     withParam (depthParam r) (\<lambda>depth. writeNodes C r (walk repo i depth cf)))))"

definition handleCallers :: "codec \<Rightarrow> 's CStore \<Rightarrow> 's cworld handler" where
  "handleCallers C st = walk_handler C (cs_Callers st)"

definition handleCallees :: "codec \<Rightarrow> 's CStore \<Rightarrow> 's cworld handler" where
  "handleCallees C st = walk_handler C (cs_Callees st)"

definition handleDependents :: "codec \<Rightarrow> 's CStore \<Rightarrow> 's cworld handler" where
  "handleDependents C st = walk_handler C (cs_Dependents st)"

definition handleDependencies :: "codec \<Rightarrow> 's CStore \<Rightarrow> 's cworld handler" where
  "handleDependencies C st = walk_handler C (cs_Dependencies st)"

definition handleResourceGraph :: "codec \<Rightarrow> 's CStore \<Rightarrow> 's cworld handler" where
  "handleResourceGraph C st = walk_handler C (cs_ResourceGraph st)"

definition handleFileImports :: "codec \<Rightarrow> 's CStore \<Rightarrow> 's cworld handler" where
  "handleFileImports C st r =
     withParam (reqRepo r) (\<lambda>repo. withParam (required r ''path'') (\<lambda>path. withParam (limitParam r) (\<lambda>limit.
     reply r (cs_FileImports st repo path (clampListLimit limit)) (ok_json C P_edges))))"

definition handleCrossRepo :: "codec \<Rightarrow> 's CStore \<Rightarrow> 's cworld handler" where
  "handleCrossRepo C st r =
     withParam (reqRepo r) (\<lambda>repo. withParam (reqIDParam r) (\<lambda>i. withParam (limitParam r) (\<lambda>limit.
     reply r (cs_CrossRepo st repo i (clampListLimit limit)) (ok_json C P_links))))"

definition handleShortestPath :: "codec \<Rightarrow> 's CStore \<Rightarrow> 's cworld handler" where
  "handleShortestPath C st r =
     withParam (reqRepo r) (\<lambda>repo. withParam (required r ''from'') (\<lambda>from1. withParam (required r ''to'') (\<lambda>to1.
     withParam (parsePosInt r ''max_depth'') (\<lambda>depth.
     reply r (cs_ShortestPath st repo from1 to1 (relations_param r) depth) (ok_json C P_path)))))"

definition handleImportantEntities :: "codec \<Rightarrow> 's CStore \<Rightarrow> 's cworld handler" where
  "handleImportantEntities C st r =
     withParam (reqRepo r) (\<lambda>repo. withParam (limitParam r) (\<lambda>limit.
     let by1 = Get (hqQuery r) ''by'' in
     withParam (if by1 \<noteq> '''' \<and> by1 \<noteq> ImportantByDegree \<and> by1 \<noteq> ImportantByBetweenness
        then Inl (bad_request r ''by must be degree or betweenness'') else Inr by1) (\<lambda>by1.
     reply r (if by1 \<noteq> '''' then cs_ImportantEntitiesBy st repo by1 limit else cs_ImportantEntities st repo limit) (ok_json C P_degrees))))"

definition handleRelated :: "codec \<Rightarrow> 's CStore \<Rightarrow> 's cworld handler" where
  "handleRelated C st r =
     withParam (reqRepo r) (\<lambda>repo. withParam (reqIDParam r) (\<lambda>i. withParam (parseMinConfidence C r) (\<lambda>minConf.
     withParam (limitParam r) (\<lambda>limit.
     reply r (cs_Related st repo i (relations_param r) minConf limit) (ok_json C P_related)))))"

definition handleHyperedges :: "codec \<Rightarrow> 's CStore \<Rightarrow> 's cworld handler" where
  "handleHyperedges C st r =
     withParam (reqRepo r) (\<lambda>repo. withParam (limitParam r) (\<lambda>limit.
     reply r (cs_Hyperedges st repo (Get (hqQuery r) ''entity'') limit) (ok_json C P_hyperedges)))"

definition handleHyperedge :: "codec \<Rightarrow> 's CStore \<Rightarrow> 's cworld handler" where
  "handleHyperedge C st r =
     withParam (reqRepo r) (\<lambda>repo. withParam (reqIDParam r) (\<lambda>i. reply r (cs_Hyperedge st repo i) (ok_json C P_hyperedge)))"

record semanticMissesRequest =
  smRepo :: string
  smFiles :: "FileSHA list"

definition maxSemanticMissesFiles :: nat where "maxSemanticMissesFiles = 1000"

definition semantic_misses_check :: "http_request \<Rightarrow> semanticMissesRequest \<Rightarrow> response + semanticMissesRequest" where
  "semantic_misses_check r req =
     (if smRepo req = '''' then Inl (bad_request r ''repo required'')
      else if smFiles req = [] then Inl (bad_request r ''files must not be empty'')
      else if length (smFiles req) > maxSemanticMissesFiles then Inl (bad_request r ''files exceeds maximum allowed count'')
      else Inr req)"

definition handleSemanticMisses :: "codec \<Rightarrow> (string \<Rightarrow> semanticMissesRequest option) \<Rightarrow> 's CStore \<Rightarrow> 's cworld handler" where
  "handleSemanticMisses C decode st r =
     withParam (decode_limited (4 * 2 ^ 20) decode r) (\<lambda>req. withParam (semantic_misses_check r req) (\<lambda>req.
     reply r (cs_SemanticMisses st (smRepo req) (smFiles req)) (ok_json C P_misses)))"

definition handleCommunities :: "codec \<Rightarrow> 's CStore \<Rightarrow> 's cworld handler" where
  "handleCommunities C st r =
     withParam (reqRepo r) (\<lambda>repo. withParam (limitParam r) (\<lambda>limit.
     reply r (cs_Communities st repo limit) (ok_json C P_communities)))"

definition handleCommunity :: "codec \<Rightarrow> 's CStore \<Rightarrow> 's cworld handler" where
  "handleCommunity C st r =
     withParam (reqRepo r) (\<lambda>repo. withParam (required r ''community'') (\<lambda>cstr.
     withParam (case Atoi cstr of None \<Rightarrow> Inl (bad_request r ''community must be an integer'') | Some n \<Rightarrow> Inr n) (\<lambda>cid.
     withParam (limitParam r) (\<lambda>limit.
     reply r (cs_Community st repo cid limit) (ok_json C P_entities)))))"

definition handleBridges :: "codec \<Rightarrow> 's CStore \<Rightarrow> 's cworld handler" where
  "handleBridges C st r =
     withParam (reqRepo r) (\<lambda>repo. withParam (limitParam r) (\<lambda>limit.
     reply r (cs_Bridges st repo limit) (ok_json C P_bridges)))"

definition handleStats :: "codec \<Rightarrow> 's CStore \<Rightarrow> 's cworld handler" where
  "handleStats C st r = withParam (reqRepo r) (\<lambda>repo. reply r (cs_Stats st repo) (ok_json C P_stats))"

definition handleAmbiguousEdges :: "codec \<Rightarrow> 's CStore \<Rightarrow> 's cworld handler" where
  "handleAmbiguousEdges C st r =
     withParam (reqRepo r) (\<lambda>repo. withParam (limitParam r) (\<lambda>limit.
     reply r (cs_AmbiguousEdges st repo limit) (ok_json C P_edges)))"

definition handleEntityExplain :: "codec \<Rightarrow> 's CStore \<Rightarrow> 's cworld handler" where
  "handleEntityExplain C st r =
     withParam (reqRepo r) (\<lambda>repo. withParam (reqIDParam r) (\<lambda>i. reply r (cs_EntityExplain st repo i) (ok_json C P_explain)))"

section \<open>What every read endpoint promises\<close>

text \<open>The read endpoints of \<^verbatim>\<open>mountV1\<close>.\<close>

datatype code_read =
    SearchCodeEntities | GetCodeEntity | CodeNeighbors | CodeCallers | CodeCallees | CodeDependents | CodeDependencies | CodeResourceGraph
  | CodeFileImports | CodeCrossRepo | CodeShortestPath | CodeImportant | CodeStats | CodeAmbiguous | CodeExplain | CodeRelated
  | CodeHyperedges | CodeHyperedge | CodeSemanticMisses | CodeCommunities | CodeCommunity | CodeBridges

fun code_read_handler :: "codec \<Rightarrow> (string \<Rightarrow> semanticMissesRequest option) \<Rightarrow> 's CStore \<Rightarrow> code_read \<Rightarrow> 's cworld handler" where
  "code_read_handler C decode st SearchCodeEntities = handleSearchCodeEntities C st"
| "code_read_handler C decode st GetCodeEntity = handleGetCodeEntity C st"
| "code_read_handler C decode st CodeNeighbors = handleNeighbors C st"
| "code_read_handler C decode st CodeCallers = handleCallers C st"
| "code_read_handler C decode st CodeCallees = handleCallees C st"
| "code_read_handler C decode st CodeDependents = handleDependents C st"
| "code_read_handler C decode st CodeDependencies = handleDependencies C st"
| "code_read_handler C decode st CodeResourceGraph = handleResourceGraph C st"
| "code_read_handler C decode st CodeFileImports = handleFileImports C st"
| "code_read_handler C decode st CodeCrossRepo = handleCrossRepo C st"
| "code_read_handler C decode st CodeShortestPath = handleShortestPath C st"
| "code_read_handler C decode st CodeImportant = handleImportantEntities C st"
| "code_read_handler C decode st CodeStats = handleStats C st"
| "code_read_handler C decode st CodeAmbiguous = handleAmbiguousEdges C st"
| "code_read_handler C decode st CodeExplain = handleEntityExplain C st"
| "code_read_handler C decode st CodeRelated = handleRelated C st"
| "code_read_handler C decode st CodeHyperedges = handleHyperedges C st"
| "code_read_handler C decode st CodeHyperedge = handleHyperedge C st"
| "code_read_handler C decode st CodeSemanticMisses = handleSemanticMisses C decode st"
| "code_read_handler C decode st CodeCommunities = handleCommunities C st"
| "code_read_handler C decode st CodeCommunity = handleCommunity C st"
| "code_read_handler C decode st CodeBridges = handleBridges C st"

text \<open>
  What an endpoint may send with status 200.  The list endpoints send a list with a fixed cap; the
  others send one object (the entity with its edges, its explanation, a hyperedge with its members,
  the statistics) or a path, whose lists have no cap in the handlers.
\<close>

fun may_send :: "code_read \<Rightarrow> cg_payload \<Rightarrow> bool" where
  "may_send SearchCodeEntities p = (case p of P_entities xs \<Rightarrow> length xs \<le> 500 | _ \<Rightarrow> False)"
| "may_send CodeNeighbors p = (case p of P_nodes xs \<Rightarrow> length xs \<le> 5000 | _ \<Rightarrow> False)"
| "may_send CodeCallers p = (case p of P_nodes xs \<Rightarrow> length xs \<le> 5000 | _ \<Rightarrow> False)"
| "may_send CodeCallees p = (case p of P_nodes xs \<Rightarrow> length xs \<le> 5000 | _ \<Rightarrow> False)"
| "may_send CodeDependents p = (case p of P_nodes xs \<Rightarrow> length xs \<le> 5000 | _ \<Rightarrow> False)"
| "may_send CodeDependencies p = (case p of P_nodes xs \<Rightarrow> length xs \<le> 5000 | _ \<Rightarrow> False)"
| "may_send CodeResourceGraph p = (case p of P_nodes xs \<Rightarrow> length xs \<le> 5000 | _ \<Rightarrow> False)"
| "may_send CodeFileImports p = (case p of P_edges xs \<Rightarrow> length xs \<le> 500 | _ \<Rightarrow> False)"
| "may_send CodeCrossRepo p = (case p of P_links l \<Rightarrow> length (clConsumers l) \<le> 500 \<and> length (clProviders l) \<le> 500 | _ \<Rightarrow> False)"
| "may_send CodeAmbiguous p = (case p of P_edges xs \<Rightarrow> length xs \<le> 500 | _ \<Rightarrow> False)"
| "may_send CodeSemanticMisses p = (case p of P_misses xs \<Rightarrow> length xs \<le> 1000 | _ \<Rightarrow> False)"
| "may_send CodeImportant p = (case p of P_degrees xs \<Rightarrow> length xs \<le> 200 | _ \<Rightarrow> False)"
| "may_send CodeRelated p = (case p of P_related xs \<Rightarrow> length xs \<le> 200 | _ \<Rightarrow> False)"
| "may_send CodeHyperedges p = (case p of P_hyperedges xs \<Rightarrow> length xs \<le> 200 | _ \<Rightarrow> False)"
| "may_send CodeCommunities p = (case p of P_communities xs \<Rightarrow> length xs \<le> 200 | _ \<Rightarrow> False)"
| "may_send CodeCommunity p = (case p of P_entities xs \<Rightarrow> length xs \<le> 200 | _ \<Rightarrow> False)"
| "may_send CodeBridges p = (case p of P_bridges xs \<Rightarrow> length xs \<le> 200 | _ \<Rightarrow> False)"
| "may_send GetCodeEntity p = (case p of P_entity x \<Rightarrow> True | _ \<Rightarrow> False)"
| "may_send CodeShortestPath p = (case p of P_path x \<Rightarrow> True | _ \<Rightarrow> False)"
| "may_send CodeStats p = (case p of P_stats x \<Rightarrow> True | _ \<Rightarrow> False)"
| "may_send CodeExplain p = (case p of P_explain x \<Rightarrow> True | _ \<Rightarrow> False)"
| "may_send CodeHyperedge p = (case p of P_hyperedge x \<Rightarrow> True | _ \<Rightarrow> False)"

text \<open>
  A run that leaves the view \<open>graph\<close> alone and answers with one of the statuses of the service: a body
  only with status 200, the encoding of a value that satisfies \<open>P\<close>.
\<close>

definition answers :: "codec \<Rightarrow> (cg_payload \<Rightarrow> bool) \<Rightarrow> ('s \<Rightarrow> 'g) \<Rightarrow> ('s \<Rightarrow> response \<times> 's) \<Rightarrow> bool" where
  "answers C P graph h \<longleftrightarrow> (\<forall>s resp s'. h s = (resp, s') \<longrightarrow> graph s' = graph s
     \<and> status_of resp \<in> {200, 400, 404, 429, 499, 500, 502, 503}
     \<and> (status_of resp = 200 \<longrightarrow> (\<exists>p b. resp = Body 200 b \<and> cdMarshal C p = Some b \<and> P p)))"

lemma answers_param:
  assumes "\<And>resp. p = Inl resp \<Longrightarrow> status_of resp = 400" "\<And>x. p = Inr x \<Longrightarrow> answers C P graph (k x)"
  shows "answers C P graph (withParam p k)"
  using assms by (cases p) (auto simp: answers_def)

lemma answers_reply:
  assumes "reads graph m" "\<And>s x s'. m s = (Inr x, s') \<Longrightarrow> P (payload x)"
  shows "answers C P graph (reply r m (ok_json C payload))"
  unfolding answers_def
proof (intro allI impI)
  fix s resp s' assume h: "reply r m (ok_json C payload) s = (resp, s')"
  obtain x where m: "m s = (x, s')" using h by (auto simp: reply_def split: prod.splits sum.splits)
  have g: "graph s' = graph s" using readsD [OF assms(1) m] .
  show "graph s' = graph s \<and> status_of resp \<in> {200, 400, 404, 429, 499, 500, 502, 503}
     \<and> (status_of resp = 200 \<longrightarrow> (\<exists>p b. resp = Body 200 b \<and> cdMarshal C p = Some b \<and> P p))"
  proof (cases x)
    case (Inl e)
    then have "status_of resp = rsStatus (mapServiceError (hqID r) e)" using h m by (auto simp: reply_def service_error_def)
    moreover have "rsStatus (mapServiceError (hqID r) e) \<in> {400, 404, 429, 499, 500, 502, 503}"
      by (simp add: mapServiceError_def WriteError_def)
    ultimately show ?thesis using g by auto
  next
    case (Inr y)
    then have resp: "resp = ok_json C payload y" using h m by (auto simp: reply_def)
    show ?thesis
    proof (cases "cdMarshal C (payload y)")
      case None
      then show ?thesis using g resp by (simp add: ok_json_def WriteJSON_def WriteError_def)
    next
      case (Some b)
      then show ?thesis using g resp assms(2) [of s y s'] m Inr by (auto simp: ok_json_def WriteJSON_def)
    qed
  qed
qed

lemma answers_list:
  assumes "reads graph m" "at_most n m" "\<And>x. length x \<le> n \<Longrightarrow> P (payload x)"
  shows "answers C P graph (reply r m (ok_json C payload))"
  using assms(1) by (rule answers_reply) (use assms(2,3) in \<open>auto dest: at_mostD\<close>)

lemma answers_object:
  assumes "reads graph m" "\<And>x. P (payload x)"
  shows "answers C P graph (reply r m (ok_json C payload))"
  using assms(1) by (rule answers_reply) (simp add: assms(2))

lemma confidence_Inl: "confidenceFilter C r = Inl resp \<Longrightarrow> status_of resp = 400"
  "parseMinConfidence C r = Inl resp \<Longrightarrow> status_of resp = 400"
  by (auto simp: confidenceFilter_def parseMinConfidence_def Let_def split: sum.splits if_splits option.splits)

lemma direction_Inl: "direction_param r = Inl resp \<Longrightarrow> status_of resp = 400"
  by (auto simp: direction_param_def Let_def split: if_splits)

lemma misses_check_Inl: "semantic_misses_check r req = Inl resp \<Longrightarrow> status_of resp = 400"
  by (auto simp: semantic_misses_check_def split: if_splits)

lemmas param_400 = required_Inl required_Inl [of _ "''repo''", folded reqRepo_def] required_Inl [of _ "''id''", folded reqIDParam_def]
  parsePosInt_Inl parsePosInt_Inl [of _ "''limit''", folded limitParam_def] parsePosInt_Inl [of _ "''depth''", folded depthParam_def]
  confidence_Inl direction_Inl misses_check_Inl decode_limited_Inl

text \<open>The laws of the store that the endpoints rely on beyond those of the service.\<close>

locale code_queries = code_store +
  assumes entity_reads: "reads graph (soGetEntity st repo i)"
    and imports_reads: "reads graph (soFileImports st repo path limit)"
    and imports_limited: "at_most (nat limit) (soFileImports st repo path limit)"
    and cross_reads: "reads graph (soCrossRepo st repo i limit)"
    and cross_limited: "soCrossRepo st repo i limit s = (Inr l, s') \<Longrightarrow> length (clConsumers l) \<le> nat limit \<and> length (clProviders l) \<le> nat limit"
    and path_reads: "reads graph (soShortestPath st repo from1 to1 rels depth)"
    and ranked_reads: "reads graph (soImportantEntities st repo limit)"
    and ranked_limited: "at_most (nat limit) (soImportantEntities st repo limit)"
    and stats_reads: "reads graph (soStats st repo)"
    and explain_reads: "reads graph (soEntityExplain st repo i)"
    and misses_reads: "reads graph (soSemanticMisses st repo files)"
    and misses_limited: "at_most (length files) (soSemanticMisses st repo files)"
    and hyperedge_reads: "reads graph (soHyperedge st repo i)"
begin

lemma list_limit: "nat (clampListLimit n) \<le> 500"
  by (auto simp: clampListLimit_def defaultListLimit_def maxListLimit_def)

lemma walk_answers:
  "(\<And>xs. length xs \<le> 5000 \<Longrightarrow> P (P_nodes xs)) \<Longrightarrow> answers C P (graph \<circ> cwStore) (writeNodes C r (cs_Neighbors st repo i rels dir depth limit cf))"
  unfolding writeNodes_def by (rule answers_list [OF answers_read(2) answers_capped(2)])

lemma walk_handler_answers:
  assumes "\<And>repo i depth cf. \<exists>rels dir limit. walk repo i depth cf = cs_Neighbors st repo i rels dir depth limit cf"
    and "\<And>xs. length xs \<le> 5000 \<Longrightarrow> P (P_nodes xs)"
  shows "answers C P (graph \<circ> cwStore) (walk_handler C walk r)"
proof -
  have "answers C P (graph \<circ> cwStore) (writeNodes C r (walk repo i depth cf))" for repo i depth cf
    using assms(1) [of repo i depth cf] walk_answers [of P, OF assms(2)] by auto
  then show ?thesis unfolding walk_handler_def by (intro answers_param param_400)
qed

lemma walks_answer:
  "answers C (may_send CodeCallers) (graph \<circ> cwStore) (handleCallers C st r)"
  "answers C (may_send CodeCallees) (graph \<circ> cwStore) (handleCallees C st r)"
  "answers C (may_send CodeDependents) (graph \<circ> cwStore) (handleDependents C st r)"
  "answers C (may_send CodeDependencies) (graph \<circ> cwStore) (handleDependencies C st r)"
  "answers C (may_send CodeResourceGraph) (graph \<circ> cwStore) (handleResourceGraph C st r)"
  unfolding handleCallers_def handleCallees_def handleDependents_def handleDependencies_def handleResourceGraph_def
  by (rule walk_handler_answers; auto simp: cs_Callers_def cs_Callees_def cs_Dependents_def cs_Dependencies_def cs_ResourceGraph_def)+

end

context code_queries
begin

lemma cross_answers: "answers C (may_send CodeCrossRepo) (graph \<circ> cwStore) (reply r (cs_CrossRepo st repo i (clampListLimit limit)) (ok_json C P_links))"
proof (rule answers_reply)
  show "reads (graph \<circ> cwStore) (cs_CrossRepo st repo i (clampListLimit limit))"
    unfolding cs_CrossRepo_def by (intro observed_reads cross_reads)
  fix s l s' assume "cs_CrossRepo st repo i (clampListLimit limit) s = (Inr l, s')"
  then obtain t where "soCrossRepo st repo i (clampListLimit limit) (cwStore s) = (Inr l, t)"
    by (auto simp: cs_CrossRepo_def observed_def on_store_def split: prod.splits)
  from cross_limited [OF this] list_limit [of limit] show "may_send CodeCrossRepo (P_links l)" by auto
qed

lemma misses_answer:
  "length (smFiles req) \<le> 1000 \<Longrightarrow> answers C (may_send CodeSemanticMisses) (graph \<circ> cwStore) (reply r (cs_SemanticMisses st (smRepo req) (smFiles req)) (ok_json C P_misses))"
  unfolding cs_SemanticMisses_def
  by (rule answers_list [OF observed_reads [OF misses_reads] observed_at_most [OF at_most_mono [OF misses_limited]]]) simp_all

lemma important_answers:
  "answers C (may_send CodeImportant) (graph \<circ> cwStore) (reply r (if by1 \<noteq> '''' then cs_ImportantEntitiesBy st repo by1 limit else cs_ImportantEntities st repo limit) (ok_json C P_degrees))"
proof (cases "by1 = ''''")
  case True
  have "nat (cap_important limit) \<le> 200" using cap_limit_le [of maxImportantLimit defaultImportantLimit limit] by (simp add: maxImportantLimit_def)
  then have "answers C (may_send CodeImportant) (graph \<circ> cwStore) (reply r (cs_ImportantEntities st repo limit) (ok_json C P_degrees))"
    unfolding cs_ImportantEntities_def
    by (intro answers_list observed_reads ranked_reads observed_at_most at_most_mono [OF ranked_limited]) simp_all
  then show ?thesis using True by simp
next
  case False
  have "answers C (may_send CodeImportant) (graph \<circ> cwStore) (reply r (cs_ImportantEntitiesBy st repo by1 limit) (ok_json C P_degrees))"
    by (rule answers_list [OF answers_read(3) answers_capped(3)]) simp
  then show ?thesis using False by simp
qed

lemma imports_answer: "answers C (may_send CodeFileImports) (graph \<circ> cwStore) (reply r (cs_FileImports st repo path (clampListLimit limit)) (ok_json C P_edges))"
  unfolding cs_FileImports_def
  by (rule answers_list [OF observed_reads [OF imports_reads] observed_at_most [OF at_most_mono [OF imports_limited list_limit]]]) simp

lemma objects_answer:
  "answers C (may_send GetCodeEntity) (graph \<circ> cwStore) (reply r (cs_Entity st repo i) (ok_json C P_entity))"
  "answers C (may_send CodeShortestPath) (graph \<circ> cwStore) (reply r (cs_ShortestPath st repo from1 to1 rels depth) (ok_json C P_path))"
  "answers C (may_send CodeStats) (graph \<circ> cwStore) (reply r (cs_Stats st repo) (ok_json C P_stats))"
  "answers C (may_send CodeExplain) (graph \<circ> cwStore) (reply r (cs_EntityExplain st repo i) (ok_json C P_explain))"
  "answers C (may_send CodeHyperedge) (graph \<circ> cwStore) (reply r (cs_Hyperedge st repo i) (ok_json C P_hyperedge))"
  unfolding cs_Entity_def cs_ShortestPath_def cs_Stats_def cs_EntityExplain_def cs_Hyperedge_def
  by (rule answers_object; simp add: observed_reads entity_reads path_reads stats_reads explain_reads hyperedge_reads)+

lemmas lists_answer = answers_list [OF answers_read(1) answers_capped(1)] answers_list [OF answers_read(4) answers_capped(4)]
  answers_list [OF answers_read(5) answers_capped(5)] answers_list [OF answers_read(6) answers_capped(6)]
  answers_list [OF answers_read(7) answers_capped(7)] answers_list [OF answers_read(8) answers_capped(8)]
  answers_list [OF answers_read(9) answers_capped(9)]

lemma community_id_Inl: "(case Atoi s of None \<Rightarrow> Inl (bad_request r m) | Some n \<Rightarrow> Inr n) = Inl resp \<Longrightarrow> status_of resp = 400"
  by (auto split: option.splits)

lemma by_Inl: "(if b then Inl (bad_request r m) else Inr x) = Inl resp \<Longrightarrow> status_of resp = 400"
  by (auto split: if_splits)

lemma misses_Inr: "semantic_misses_check r req = Inr req' \<Longrightarrow> length (smFiles req') \<le> 1000"
  by (auto simp: semantic_misses_check_def maxSemanticMissesFiles_def split: if_splits)

lemma read_endpoints:
  "answers C (may_send ep) (graph \<circ> cwStore) (code_read_handler C decode st ep r)"
proof (cases ep)
  case CodeSemanticMisses
  then show ?thesis
    by (auto simp: handleSemanticMisses_def intro!: answers_param misses_answer dest: param_400 misses_Inr)
next
  case CodeImportant
  then show ?thesis
    by (auto simp: handleImportantEntities_def Let_def intro!: answers_param important_answers dest: param_400 by_Inl)
next
  case CodeCommunity
  then show ?thesis
    by (auto simp: handleCommunity_def intro!: answers_param lists_answer dest: param_400 community_id_Inl)
qed (auto simp: walks_answer handleSearchCodeEntities_def handleGetCodeEntity_def handleNeighbors_def handleFileImports_def handleCrossRepo_def
    handleShortestPath_def handleRelated_def handleHyperedges_def handleHyperedge_def handleCommunities_def handleBridges_def
    handleStats_def handleAmbiguousEdges_def handleEntityExplain_def
    intro!: answers_param walk_answers imports_answer cross_answers objects_answer lists_answer dest: param_400)

end

lemma reads_query_row: "reads tables (query_row q)"
  unfolding reads_def query_row_def mapErr_def db_call_def next_outcome_def by (auto split: prod.splits sum.splits list.splits option.splits)

lemma CG_misses_reads: "reads tables (CG_SemanticMisses repo files)"
  by (induction files) (auto intro!: reads_bind reads_query reads_return)

lemma CG_misses_limited: "at_most (length files) (CG_SemanticMisses repo files)"
proof (induction files)
  case (Cons f fs)
  then show ?case by (fastforce simp: at_most_def bindE_eq_Inr returnE_def)
qed (simp add: at_most_def returnE_def)

interpretation pgq: code_queries "PGStore G others ms" tables
proof (unfold_locales, goal_cases)
  case (5 repo i limit s l s')
  then show ?case by (auto simp: PGStore_def CG_CrossRepo_def queryCrossRefs_def bindE_eq_Inr returnE_def dest!: db_query_Inr)
qed (auto simp: PGStore_def CG_GetEntity_def queryEdges_def CG_FileImports_def CG_CrossRepo_def queryCrossRefs_def CG_ShortestPath_def
    CG_ImportantEntities_def CG_Stats_def CG_EntityExplain_def queryNeighborEntities_def CG_misses_reads CG_misses_limited CG_Hyperedge_def
    hyperedgeMembers_def Let_def intro!: reads_bind reads_query reads_return reads_query_row at_most_query split: option.splits)

section \<open>Properties\<close>

text \<open>
  C35: every read endpoint of the code graph, for any query string or body, any content of the database
  and any failure pattern, leaves the graph as it is and answers with one of eight statuses.  With
  status 200 it sends the encoding of the kind of value that is the endpoint's own, and the seventeen
  list endpoints a list within the fixed cap of the endpoint: 5000 nodes of a walk, 1000 cache misses, 500 search results,
  edges or cross-repository links on either side, 200 of the rest.  The lists inside an entity, an explanation or a hyperedge
  have no cap, and neither has a path.
\<close>

theorem code_reads_capped:
  assumes "code_read_handler C decode (PGStore G others ms) ep r w = (resp, w')"
  shows "tables (cwStore w') = tables (cwStore w)
    \<and> status_of resp \<in> {200, 400, 404, 429, 499, 500, 502, 503}
    \<and> (status_of resp = 200 \<longrightarrow> (\<exists>p b. resp = Body 200 b \<and> cdMarshal C p = Some b \<and> may_send ep p))"
  using pgq.read_endpoints [of C ep decode, unfolded answers_def, rule_format, OF assms] by simp

definition demo_codec :: codec where
  "demo_codec = \<lparr>cdMarshal = (\<lambda>p. Some (case p of P_nodes xs \<Rightarrow> dec (length xs) | _ \<Rightarrow> ''{}'')), cdParseFloat = (\<lambda>s. None)\<rparr>"

definition get_request :: "(string \<times> string) list \<Rightarrow> http_request" where
  "get_request q = \<lparr>hqMethod = ''GET'', hqHeader = [], hqPathID = '''', hqQuery = q, hqBody = '''', hqID = ''id'', hqSubject = None\<rparr>"

definition neighbors_request :: http_request where
  "neighbors_request = get_request [(''repo'', ''r''), (''id'', ''a''), (''relation'', ''calls,imports''), (''depth'', ''2'')]"

definition code_world :: "graph_conn cworld" where
  "code_world = \<lparr>cwStore = ring, cwMetrics = None\<rparr>"

theorem code_reads_capped_witness:
  "\<exists>resp w'. code_read_handler demo_codec (\<lambda>_. None) (PGStore list_gonum (\<lambda>_. []) 0) CodeNeighbors neighbors_request code_world = (resp, w')
     \<and> tables (cwStore w') = tables ring"
proof -
  obtain resp w' where h: "code_read_handler demo_codec (\<lambda>_. None) (PGStore list_gonum (\<lambda>_. []) 0) CodeNeighbors neighbors_request code_world = (resp, w')"
    by fastforce
  from code_reads_capped [OF h] h show ?thesis by (auto simp: code_world_def)
qed







end
