(* ===== verification/Http_Router.thy ===== *)
theory Http_Router
  imports Http_Middleware Memory_Handlers Codegraph_Handlers
begin

text \<open>
  The router (\<^verbatim>\<open>internal/httpapi/router.go\<close>): the table of routes that \<^verbatim>\<open>NewRouter\<close> and \<^verbatim>\<open>mountV1\<close> mount, the
  handler of each, and the middleware around them.  How chi picks a route for a path is a parameter;
  the verdict of the admission limiter on a bulk request is one too (\<open>Http_Admission\<close> models it).
\<close>

section \<open>Routes\<close>

datatype endpoint =
    Healthz | Readyz | MetricsPage
  | PostMemory | FetchMemory | RemoveMemory | BulkIngest | FetchJob
  | PostQuery | PostQueryData | PostQueryDescribe
  | FindEntities | FetchEntity | ChangeEntity | EdgeList | AddEdge | RemoveEdge
  | PostCodeGraph | CodeRead code_read

definition classMemoriesBulk :: string where "classMemoriesBulk = ''memories_bulk''"
definition classCodeGraphBulk :: string where "classCodeGraphBulk = ''code_graph_bulk''"

record route =
  roMethod :: string
  roPattern :: string
  roClass :: "string option"
  roEndpoint :: endpoint

definition on :: "string \<Rightarrow> string \<Rightarrow> endpoint \<Rightarrow> route" where
  "on m p e = \<lparr>roMethod = m, roPattern = p, roClass = None, roEndpoint = e\<rparr>"

definition limited :: "string \<Rightarrow> route \<Rightarrow> route" where
  "limited c r = r\<lparr>roClass := Some c\<rparr>"

text \<open>\<^verbatim>\<open>r.Handle("/metrics", ..)\<close> matches every method.\<close>

definition open_routes :: "route list" where
  "open_routes = [on ''GET'' ''/healthz'' Healthz, on ''GET'' ''/readyz'' Readyz, on ''*'' ''/metrics'' MetricsPage]"

definition ingest_routes :: "route list" where
  "ingest_routes = [limited classMemoriesBulk (on ''POST'' ''/memories:bulk'' BulkIngest), on ''GET'' ''/ingest-jobs/{id}'' FetchJob]"

definition code_routes :: "route list" where
  "code_routes =
     limited classCodeGraphBulk (on ''POST'' ''/code-graph:bulk'' PostCodeGraph)
     # map (\<lambda>(p, e). on ''GET'' p (CodeRead e))
      [(''/code/entities'', SearchCodeEntities), (''/code/entity'', GetCodeEntity), (''/code/neighbors'', CodeNeighbors),
       (''/code/callers'', CodeCallers), (''/code/callees'', CodeCallees), (''/code/dependents'', CodeDependents),
       (''/code/dependencies'', CodeDependencies), (''/code/resource-graph'', CodeResourceGraph), (''/code/file-imports'', CodeFileImports),
       (''/code/cross-repo'', CodeCrossRepo), (''/code-graph/path'', CodeShortestPath), (''/code-graph/important'', CodeImportant),
       (''/code-graph/stats'', CodeStats), (''/code-graph/ambiguous'', CodeAmbiguous), (''/code-graph/explain'', CodeExplain),
       (''/code-graph/related'', CodeRelated), (''/code-graph/hyperedges'', CodeHyperedges), (''/code-graph/hyperedge'', CodeHyperedge)]
     @ on ''POST'' ''/code-graph/semantic-misses'' (CodeRead CodeSemanticMisses)
     # map (\<lambda>(p, e). on ''GET'' p (CodeRead e))
      [(''/code-graph/communities'', CodeCommunities), (''/code-graph/community'', CodeCommunity), (''/code-graph/bridges'', CodeBridges)]"

definition mountV1 :: "bool \<Rightarrow> bool \<Rightarrow> route list" where
  "mountV1 has_ingest has_codegraph =
     [on ''POST'' ''/memories'' PostMemory, on ''GET'' ''/memories/{id}'' FetchMemory, on ''DELETE'' ''/memories/{id}'' RemoveMemory]
     @ (if has_ingest then ingest_routes else [])
     @ [on ''POST'' ''/queries'' PostQuery, on ''POST'' ''/queries:data'' PostQueryData, on ''POST'' ''/queries:describe'' PostQueryDescribe,
        on ''GET'' ''/entities'' FindEntities, on ''GET'' ''/entities/{id}'' FetchEntity, on ''PATCH'' ''/entities/{id}'' ChangeEntity,
        on ''GET'' ''/edges'' EdgeList, on ''POST'' ''/edges'' AddEdge, on ''DELETE'' ''/edges/{id}'' RemoveEdge]
     @ (if has_codegraph then code_routes else [])"

section \<open>The server\<close>

text \<open>What the handlers use besides their state; \<open>cfReady\<close> is what the readiness check answers.\<close>

record ('l, 't, 's, 'j, 'c) api_config =
  cfService :: "('l, 't, 's) Service"
  cfEnqueuer :: "'j enqueuer"
  cfStore :: "'c CStore"
  cfVerify :: "Verifier option"
  cfReady :: "err option"
  cfMemCodec :: mem_codec
  cfCodeCodec :: codec
  cfDecodePush :: "string \<Rightarrow> GraphPush option"
  cfDecodeMisses :: "string \<Rightarrow> semanticMissesRequest option"
  cfParseTime :: "string \<Rightarrow> Time option"
  cfParseNano :: "string \<Rightarrow> Time option"
  cfHasIngest :: bool
  cfHasCodeGraph :: bool
  cfMetricsPage :: "wop list \<times> bool"
  cfCtx :: ctx
  cfNow :: Time

record ('l, 't, 's, 'j, 'c) api_state =
  stIngest :: "('l, 't, 's, 'j) ingest_world"
  stCode :: "'c cworld"

definition on_memory :: "('l, 't, 's) world handler \<Rightarrow> ('l, 't, 's, 'j, 'c) api_state handler" where
  "on_memory h r s = (case h r (iwMemory (stIngest s)) of (resp, m) \<Rightarrow> (resp, s\<lparr>stIngest := (stIngest s)\<lparr>iwMemory := m\<rparr>\<rparr>))"

definition on_ingest :: "('l, 't, 's, 'j) ingest_world handler \<Rightarrow> ('l, 't, 's, 'j, 'c) api_state handler" where
  "on_ingest h r s = (case h r (stIngest s) of (resp, i) \<Rightarrow> (resp, s\<lparr>stIngest := i\<rparr>))"

definition on_pool :: "'j pool handler \<Rightarrow> ('l, 't, 's, 'j, 'c) api_state handler" where
  "on_pool h r s = (case h r (iwPool (stIngest s)) of (resp, p) \<Rightarrow> (resp, s\<lparr>stIngest := (stIngest s)\<lparr>iwPool := p\<rparr>\<rparr>))"

definition on_code :: "'c cworld handler \<Rightarrow> ('l, 't, 's, 'j, 'c) api_state handler" where
  "on_code h r s = (case h r (stCode s) of (resp, c) \<Rightarrow> (resp, s\<lparr>stCode := c\<rparr>))"

definition handleReadyz :: "err option \<Rightarrow> 's handler" where
  "handleReadyz ready r s = (case ready of
     Some e \<Rightarrow> (Failure ((WriteError 503 ''not ready'' (hqID r))\<lparr>rsLog := Some LevelWarn\<rparr>), s)
   | None \<Rightarrow> (Bare 200, s))"

fun api_handler :: "('l, 't, 's, 'j, 'c) api_config \<Rightarrow> endpoint \<Rightarrow> ('l, 't, 's, 'j, 'c) api_state handler" where
  "api_handler F Healthz r s = (Bare 200, s)"
| "api_handler F Readyz r s = handleReadyz (cfReady F) r s"
| "api_handler F MetricsPage r s = (Bare 200, s)"
| "api_handler F PostMemory r s = on_memory (handlePostMemory (cfMemCodec F) (cfService F) (cfCtx F) (cfNow F)) r s"
| "api_handler F FetchMemory r s = on_memory (handleGetMemory (cfMemCodec F) (cfParseTime F) (cfParseNano F) (cfService F) (cfCtx F)) r s"
| "api_handler F RemoveMemory r s = on_memory (handleDeleteMemory (cfService F) (cfCtx F)) r s"
| "api_handler F BulkIngest r s = on_ingest (handleBulkIngest (cfMemCodec F) (cfService F) (cfEnqueuer F) (cfCtx F) (cfNow F)) r s"
| "api_handler F FetchJob r s = on_pool (handleGetJob (cfMemCodec F) (cfEnqueuer F)) r s"
| "api_handler F PostQuery r s = on_memory (handlePostQuery (cfMemCodec F) (cfService F) (cfCtx F)) r s"
| "api_handler F PostQueryData r s = on_memory (handlePostQueryData (cfMemCodec F) (cfService F) (cfCtx F)) r s"
| "api_handler F PostQueryDescribe r s = on_memory (handlePostQueryDescribe (cfMemCodec F) (cfService F) (cfCtx F)) r s"
| "api_handler F FindEntities r s = on_memory (handleSearchEntities (cfMemCodec F) (cfService F) (cfCtx F)) r s"
| "api_handler F FetchEntity r s = on_memory (handleGetEntity (cfMemCodec F) (cfService F) (cfCtx F)) r s"
| "api_handler F ChangeEntity r s = on_memory (handlePatchEntity (cfMemCodec F) (cfService F) (cfCtx F)) r s"
| "api_handler F EdgeList r s = on_memory (handleListEdges (cfMemCodec F) (cfService F) (cfCtx F)) r s"
| "api_handler F AddEdge r s = on_memory (handleCreateEdge (cfMemCodec F) (cfService F) (cfCtx F)) r s"
| "api_handler F RemoveEdge r s = on_memory (handleDeleteEdge (cfService F) (cfCtx F)) r s"
| "api_handler F PostCodeGraph r s = on_code (handlePostCodeGraph (cfCodeCodec F) (cfDecodePush F) (cfStore F) (cfNow F)) r s"
| "api_handler F (CodeRead e) r s = on_code (code_read_handler (cfCodeCodec F) (cfDecodeMisses F) (cfStore F) e) r s"

text \<open>
  The handler of an endpoint as the calls it makes on its writer.  The metrics page is written by the
  Prometheus library, which may panic.
\<close>

definition endpoint_inner :: "('l, 't, 's, 'j, 'c) api_config \<Rightarrow> endpoint \<Rightarrow> ('l, 't, 's, 'j, 'c) api_state inner" where
  "endpoint_inner F e r s = (case api_handler F e r s of
     (resp, s') \<Rightarrow> (if e = MetricsPage then cfMetricsPage F else (response_ops resp, False), s'))"

text \<open>The admission limiter of a bulk route either lets the request through or has answered it.\<close>

definition limited_inner :: "(string \<Rightarrow> http_request \<Rightarrow> err_response option) \<Rightarrow> string option \<Rightarrow> 'a inner \<Rightarrow> 'a inner" where
  "limited_inner limiter class1 h r s = (case class1 of
     None \<Rightarrow> h r s
   | Some c \<Rightarrow> (case limiter c r of None \<Rightarrow> h r s | Some resp \<Rightarrow> ((response_ops (Failure resp), False), s)))"

text \<open>
  \<^verbatim>\<open>NewRouter\<close> inside its middleware: \<open>chi\<close> gives the route of a request and whether it is one of the
  group behind \<^verbatim>\<open>cfg.Verify\<close>, or the answer to a request that matches no route.
\<close>

definition routes :: "('l, 't, 's, 'j, 'c) api_config \<Rightarrow> route list" where
  "routes F = open_routes @ mountV1 (cfHasIngest F) (cfHasCodeGraph F)"

definition router_inner ::
  "('l, 't, 's, 'j, 'c) api_config \<Rightarrow> (string \<Rightarrow> http_request \<Rightarrow> err_response option)
    \<Rightarrow> (route list \<Rightarrow> http_request \<Rightarrow> wop list + route) \<Rightarrow> ('l, 't, 's, 'j, 'c) api_state authed inner" where
  "router_inner F limiter chi r a = (case chi (routes F) r of
     Inl ops \<Rightarrow> ((ops, False), a)
   | Inr ro \<Rightarrow>
       (let h = limited_inner limiter (roClass ro) (endpoint_inner F (roEndpoint ro)) in
        if ro \<in> set open_routes then on_inner h r a
        else case cfVerify F of
          None \<Rightarrow> on_inner h r a
        | Some v \<Rightarrow> auth_middleware v h r a))"

definition routeLabel :: "('l, 't, 's, 'j, 'c) api_config \<Rightarrow> (route list \<Rightarrow> http_request \<Rightarrow> wop list + route) \<Rightarrow> http_request \<Rightarrow> string" where
  "routeLabel F chi r = (case chi (routes F) r of Inl _ \<Rightarrow> ''unmatched'' | Inr ro \<Rightarrow> roPattern ro)"

definition NewRouter ::
  "('l, 't, 's, 'j, 'c) api_config \<Rightarrow> (string \<Rightarrow> http_request \<Rightarrow> err_response option)
    \<Rightarrow> (route list \<Rightarrow> http_request \<Rightarrow> wop list + route) \<Rightarrow> nat list option \<Rightarrow> http_request
    \<Rightarrow> ('l, 't, 's, 'j, 'c) api_state authed http_server \<Rightarrow> bool \<times> http_conn \<times> ('l, 't, 's, 'j, 'c) api_state authed http_server" where
  "NewRouter F limiter chi rand r s = serve_request (routeLabel F chi) rand (router_inner F limiter chi) r s"

section \<open>Authentication of the routes\<close>

text \<open>Whom a request's bearer token names, if it names anyone.\<close>

definition token_subject :: "Verifier \<Rightarrow> http_request \<Rightarrow> string option" where
  "token_subject v r = (case bearerToken r of
     (raw, _) \<Rightarrow> if raw = '''' then None else (case Verify v raw of Inl _ \<Rightarrow> None | Inr c \<Rightarrow> Some (caSubject c)))"

lemma Verify_subject: "Verify v raw = Inr c \<Longrightarrow> caSubject c \<noteq> ''''"
  by (auto simp: Verify_def Let_def split: sum.splits if_splits)

lemma bearerToken_id [simp]: "bearerToken (r\<lparr>hqID := i\<rparr>) = bearerToken r"
  by (simp add: bearerToken_def)

lemma response_ops_keep: "keeps_header ''X-Request-Id'' (response_ops resp)"
  by (cases resp) (auto simp: keeps_header_def split: option.splits)

lemma unauthorized_keeps: "keeps_header ''X-Request-Id'' (unauthorized msg)"
  by (simp add: keeps_header_def unauthorized_def http_Error_def)

lemma endpoint_keeps: "e \<noteq> MetricsPage \<Longrightarrow> keeps_header ''X-Request-Id'' (fst (fst (limited_inner limiter c (endpoint_inner F e) r s)))"
  by (simp add: limited_inner_def endpoint_inner_def response_ops_keep del: response_ops.simps split: option.split prod.split)

lemma on_inner_result: "fst (on_inner h r a) = fst (h r (atInner a))" "atInner (snd (on_inner h r a)) = snd (h r (atInner a))"
  by (simp_all add: on_inner_def split: prod.split)

lemma guarded_route:
  assumes "ro \<in> set (routes F)" "roPattern ro \<notin> {''/healthz'', ''/readyz'', ''/metrics''}"
  shows "ro \<notin> set open_routes" "roEndpoint ro \<noteq> MetricsPage"
proof -
  show "ro \<notin> set open_routes" using assms(2) by (auto simp: open_routes_def on_def)
  then have "ro \<in> set (mountV1 (cfHasIngest F) (cfHasCodeGraph F))" using assms(1) by (simp add: routes_def)
  then show "roEndpoint ro \<noteq> MetricsPage"
    by (auto simp: mountV1_def ingest_routes_def code_routes_def on_def limited_def split: if_splits)
qed

lemma auth_cases:
  "(token_subject v r = None \<and> (\<exists>msg reason. auth_middleware v h r a = ((unauthorized msg, False), inc_attempt reason a)))
   \<or> (\<exists>sub. token_subject v r = Some sub \<and> sub \<noteq> ''''
        \<and> auth_middleware v h r a = on_inner h (r\<lparr>hqSubject := Some sub\<rparr>) (inc_attempt ''success'' a))"
  by (auto simp: token_subject_def auth_middleware_def Verify_subject split: prod.split sum.split)

lemma unauthorized_sent:
  "hcSent w = None \<Longrightarrow> \<exists>h. hcSent (finish_conn (settled i (unauthorized msg) False w)) = Some (401, h) \<and> h ''WWW-Authenticate'' = Some wwwAuthenticate"
  by (simp add: unauthorized_def http_Error_def settled_def finish_conn_def conn_WriteHeader_def conn_Write_def Let_def
      new_recorder_def mark_recorder_def informational_def)

lemma router_guarded:
  assumes "cfVerify F = Some v" "chi (routes F) r = Inr ro" "ro \<in> set (routes F)"
    "roPattern ro \<notin> {''/healthz'', ''/readyz'', ''/metrics''}"
  shows "router_inner F limiter chi r a = auth_middleware v (limited_inner limiter (roClass ro) (endpoint_inner F (roEndpoint ro))) r a"
  using assms guarded_route [OF assms(3,4)] by (simp add: router_inner_def Let_def)

lemma router_guarded_keeps:
  assumes "cfVerify F = Some v" "chi (routes F) r = Inr ro" "ro \<in> set (routes F)"
    "roPattern ro \<notin> {''/healthz'', ''/readyz'', ''/metrics''}"
  shows "keeps_header ''X-Request-Id'' (fst (fst (router_inner F limiter chi r a)))"
  unfolding router_guarded [where chi = chi and r = r, OF assms]
  using auth_cases [of v r "limited_inner limiter (roClass ro) (endpoint_inner F (roEndpoint ro))" a]
    endpoint_keeps [OF guarded_route(2) [OF assms(3,4)]]
  by (auto simp: unauthorized_keeps on_inner_result)

text \<open>
  C10: with a verifier configured, a request for any route but the three probes is answered 401 with a
  challenge, and leaves every service untouched, unless it carries a bearer token that the OIDC
  library accepts and whose subject is not empty; then the route's handler (behind its admission
  limiter) runs, and it sees that subject.
\<close>

theorem api_needs_token:
  assumes "cfVerify F = Some v" and "\<And>i. chi (routes F) (r\<lparr>hqID := i\<rparr>) = Inr ro" and "ro \<in> set (routes F)"
    and "roPattern ro \<notin> {''/healthz'', ''/readyz'', ''/metrics''}"
    and "NewRouter F limiter chi rand r s = (p, w, s')"
  shows "case token_subject v r of
      None \<Rightarrow> (\<exists>h. hcSent w = Some (401, h) \<and> h ''WWW-Authenticate'' = Some wwwAuthenticate) \<and> atInner (svInner s') = atInner (svInner s)
    | Some sub \<Rightarrow> sub \<noteq> '''' \<and> (\<exists>ident ops panics.
        limited_inner limiter (roClass ro) (endpoint_inner F (roEndpoint ro)) (r\<lparr>hqID := ident, hqSubject := Some sub\<rparr>) (atInner (svInner s))
          = ((ops, panics), atInner (svInner s'))
        \<and> map_option fst (hcSent w) = Some (case first_status ops of Some c \<Rightarrow> c | None \<Rightarrow> if panics then 500 else 200))"
proof -
  let ?h = "limited_inner limiter (roClass ro) (endpoint_inner F (roEndpoint ro))"
  note guarded = router_guarded [where chi = chi and r = "r\<lparr>hqID := i\<rparr>" and limiter = limiter for i, OF assms(1) assms(2) assms(3,4)]
  have keeps: "keeps_header ''X-Request-Id'' (fst (fst (router_inner F limiter chi (r\<lparr>hqID := i\<rparr>) (svInner s))))" for i
    using assms by (intro router_guarded_keeps)
  obtain ident ops panics status header where run:
    "auth_middleware v ?h (r\<lparr>hqID := ident\<rparr>) (svInner s) = ((ops, panics), svInner s')"
    "hcSent w = Some (status, header)" "status = (case first_status ops of Some c \<Rightarrow> c | None \<Rightarrow> if panics then 500 else 200)"
    "w = finish_conn (settled ident ops panics (new_conn\<lparr>hcHeader := [''X-Request-Id'' \<mapsto> ident]\<rparr>))"
    using served [OF keeps assms(5) [unfolded NewRouter_def]] unfolding guarded by blast
  have subject: "token_subject v (r\<lparr>hqID := ident\<rparr>) = token_subject v r" by (simp add: token_subject_def)
  show ?thesis
  proof (cases "token_subject v r")
    case None
    then obtain msg reason where "ops = unauthorized msg" "\<not> panics" "svInner s' = inc_attempt reason (svInner s)"
      using auth_cases [of v "r\<lparr>hqID := ident\<rparr>" ?h "svInner s"] run(1) subject by auto
    then show ?thesis using None run(4) unauthorized_sent [of "new_conn\<lparr>hcHeader := [''X-Request-Id'' \<mapsto> ident]\<rparr>" ident msg]
      by (simp add: inc_attempt_def new_conn_def)
  next
    case (Some sub)
    then have "sub \<noteq> ''''" "on_inner ?h (r\<lparr>hqID := ident, hqSubject := Some sub\<rparr>) (inc_attempt ''success'' (svInner s)) = ((ops, panics), svInner s')"
      using auth_cases [of v "r\<lparr>hqID := ident\<rparr>" ?h "svInner s"] run(1) subject by auto
    then show ?thesis using Some run(2,3)
        on_inner_result [of ?h "r\<lparr>hqID := ident, hqSubject := Some sub\<rparr>" "inc_attempt ''success'' (svInner s)"]
      by (auto simp: inc_attempt_def prod_eq_iff intro!: exI [of _ ident] exI [of _ ops] exI [of _ panics])
  qed
qed

text \<open>A token the library refuses, on \<^verbatim>\<open>POST /memories\<close>, whatever the rest of the server is.\<close>

theorem api_needs_token_witness:
  "\<forall>F limiter s. case NewRouter (F\<lparr>cfVerify := Some (\<lambda>_. Inl (Opaque ''expired''))\<rparr>) limiter (\<lambda>_ _. Inr (on ''POST'' ''/memories'' PostMemory)) None
      \<lparr>hqMethod = ''POST'', hqHeader = [(''Authorization'', ''Bearer abc'')], hqPathID = '''', hqQuery = [], hqBody = ''{}'', hqID = '''', hqSubject = None\<rparr> s
    of (p, w, s') \<Rightarrow> map_option fst (hcSent w) = Some 401 \<and> atInner (svInner s') = atInner (svInner s)"
proof (intro allI, goal_cases)
  case (1 F limiter s)
  let ?v = "\<lambda>_. Inl (Opaque ''expired'')" and ?ro = "on ''POST'' ''/memories'' PostMemory"
  let ?F = "F\<lparr>cfVerify := Some ?v\<rparr>" and ?r = "\<lparr>hqMethod = ''POST'', hqHeader = [(''Authorization'', ''Bearer abc'')], hqPathID = '''', hqQuery = [],
    hqBody = ''{}'', hqID = '''', hqSubject = None\<rparr>"
  obtain p w s' where run: "NewRouter ?F limiter (\<lambda>_ _. Inr ?ro) None ?r s = (p, w, s')" by (metis prod.exhaust)
  have "token_subject ?v ?r = None" by (auto simp: token_subject_def Verify_def split: prod.split)
  with api_needs_token [of ?F ?v "\<lambda>_ _. Inr ?ro" ?r ?ro limiter None s p w s'] run show ?case
    by (auto simp: routes_def mountV1_def on_def)
qed

end
