(* ===== verification/App_Wiring.thy ===== *)
theory App_Wiring
  imports App_Startup Analytics_Worker Http_Admission Http_Router
begin

text \<open>
  How the service is put together and taken apart (\<^verbatim>\<open>cmd/tatara-memory/app.go\<close>, \<^verbatim>\<open>serve.go\<close> and \<^verbatim>\<open>main.go\<close>): the session
  parameters of the database connections, the parts \<^verbatim>\<open>newAppWithDeps\<close> builds from the configuration, and
  the order of the shutdown.  The database driver, the OIDC discovery and the listener are parameters.
\<close>

section \<open>Database sessions\<close>

text \<open>\<^verbatim>\<open>Duration.Milliseconds\<close> rounds towards zero.\<close>

definition pgTimeoutMillis :: "int \<Rightarrow> string" where
  "pgTimeoutMillis d = dec_int (if d < 0 then - (- d div 1000000) else d div 1000000)"

definition set_param :: "string \<Rightarrow> int \<Rightarrow> (string \<rightharpoonup> string) \<Rightarrow> (string \<rightharpoonup> string)" where
  "set_param key d params = (if d > 0 \<and> params key = None then params(key \<mapsto> pgTimeoutMillis d) else params)"

definition pgConnConfig :: "(string \<Rightarrow> err + (string \<rightharpoonup> string)) \<Rightarrow> string \<Rightarrow> config \<Rightarrow> err + (string \<rightharpoonup> string)" where
  "pgConnConfig ParseConfig dsn cfg = (case ParseConfig dsn of
     Inl e \<Rightarrow> Inl (Wrap ''parse pg dsn'' e)
   | Inr params \<Rightarrow> Inr (set_param ''lock_timeout'' (PGLockTimeout cfg)
       (set_param ''idle_in_transaction_session_timeout'' (PGIdleInTxTimeout cfg)
       (set_param ''statement_timeout'' (PGStatementTimeout cfg) params))))"

text \<open>The pool of connections as \<^verbatim>\<open>database/sql\<close> keeps its settings; \<open>None\<close> is the library's default.\<close>

record sql_db =
  dbParams :: "string \<rightharpoonup> string"
  dbMaxOpen :: "int option"
  dbMaxIdle :: "int option"
  dbMaxLifetime :: int
  dbMaxIdleTime :: int

definition openDB :: "(string \<Rightarrow> err + (string \<rightharpoonup> string)) \<Rightarrow> string \<Rightarrow> config \<Rightarrow> err + sql_db" where
  "openDB ParseConfig dsn cfg = (case pgConnConfig ParseConfig dsn cfg of
     Inl e \<Rightarrow> Inl e
   | Inr params \<Rightarrow> Inr \<lparr>dbParams = params, dbMaxOpen = None, dbMaxIdle = None, dbMaxLifetime = 0, dbMaxIdleTime = 0\<rparr>)"

section \<open>Building the service\<close>

datatype log_level = LevelDebug | LevelInfo | LevelWarning | LevelErr

definition buildObs :: "config \<Rightarrow> log_level" where
  "buildObs cfg =
     (if LogLevel cfg = ''debug'' then LevelDebug
      else if LogLevel cfg = ''warn'' then LevelWarning
      else if LogLevel cfg = ''error'' then LevelErr
      else LevelInfo)"

record 's app =
  apLevel :: log_level
  apDB :: sql_db
  apPool :: "'s pool"
  apItemTimeout :: int
  apCreateJobTimeout :: int
  apPurgeBudget :: int
  apAnalytics :: AnalyticsWorker
  apVerify :: Verifier
  apMemoriesBulk :: AdmissionConfig
  apCodeGraphBulk :: AdmissionConfig
  apAddr :: string
  apWriteTimeout :: int
  apGate :: startupGate
  apWaitTimeout :: int
  apWaitInterval :: int

definition pool_limits :: "config \<Rightarrow> sql_db \<Rightarrow> sql_db" where
  "pool_limits cfg db = db\<lparr>
     dbMaxOpen := (if DBMaxOpenConns cfg > 0 then Some (DBMaxOpenConns cfg) else dbMaxOpen db),
     dbMaxIdle := (if DBMaxIdleConns cfg > 0 then Some (DBMaxIdleConns cfg) else dbMaxIdle db),
     dbMaxLifetime := DBConnMaxLifetime cfg, dbMaxIdleTime := DBConnMaxIdleTime cfg\<rparr>"

definition newAppWithDeps :: "(string \<Rightarrow> err + sql_db) \<Rightarrow> (string \<Rightarrow> err + (string \<Rightarrow> Verifier)) \<Rightarrow> int \<Rightarrow> 's \<Rightarrow> config \<Rightarrow> err + 's app" where
  "newAppWithDeps opendb discover gomaxprocs store cfg =
     andThen (opendb (PGDSN cfg)) (\<lambda>db.
     if LightRAGBaseURL cfg = '''' then Inl (Opaque ''lightrag: BaseURL is required'')
     else andThen (NewVerifier discover \<lparr>auIssuer = OIDCIssuer cfg, auAudience = OIDCAudience cfg\<rparr>) (\<lambda>verifier.
     Inr \<lparr>apLevel = buildObs cfg, apDB = pool_limits cfg db,
       apPool = Start (newPool store (WorkerPoolSize cfg) 256 True), apItemTimeout = IngestItemTimeout cfg,
       apCreateJobTimeout = IngestCreateJobTimeout cfg, apPurgeBudget = MemoryPurgeBudget cfg,
       apAnalytics = NewAnalyticsWorker gomaxprocs
         \<lparr>awInterval = 0, awDebounceSecs = 0, awBetweennessMaxNodes = BetweennessMaxNodes cfg,
          awRecomputeTimeout = AnalyticsRecomputeTimeout cfg, awMaxConcurrency = AnalyticsMaxConcurrency cfg\<rparr>,
       apVerify = verifier,
       apMemoriesBulk = \<lparr>acClass = classMemoriesBulk, acMaxInFlight = MemoriesBulkMaxInFlight cfg, acWait = AdmissionWait cfg,
         acRetryAfter = AdmissionRetryAfter cfg\<rparr>,
       apCodeGraphBulk = \<lparr>acClass = classCodeGraphBulk, acMaxInFlight = CodeGraphBulkMaxInFlight cfg, acWait = AdmissionWait cfg,
         acRetryAfter = AdmissionRetryAfter cfg\<rparr>,
       apAddr = HTTPAddr cfg, apWriteTimeout = HTTPWriteTimeout cfg, apGate = new_gate,
       apWaitTimeout = DBWaitTimeout cfg, apWaitInterval = DBWaitInterval cfg\<rparr>))"

definition newApp :: "(string \<Rightarrow> err + (string \<rightharpoonup> string)) \<Rightarrow> (string \<Rightarrow> err + (string \<Rightarrow> Verifier)) \<Rightarrow> int \<Rightarrow> 's \<Rightarrow> config \<Rightarrow> err + 's app" where
  "newApp ParseConfig discover gomaxprocs store cfg =
     newAppWithDeps (\<lambda>dsn. openDB ParseConfig dsn cfg) discover gomaxprocs store cfg"

section \<open>Shutting down\<close>

datatype shutdown_step =
    CancelAnalytics | CancelReaper | CancelStartup | AwaitStartup | StopServer | StopPool | CloseDB

text \<open>
  The parts that exist (a field may be nil), and what the two calls that can fail answer.  The steps
  are what shutdown does, in order; the errors are those it joins.
\<close>

definition shutdown :: "(shutdown_step \<Rightarrow> bool) \<Rightarrow> err option \<Rightarrow> err option \<Rightarrow> shutdown_step list \<times> err list" where
  "shutdown has server_err close_err =
     (filter has [CancelAnalytics, CancelReaper, CancelStartup, AwaitStartup, StopServer, StopPool, CloseDB],
      (if has StopServer then (case server_err of None \<Rightarrow> [] | Some e \<Rightarrow> [Wrap ''server shutdown'' e]) else [])
      @ (if has CloseDB then (case close_err of None \<Rightarrow> [] | Some e \<Rightarrow> [Wrap ''db close'' e]) else []))"

text \<open>\<^verbatim>\<open>serve\<close>: a closed server is no error.\<close>

definition ErrServerClosed :: err where "ErrServerClosed = Opaque ''http: Server closed''"

definition serve :: "err option \<Rightarrow> err option" where
  "serve served = (case served of Some e \<Rightarrow> if Is e ErrServerClosed then None else Some e | None \<Rightarrow> None)"

text \<open>
  \<^verbatim>\<open>run\<close> in \<^verbatim>\<open>main.go\<close>: \<open>listen\<close> is the listener's outcome, and \<open>served\<close> what the server returned if it did before a
  signal; the second component is what the shutdown did, if it got that far.
\<close>

definition run_app :: "formats \<Rightarrow> environ \<Rightarrow> string list \<Rightarrow> (config \<Rightarrow> err + 's app) \<Rightarrow> (string \<Rightarrow> err option) \<Rightarrow> err option option
    \<Rightarrow> err option \<Rightarrow> err option \<Rightarrow> err list \<times> shutdown_step list" where
  "run_app F env args build listen served server_err close_err = (case loadConfig F env args of
     Inl e \<Rightarrow> ([e], [])
   | Inr cfg \<Rightarrow> (case validate cfg of
       Some e \<Rightarrow> ([e], [])
     | None \<Rightarrow> (case build cfg of
         Inl e \<Rightarrow> ([e], [])
       | Inr a \<Rightarrow> (case listen (apAddr a) of
           Some e \<Rightarrow> ([e], [])
         | None \<Rightarrow> (case shutdown (\<lambda>_. True) server_err close_err of
             (steps, errs) \<Rightarrow> (case served of
                 Some r \<Rightarrow> ((case serve r of None \<Rightarrow> [] | Some e \<Rightarrow> [e]), steps)
               | None \<Rightarrow> (errs, steps)))))))"

section \<open>The connection budget\<close>

lemma add64_exact: "- (2 ^ 63) \<le> a + b \<Longrightarrow> a + b < 2 ^ 63 \<Longrightarrow> add64 a b = a + b"
  by (simp add: add64_def)

lemma no_check: "validate cfg = None \<Longrightarrow> list_all (\<lambda>x. \<not> fst x) (config_checks cfg)"
  by (auto simp: validate_def find_None_iff list_all_iff)

lemma validated:
  assumes "validate cfg = None"
  shows "1 \<le> WorkerPoolSize cfg" "1 \<le> DBMaxOpenConns cfg" "1 \<le> AnalyticsMaxConcurrency cfg" "0 \<le> MemoriesBulkMaxInFlight cfg"
    "0 \<le> CodeGraphBulkMaxInFlight cfg" "0 < DBWaitInterval cfg"
    "MemoriesBulkMaxInFlight cfg > 0 \<Longrightarrow> CodeGraphBulkMaxInFlight cfg > 0 \<Longrightarrow> reserved_conns cfg < DBMaxOpenConns cfg"
proof -
  note none = no_check [OF assms]
  show "1 \<le> WorkerPoolSize cfg" "1 \<le> DBMaxOpenConns cfg" "1 \<le> AnalyticsMaxConcurrency cfg" "0 \<le> MemoriesBulkMaxInFlight cfg"
    "0 \<le> CodeGraphBulkMaxInFlight cfg" "0 < DBWaitInterval cfg"
    "MemoriesBulkMaxInFlight cfg > 0 \<Longrightarrow> CodeGraphBulkMaxInFlight cfg > 0 \<Longrightarrow> reserved_conns cfg < DBMaxOpenConns cfg"
    using none by (simp_all add: config_checks_def)
qed

lemma reserved_exact:
  assumes "validate cfg = None"
    "MemoriesBulkMaxInFlight cfg + CodeGraphBulkMaxInFlight cfg + WorkerPoolSize cfg + AnalyticsMaxConcurrency cfg < 2 ^ 63"
  shows "reserved_conns cfg = MemoriesBulkMaxInFlight cfg + CodeGraphBulkMaxInFlight cfg + WorkerPoolSize cfg + AnalyticsMaxConcurrency cfg"
  using validated [OF assms(1)] assms(2) by (simp add: reserved_conns_def add64_exact)

text \<open>
  C9: a validated configuration with both bulk budgets on cannot oversubscribe the connection pool, as
  long as the sum \<^verbatim>\<open>validate\<close> makes does not wrap around.  In whatever states the two admission limiters,
  the ingest pool and the analytics worker built from it are, the bulk requests being executed, the
  busy ingest workers and the recomputes together are fewer than the connections the pool may open, so
  one is left for reads and \<^verbatim>\<open>/readyz\<close>.
\<close>

theorem connection_budget:
  assumes "validate cfg = None" "MemoriesBulkMaxInFlight cfg > 0" "CodeGraphBulkMaxInFlight cfg > 0"
    and "MemoriesBulkMaxInFlight cfg + CodeGraphBulkMaxInFlight cfg + WorkerPoolSize cfg + AnalyticsMaxConcurrency cfg < 2 ^ 63"
    and "newAppWithDeps opendb discover gomaxprocs store cfg = Inr app"
    and "areachable (apMemoriesBulk app) t0 sm" "areachable (apCodeGraphBulk app) t1 sc"
    and "reach S E (apPool app) p" "wreach (apAnalytics app) w"
  shows "dbMaxOpen (apDB app) = Some (DBMaxOpenConns cfg)
    \<and> int (in_phase (\<lambda>ph. ph = Executing) sm + in_phase (\<lambda>ph. ph = Executing) sc + length (filter busy (pWorkers p))
        + length (filter (\<lambda>g. gPhase g \<noteq> Released) (wGoroutines w))) < DBMaxOpenConns cfg"
proof -
  note ok = validated [OF assms(1)]
  let ?aw = "\<lparr>awInterval = 0, awDebounceSecs = 0, awBetweennessMaxNodes = BetweennessMaxNodes cfg,
    awRecomputeTimeout = AnalyticsRecomputeTimeout cfg, awMaxConcurrency = AnalyticsMaxConcurrency cfg\<rparr>"
  have app: "acMaxInFlight (apMemoriesBulk app) = MemoriesBulkMaxInFlight cfg" "acMaxInFlight (apCodeGraphBulk app) = CodeGraphBulkMaxInFlight cfg"
    "apPool app = Start (newPool store (WorkerPoolSize cfg) 256 True)" "apAnalytics app = NewAnalyticsWorker gomaxprocs ?aw"
    "dbMaxOpen (apDB app) = Some (DBMaxOpenConns cfg)"
    using assms(5) ok(2) by (auto simp: newAppWithDeps_def andThen_def pool_limits_def split: sum.splits if_splits)
  have "int (in_phase (\<lambda>ph. ph = Executing) sm) \<le> MemoriesBulkMaxInFlight cfg" "int (in_phase (\<lambda>ph. ph = Executing) sc) \<le> CodeGraphBulkMaxInFlight cfg"
    using executing_bounded [OF assms(6)] executing_bounded [OF assms(7)] app(1,2) assms(2,3) by linarith+
  moreover have "length (pWorkers p) \<le> nat (WorkerPoolSize cfg)"
    using reach_workers [OF assms(8)] ok(1) by (simp add: app(3) Start_def newPool_def)
  then have "int (length (filter busy (pWorkers p))) \<le> WorkerPoolSize cfg"
    using length_filter_le [of busy "pWorkers p"] ok(1) by linarith
  moreover have "int (length (filter (\<lambda>g. gPhase g \<noteq> Released) (wGoroutines w))) \<le> AnalyticsMaxConcurrency cfg"
    using recomputes_bounded [OF assms(9) [unfolded app(4)]] ok(3) by (simp add: NewAnalyticsWorker_def Let_def)
  ultimately show ?thesis using ok(7) [OF assms(2,3)] reserved_exact [OF assms(1,4)] app(5) by simp
qed

text \<open>The configuration of an environment that sets only the two mandatory variables.\<close>

definition sample_env :: environ where
  "sample_env = [''PG_DSN'' \<mapsto> ''postgres://db'', ''LIGHTRAG_BASE_URL'' \<mapsto> ''http://lightrag'']"

definition no_formats :: formats where
  "no_formats = \<lparr>fmDuration = (\<lambda>_. Inl (Opaque ''duration'')), fmInt = (\<lambda>_. Inl (Opaque ''int'')), fmFloat = (\<lambda>_. Inl (Opaque ''float'')), fmShowFloat = (\<lambda>_ _. '''')\<rparr>"

definition sample_config :: config where
  "sample_config = (case loadConfig no_formats sample_env [] of Inr c \<Rightarrow> c)"

lemma sample_config_fields:
  "loadConfig no_formats sample_env [] = Inr sample_config" "validate sample_config = None"
  "MemoriesBulkMaxInFlight sample_config = 4" "CodeGraphBulkMaxInFlight sample_config = 2" "WorkerPoolSize sample_config = 4"
  "AnalyticsMaxConcurrency sample_config = 2" "DBMaxOpenConns sample_config = 20"
  by code_simp+

text \<open>The defaults reserve twelve of twenty connections; the parts are just built.\<close>

theorem connection_budget_witness:
  "\<exists>app. newAppWithDeps (\<lambda>_. Inr \<lparr>dbParams = Map.empty, dbMaxOpen = None, dbMaxIdle = None, dbMaxLifetime = 0, dbMaxIdleTime = 0\<rparr>)
       (\<lambda>_. Inr (\<lambda>_ _. Inl (Opaque ''no token''))) 8 () sample_config = Inr app
     \<and> dbMaxOpen (apDB app) = Some 20 \<and> int (length (filter busy (pWorkers (apPool app)))) < 20"
proof -
  let ?open = "\<lambda>_. Inr \<lparr>dbParams = Map.empty, dbMaxOpen = None, dbMaxIdle = None, dbMaxLifetime = 0, dbMaxIdleTime = 0\<rparr>"
    and ?discover = "\<lambda>_. Inr (\<lambda>_ _. Inl (Opaque ''no token''))"
  have "LightRAGBaseURL sample_config \<noteq> ''''" "OIDCIssuer sample_config \<noteq> ''''" "OIDCAudience sample_config \<noteq> ''''" by code_simp+
  then obtain app where app: "newAppWithDeps ?open ?discover 8 () sample_config = Inr app"
    by (simp add: newAppWithDeps_def andThen_def NewVerifier_def auth_Validate_def)
  have "(0 :: int) < 4" "(0 :: int) < 2" "4 + 2 + 4 + 2 < (2 :: int) ^ 63" by simp_all
  from connection_budget [OF sample_config_fields(2) _ _ _ app areachable.start areachable.start reach.init wreach_start, of 0 0] this app
  show ?thesis by (simp add: sample_config_fields)
qed

section \<open>Flags and environment\<close>

lemma flag_names_plain: "list_all (\<lambda>(n, _). plain_name n) config_flags"
  by (simp add: config_flags_def plain_name_def)

text \<open>
  The command line overrides the environment, and a later flag an earlier one: when every flag of
  the line names a setting and its value parses, the configuration is the one of the environment with
  the flags applied in order; with no flag at all it is the environment's.
\<close>

theorem flags_override:
  assumes "env_config F env = Inr c" "apply_flags F config_flags fs c = Some c'"
  shows "loadConfig F env (map (\<lambda>(n, v). flag_text n v) fs) = Inr c'"
  using assms parse_applies [OF flag_names_plain] by (simp add: loadConfig_def andThen_def)

theorem flags_override_witness:
  "\<exists>c. loadConfig no_formats sample_env [''--log-level=debug'', ''--pg-dsn=a=b'', ''--log-level=warn''] = Inr c
     \<and> LogLevel c = ''warn'' \<and> PGDSN c = ''a=b'' \<and> LightRAGBaseURL c = ''http://lightrag''"
proof -
  let ?fs = "[(''log-level'', ''debug''), (''pg-dsn'', ''a=b''), (''log-level'', ''warn'')]"
  let ?c = "sample_config\<lparr>LogLevel := ''warn'', PGDSN := ''a=b''\<rparr>"
  have "env_config no_formats sample_env = Inr sample_config" "apply_flags no_formats config_flags ?fs sample_config = Some ?c" by code_simp+
  from flags_override [OF this] have "loadConfig no_formats sample_env [''--log-level=debug'', ''--pg-dsn=a=b'', ''--log-level=warn''] = Inr ?c"
    by (simp add: flag_text_def)
  moreover have "LightRAGBaseURL sample_config = ''http://lightrag''" by code_simp
  ultimately show ?thesis by simp
qed

section \<open>Edges of the configuration\<close>

text \<open>The sum wraps around: a budget of nearly all 64-bit numbers passes the check.\<close>

theorem reserved_wraps:
  "validate (sample_config\<lparr>MemoriesBulkMaxInFlight := 2 ^ 63 - 5\<rparr>) = None"
proof -
  have "list_all (\<lambda>x. \<not> fst x) (config_checks sample_config)" by (rule no_check [OF sample_config_fields(2)])
  then have "list_all (\<lambda>x. \<not> fst x) (config_checks (sample_config\<lparr>MemoriesBulkMaxInFlight := 2 ^ 63 - 5\<rparr>))"
    by (simp add: config_checks_def reserved_conns_def add64_def sample_config_fields)
  then show ?thesis by (auto simp: validate_def find_None_iff list_all_iff)
qed

text \<open>A positive timeout below a millisecond is sent as the \<^verbatim>\<open>0\<close> that disables it.\<close>

theorem short_timeout_disabled:
  "pgConnConfig (\<lambda>_. Inr Map.empty) ''dsn'' (sample_config\<lparr>PGLockTimeout := 500000\<rparr>) = Inr params \<Longrightarrow> params ''lock_timeout'' = Some ''0''"
proof -
  assume a: "pgConnConfig (\<lambda>_. Inr Map.empty) ''dsn'' (sample_config\<lparr>PGLockTimeout := 500000\<rparr>) = Inr params"
  have "pgTimeoutMillis 500000 = ''0''" by code_simp
  with a show ?thesis by (auto simp: pgConnConfig_def set_param_def split: if_splits)
qed

end
