(* ===== verification/Codegraph_Labeler.thy ===== *)
theory Codegraph_Labeler
  imports Analytics_Store
begin

text \<open>
  The client that names communities (\<^verbatim>\<open>internal/codegraph/openai.go\<close>).  The environment, the JSON codec and
  the answer of the service to the n-th request are parameters.
\<close>

record OpenAILabeler =
  olKey :: string
  olModel :: string
  olBaseURL :: string

record chatMsg =
  cmRole :: string
  cmContent :: string

record chatReq =
  cqModel :: string
  cqMessages :: "chatMsg list"

record label_request =
  lrURL :: string
  lrHeaders :: "(string \<times> string) list"
  lrBody :: chatReq

text \<open>A request gives a transport error or a status with a body, which decodes to the messages of the choices or not.\<close>

record label_io =
  liSend :: "nat \<Rightarrow> label_request \<Rightarrow> err + int \<times> string"
  liDecode :: "string \<Rightarrow> err + chatMsg list"

definition NewOpenAILabelerFromEnv :: "(string \<Rightarrow> string) \<Rightarrow> OpenAILabeler option" where
  "NewOpenAILabelerFromEnv getenv =
     (let key = getenv ''OPENAI_API_KEY''; model = getenv ''SEMANTIC_MODEL''; base = getenv ''OPENAI_BASE_URL'' in
      if key = '''' then None
      else Some \<lparr>olKey = key, olModel = (if model = '''' then ''gpt-4o-mini'' else model),
        olBaseURL = (if base = '''' then ''https://api.openai.com/v1'' else base)\<rparr>)"

definition stripLabel :: "string \<Rightarrow> string" where
  "stripLabel s =
     (if length s \<ge> 2 \<and> s ! 0 = CHR 0x22 \<and> s ! (length s - 1) = CHR 0x22 then take (length s - 2) (drop 1 s) else s)"

text \<open>\<^verbatim>\<open>%v\<close> prints a slice of strings with blanks between them.\<close>

definition label_prompt :: "string list \<Rightarrow> string" where
  "label_prompt names = ''Name this code module in 2-4 words from these symbol names: ['' @ join '' '' names @ '']. Reply with only the label.''"

definition Label :: "label_io \<Rightarrow> OpenAILabeler \<Rightarrow> CommunityLabeler" where
  "Label io l call names =
     (let req = \<lparr>lrURL = olBaseURL l @ ''/chat/completions'',
          lrHeaders = [(''Content-Type'', ''application/json''), (''Authorization'', ''Bearer '' @ olKey l)],
          lrBody = \<lparr>cqModel = olModel l, cqMessages = [\<lparr>cmRole = ''user'', cmContent = label_prompt names\<rparr>]\<rparr>\<rparr>
      in case liSend io call req of
        Inl e \<Rightarrow> Inl e
      | Inr (status, body) \<Rightarrow>
          if status \<noteq> 200 then Inl (Opaque (''openai label: status '' @ dec_int status))
          else case liDecode io body of
            Inl e \<Rightarrow> Inl e
          | Inr [] \<Rightarrow> Inl (Opaque ''openai label: empty choices'')
          | Inr (m # _) \<Rightarrow> Inr (stripLabel (TrimSpace (cmContent m))))"

text \<open>What the process passes to the analytics worker.\<close>

definition env_labeler :: "label_io \<Rightarrow> (string \<Rightarrow> string) \<Rightarrow> CommunityLabeler option" where
  "env_labeler io getenv = map_option (Label io) (NewOpenAILabelerFromEnv getenv)"

section \<open>Properties\<close>

lemma stripLabel_quoted: "stripLabel (CHR 0x22 # s @ [CHR 0x22]) = s"
  by (simp add: stripLabel_def nth_append)

lemma stripLabel_unquoted: "s = [] \<or> hd s \<noteq> CHR 0x22 \<or> last s \<noteq> CHR 0x22 \<Longrightarrow> stripLabel s = s"
  by (cases "s = []") (auto simp: stripLabel_def last_conv_nth hd_conv_nth)

lemma no_key_fallback:
  "getenv ''OPENAI_API_KEY'' = '''' \<Longrightarrow> labelCommunity (env_labeler io getenv) call c names = labelCommunity None call c names"
  by (simp add: env_labeler_def NewOpenAILabelerFromEnv_def)

definition label_answered :: "label_io \<Rightarrow> nat \<Rightarrow> label_request \<Rightarrow> bool" where
  "label_answered io call req \<longleftrightarrow> (case liSend io call req of
     Inl _ \<Rightarrow> False
   | Inr (status, body) \<Rightarrow> status = 200 \<and> (case liDecode io body of Inl _ \<Rightarrow> False | Inr ms \<Rightarrow> ms \<noteq> []))"

lemma failed_label_fallback:
  assumes "\<And>req. \<not> label_answered io call req"
  shows "labelCommunity (env_labeler io getenv) call c names = labelCommunity None call c names"
proof -
  have "Label io l call ns \<noteq> Inr x" for l ns x
    using assms [of "\<lparr>lrURL = olBaseURL l @ ''/chat/completions'',
          lrHeaders = [(''Content-Type'', ''application/json''), (''Authorization'', ''Bearer '' @ olKey l)],
          lrBody = \<lparr>cqModel = olModel l, cqMessages = [\<lparr>cmRole = ''user'', cmContent = label_prompt ns\<rparr>]\<rparr>\<rparr>"]
    unfolding Label_def Let_def label_answered_def by (auto split: sum.splits list.splits)
  then show ?thesis
    unfolding env_labeler_def labelCommunity_def Let_def by (cases "NewOpenAILabelerFromEnv getenv") (auto split: sum.splits)
qed

text \<open>
  A community always gets a name if one of its members has one, whatever the environment is and
  whatever the labelling service answers.
\<close>

theorem community_named:
  assumes "i \<in> set (csMembers c)" "mget names i \<noteq> ''''"
  shows "labelCommunity (env_labeler io getenv) call c names \<noteq> ''''"
proof -
  from assms obtain j where "find (\<lambda>i. mget names i \<noteq> '''') (csMembers c) = Some j" "mget names j \<noteq> ''''"
    by (metis (mono_tags, lifting) find_None_iff find_Some_iff not_None_eq)
  then show ?thesis unfolding labelCommunity_def Let_def by (auto split: option.splits sum.splits)
qed

end
