(* ===== verification/Eval_Memory.thy ===== *)
theory Eval_Memory
  imports Memory_Types Http_Request Go_Flags
begin

text \<open>
  The retrieval evaluation (\<^verbatim>\<open>eval\<close> and \<^verbatim>\<open>cmd/eval\<close>): the configuration, the golden cases and the seed, the
  HTTP client, the scores, the metrics and the gate with its exit code.  The file system, the environment, the JSON codec,
  the network, the clock and the text of a float are parameters; scores are exact fractions.  Log lines are left out.
\<close>

section \<open>Golden cases and seed\<close>

record GoldenCase =
  gcName :: string
  gcQuery :: string
  gcMode :: QueryMode
  gcTopK :: int
  gcExpected :: "string list"

definition eval_defaultTopK :: int where "eval_defaultTopK = 10"
definition eval_maxTopK :: int where "eval_maxTopK = 500"

definition blank :: "string \<Rightarrow> bool" where
  "blank s \<longleftrightarrow> TrimSpace s = ''''"

definition golden_validate :: "GoldenCase \<Rightarrow> err option" where
  "golden_validate c =
     (if blank (gcName c) then Some (Opaque ''golden case missing name'')
      else if blank (gcQuery c) then Some (Opaque (''golden case '' @ quoteq (gcName c) @ '' missing query''))
      else if \<not> QueryMode_Valid (gcMode c) then Some (Opaque (''golden case '' @ quoteq (gcName c) @ '' invalid mode '' @ quoteq (gcMode c)))
      else if gcTopK c < 0 then Some (Opaque (''golden case '' @ quoteq (gcName c) @ '' top_k must be non-negative''))
      else if gcExpected c = [] then Some (Opaque (''golden case '' @ quoteq (gcName c) @ '' missing expected''))
      else if list_ex blank (gcExpected c) then Some (Opaque (''golden case '' @ quoteq (gcName c) @ '' has a blank expected entry''))
      else None)"

definition golden_normalize :: "GoldenCase \<Rightarrow> GoldenCase" where
  "golden_normalize c =
     (let c1 = (if gcTopK c = 0 then c\<lparr>gcTopK := eval_defaultTopK\<rparr> else c)
      in if gcTopK c1 > eval_maxTopK then c1\<lparr>gcTopK := eval_maxTopK\<rparr> else c1)"

fun golden_cases :: "string list \<Rightarrow> GoldenCase list \<Rightarrow> err + GoldenCase list" where
  "golden_cases seen [] = Inr []"
| "golden_cases seen (c # cs) = (case golden_validate c of
     Some e \<Rightarrow> Inl e
   | None \<Rightarrow>
       if gcName c \<in> set seen then Inl (Opaque (''duplicate golden case name '' @ quoteq (gcName c)))
       else map_sum id ((#) (golden_normalize c)) (golden_cases (gcName c # seen) cs))"

definition parseGolden :: "(string \<Rightarrow> err + GoldenCase list) \<Rightarrow> string \<Rightarrow> err + GoldenCase list" where
  "parseGolden decode data = (case decode data of
     Inl e \<Rightarrow> Inl (Wrap ''parse golden'' e)
   | Inr cs \<Rightarrow> golden_cases [] cs)"

fun seed_items :: "string list \<Rightarrow> IngestItem list \<Rightarrow> err + IngestItem list" where
  "seed_items seen [] = Inr []"
| "seed_items seen (it # its) =
     (if blank (iKey it) then Inl (Opaque ''seed item missing idempotency_key'')
      else if blank (iText it) then Inl (Opaque (''seed item '' @ quoteq (iKey it) @ '' missing text''))
      else if iKey it \<in> set seen then Inl (Opaque (''duplicate seed key '' @ quoteq (iKey it)))
      else map_sum id ((#) it) (seed_items (iKey it # seen) its))"

definition parseSeed :: "(string \<Rightarrow> err + IngestItem list) \<Rightarrow> string \<Rightarrow> err + IngestItem list" where
  "parseSeed decode data = (case decode data of
     Inl e \<Rightarrow> Inl (Wrap ''parse seed'' e)
   | Inr its \<Rightarrow> seed_items [] its)"

text \<open>
  The loop of both loaders: files with what reading each gives, a parser, the key that must be unique
  across files and the message for a repeated one.
\<close>

fun add_unique :: "('a \<Rightarrow> string) \<Rightarrow> (string \<Rightarrow> err) \<Rightarrow> 'a list \<Rightarrow> 'a list \<Rightarrow> err + 'a list" where
  "add_unique key dup all [] = Inr all"
| "add_unique key dup all (x # xs) = (if key x \<in> key ` set all then Inl (dup (key x)) else add_unique key dup (all @ [x]) xs)"

fun load_files :: "string \<Rightarrow> (string \<Rightarrow> err + 'a list) \<Rightarrow> ('a \<Rightarrow> string) \<Rightarrow> (string \<Rightarrow> err) \<Rightarrow> 'a list \<Rightarrow> (string \<times> (err + string)) list \<Rightarrow> err + 'a list" where
  "load_files pkg parse key dup all [] = Inr all"
| "load_files pkg parse key dup all ((f, data) # fs) = (case data of
     Inl e \<Rightarrow> Inl (Wrap (pkg @ '': read '' @ f) e)
   | Inr d \<Rightarrow> (case parse d of
       Inl e \<Rightarrow> Inl (Wrap (pkg @ '': '' @ f) e)
     | Inr xs \<Rightarrow> (case add_unique key dup all xs of
         Inl e \<Rightarrow> Inl e
       | Inr all' \<Rightarrow> load_files pkg parse key dup all' fs)))"

type_synonym files = "err + (string \<times> (err + string)) list"

definition loadGolden :: "(string \<Rightarrow> err + GoldenCase list) \<Rightarrow> string \<Rightarrow> files \<Rightarrow> err + GoldenCase list" where
  "loadGolden decode dir files = (case files of
     Inl e \<Rightarrow> Inl (Wrap ''eval: glob golden'' e)
   | Inr fs \<Rightarrow>
       if fs = [] then Inl (Opaque (''eval: no golden files under '' @ dir))
       else load_files ''eval'' (parseGolden decode) gcName
         (\<lambda>n. Opaque (''eval: duplicate golden case name '' @ quoteq n @ '' (across files)'')) [] fs)"

definition loadSeed :: "(string \<Rightarrow> err + IngestItem list) \<Rightarrow> string \<Rightarrow> files \<Rightarrow> err + IngestItem list" where
  "loadSeed decode dir files = (case files of
     Inl e \<Rightarrow> Inl (Wrap ''eval: glob seed'' e)
   | Inr fs \<Rightarrow>
       if fs = [] then Inl (Opaque (''eval: no seed files under '' @ dir))
       else load_files ''eval'' (parseSeed decode) iKey
         (\<lambda>k. Opaque (''eval: duplicate seed key '' @ quoteq k @ '' (across files)'')) [] fs)"

section \<open>Scores\<close>

record Score =
  scName :: string
  scMode :: QueryMode
  scK :: int
  scHits :: nat
  scExpected :: nat
  scRecallAtK :: rat
  scMRR :: rat

record Summary =
  suCases :: nat
  suMeanRecallAtK :: rat
  suMeanMRR :: rat

definition containsFold :: "string \<Rightarrow> string \<Rightarrow> bool" where
  "containsFold haystack needle = str_contains (ToLower haystack) (ToLower needle)"

definition MatchHits :: "QueryMatch \<Rightarrow> string \<Rightarrow> bool" where
  "MatchHits m expected \<longleftrightarrow> containsFold (maText m) expected \<or> containsFold (maID m) expected"

text \<open>\<^verbatim>\<open>sort.SliceStable\<close> with the larger score first\<close>

definition byScoreDesc :: "QueryMatch list \<Rightarrow> QueryMatch list" where
  "byScoreDesc ms = sort_key (\<lambda>m. - maScore m) ms"

definition topK :: "'a list \<Rightarrow> int \<Rightarrow> 'a list" where
  "topK ms k = (if 0 \<le> k \<and> k < int (length ms) then take (nat k) ms else ms)"

definition anyHits :: "QueryMatch list \<Rightarrow> string \<Rightarrow> bool" where
  "anyHits ms expected = list_ex (\<lambda>m. MatchHits m expected) ms"

definition RecallAtK :: "GoldenCase \<Rightarrow> QueryMatch list \<Rightarrow> int \<Rightarrow> rat" where
  "RecallAtK c ms k =
     (if gcExpected c = [] then 0
      else let window = topK (byScoreDesc ms) k in
        of_nat (length (filter (anyHits window) (gcExpected c))) / of_nat (length (gcExpected c)))"

fun mrr_from :: "nat \<Rightarrow> GoldenCase \<Rightarrow> QueryMatch list \<Rightarrow> rat" where
  "mrr_from i c [] = 0"
| "mrr_from i c (m # ms) = (if list_ex (MatchHits m) (gcExpected c) then 1 / of_nat (i + 1) else mrr_from (i + 1) c ms)"

definition mrrRanked :: "GoldenCase \<Rightarrow> QueryMatch list \<Rightarrow> rat" where
  "mrrRanked c ranked = mrr_from 0 c ranked"

definition MRR :: "GoldenCase \<Rightarrow> QueryMatch list \<Rightarrow> rat" where
  "MRR c ms = mrrRanked c (byScoreDesc ms)"

definition ScoreCase :: "GoldenCase \<Rightarrow> QueryMatch list \<Rightarrow> int \<Rightarrow> Score" where
  "ScoreCase c ms k =
     (let ranked = byScoreDesc ms; window = topK ranked k; hits = length (filter (anyHits window) (gcExpected c))
      in \<lparr>scName = gcName c, scMode = gcMode c, scK = k, scHits = hits, scExpected = length (gcExpected c),
          scRecallAtK = (if gcExpected c = [] then 0 else of_nat hits / of_nat (length (gcExpected c))), scMRR = mrrRanked c ranked\<rparr>)"

definition Summarize :: "Score list \<Rightarrow> Summary" where
  "Summarize ss =
     (if ss = [] then \<lparr>suCases = 0, suMeanRecallAtK = 0, suMeanMRR = 0\<rparr>
      else let n = of_nat (length ss) in
        \<lparr>suCases = length ss, suMeanRecallAtK = sum_list (map scRecallAtK ss) / n, suMeanMRR = sum_list (map scMRR ss) / n\<rparr>)"

section \<open>The client\<close>

record eval_client =
  evBaseURL :: string
  evToken :: string
  evPollInterval :: int
  evJobTimeout :: int

definition trim_slashes :: "string \<Rightarrow> string" where
  "trim_slashes s = rev (dropWhile (\<lambda>c. c = CHR ''/'') (rev s))"

definition NewEvalClient :: "string \<Rightarrow> string \<Rightarrow> int \<Rightarrow> int \<Rightarrow> err + eval_client" where
  "NewEvalClient baseURL token poll timeout =
     (if blank baseURL then Inl (Opaque ''eval: base url required'')
      else Inr \<lparr>evBaseURL = trim_slashes baseURL, evToken = token,
        evPollInterval = (if poll \<le> 0 then 2000000000 else poll), evJobTimeout = (if timeout \<le> 0 then 300000000000 else timeout)\<rparr>)"

record eval_request =
  erMethod :: string
  erURL :: string
  erHeaders :: "(string \<times> string) list"
  erBody :: "string option"

text \<open>
  The world of the client: sending a request gives a transport error (also when the request cannot be built or the body
  cannot be read) or a status with at most 8 MiB of body; sleeping says whether the context was still alive.
\<close>

record 'w eval_io =
  ioSend :: "eval_request \<Rightarrow> 'w \<Rightarrow> (err + int \<times> string) \<times> 'w"
  ioNow :: "'w \<Rightarrow> int"
  ioSleep :: "int \<Rightarrow> 'w \<Rightarrow> bool \<times> 'w"
  ioWriteFile :: "string \<Rightarrow> string \<Rightarrow> 'w \<Rightarrow> err option \<times> 'w"
  ioGetenv :: "string \<Rightarrow> string"
  ioHostname :: string

definition doJSON :: "'w eval_io \<Rightarrow> eval_client \<Rightarrow> string \<Rightarrow> string \<Rightarrow> string option \<Rightarrow> (string \<Rightarrow> err + 'a) \<Rightarrow> 'w \<Rightarrow> (err + 'a) \<times> 'w" where
  "doJSON io c method p body decode w =
     (let req = \<lparr>erMethod = method, erURL = evBaseURL c @ p,
        erHeaders = (if evToken c = '''' then [] else [(''Authorization'', ''Bearer '' @ evToken c)]) @ [(''Accept'', ''application/json'')]
          @ (case body of None \<Rightarrow> [] | Some _ \<Rightarrow> [(''Content-Type'', ''application/json'')]), erBody = body\<rparr>
      in case ioSend io req w of
        (Inl e, w') \<Rightarrow> (Inl (Wrap (''eval: '' @ method @ '' '' @ p) e), w')
      | (Inr (status, resp), w') \<Rightarrow>
          if status < 200 \<or> status \<ge> 300
          then (Inl (Opaque (''eval: '' @ method @ '' '' @ p @ '': status '' @ dec_int status @ '': '' @ TrimSpace resp)), w')
          else case decode resp of
            Inl e \<Rightarrow> (Inl (Wrap (''eval: decode '' @ method @ '' '' @ p) e), w')
          | Inr x \<Rightarrow> (Inr x, w'))"

record eval_codec =
  evEncItems :: "IngestItem list \<Rightarrow> string"
  evEncQuery :: "Query \<Rightarrow> string"
  evDecJob :: "string \<Rightarrow> err + IngestJob"
  evDecResult :: "string \<Rightarrow> err + QueryMatch list"
  evPathEscape :: "string \<Rightarrow> string"
  evShowDuration :: "int \<Rightarrow> string"
  evShowStatus :: "JobStatus \<Rightarrow> string"
  evDecGolden :: "string \<Rightarrow> err + GoldenCase list"
  evDecSeed :: "string \<Rightarrow> err + IngestItem list"
  evEncodeQuery :: "(string \<times> string) list \<Rightarrow> string"

definition BulkIngest :: "'w eval_io \<Rightarrow> eval_codec \<Rightarrow> eval_client \<Rightarrow> IngestItem list \<Rightarrow> 'w \<Rightarrow> (err + string) \<times> 'w" where
  "BulkIngest io C c items w =
     (if items = [] then (Inl (Opaque ''eval: no seed items to ingest''), w)
      else case doJSON io c ''POST'' ''/memories:bulk'' (Some (evEncItems C items)) (evDecJob C) w of
        (Inl e, w') \<Rightarrow> (Inl e, w')
      | (Inr job, w') \<Rightarrow> (if jID job = '''' then Inl (Opaque ''eval: bulk ingest returned empty job id'') else Inr (jID job), w'))"

definition poll_job :: "'w eval_io \<Rightarrow> eval_codec \<Rightarrow> eval_client \<Rightarrow> string \<Rightarrow> 'w \<Rightarrow> (err + IngestJob) \<times> 'w" where
  "poll_job io C c i w = doJSON io c ''GET'' (''/ingest-jobs/'' @ evPathEscape C i) None (evDecJob C) w"

text \<open>\<open>None\<close>: the polls the fuel allows were not enough.\<close>

fun wait_job :: "nat \<Rightarrow> 'w eval_io \<Rightarrow> eval_codec \<Rightarrow> eval_client \<Rightarrow> string \<Rightarrow> int \<Rightarrow> 'w \<Rightarrow> ((err + IngestJob) \<times> 'w) option" where
  "wait_job 0 io C c i deadline w = None"
| "wait_job (Suc n) io C c i deadline w = (case poll_job io C c i w of
     (Inl e, w') \<Rightarrow> Some (Inl e, w')
   | (Inr job, w') \<Rightarrow>
       if Terminal (jStatus job) then Some (Inr job, w')
       else if ioNow io w' > deadline
       then Some (Inl (Opaque (''eval: job '' @ i @ '' not terminal within '' @ evShowDuration C (evJobTimeout c)
              @ '' (last status '' @ quoteq (evShowStatus C (jStatus job)) @ '')'')), w')
       else (case ioSleep io (evPollInterval c) w' of
           (False, w'') \<Rightarrow> Some (Inl Canceled, w'')
         | (True, w'') \<Rightarrow> wait_job n io C c i deadline w''))"

definition WaitJob :: "nat \<Rightarrow> 'w eval_io \<Rightarrow> eval_codec \<Rightarrow> eval_client \<Rightarrow> string \<Rightarrow> 'w \<Rightarrow> ((err + IngestJob) \<times> 'w) option" where
  "WaitJob n io C c i w = wait_job n io C c i (ioNow io w + evJobTimeout c) w"

definition eval_Query :: "'w eval_io \<Rightarrow> eval_codec \<Rightarrow> eval_client \<Rightarrow> Query \<Rightarrow> 'w \<Rightarrow> (err + QueryMatch list) \<times> 'w" where
  "eval_Query io C c q w = doJSON io c ''POST'' ''/queries:data'' (Some (evEncQuery C q)) (evDecResult C) w"

section \<open>The configuration\<close>

record eval_config =
  ecBaseURL :: string
  ecToken :: string
  ecRecallFloor :: rat
  ecK :: int
  ecGoldenDir :: string
  ecSeedDir :: string
  ecMetricsFile :: string
  ecPushURL :: string
  ecRunID :: string
  ecJobTimeout :: int

definition envDefault :: "(string \<Rightarrow> string) \<Rightarrow> string \<Rightarrow> string \<Rightarrow> string" where
  "envDefault getenv key dflt = (if getenv key \<noteq> '''' then getenv key else dflt)"

text \<open>A value that does not parse is as good as none.\<close>

definition envFloat :: "formats \<Rightarrow> (string \<Rightarrow> string) \<Rightarrow> string \<Rightarrow> rat \<Rightarrow> rat" where
  "envFloat F getenv key dflt = (if getenv key = '''' then dflt else case fmFloat F (getenv key) of Inl _ \<Rightarrow> dflt | Inr x \<Rightarrow> x)"

definition envInt :: "(string \<Rightarrow> string) \<Rightarrow> string \<Rightarrow> int \<Rightarrow> int" where
  "envInt getenv key dflt = (if getenv key = '''' then dflt else case Atoi (getenv key) of None \<Rightarrow> dflt | Some n \<Rightarrow> n)"

definition envDuration :: "formats \<Rightarrow> (string \<Rightarrow> string) \<Rightarrow> string \<Rightarrow> int \<Rightarrow> int" where
  "envDuration F getenv key dflt = (if getenv key = '''' then dflt else case fmDuration F (getenv key) of Inl _ \<Rightarrow> dflt | Inr d \<Rightarrow> d)"

definition eval_defaults :: "formats \<Rightarrow> (string \<Rightarrow> string) \<Rightarrow> eval_config" where
  "eval_defaults F getenv = \<lparr>ecBaseURL = getenv ''MEMORY_BASE_URL'', ecToken = getenv ''MEMORY_TOKEN'',
     ecRecallFloor = envFloat F getenv ''EVAL_RECALL_FLOOR'' (7 / 10), ecK = envInt getenv ''EVAL_K'' 10,
     ecGoldenDir = getenv ''EVAL_GOLDEN_DIR'', ecSeedDir = getenv ''EVAL_SEED_DIR'', ecMetricsFile = getenv ''EVAL_METRICS_FILE'',
     ecPushURL = getenv ''EVAL_PUSH_URL'', ecRunID = envDefault getenv ''EVAL_RUN_ID'' ''memory-eval'',
     ecJobTimeout = envDuration F getenv ''EVAL_JOB_TIMEOUT'' 300000000000\<rparr>"

definition eval_flags :: "(string \<times> eval_config flag_value) list" where
  "eval_flags =
     [(''base-url'', StringVar (\<lambda>v c. c\<lparr>ecBaseURL := v\<rparr>)), (''token'', StringVar (\<lambda>v c. c\<lparr>ecToken := v\<rparr>)),
      (''recall-floor'', FloatVar (\<lambda>v c. c\<lparr>ecRecallFloor := v\<rparr>)), (''k'', IntVar (\<lambda>v c. c\<lparr>ecK := v\<rparr>)),
      (''golden-dir'', StringVar (\<lambda>v c. c\<lparr>ecGoldenDir := v\<rparr>)), (''seed-dir'', StringVar (\<lambda>v c. c\<lparr>ecSeedDir := v\<rparr>)),
      (''metrics-file'', StringVar (\<lambda>v c. c\<lparr>ecMetricsFile := v\<rparr>)), (''push-url'', StringVar (\<lambda>v c. c\<lparr>ecPushURL := v\<rparr>)),
      (''run-id'', StringVar (\<lambda>v c. c\<lparr>ecRunID := v\<rparr>)), (''job-timeout'', DurationVar (\<lambda>v c. c\<lparr>ecJobTimeout := v\<rparr>))]"

definition eval_config_check :: "formats \<Rightarrow> eval_config \<Rightarrow> err option" where
  "eval_config_check F cfg =
     (if blank (ecBaseURL cfg) then Some (Opaque ''base-url (MEMORY_BASE_URL) is required'')
      else if ecRecallFloor cfg < 0 \<or> ecRecallFloor cfg > 1
      then Some (Opaque (''recall-floor must be in [0,1], got '' @ fmShowFloat F ''%v'' (ecRecallFloor cfg)))
      else if ecK cfg < 1 then Some (Opaque (''k must be >= 1, got '' @ dec_int (ecK cfg)))
      else None)"

definition eval_parseConfig :: "formats \<Rightarrow> (string \<Rightarrow> string) \<Rightarrow> string list \<Rightarrow> err + eval_config" where
  "eval_parseConfig F getenv args = andThen (flag_Parse F eval_flags args (eval_defaults F getenv)) (\<lambda>cfg.
     case eval_config_check F cfg of Some e \<Rightarrow> Inl e | None \<Rightarrow> Inr cfg)"

section \<open>The metrics\<close>

definition eol :: "string \<Rightarrow> string" where "eol s = s @ [CHR 0x0A]"

definition gauge_text :: "string \<Rightarrow> string \<Rightarrow> string \<Rightarrow> string" where
  "gauge_text name help sample = eol (''# HELP '' @ name @ '' '' @ help) @ eol (''# TYPE '' @ name @ '' gauge'') @ eol (name @ sample)"

definition buildExposition :: "formats \<Rightarrow> Summary \<Rightarrow> int \<Rightarrow> rat \<Rightarrow> bool \<Rightarrow> string" where
  "buildExposition F sm k flr pass =
     gauge_text ''memory_eval_recall_at_k'' ''Mean recall@k over the golden set.''
       (''{k='' @ [CHR 0x22] @ dec_int k @ [CHR 0x22] @ ''} '' @ fmShowFloat F ''%g'' (suMeanRecallAtK sm))
     @ gauge_text ''memory_eval_mrr'' ''Mean reciprocal rank over the golden set.'' ('' '' @ fmShowFloat F ''%g'' (suMeanMRR sm))
     @ gauge_text ''memory_eval_cases'' ''Number of golden cases evaluated.'' ('' '' @ dec (suCases sm))
     @ gauge_text ''memory_eval_recall_floor'' ''Configured pass/fail floor for recall@k.'' ('' '' @ fmShowFloat F ''%g'' flr)
     @ gauge_text ''memory_eval_pass'' ''1 when mean recall@k met the floor, else 0.'' ('' '' @ (if pass then ''1'' else ''0''))"

definition evalPushJob :: string where "evalPushJob = ''memory-eval''"

definition buildPushURL :: "((string \<times> string) list \<Rightarrow> string) \<Rightarrow> string \<Rightarrow> string \<Rightarrow> string \<Rightarrow> string \<Rightarrow> string" where
  "buildPushURL encode base runID job pod =
     base @ (if CHR ''?'' \<in> set base then ''&'' else ''?'')
     @ encode ([(''run_id'', runID), (''job'', job)] @ (if pod = '''' then [] else [(''pod'', pod)]))"

definition hostname :: "'w eval_io \<Rightarrow> string" where
  "hostname io = (if ioGetenv io ''HOSTNAME'' \<noteq> '''' then ioGetenv io ''HOSTNAME'' else ioHostname io)"

text \<open>Whatever comes back is only logged.\<close>

definition pushAggregateMetrics :: "'w eval_io \<Rightarrow> eval_codec \<Rightarrow> eval_config \<Rightarrow> string \<Rightarrow> 'w \<Rightarrow> 'w" where
  "pushAggregateMetrics io C cfg exposition w = snd (ioSend io
     \<lparr>erMethod = ''POST'', erURL = buildPushURL (evEncodeQuery C) (ecPushURL cfg) (ecRunID cfg) evalPushJob (hostname io),
      erHeaders = [(''Content-Type'', ''text/plain; version=0.0.4'')], erBody = Some exposition\<rparr> w)"

section \<open>The run\<close>

text \<open>Files: those embedded in the binary by directory, or those of a directory of the disk.\<close>

record file_system =
  fsEmbedded :: "string \<Rightarrow> files"
  fsDir :: "string \<Rightarrow> files"

definition LoadGolden :: "(string \<Rightarrow> err + GoldenCase list) \<Rightarrow> file_system \<Rightarrow> err + GoldenCase list" where
  "LoadGolden decode fs = loadGolden decode ''golden'' (fsEmbedded fs ''golden'')"

definition LoadSeed :: "(string \<Rightarrow> err + IngestItem list) \<Rightarrow> file_system \<Rightarrow> err + IngestItem list" where
  "LoadSeed decode fs = loadSeed decode ''seed'' (fsEmbedded fs ''seed'')"

definition LoadGoldenDir :: "(string \<Rightarrow> err + GoldenCase list) \<Rightarrow> file_system \<Rightarrow> string \<Rightarrow> err + GoldenCase list" where
  "LoadGoldenDir decode fs dir = loadGolden decode ''.'' (fsDir fs dir)"

definition LoadSeedDir :: "(string \<Rightarrow> err + IngestItem list) \<Rightarrow> file_system \<Rightarrow> string \<Rightarrow> err + IngestItem list" where
  "LoadSeedDir decode fs dir = loadSeed decode ''.'' (fsDir fs dir)"

definition config_golden :: "eval_codec \<Rightarrow> file_system \<Rightarrow> eval_config \<Rightarrow> err + GoldenCase list" where
  "config_golden C fs cfg = (if ecGoldenDir cfg \<noteq> '''' then LoadGoldenDir (evDecGolden C) fs (ecGoldenDir cfg) else LoadGolden (evDecGolden C) fs)"

definition config_seed :: "eval_codec \<Rightarrow> file_system \<Rightarrow> eval_config \<Rightarrow> err + IngestItem list" where
  "config_seed C fs cfg = (if ecSeedDir cfg \<noteq> '''' then LoadSeedDir (evDecSeed C) fs (ecSeedDir cfg) else LoadSeed (evDecSeed C) fs)"

fun score_cases :: "'w eval_io \<Rightarrow> eval_codec \<Rightarrow> eval_client \<Rightarrow> int \<Rightarrow> GoldenCase list \<Rightarrow> 'w \<Rightarrow> (err + Score list) \<times> 'w" where
  "score_cases io C cl k [] w = (Inr [], w)"
| "score_cases io C cl k (c # cs) w = (case eval_Query io C cl \<lparr>qMode = gcMode c, qText = gcQuery c, qTopK = gcTopK c\<rparr> w of
     (Inl e, w') \<Rightarrow> (Inl (Wrap (''query case '' @ quoteq (gcName c)) e), w')
   | (Inr ms, w') \<Rightarrow> (case score_cases io C cl k cs w' of
       (r, w'') \<Rightarrow> (map_sum id ((#) (ScoreCase c ms k)) r, w'')))"

text \<open>Seeding: submit, wait, and stop unless the job succeeded at least in part.\<close>

definition seed_corpus :: "nat \<Rightarrow> 'w eval_io \<Rightarrow> eval_codec \<Rightarrow> eval_client \<Rightarrow> IngestItem list \<Rightarrow> 'w \<Rightarrow> (err option \<times> 'w) option" where
  "seed_corpus n io C cl items w = (case BulkIngest io C cl items w of
     (Inl e, w1) \<Rightarrow> Some (Some (Wrap ''seed ingest'' e), w1)
   | (Inr i, w1) \<Rightarrow> map_option (\<lambda>(r, w2). (case r of
         Inl e \<Rightarrow> Some (Wrap ''seed ingest wait'' e)
       | Inr job \<Rightarrow> if jStatus job = JobStatusFailed
           then Some (Opaque (''seed ingest job '' @ i @ '' failed (done='' @ dec_int (jDone job) @ '' failed='' @ dec_int (jFailed job) @ '')''))
           else None, w2)) (WaitJob n io C cl i w1))"

text \<open>Writing and pushing the metrics; only the file can fail the run.\<close>

definition publish :: "formats \<Rightarrow> 'w eval_io \<Rightarrow> eval_codec \<Rightarrow> eval_config \<Rightarrow> Score list \<Rightarrow> 'w \<Rightarrow> err option \<times> 'w" where
  "publish F io C cfg scores w =
     (let sm = Summarize scores;
          exposition = buildExposition F sm (ecK cfg) (ecRecallFloor cfg) (suMeanRecallAtK sm \<ge> ecRecallFloor cfg)
      in case (if ecMetricsFile cfg = '''' then (None, w) else ioWriteFile io (ecMetricsFile cfg) exposition w) of
        (Some e, w1) \<Rightarrow> (Some (Wrap ''write metrics file'' e), w1)
      | (None, w1) \<Rightarrow> (None, if ecPushURL cfg = '''' then w1 else pushAggregateMetrics io C cfg exposition w1))"

definition eval_verdict :: "formats \<Rightarrow> eval_config \<Rightarrow> Score list \<Rightarrow> err option" where
  "eval_verdict F cfg scores = (let mean = suMeanRecallAtK (Summarize scores) in
     if mean \<ge> ecRecallFloor cfg then None
     else Some (Opaque (''aggregate recall@'' @ dec_int (ecK cfg) @ '' '' @ fmShowFloat F ''%.4f'' mean @ '' below floor ''
       @ fmShowFloat F ''%.4f'' (ecRecallFloor cfg))))"

definition eval_run :: "nat \<Rightarrow> formats \<Rightarrow> 'w eval_io \<Rightarrow> eval_codec \<Rightarrow> file_system \<Rightarrow> eval_config \<Rightarrow> 'w \<Rightarrow> (err option \<times> 'w) option" where
  "eval_run n F io C fs cfg w = (case config_golden C fs cfg of
     Inl e \<Rightarrow> Some (Some e, w)
   | Inr cases \<Rightarrow> (case config_seed C fs cfg of
       Inl e \<Rightarrow> Some (Some e, w)
     | Inr items \<Rightarrow> (case NewEvalClient (ecBaseURL cfg) (ecToken cfg) 0 (ecJobTimeout cfg) of
         Inl e \<Rightarrow> Some (Some e, w)
       | Inr cl \<Rightarrow> (case seed_corpus n io C cl items w of
           None \<Rightarrow> None
         | Some (Some e, w1) \<Rightarrow> Some (Some e, w1)
         | Some (None, w1) \<Rightarrow> Some (case score_cases io C cl (ecK cfg) cases w1 of
             (Inl e, w2) \<Rightarrow> (Some e, w2)
           | (Inr scores, w2) \<Rightarrow> (case publish F io C cfg scores w2 of
               (Some e, w3) \<Rightarrow> (Some e, w3)
             | (None, w3) \<Rightarrow> (eval_verdict F cfg scores, w3)))))))"

text \<open>The exit code of the program, 2 for a bad command line and 1 for a failed run.\<close>

definition eval_main :: "nat \<Rightarrow> formats \<Rightarrow> 'w eval_io \<Rightarrow> eval_codec \<Rightarrow> file_system \<Rightarrow> string list \<Rightarrow> 'w \<Rightarrow> (nat \<times> 'w) option" where
  "eval_main n F io C fs args w = (case eval_parseConfig F (ioGetenv io) args of
     Inl _ \<Rightarrow> Some (2, w)
   | Inr cfg \<Rightarrow> map_option (\<lambda>(r, w'). (if r = None then 0 else 1, w')) (eval_run n F io C fs cfg w))"

section \<open>The loaders\<close>

definition well_formed_case :: "GoldenCase \<Rightarrow> bool" where
  "well_formed_case c \<longleftrightarrow> \<not> blank (gcName c) \<and> \<not> blank (gcQuery c) \<and> QueryMode_Valid (gcMode c) \<and> 1 \<le> gcTopK c \<and> gcTopK c \<le> eval_maxTopK
     \<and> gcExpected c \<noteq> [] \<and> list_all (\<lambda>e. \<not> blank e) (gcExpected c)"

lemma normalized_case: "golden_validate c = None \<Longrightarrow> well_formed_case (golden_normalize c) \<and> gcName (golden_normalize c) = gcName c"
  by (auto simp: golden_validate_def golden_normalize_def well_formed_case_def eval_defaultTopK_def eval_maxTopK_def Let_def list_ex_iff list_all_iff
      split: if_splits)

lemma golden_cases_ok: "golden_cases seen cs = Inr out \<Longrightarrow> list_all well_formed_case out"
  by (induction seen cs arbitrary: out rule: golden_cases.induct)
     (auto simp: normalized_case map_sum_def split: option.splits if_splits sum.splits)

lemma add_unique_distinct:
  "add_unique key dup all xs = Inr out \<Longrightarrow> distinct (map key all) \<Longrightarrow> distinct (map key out) \<and> out = all @ xs"
proof (induction xs arbitrary: all)
  case (Cons x xs)
  then have "add_unique key dup (all @ [x]) xs = Inr out" "distinct (map key (all @ [x]))" by (auto split: if_splits)
  from Cons.IH [OF this] show ?case by (metis append.assoc append_Cons append_Nil)
qed simp

lemma load_files_ok:
  assumes "load_files pkg parse key dup all fs = Inr out" "distinct (map key all)" "list_all P all"
    and "\<And>d xs. parse d = Inr xs \<Longrightarrow> list_all P xs"
  shows "distinct (map key out) \<and> list_all P out"
  using assms(1-3)
proof (induction fs arbitrary: all)
  case (Cons f fs)
  then obtain d xs all' where "parse d = Inr xs" "add_unique key dup all xs = Inr all'" "load_files pkg parse key dup all' fs = Inr out"
    by (cases f) (auto split: sum.splits)
  with Cons add_unique_distinct [of key dup all xs all'] assms(4) show ?case by auto
qed simp

lemma loadGolden_ok: "loadGolden decode dir files = Inr cases \<Longrightarrow> distinct (map gcName cases) \<and> list_all well_formed_case cases"
proof -
  assume "loadGolden decode dir files = Inr cases"
  then obtain dup fs where l: "load_files ''eval'' (parseGolden decode) gcName dup [] fs = Inr cases"
    by (auto simp: loadGolden_def split: sum.splits if_splits)
  have "parseGolden decode d = Inr xs \<Longrightarrow> list_all well_formed_case xs" for d xs
    by (auto simp: parseGolden_def intro: golden_cases_ok split: sum.splits)
  with load_files_ok [OF l, of well_formed_case] show ?thesis by simp
qed

section \<open>The gate\<close>

lemma score_case_reference: "scRecallAtK (ScoreCase c ms k) = RecallAtK c ms k" "scMRR (ScoreCase c ms k) = MRR c ms"
  by (simp_all add: ScoreCase_def RecallAtK_def MRR_def Let_def)

lemma recall_bounds: "0 \<le> RecallAtK c ms k \<and> RecallAtK c ms k \<le> 1"
proof -
  have "length (filter (anyHits (topK (byScoreDesc ms) k)) (gcExpected c)) \<le> length (gcExpected c)" by (rule length_filter_le)
  then show ?thesis by (simp add: RecallAtK_def Let_def divide_le_eq)
qed

text \<open>The cases are asked one after the other and the service answers with \<open>mss\<close>.\<close>

fun answers :: "'w eval_io \<Rightarrow> eval_codec \<Rightarrow> eval_client \<Rightarrow> GoldenCase list \<Rightarrow> 'w \<Rightarrow> QueryMatch list list \<Rightarrow> 'w \<Rightarrow> bool" where
  "answers io C cl [] w [] w' = (w' = w)"
| "answers io C cl (c # cs) w (ms # mss) w' = (case eval_Query io C cl \<lparr>qMode = gcMode c, qText = gcQuery c, qTopK = gcTopK c\<rparr> w of
     (Inl _, _) \<Rightarrow> False
   | (Inr ms', w1) \<Rightarrow> ms' = ms \<and> answers io C cl cs w1 mss w')"
| "answers io C cl _ w _ w' = False"

lemma score_cases_answers:
  "score_cases io C cl k cs w = (Inr scores, w') \<longleftrightarrow>
   (\<exists>mss. answers io C cl cs w mss w' \<and> scores = map2 (\<lambda>c ms. ScoreCase c ms k) cs mss)"
proof (induction cs arbitrary: w scores)
  case Nil
  have "answers io C cl [] w mss w' \<longleftrightarrow> mss = [] \<and> w' = w" for mss by (cases mss) auto
  then show ?case by auto
next
  case (Cons c cs)
  obtain r w1 where q: "eval_Query io C cl \<lparr>qMode = gcMode c, qText = gcQuery c, qTopK = gcTopK c\<rparr> w = (r, w1)" by fastforce
  have a: "answers io C cl (c # cs) w mss w' \<longleftrightarrow> (\<exists>ms mss'. r = Inr ms \<and> mss = ms # mss' \<and> answers io C cl cs w1 mss' w')" for mss
    by (cases mss; cases r) (auto simp: q)
  show ?case
  proof (cases r)
    case (Inl e)
    then show ?thesis unfolding a by (simp add: q)
  next
    case (Inr ms)
    obtain r2 w2 where s: "score_cases io C cl k cs w1 = (r2, w2)" by fastforce
    have "score_cases io C cl k (c # cs) w = (Inr scores, w') \<longleftrightarrow>
        (\<exists>scores'. score_cases io C cl k cs w1 = (Inr scores', w') \<and> scores = ScoreCase c ms k # scores')"
      using Inr by (cases r2) (auto simp: q s)
    then show ?thesis unfolding Cons.IH a using Inr by auto
  qed
qed

definition mean :: "rat list \<Rightarrow> rat" where
  "mean xs = (if xs = [] then 0 else sum_list xs / of_nat (length xs))"

lemma mean_bounds: "list_all (\<lambda>x. 0 \<le> x \<and> x \<le> 1) xs \<Longrightarrow> 0 \<le> mean xs \<and> mean xs \<le> 1"
proof -
  assume xs: "list_all (\<lambda>x. 0 \<le> x \<and> x \<le> 1) xs"
  then have "0 \<le> sum_list xs \<and> sum_list xs \<le> of_nat (length xs)" by (induction xs) (auto intro: add_mono)
  then show ?thesis by (auto simp: mean_def divide_le_eq)
qed

lemma summary_mean: "suMeanRecallAtK (Summarize scores) = mean (map scRecallAtK scores)"
  by (simp add: Summarize_def mean_def Let_def)

definition mean_recall :: "eval_config \<Rightarrow> GoldenCase list \<Rightarrow> QueryMatch list list \<Rightarrow> rat" where
  "mean_recall cfg cases mss = mean (map2 (\<lambda>c ms. RecallAtK c ms (ecK cfg)) cases mss)"

lemma mean_recall_bounds: "0 \<le> mean_recall cfg cases mss \<and> mean_recall cfg cases mss \<le> 1"
  unfolding mean_recall_def by (rule mean_bounds) (auto simp: list_all_iff recall_bounds)

text \<open>The seed is in: the service accepted it as a job and reported that job finished and not failed.\<close>

definition seeded :: "nat \<Rightarrow> 'w eval_io \<Rightarrow> eval_codec \<Rightarrow> eval_client \<Rightarrow> IngestItem list \<Rightarrow> 'w \<Rightarrow> 'w \<Rightarrow> bool" where
  "seeded n io C cl items w w1 \<longleftrightarrow> items \<noteq> [] \<and> (\<exists>i job w0. BulkIngest io C cl items w = (Inr i, w0)
     \<and> WaitJob n io C cl i w0 = Some (Inr job, w1) \<and> jStatus job \<in> {JobStatusSucceeded, JobStatusPartial})"

lemma wait_job_terminal: "wait_job n io C c i deadline w = Some (Inr job, w') \<Longrightarrow> Terminal (jStatus job)"
  by (induction n arbitrary: w) (auto split: prod.splits sum.splits if_splits bool.splits)

lemma seed_corpus_seeded: "seed_corpus n io C cl items w = Some (None, w1) \<longleftrightarrow> seeded n io C cl items w w1"
proof -
  have fin: "jStatus job \<noteq> JobStatusFailed \<longleftrightarrow> jStatus job \<in> {JobStatusSucceeded, JobStatusPartial}"
    if "WaitJob n io C cl i v = Some (Inr job, w1)" for i job v
    using wait_job_terminal [OF that [unfolded WaitJob_def]] by (cases "jStatus job") auto
  have empty: "BulkIngest io C cl [] w = (Inl (Opaque ''eval: no seed items to ingest''), w)" by (simp add: BulkIngest_def)
  obtain r w0 where b: "BulkIngest io C cl items w = (r, w0)" by fastforce
  show ?thesis
  proof (cases r)
    case (Inr i)
    have s: "seeded n io C cl items w w1 \<longleftrightarrow> (\<exists>job. WaitJob n io C cl i w0 = Some (Inr job, w1) \<and> jStatus job \<noteq> JobStatusFailed)"
      using b Inr empty fin by (auto simp: seeded_def)
    show ?thesis
    proof (cases "WaitJob n io C cl i w0")
      case (Some x)
      then show ?thesis unfolding s by (cases x; cases "fst x") (auto simp: seed_corpus_def b Inr split: if_splits)
    qed (simp add: s seed_corpus_def b Inr)
  qed (simp add: seed_corpus_def seeded_def b)
qed

lemma verdict_mean:
  "eval_verdict F cfg (map2 (\<lambda>c ms. ScoreCase c ms (ecK cfg)) cases mss) = None \<longleftrightarrow> ecRecallFloor cfg \<le> mean_recall cfg cases mss"
proof -
  have "map scRecallAtK (map2 (\<lambda>c ms. ScoreCase c ms (ecK cfg)) cases mss) = map2 (\<lambda>c ms. RecallAtK c ms (ecK cfg)) cases mss"
    by (auto simp: score_case_reference)
  then show ?thesis unfolding eval_verdict_def summary_mean mean_recall_def Let_def by (simp only: if_split option.distinct not_le) auto
qed

lemma eval_run_passes:
  "(eval_run n F io C fs cfg w = Some (None, w')) =
     (\<exists>cases items cl w1 w2 mss. config_golden C fs cfg = Inr cases \<and> config_seed C fs cfg = Inr items
        \<and> NewEvalClient (ecBaseURL cfg) (ecToken cfg) 0 (ecJobTimeout cfg) = Inr cl
        \<and> seeded n io C cl items w w1 \<and> answers io C cl cases w1 mss w2
        \<and> publish F io C cfg (map2 (\<lambda>c ms. ScoreCase c ms (ecK cfg)) cases mss) w2 = (None, w')
        \<and> ecRecallFloor cfg \<le> mean_recall cfg cases mss)"
proof (cases "config_golden C fs cfg"; cases "config_seed C fs cfg"; cases "NewEvalClient (ecBaseURL cfg) (ecToken cfg) 0 (ecJobTimeout cfg)")
  fix cases items cl
  assume in0: "config_golden C fs cfg = Inr cases" "config_seed C fs cfg = Inr items"
    "NewEvalClient (ecBaseURL cfg) (ecToken cfg) 0 (ecJobTimeout cfg) = Inr cl"
  have "(eval_run n F io C fs cfg w = Some (None, w')) =
     (\<exists>w1 w2 scores. seed_corpus n io C cl items w = Some (None, w1) \<and> score_cases io C cl (ecK cfg) cases w1 = (Inr scores, w2)
        \<and> publish F io C cfg scores w2 = (None, w') \<and> eval_verdict F cfg scores = None)"
    by (auto simp: eval_run_def in0 split: option.splits prod.splits sum.splits)
  then have "(eval_run n F io C fs cfg w = Some (None, w')) = (\<exists>w1 w2 mss. seeded n io C cl items w w1 \<and> answers io C cl cases w1 mss w2
      \<and> publish F io C cfg (map2 (\<lambda>c ms. ScoreCase c ms (ecK cfg)) cases mss) w2 = (None, w')
      \<and> eval_verdict F cfg (map2 (\<lambda>c ms. ScoreCase c ms (ecK cfg)) cases mss) = None)"
    unfolding seed_corpus_seeded score_cases_answers by blast
  then show ?thesis unfolding verdict_mean in0 by simp
qed (auto simp: eval_run_def)

text \<open>
  C39: the exit code is exact.  The program ends with code 0 exactly when the command line and the environment
  give a valid configuration, the cases and the seed load, the service accepts the seed and reports its job finished and
  not failed, answers every case in turn, the metrics file is written if one is asked for, and the mean over
  the cases of the share of expected entries found among the best \<open>k\<close> answers is at least the floor.
  Loaded cases are well formed and have distinct names, and the mean is always between 0 and 1.
\<close>

theorem eval_gate_exact:
  "(eval_main n F io C fs args w = Some (0, w')) =
     (\<exists>cfg cases items cl w1 w2 mss. eval_parseConfig F (ioGetenv io) args = Inr cfg
        \<and> config_golden C fs cfg = Inr cases \<and> config_seed C fs cfg = Inr items
        \<and> NewEvalClient (ecBaseURL cfg) (ecToken cfg) 0 (ecJobTimeout cfg) = Inr cl
        \<and> seeded n io C cl items w w1 \<and> answers io C cl cases w1 mss w2
        \<and> publish F io C cfg (map2 (\<lambda>c ms. ScoreCase c ms (ecK cfg)) cases mss) w2 = (None, w')
        \<and> ecRecallFloor cfg \<le> mean_recall cfg cases mss)
   \<and> 0 \<le> mean_recall cfg' cs mss' \<and> mean_recall cfg' cs mss' \<le> 1
   \<and> (case config_golden C fs cfg' of Inl _ \<Rightarrow> True
      | Inr cases \<Rightarrow> distinct (map gcName cases) \<and> list_all well_formed_case cases)"
proof -
  have "(eval_main n F io C fs args w = Some (0, w')) =
      (\<exists>cfg. eval_parseConfig F (ioGetenv io) args = Inr cfg \<and> eval_run n F io C fs cfg w = Some (None, w'))"
    by (cases "eval_parseConfig F (ioGetenv io) args") (auto simp: eval_main_def split: if_splits)
  moreover have "(case config_golden C fs cfg' of Inl _ \<Rightarrow> True
      | Inr cases \<Rightarrow> distinct (map gcName cases) \<and> list_all well_formed_case cases)"
    using loadGolden_ok by (auto simp: config_golden_def LoadGolden_def LoadGoldenDir_def split: sum.split)
  ultimately show ?thesis unfolding eval_run_passes using mean_recall_bounds by blast
qed

section \<open>Waiting for the seed\<close>

text \<open>
  With a clock that does not run backwards, the wait for the seed job returns within the timeout
  divided by the poll interval plus two polls, whatever the service answers.
\<close>

theorem eval_wait_returns:
  assumes "\<And>req v r v'. ioSend io req v = (r, v') \<Longrightarrow> ioNow io v \<le> ioNow io v'"
    and "\<And>d v v'. ioSleep io d v = (True, v') \<Longrightarrow> ioNow io v + d \<le> ioNow io v'"
    and "0 < evPollInterval c" "0 \<le> evJobTimeout c" "evJobTimeout c div evPollInterval c + 2 \<le> int n"
  shows "WaitJob n io C c i w \<noteq> None"
proof -
  let ?p = "evPollInterval c"
  have polled: "ioNow io v \<le> ioNow io v'" if "poll_job io C c i v = (r, v')" for v r v'
    using that assms(1) by (auto simp: poll_job_def doJSON_def Let_def split: prod.splits sum.splits if_splits)
  have "wait_job m io C c i deadline v \<noteq> None" if "deadline < ioNow io v + int (m - 1) * ?p" "0 < m" for m deadline v
    using that
  proof (induction m arbitrary: v)
    case (Suc m)
    show ?case
    proof
      assume none: "wait_job (Suc m) io C c i deadline v = None"
      then obtain job v1 v2 where p: "poll_job io C c i v = (Inr job, v1)" and late: "\<not> ioNow io v1 > deadline"
        and s: "ioSleep io ?p v1 = (True, v2)" and rest: "wait_job m io C c i deadline v2 = None"
        by (auto split: prod.splits sum.splits if_splits bool.splits)
      have "ioNow io v + ?p \<le> ioNow io v2" using polled [OF p] assms(2) [OF s] by linarith
      moreover have "0 < m" using Suc.prems(1) late polled [OF p] by (cases m) auto
      then have "int m * ?p = int (m - 1) * ?p + ?p" by (cases m) (simp_all add: distrib_right)
      ultimately have "deadline < ioNow io v2 + int (m - 1) * ?p" using Suc.prems(1) by simp
      from Suc.IH [OF this \<open>0 < m\<close>] rest show False by blast
    qed
  qed simp
  moreover have "evJobTimeout c < int (n - 1) * ?p"
  proof -
    have "evJobTimeout c < (evJobTimeout c div ?p + 1) * ?p"
      using div_mult_mod_eq [of "evJobTimeout c" ?p] pos_mod_bound [OF assms(3), of "evJobTimeout c"] unfolding distrib_right mult_1 by linarith
    also have "\<dots> \<le> int (n - 1) * ?p" using assms(3,5) by (intro mult_right_mono) auto
    finally show ?thesis .
  qed
  moreover have "0 \<le> evJobTimeout c div ?p" using assms(3,4) by (simp add: pos_imp_zdiv_nonneg_iff)
  then have "0 < n" using assms(5) by linarith
  ultimately show ?thesis by (simp add: WaitJob_def)
qed

section \<open>Instances\<close>

text \<open>A service that accepts the seed, reports the job done at the first poll, and finds one of two expected entries.\<close>

definition demo_io :: "int eval_io" where
  "demo_io = \<lparr>ioSend = (\<lambda>r now. (Inr (if erURL r = ''http://m/memories:bulk'' then 202 else 200, erURL r), now + 5)),
     ioNow = (\<lambda>now. now), ioSleep = (\<lambda>d now. (True, now + d)), ioWriteFile = (\<lambda>_ _ now. (None, now)),
     ioGetenv = (\<lambda>_. ''''), ioHostname = ''host''\<rparr>"

definition demo_case :: GoldenCase where
  "demo_case = \<lparr>gcName = ''c'', gcQuery = ''q'', gcMode = ''hybrid'', gcTopK = 0, gcExpected = [''answer'', ''m1'']\<rparr>"

definition demo_eval_codec :: eval_codec where
  "demo_eval_codec = \<lparr>evEncItems = (\<lambda>_. ''''), evEncQuery = (\<lambda>_. ''''),
     evDecJob = (\<lambda>s. Inr \<lparr>jID = ''j'', jStatus = JobStatusSucceeded, jTotal = 1, jDone = 1, jFailed = 0, jErrors = [], jCreatedAt = 0, jUpdatedAt = 0\<rparr>),
     evDecResult = (\<lambda>s. Inr [\<lparr>maID = ''m1'', maScore = 1/4, maText = ''nothing''\<rparr>, \<lparr>maID = ''m2'', maScore = 3/4, maText = ''The Answer''\<rparr>]),
     evPathEscape = id, evShowDuration = (\<lambda>_. ''''), evShowStatus = (\<lambda>_. ''''), evDecGolden = (\<lambda>_. Inr [demo_case]),
     evDecSeed = (\<lambda>_. Inr [\<lparr>iKey = ''k'', iText = ''t'', iMetadata = Map.empty, iTrackID = ''''\<rparr>]), evEncodeQuery = (\<lambda>_. '''')\<rparr>"

definition demo_formats :: formats where
  "demo_formats = \<lparr>fmDuration = (\<lambda>_. Inl (Opaque ''duration'')), fmInt = (\<lambda>_. Inr 1), fmFloat = (\<lambda>s. Inr (if s = ''0.5'' then 1/2 else 3/5)),
     fmShowFloat = (\<lambda>_ _. '''')\<rparr>"

definition demo_files :: file_system where
  "demo_files = \<lparr>fsEmbedded = (\<lambda>_. Inr [(''a.json'', Inr ''[]'')]), fsDir = (\<lambda>_. Inl (Opaque ''no such directory''))\<rparr>"

text \<open>
  One expected entry of two among the best one: the program passes with the floor at one half and fails above it, and
  a missing base URL is a bad command line.
\<close>

lemma demo_eval_exits:
  "map_option fst (eval_main 1 demo_formats demo_io demo_eval_codec demo_files [''--base-url=http://m/'', ''-recall-floor'', ''0.5'', ''--k=1''] 0) = Some 0"
  "map_option fst (eval_main 1 demo_formats demo_io demo_eval_codec demo_files [''--base-url=http://m/'', ''--recall-floor=0.6'', ''--k=1''] 0) = Some 1"
  "map_option fst (eval_main 1 demo_formats demo_io demo_eval_codec demo_files [] 0) = Some 2"
  by code_simp+

theorem eval_wait_returns_witness:
  "WaitJob 4 demo_io demo_eval_codec \<lparr>evBaseURL = '''', evToken = '''', evPollInterval = 2, evJobTimeout = 5\<rparr> ''j'' 0 \<noteq> None"
  by (rule eval_wait_returns) (auto simp: demo_io_def)

end
