(* ===== verification/Eval_Codegraph.thy ===== *)
theory Eval_Codegraph
  imports Eval_Memory Codegraph_Service
begin

text \<open>
  The evaluation of the code graph (\<^verbatim>\<open>eval/codegraph\<close> and \<^verbatim>\<open>cmd/codegraph-eval\<close>): the fixture and the golden cases, the
  client, scores for ranked and for set answers, and the gate.  What is a parameter or left out is as in
  \<open>Eval_Memory\<close>, whose loader loop and means it shares.
\<close>

section \<open>Golden cases\<close>

definition KindSearch :: string where "KindSearch = ''search''"
definition KindEntity :: string where "KindEntity = ''entity''"
definition KindNeighbors :: string where "KindNeighbors = ''neighbors''"
definition KindCallers :: string where "KindCallers = ''callers''"
definition KindCallees :: string where "KindCallees = ''callees''"
definition KindDependents :: string where "KindDependents = ''dependents''"
definition KindDependencies :: string where "KindDependencies = ''dependencies''"
definition KindResourceGraph :: string where "KindResourceGraph = ''resource-graph''"
definition KindFileImports :: string where "KindFileImports = ''file-imports''"
definition KindPath :: string where "KindPath = ''path''"

lemmas kinds = KindSearch_def KindEntity_def KindNeighbors_def KindCallers_def KindCallees_def KindDependents_def KindDependencies_def
  KindResourceGraph_def KindFileImports_def KindPath_def

datatype score_mode = ModeRanked | ModeSet

record CgCase =
  kcName :: string
  kcKind :: string
  kcID :: string
  kcQ :: string
  kcType :: string
  kcRelation :: string
  kcDirection :: string
  kcDepth :: int
  kcPath :: string
  kcFrom :: string
  kcTo :: string
  kcMaxDepth :: int
  kcExpected :: "string list"

definition cg_Mode :: "CgCase \<Rightarrow> score_mode" where
  "cg_Mode c = (if kcKind c = KindSearch \<or> kcKind c = KindPath then ModeRanked else ModeSet)"

definition validKinds :: "string list" where
  "validKinds = [KindSearch, KindEntity, KindNeighbors, KindCallers, KindCallees, KindDependents, KindDependencies, KindResourceGraph,
     KindFileImports, KindPath]"

text \<open>The arguments a kind needs, in the order they are checked.\<close>

definition needed_args :: "CgCase \<Rightarrow> (string \<times> string) list" where
  "needed_args c =
     (if kcKind c = KindSearch then [(''q'', kcQ c)]
      else if kcKind c \<in> {KindEntity, KindCallers, KindCallees, KindDependents, KindDependencies, KindResourceGraph} then [(''id'', kcID c)]
      else if kcKind c = KindNeighbors then [(''id'', kcID c), (''relation'', kcRelation c)]
      else if kcKind c = KindFileImports then [(''path'', kcPath c)]
      else if kcKind c = KindPath then [(''from'', kcFrom c), (''to'', kcTo c)]
      else [])"

definition cg_validateArgs :: "CgCase \<Rightarrow> err option" where
  "cg_validateArgs c = map_option (\<lambda>(field, _). Opaque (''golden case '' @ quoteq (kcName c) @ '' (kind '' @ kcKind c @ '') missing '' @ field))
     (find (\<lambda>(_, v). blank v) (needed_args c))"

definition cg_validate :: "CgCase \<Rightarrow> err option" where
  "cg_validate c =
     (let who = ''golden case '' @ quoteq (kcName c) in
      if blank (kcName c) then Some (Opaque ''golden case missing name'')
      else if kcKind c \<notin> set validKinds then Some (Opaque (who @ '' invalid kind '' @ quoteq (kcKind c)))
      else if kcExpected c = [] then Some (Opaque (who @ '' missing expected''))
      else if list_ex blank (kcExpected c) then Some (Opaque (who @ '' has a blank expected entry''))
      else if kcDepth c < 0 \<or> kcMaxDepth c < 0 then Some (Opaque (who @ '' depth must be non-negative''))
      else if kcDirection c \<notin> {'''', ''in'', ''out''} then Some (Opaque (who @ '' direction must be in or out''))
      else cg_validateArgs c)"

fun cg_cases :: "string list \<Rightarrow> CgCase list \<Rightarrow> err option" where
  "cg_cases seen [] = None"
| "cg_cases seen (c # cs) = (case cg_validate c of
     Some e \<Rightarrow> Some e
   | None \<Rightarrow> if kcName c \<in> set seen then Some (Opaque (''duplicate golden case name '' @ quoteq (kcName c)))
       else cg_cases (kcName c # seen) cs)"

definition cg_parseGolden :: "(string \<Rightarrow> err + CgCase list) \<Rightarrow> string \<Rightarrow> err + CgCase list" where
  "cg_parseGolden decode data = (case decode data of
     Inl e \<Rightarrow> Inl (Wrap ''parse golden'' e)
   | Inr cs \<Rightarrow> (case cg_cases [] cs of Some e \<Rightarrow> Inl e | None \<Rightarrow> Inr cs))"

definition cg_loadGolden :: "(string \<Rightarrow> err + CgCase list) \<Rightarrow> string \<Rightarrow> files \<Rightarrow> err + CgCase list" where
  "cg_loadGolden decode dir files = (case files of
     Inl e \<Rightarrow> Inl (Wrap ''cgeval: glob golden'' e)
   | Inr fs \<Rightarrow>
       if fs = [] then Inl (Opaque (''cgeval: no golden files under '' @ dir))
       else load_files ''cgeval'' (cg_parseGolden decode) kcName
         (\<lambda>n. Opaque (''cgeval: duplicate golden case name '' @ quoteq n @ '' (across files)'')) [] fs)"

section \<open>The fixture\<close>

definition empty_push :: GraphPush where
  "empty_push = \<lparr>gpRepo = '''', gpCommit = '''', gpExtractor = '''', gpFiles = [], gpEntities = [], gpEdges = [], gpSymbols = [],
     gpHyperedges = [], gpFileSHAs = []\<rparr>"

fun add_files :: "string list \<Rightarrow> string list \<Rightarrow> string list" where
  "add_files all [] = all"
| "add_files all (f # fs) = add_files (if f \<in> set all then all else all @ [f]) fs"

fun add_entities :: "string \<Rightarrow> CEntity list \<Rightarrow> CEntity list \<Rightarrow> err + CEntity list" where
  "add_entities f all [] = Inr all"
| "add_entities f all (e # es) =
     (if ceID e = '''' then Inl (Opaque (''cgeval: seed '' @ f @ '': entity missing id''))
      else if ceID e \<in> ceID ` set all then Inl (Opaque (''cgeval: seed '' @ f @ '': duplicate entity id '' @ quoteq (ceID e)))
      else add_entities f (all @ [e]) es)"

fun merge_seed :: "(string \<Rightarrow> err + GraphPush) \<Rightarrow> GraphPush \<Rightarrow> (string \<times> (err + string)) list \<Rightarrow> err + GraphPush" where
  "merge_seed decode merged [] = Inr merged"
| "merge_seed decode merged ((f, data) # fs) = (case data of
     Inl e \<Rightarrow> Inl (Wrap (''cgeval: read '' @ f) e)
   | Inr d \<Rightarrow> (case decode d of
       Inl e \<Rightarrow> Inl (Wrap (''cgeval: parse seed '' @ f) e)
     | Inr p \<Rightarrow> (case add_entities f (gpEntities merged) (gpEntities p) of
         Inl e \<Rightarrow> Inl e
       | Inr es \<Rightarrow> merge_seed decode
           (merged\<lparr>gpFiles := add_files (gpFiles merged) (gpFiles p), gpEntities := es, gpEdges := gpEdges merged @ gpEdges p\<rparr>) fs)))"

definition validateSeedScope :: "GraphPush \<Rightarrow> err option" where
  "validateSeedScope p =
     (if gpFiles p = [] then Some (Opaque ''cgeval: seed has no files'')
      else if gpEntities p = [] then Some (Opaque ''cgeval: seed has no entities'')
      else case find (\<lambda>e. ceFilePath e \<noteq> '''' \<and> ceFilePath e \<notin> set (gpFiles p)) (gpEntities p) of
        Some e \<Rightarrow> Some (Opaque (''cgeval: entity '' @ ceID e @ '' file_path '' @ quoteq (ceFilePath e) @ '' not in files''))
      | None \<Rightarrow> (case find (\<lambda>e. cdSrcFile e \<notin> set (gpFiles p)) (gpEdges p) of
          Some e \<Rightarrow> Some (Opaque (''cgeval: edge '' @ cdFrom e @ ''->'' @ cdTo e @ '' src_file '' @ quoteq (cdSrcFile e) @ '' not in files''))
        | None \<Rightarrow> None))"

definition cg_loadSeed :: "(string \<Rightarrow> err + GraphPush) \<Rightarrow> string \<Rightarrow> files \<Rightarrow> err + GraphPush" where
  "cg_loadSeed decode dir files = (case files of
     Inl e \<Rightarrow> Inl (Wrap ''cgeval: glob seed'' e)
   | Inr fs \<Rightarrow>
       if fs = [] then Inl (Opaque (''cgeval: no seed files under '' @ dir))
       else case merge_seed decode empty_push fs of
         Inl e \<Rightarrow> Inl e
       | Inr p \<Rightarrow> (case validateSeedScope p of Some e \<Rightarrow> Inl e | None \<Rightarrow> Inr p))"

section \<open>Scores\<close>

record Result =
  reKey :: string
  reName :: string

text \<open>\<^verbatim>\<open>strings.EqualFold\<close> on ASCII letters\<close>

definition EqualFold :: "string \<Rightarrow> string \<Rightarrow> bool" where
  "EqualFold a b \<longleftrightarrow> ToLower a = ToLower b"

definition hit :: "Result \<Rightarrow> string \<Rightarrow> bool" where
  "hit r expected \<longleftrightarrow> EqualFold (reKey r) expected \<or> (reName r \<noteq> '''' \<and> EqualFold (reName r) expected)"

record CgScore =
  csName :: string
  csKind :: string
  csMode :: score_mode
  csK :: int
  csExpected :: nat
  csReturned :: nat
  csRelevant :: nat
  csHits :: nat
  csRecallAtK :: rat
  csMRR :: rat
  csPrecision :: rat
  csF1 :: rat

record CgSummary =
  smCases :: nat
  smMeanRecallAtK :: rat
  smMeanMRR :: rat
  smMeanPrecision :: rat
  smMeanF1 :: rat

definition cg_anyHits :: "Result list \<Rightarrow> string \<Rightarrow> bool" where
  "cg_anyHits rs expected = list_ex (\<lambda>r. hit r expected) rs"

definition relevantCount :: "string list \<Rightarrow> Result list \<Rightarrow> nat" where
  "relevantCount expected rs = length (filter (\<lambda>r. list_ex (hit r) expected) rs)"

fun cg_mrr_from :: "nat \<Rightarrow> string list \<Rightarrow> Result list \<Rightarrow> rat" where
  "cg_mrr_from i expected [] = 0"
| "cg_mrr_from i expected (r # rs) = (if list_ex (hit r) expected then 1 / of_nat (i + 1) else cg_mrr_from (i + 1) expected rs)"

definition cg_mrr :: "string list \<Rightarrow> Result list \<Rightarrow> rat" where
  "cg_mrr expected rs = cg_mrr_from 0 expected rs"

definition f1 :: "rat \<Rightarrow> rat \<Rightarrow> rat" where
  "f1 precision recall = (if precision + recall = 0 then 0 else 2 * precision * recall / (precision + recall))"

fun dedupe_from :: "string list \<Rightarrow> Result list \<Rightarrow> Result list" where
  "dedupe_from seen [] = []"
| "dedupe_from seen (r # rs) = (if reKey r \<in> set seen then dedupe_from seen rs else r # dedupe_from (reKey r # seen) rs)"

definition dedupe :: "Result list \<Rightarrow> Result list" where
  "dedupe rs = dedupe_from [] rs"

definition cg_RecallAtK :: "string list \<Rightarrow> Result list \<Rightarrow> int \<Rightarrow> rat" where
  "cg_RecallAtK expected rs k =
     (if expected = [] then 0 else of_nat (length (filter (cg_anyHits (topK rs k)) expected)) / of_nat (length expected))"

definition Precision :: "string list \<Rightarrow> Result list \<Rightarrow> rat" where
  "Precision expected rs = (if rs = [] then 0 else of_nat (relevantCount expected rs) / of_nat (length rs))"

definition cg_ScoreCase :: "CgCase \<Rightarrow> Result list \<Rightarrow> int \<Rightarrow> CgScore" where
  "cg_ScoreCase c results k0 =
     (let mode = cg_Mode c;
          rs = (if mode = ModeSet then dedupe results else results);
          k = (if mode = ModeSet then int (length rs) else k0);
          hits = length (filter (cg_anyHits (topK rs k)) (kcExpected c));
          recall = (if kcExpected c = [] then 0 else of_nat hits / of_nat (length (kcExpected c)));
          relevant = relevantCount (kcExpected c) rs;
          precision = (if rs = [] then 0 else of_nat relevant / of_nat (length rs))
      in \<lparr>csName = kcName c, csKind = kcKind c, csMode = mode, csK = k, csExpected = length (kcExpected c), csReturned = length rs,
          csRelevant = relevant, csHits = hits, csRecallAtK = recall, csMRR = cg_mrr (kcExpected c) rs, csPrecision = precision,
          csF1 = f1 precision recall\<rparr>)"

definition cg_Summarize :: "CgScore list \<Rightarrow> CgSummary" where
  "cg_Summarize ss =
     (if ss = [] then \<lparr>smCases = 0, smMeanRecallAtK = 0, smMeanMRR = 0, smMeanPrecision = 0, smMeanF1 = 0\<rparr>
      else let n = of_nat (length ss) in
        \<lparr>smCases = length ss, smMeanRecallAtK = sum_list (map csRecallAtK ss) / n, smMeanMRR = sum_list (map csMRR ss) / n,
         smMeanPrecision = sum_list (map csPrecision ss) / n, smMeanF1 = sum_list (map csF1 ss) / n\<rparr>)"

section \<open>The client\<close>

record cg_client =
  ckBaseURL :: string
  ckRepo :: string
  ckToken :: string

definition NewCgClient :: "string \<Rightarrow> string \<Rightarrow> string \<Rightarrow> err + cg_client" where
  "NewCgClient baseURL repo token =
     (if blank baseURL then Inl (Opaque ''cgeval: base url required'')
      else if blank repo then Inl (Opaque ''cgeval: repo required'')
      else Inr \<lparr>ckBaseURL = trim_slashes baseURL, ckRepo = repo, ckToken = token\<rparr>)"

text \<open>A query string is a list of parameters; \<^verbatim>\<open>url.Values.Encode\<close> is part of the codec.\<close>

type_synonym url_values = "(string \<times> string) list"

record cg_codec =
  kdEncode :: "url_values \<Rightarrow> string"
  kdEncPush :: "GraphPush \<Rightarrow> string"
  kdDecPush :: "string \<Rightarrow> err + PushResult"
  kdDecEntities :: "string \<Rightarrow> err + CEntity list"
  kdDecDetail :: "string \<Rightarrow> err + EntityDetail"
  kdDecNodes :: "string \<Rightarrow> err + PathNode list"
  kdDecEdges :: "string \<Rightarrow> err + CEdge list"
  kdDecPath :: "string \<Rightarrow> err + CEntity list"
  kdDecGolden :: "string \<Rightarrow> err + CgCase list"
  kdDecSeed :: "string \<Rightarrow> err + GraphPush"

definition cg_do :: "'w eval_io \<Rightarrow> cg_codec \<Rightarrow> cg_client \<Rightarrow> string \<Rightarrow> string \<Rightarrow> url_values \<Rightarrow> string option \<Rightarrow> (string \<Rightarrow> err + 'a) \<Rightarrow> 'w \<Rightarrow> (err + 'a) \<times> 'w" where
  "cg_do io K c method p query body decode w =
     (let req = \<lparr>erMethod = method, erURL = ckBaseURL c @ p @ (if query = [] then '''' else ''?'' @ kdEncode K query),
        erHeaders = (if ckToken c = '''' then [] else [(''Authorization'', ''Bearer '' @ ckToken c)]) @ [(''Accept'', ''application/json'')]
          @ (case body of None \<Rightarrow> [] | Some _ \<Rightarrow> [(''Content-Type'', ''application/json'')]), erBody = body\<rparr>
      in case ioSend io req w of
        (Inl e, w') \<Rightarrow> (Inl (Wrap (''cgeval: '' @ method @ '' '' @ p) e), w')
      | (Inr (status, resp), w') \<Rightarrow>
          if status < 200 \<or> status \<ge> 300
          then (Inl (Opaque (''cgeval: '' @ method @ '' '' @ p @ '': status '' @ dec_int status @ '': '' @ TrimSpace resp)), w')
          else case decode resp of
            Inl e \<Rightarrow> (Inl (Wrap (''cgeval: decode '' @ method @ '' '' @ p) e), w')
          | Inr x \<Rightarrow> (Inr x, w'))"

definition cg_Push :: "'w eval_io \<Rightarrow> cg_codec \<Rightarrow> cg_client \<Rightarrow> GraphPush \<Rightarrow> 'w \<Rightarrow> (err + PushResult) \<times> 'w" where
  "cg_Push io K c p w = cg_do io K c ''POST'' ''/code-graph:bulk'' [] (Some (kdEncPush K (p\<lparr>gpRepo := ckRepo c\<rparr>))) (kdDecPush K) w"

definition baseQuery :: "cg_client \<Rightarrow> url_values" where
  "baseQuery c = [(''repo'', ckRepo c)]"

definition idDepthQuery :: "cg_client \<Rightarrow> CgCase \<Rightarrow> url_values" where
  "idDepthQuery c gc = baseQuery c @ [(''id'', kcID gc)] @ (if kcDepth gc > 0 then [(''depth'', dec_int (kcDepth gc))] else [])"

definition neighborQuery :: "cg_client \<Rightarrow> CgCase \<Rightarrow> url_values" where
  "neighborQuery c gc = idDepthQuery c gc @ [(''relation'', kcRelation gc)] @ (if kcDirection gc = '''' then [] else [(''direction'', kcDirection gc)])"

definition then_map :: "('a \<Rightarrow> 'b) \<Rightarrow> (err + 'a) \<times> 'w \<Rightarrow> (err + 'b) \<times> 'w" where
  "then_map f r = (map_sum id f (fst r), snd r)"

definition entityResults :: "CEntity list \<Rightarrow> Result list" where
  "entityResults es = map (\<lambda>e. \<lparr>reKey = ceID e, reName = ceName e\<rparr>) es"

definition cg_search :: "'w eval_io \<Rightarrow> cg_codec \<Rightarrow> cg_client \<Rightarrow> CgCase \<Rightarrow> 'w \<Rightarrow> (err + Result list) \<times> 'w" where
  "cg_search io K c gc w = then_map entityResults (cg_do io K c ''GET'' ''/code/entities''
     (baseQuery c @ [(''q'', kcQ gc)] @ (if kcType gc = '''' then [] else [(''type'', kcType gc)])) None (kdDecEntities K) w)"

definition detail_results :: "EntityDetail \<Rightarrow> Result list" where
  "detail_results d = \<lparr>reKey = ceID (edEntity d), reName = ceName (edEntity d)\<rparr>
     # map (\<lambda>e. \<lparr>reKey = cdTo e, reName = ''''\<rparr>) (edOutEdges d) @ map (\<lambda>e. \<lparr>reKey = cdFrom e, reName = ''''\<rparr>) (edInEdges d)"

definition cg_entity :: "'w eval_io \<Rightarrow> cg_codec \<Rightarrow> cg_client \<Rightarrow> CgCase \<Rightarrow> 'w \<Rightarrow> (err + Result list) \<times> 'w" where
  "cg_entity io K c gc w = then_map detail_results (cg_do io K c ''GET'' ''/code/entity'' (baseQuery c @ [(''id'', kcID gc)]) None (kdDecDetail K) w)"

definition cg_nodes :: "'w eval_io \<Rightarrow> cg_codec \<Rightarrow> cg_client \<Rightarrow> string \<Rightarrow> url_values \<Rightarrow> 'w \<Rightarrow> (err + Result list) \<times> 'w" where
  "cg_nodes io K c p q w = then_map (entityResults \<circ> map pnEntity) (cg_do io K c ''GET'' p q None (kdDecNodes K) w)"

definition cg_fileImports :: "'w eval_io \<Rightarrow> cg_codec \<Rightarrow> cg_client \<Rightarrow> CgCase \<Rightarrow> 'w \<Rightarrow> (err + Result list) \<times> 'w" where
  "cg_fileImports io K c gc w = then_map (map (\<lambda>e. \<lparr>reKey = cdFrom e @ ''->'' @ cdTo e, reName = ''''\<rparr>))
     (cg_do io K c ''GET'' ''/code/file-imports'' (baseQuery c @ [(''path'', kcPath gc)]) None (kdDecEdges K) w)"

definition cg_path :: "'w eval_io \<Rightarrow> cg_codec \<Rightarrow> cg_client \<Rightarrow> CgCase \<Rightarrow> 'w \<Rightarrow> (err + Result list) \<times> 'w" where
  "cg_path io K c gc w = then_map entityResults (cg_do io K c ''GET'' ''/code-graph/path''
     (baseQuery c @ [(''from'', kcFrom gc), (''to'', kcTo gc)] @ (if kcRelation gc = '''' then [] else [(''relations'', kcRelation gc)])
      @ (if kcMaxDepth gc > 0 then [(''max_depth'', dec_int (kcMaxDepth gc))] else [])) None (kdDecPath K) w)"

definition cg_Run :: "'w eval_io \<Rightarrow> cg_codec \<Rightarrow> cg_client \<Rightarrow> CgCase \<Rightarrow> 'w \<Rightarrow> (err + Result list) \<times> 'w" where
  "cg_Run io K c gc w =
     (let k = kcKind gc in
      if k = KindSearch then cg_search io K c gc w
      else if k = KindEntity then cg_entity io K c gc w
      else if k = KindNeighbors then cg_nodes io K c ''/code/neighbors'' (neighborQuery c gc) w
      else if k = KindCallers then cg_nodes io K c ''/code/callers'' (idDepthQuery c gc) w
      else if k = KindCallees then cg_nodes io K c ''/code/callees'' (idDepthQuery c gc) w
      else if k = KindDependents then cg_nodes io K c ''/code/dependents'' (idDepthQuery c gc) w
      else if k = KindDependencies then cg_nodes io K c ''/code/dependencies'' (idDepthQuery c gc) w
      else if k = KindResourceGraph then cg_nodes io K c ''/code/resource-graph'' (idDepthQuery c gc) w
      else if k = KindFileImports then cg_fileImports io K c gc w
      else if k = KindPath then cg_path io K c gc w
      else (Inl (Opaque (''cgeval: unknown case kind '' @ quoteq k)), w))"

section \<open>The run\<close>

definition cg_defaultRepo :: string where "cg_defaultRepo = ''eval/codegraph-fixture''"

record cg_config =
  kfBaseURL :: string
  kfToken :: string
  kfRepo :: string
  kfRecallFloor :: rat
  kfK :: int
  kfGoldenDir :: string
  kfSeedDir :: string
  kfMetricsFile :: string

definition cg_defaults :: "formats \<Rightarrow> (string \<Rightarrow> string) \<Rightarrow> cg_config" where
  "cg_defaults F getenv = \<lparr>kfBaseURL = getenv ''MEMORY_BASE_URL'', kfToken = getenv ''MEMORY_TOKEN'',
     kfRepo = envDefault getenv ''CODEGRAPH_EVAL_REPO'' cg_defaultRepo, kfRecallFloor = envFloat F getenv ''EVAL_RECALL_FLOOR'' (7 / 10),
     kfK = envInt getenv ''EVAL_K'' 10, kfGoldenDir = getenv ''EVAL_GOLDEN_DIR'', kfSeedDir = getenv ''EVAL_SEED_DIR'',
     kfMetricsFile = getenv ''EVAL_METRICS_FILE''\<rparr>"

definition cg_flags :: "(string \<times> cg_config flag_value) list" where
  "cg_flags =
     [(''base-url'', StringVar (\<lambda>v c. c\<lparr>kfBaseURL := v\<rparr>)), (''token'', StringVar (\<lambda>v c. c\<lparr>kfToken := v\<rparr>)),
      (''repo'', StringVar (\<lambda>v c. c\<lparr>kfRepo := v\<rparr>)), (''recall-floor'', FloatVar (\<lambda>v c. c\<lparr>kfRecallFloor := v\<rparr>)),
      (''k'', IntVar (\<lambda>v c. c\<lparr>kfK := v\<rparr>)), (''golden-dir'', StringVar (\<lambda>v c. c\<lparr>kfGoldenDir := v\<rparr>)),
      (''seed-dir'', StringVar (\<lambda>v c. c\<lparr>kfSeedDir := v\<rparr>)), (''metrics-file'', StringVar (\<lambda>v c. c\<lparr>kfMetricsFile := v\<rparr>))]"

definition cg_config_check :: "formats \<Rightarrow> cg_config \<Rightarrow> err option" where
  "cg_config_check F cfg =
     (if blank (kfBaseURL cfg) then Some (Opaque ''base-url (MEMORY_BASE_URL) is required'')
      else if blank (kfRepo cfg) then Some (Opaque ''repo must not be empty'')
      else if kfRecallFloor cfg < 0 \<or> kfRecallFloor cfg > 1
      then Some (Opaque (''recall-floor must be in [0,1], got '' @ fmShowFloat F ''%v'' (kfRecallFloor cfg)))
      else if kfK cfg < 1 then Some (Opaque (''k must be >= 1, got '' @ dec_int (kfK cfg)))
      else None)"

definition cg_parseConfig :: "formats \<Rightarrow> (string \<Rightarrow> string) \<Rightarrow> string list \<Rightarrow> err + cg_config" where
  "cg_parseConfig F getenv args = andThen (flag_Parse F cg_flags args (cg_defaults F getenv)) (\<lambda>cfg.
     case cg_config_check F cfg of Some e \<Rightarrow> Inl e | None \<Rightarrow> Inr cfg)"

definition cg_LoadGolden :: "(string \<Rightarrow> err + CgCase list) \<Rightarrow> file_system \<Rightarrow> err + CgCase list" where
  "cg_LoadGolden decode fs = cg_loadGolden decode ''golden'' (fsEmbedded fs ''golden'')"

definition cg_LoadSeed :: "(string \<Rightarrow> err + GraphPush) \<Rightarrow> file_system \<Rightarrow> err + GraphPush" where
  "cg_LoadSeed decode fs = cg_loadSeed decode ''seed'' (fsEmbedded fs ''seed'')"

definition cg_LoadGoldenDir :: "(string \<Rightarrow> err + CgCase list) \<Rightarrow> file_system \<Rightarrow> string \<Rightarrow> err + CgCase list" where
  "cg_LoadGoldenDir decode fs dir = cg_loadGolden decode ''.'' (fsDir fs dir)"

definition cg_LoadSeedDir :: "(string \<Rightarrow> err + GraphPush) \<Rightarrow> file_system \<Rightarrow> string \<Rightarrow> err + GraphPush" where
  "cg_LoadSeedDir decode fs dir = cg_loadSeed decode ''.'' (fsDir fs dir)"

definition cg_config_golden :: "cg_codec \<Rightarrow> file_system \<Rightarrow> cg_config \<Rightarrow> err + CgCase list" where
  "cg_config_golden K fs cfg = (if kfGoldenDir cfg \<noteq> '''' then cg_LoadGoldenDir (kdDecGolden K) fs (kfGoldenDir cfg) else cg_LoadGolden (kdDecGolden K) fs)"

definition cg_config_seed :: "cg_codec \<Rightarrow> file_system \<Rightarrow> cg_config \<Rightarrow> err + GraphPush" where
  "cg_config_seed K fs cfg = (if kfSeedDir cfg \<noteq> '''' then cg_LoadSeedDir (kdDecSeed K) fs (kfSeedDir cfg) else cg_LoadSeed (kdDecSeed K) fs)"

definition writeMetricsFile :: "formats \<Rightarrow> 'w eval_io \<Rightarrow> string \<Rightarrow> CgSummary \<Rightarrow> int \<Rightarrow> rat \<Rightarrow> 'w \<Rightarrow> err option \<times> 'w" where
  "writeMetricsFile F io path sm k flr = ioWriteFile io path
     (gauge_text ''codegraph_eval_recall_at_k'' ''Mean recall@k over the golden set.''
        (''{k='' @ [CHR 0x22] @ dec_int k @ [CHR 0x22] @ ''} '' @ fmShowFloat F ''%g'' (smMeanRecallAtK sm))
      @ gauge_text ''codegraph_eval_mrr'' ''Mean reciprocal rank over the golden set.'' ('' '' @ fmShowFloat F ''%g'' (smMeanMRR sm))
      @ gauge_text ''codegraph_eval_precision'' ''Mean set precision over the golden set.'' ('' '' @ fmShowFloat F ''%g'' (smMeanPrecision sm))
      @ gauge_text ''codegraph_eval_f1'' ''Mean set F1 over the golden set.'' ('' '' @ fmShowFloat F ''%g'' (smMeanF1 sm))
      @ gauge_text ''codegraph_eval_cases'' ''Number of golden cases evaluated.'' ('' '' @ dec (smCases sm))
      @ gauge_text ''codegraph_eval_recall_floor'' ''Configured pass/fail floor for recall@k.'' ('' '' @ fmShowFloat F ''%g'' flr))"

fun cg_score_cases :: "'w eval_io \<Rightarrow> cg_codec \<Rightarrow> cg_client \<Rightarrow> int \<Rightarrow> CgCase list \<Rightarrow> 'w \<Rightarrow> (err + CgScore list) \<times> 'w" where
  "cg_score_cases io K cl k [] w = (Inr [], w)"
| "cg_score_cases io K cl k (c # cs) w = (case cg_Run io K cl c w of
     (Inl e, w') \<Rightarrow> (Inl (Wrap (''case '' @ quoteq (kcName c)) e), w')
   | (Inr rs, w') \<Rightarrow> (case cg_score_cases io K cl k cs w' of
       (r, w'') \<Rightarrow> (map_sum id ((#) (cg_ScoreCase c rs k)) r, w'')))"

definition cg_verdict :: "formats \<Rightarrow> 'w eval_io \<Rightarrow> cg_config \<Rightarrow> CgScore list \<Rightarrow> 'w \<Rightarrow> err option \<times> 'w" where
  "cg_verdict F io cfg scores w =
     (let sm = cg_Summarize scores in
      case (if kfMetricsFile cfg = '''' then (None, w) else writeMetricsFile F io (kfMetricsFile cfg) sm (kfK cfg) (kfRecallFloor cfg) w) of
        (Some e, w1) \<Rightarrow> (Some (Wrap ''write metrics file'' e), w1)
      | (None, w1) \<Rightarrow> (if smMeanRecallAtK sm \<ge> kfRecallFloor cfg then None
          else Some (Opaque (''aggregate recall@'' @ dec_int (kfK cfg) @ '' '' @ fmShowFloat F ''%.4f'' (smMeanRecallAtK sm) @ '' below floor ''
            @ fmShowFloat F ''%.4f'' (kfRecallFloor cfg))), w1))"

definition cg_run :: "formats \<Rightarrow> 'w eval_io \<Rightarrow> cg_codec \<Rightarrow> file_system \<Rightarrow> cg_config \<Rightarrow> 'w \<Rightarrow> err option \<times> 'w" where
  "cg_run F io K fs cfg w = (case cg_config_golden K fs cfg of
     Inl e \<Rightarrow> (Some e, w)
   | Inr cases \<Rightarrow> (case cg_config_seed K fs cfg of
       Inl e \<Rightarrow> (Some e, w)
     | Inr p \<Rightarrow> (case NewCgClient (kfBaseURL cfg) (kfRepo cfg) (kfToken cfg) of
         Inl e \<Rightarrow> (Some e, w)
       | Inr cl \<Rightarrow> (case cg_Push io K cl p w of
           (Inl e, w1) \<Rightarrow> (Some (Wrap ''fixture push'' e), w1)
         | (Inr res, w1) \<Rightarrow> (case cg_score_cases io K cl (kfK cfg) cases w1 of
             (Inl e, w2) \<Rightarrow> (Some e, w2)
           | (Inr scores, w2) \<Rightarrow> cg_verdict F io cfg scores w2)))))"

definition cg_main :: "formats \<Rightarrow> 'w eval_io \<Rightarrow> cg_codec \<Rightarrow> file_system \<Rightarrow> string list \<Rightarrow> 'w \<Rightarrow> nat \<times> 'w" where
  "cg_main F io K fs args w = (case cg_parseConfig F (ioGetenv io) args of
     Inl _ \<Rightarrow> (2, w)
   | Inr cfg \<Rightarrow> (case cg_run F io K fs cfg w of (r, w') \<Rightarrow> (if r = None then 0 else 1, w')))"

section \<open>Properties\<close>

lemma add_entities_ok:
  "add_entities f all es = Inr out \<Longrightarrow> distinct (map ceID all) \<Longrightarrow> '''' \<notin> ceID ` set all
   \<Longrightarrow> distinct (map ceID out) \<and> '''' \<notin> ceID ` set out"
proof (induction es arbitrary: all)
  case (Cons e es)
  then have "add_entities f (all @ [e]) es = Inr out" "distinct (map ceID (all @ [e]))" "'''' \<notin> ceID ` set (all @ [e])" by (auto split: if_splits)
  from Cons.IH [OF this] show ?case .
qed simp

lemma merge_seed_ok:
  "merge_seed decode merged fs = Inr p \<Longrightarrow> distinct (map ceID (gpEntities merged)) \<Longrightarrow> '''' \<notin> ceID ` set (gpEntities merged) \<Longrightarrow> gpSymbols merged = []
   \<Longrightarrow> distinct (map ceID (gpEntities p)) \<and> '''' \<notin> ceID ` set (gpEntities p) \<and> gpSymbols p = []"
proof (induction fs arbitrary: merged)
  case (Cons f fs)
  from Cons.prems(1) obtain a d q where f: "f = (a, Inr d)" and q: "decode d = Inr q" by (cases f) (auto split: sum.splits)
  with Cons.prems(1) obtain es where "add_entities (fst f) (gpEntities merged) (gpEntities q) = Inr es"
    "merge_seed decode (merged\<lparr>gpFiles := add_files (gpFiles merged) (gpFiles q), gpEntities := es, gpEdges := gpEdges merged @ gpEdges q\<rparr>) fs = Inr p"
    by (auto split: sum.splits)
  with Cons.IH [of "merged\<lparr>gpFiles := add_files (gpFiles merged) (gpFiles q), gpEntities := es, gpEdges := gpEdges merged @ gpEdges q\<rparr>"]
    add_entities_ok [of "fst f" "gpEntities merged" "gpEntities q" es] Cons.prems
  show ?case by simp
qed simp

lemma loaded_seed:
  assumes "cg_loadSeed decode dir files = Inr p" "repo \<noteq> ''''"
  shows "in_scope (p\<lparr>gpRepo := repo\<rparr>)" "distinct (map ceID (gpEntities p))" "gpEntities p \<noteq> []"
proof -
  from assms(1) obtain fs where m: "merge_seed decode empty_push fs = Inr p" and v: "validateSeedScope p = None"
    by (auto simp: cg_loadSeed_def split: sum.splits if_splits option.splits)
  have ok: "distinct (map ceID (gpEntities p))" "gpSymbols p = []" using merge_seed_ok [OF m] by (simp_all add: empty_push_def)
  show "distinct (map ceID (gpEntities p))" by (rule ok)
  show "gpEntities p \<noteq> []" using v by (auto simp: validateSeedScope_def split: if_splits)
  show "in_scope (p\<lparr>gpRepo := repo\<rparr>)"
    using v ok assms(2) by (auto simp: validateSeedScope_def in_scope_def find_None_iff split: if_splits option.splits)
qed

text \<open>
  C40: the loader of the fixture and the service agree: a fixture that loads is never rejected by the
  scope check of the push, whatever repository it is pushed to; on a database that answers the push
  succeeds, counts every entity and leaves the tables as the reconcile of that fixture.
\<close>

theorem fixture_accepted:
  assumes "cg_loadSeed decode dir files = Inr p" "repo \<noteq> ''''"
    and "Push (PGStore G others ms) now (p\<lparr>gpRepo := repo\<rparr>) w = (r, w')"
  shows "scope_error (p\<lparr>gpRepo := repo\<rparr>) = None
    \<and> (healthy (cwStore w) \<longrightarrow> (\<exists>res. r = Inr res \<and> puEntities res = length (gpEntities p) \<and> 0 < puEntities res
        \<and> tables (cwStore w') = reconcile_tables now (p\<lparr>gpRepo := repo\<rparr>) (tables (cwStore w))))"
  using push_service [OF assms(3)] loaded_seed [OF assms(1,2)] by (auto simp: scope_error_None split: sum.splits)

lemma dedupe_keys: "distinct (map reKey (dedupe_from seen rs)) \<and> reKey ` set (dedupe_from seen rs) = reKey ` set rs - set seen"
  by (induction seen rs rule: dedupe_from.induct) auto

lemma ratio_bounds: "m \<le> n \<Longrightarrow> 0 \<le> (of_nat m / of_nat n :: rat) \<and> (of_nat m / of_nat n :: rat) \<le> 1"
  by (cases "n = 0") (simp_all add: divide_le_eq)

lemma f1_bounds:
  assumes "0 \<le> p" "p \<le> 1" "0 \<le> r" "r \<le> (1 :: rat)"
  shows "0 \<le> f1 p r \<and> f1 p r \<le> 1 \<and> (f1 p r = 0 \<longleftrightarrow> p = 0 \<or> r = 0) \<and> min p r \<le> f1 p r \<and> f1 p r \<le> max p r"
proof (cases "p + r = 0")
  case True
  then have "p = 0" "r = 0" using assms by linarith+
  then show ?thesis by (simp add: f1_def)
next
  case False
  then have pos: "0 < p + r" using assms by linarith
  have 1: "min p r * (p + r) \<le> 2 * p * r" "2 * p * r \<le> max p r * (p + r)"
    using assms by (auto simp: min_def max_def algebra_simps intro: mult_left_mono mult_right_mono)
  have "f1 p r = 2 * p * r / (p + r)" using False by (simp add: f1_def)
  moreover have "min p r \<le> 2 * p * r / (p + r)" "2 * p * r / (p + r) \<le> max p r" using 1 pos by (simp_all add: pos_le_divide_eq pos_divide_le_eq)
  moreover have "0 \<le> min p r" "max p r \<le> 1" using assms by simp_all
  moreover have "2 * p * r / (p + r) = 0 \<longleftrightarrow> p = 0 \<or> r = 0" using False by simp
  ultimately show ?thesis by linarith
qed

text \<open>
  The scores of a case are what their reference functions say; in set mode a repeated key counts once;
  recall, precision and F1 are between 0 and 1, and F1 is between the other two.
\<close>

theorem cg_scores_exact:
  assumes "s = cg_ScoreCase c results k"
    and "rs = (if cg_Mode c = ModeSet then dedupe results else results)"
  shows "csRecallAtK s = cg_RecallAtK (kcExpected c) rs (if cg_Mode c = ModeSet then int (length rs) else k)
    \<and> csPrecision s = Precision (kcExpected c) rs \<and> csMRR s = cg_mrr (kcExpected c) rs
    \<and> (cg_Mode c = ModeSet \<longrightarrow> distinct (map reKey rs) \<and> reKey ` set rs = reKey ` set results)
    \<and> 0 \<le> csRecallAtK s \<and> csRecallAtK s \<le> 1 \<and> 0 \<le> csPrecision s \<and> csPrecision s \<le> 1
    \<and> min (csPrecision s) (csRecallAtK s) \<le> csF1 s \<and> csF1 s \<le> max (csPrecision s) (csRecallAtK s)"
proof -
  let ?k = "if cg_Mode c = ModeSet then int (length rs) else k"
  have s: "csRecallAtK s = cg_RecallAtK (kcExpected c) rs ?k" "csPrecision s = Precision (kcExpected c) rs" "csMRR s = cg_mrr (kcExpected c) rs"
    "csF1 s = f1 (csPrecision s) (csRecallAtK s)"
    unfolding assms by (simp_all add: cg_ScoreCase_def cg_RecallAtK_def Precision_def Let_def)
  have r: "0 \<le> csRecallAtK s \<and> csRecallAtK s \<le> 1"
    unfolding s(1) cg_RecallAtK_def using ratio_bounds [OF length_filter_le] by simp
  have p: "0 \<le> csPrecision s \<and> csPrecision s \<le> 1"
    unfolding s(2) Precision_def relevantCount_def using ratio_bounds [OF length_filter_le] by simp
  have "cg_Mode c = ModeSet \<longrightarrow> distinct (map reKey rs) \<and> reKey ` set rs = reKey ` set results"
    unfolding assms(2) dedupe_def using dedupe_keys [of "[]" results] by simp
  then show ?thesis using s r p f1_bounds [of "csPrecision s" "csRecallAtK s"] by auto
qed

section \<open>Instances\<close>

definition demo_entity :: "string \<Rightarrow> string \<Rightarrow> CEntity" where
  "demo_entity i f = \<lparr>ceID = i, ceName = i, ceType = ''go_func'', ceDescription = '''', ceFilePath = f, ceLineStart = 1, ceLineEnd = 2,
     ceSourceURL = '''', ceAuthor = '''', ceCapturedAt = '''', ceProperties = Map.empty\<rparr>"

text \<open>Two files that name a common source file and two entities, one of them without a file.\<close>

definition demo_seed :: "string \<Rightarrow> err + GraphPush" where
  "demo_seed d = Inr (empty_push\<lparr>gpFiles := [''a.go''], gpEntities := [demo_entity d (if d = ''x'' then ''a.go'' else '''')]\<rparr>)"

theorem fixture_accepted_witness:
  "\<exists>p res w'. cg_loadSeed demo_seed ''seed'' (Inr [(''1.json'', Inr ''x''), (''2.json'', Inr ''y'')]) = Inr p
     \<and> gpFiles p = [''a.go'']
     \<and> Push (PGStore list_gonum (\<lambda>_. []) 0) 3 (p\<lparr>gpRepo := ''eval/codegraph-fixture''\<rparr>)
         \<lparr>cwStore = \<lparr>tables = empty_graph, script = []\<rparr>, cwMetrics = Some NewMetrics\<rparr> = (Inr res, w')
     \<and> puEntities res = 2"
proof -
  let ?files = "Inr [(''1.json'', Inr ''x''), (''2.json'', Inr ''y'')]"
  let ?w = "\<lparr>cwStore = \<lparr>tables = empty_graph, script = []\<rparr>, cwMetrics = Some NewMetrics\<rparr>"
  obtain p where p: "cg_loadSeed demo_seed ''seed'' ?files = Inr p" "gpFiles p = [''a.go'']" "length (gpEntities p) = 2"
    by (simp add: cg_loadSeed_def demo_seed_def empty_push_def demo_entity_def validateSeedScope_def)
  obtain r w' where c: "Push (PGStore list_gonum (\<lambda>_. []) 0) 3 (p\<lparr>gpRepo := ''eval/codegraph-fixture''\<rparr>) ?w = (r, w')" by fastforce
  have "healthy (cwStore ?w)" by (simp add: healthy_def)
  with fixture_accepted [OF p(1) _ c] c p(2,3) show ?thesis by (auto intro: p(1))
qed

end
