(* ===== verification/Memory_Map.thy ===== *)
theory Memory_Map
  imports Memory_Service
begin

text \<open>
  The memory service as a map from identifiers to texts.  \<open>map_step\<close> is the specification: one operation of
  \<open>CreateMemory\<close>, \<open>GetMemory\<close> and \<open>DeleteMemory\<close> with its answer.  The locale \<open>memory_client\<close> states what a LightRAG
  client promises about documents, \<open>live_tombstoner\<close> a tombstone store that answers; over both, every run of
  the service is a run of the specification.
\<close>

section \<open>Specification\<close>

datatype mem_op = OpCreate Memory Time | OpGet string | OpDelete string

datatype mem_answer = Created string string | Found string string | Deleted | Missing | Failed err

inductive map_step :: "(string \<rightharpoonup> string) \<Rightarrow> mem_op \<Rightarrow> mem_answer \<Rightarrow> (string \<rightharpoonup> string) \<Rightarrow> bool" where
  create: "M k = None \<Longrightarrow> map_step M (OpCreate m now) (Created k (mText m)) (M(k \<mapsto> mText m))"
| found: "M k = Some t \<Longrightarrow> map_step M (OpGet k) (Found k t) M"
| absent: "M k = None \<Longrightarrow> map_step M (OpGet k) Missing M"
| delete: "M k = Some t \<Longrightarrow> map_step M (OpDelete k) Deleted (M(k := None))"
| nothing: "M k = None \<Longrightarrow> map_step M (OpDelete k) Missing M"

inductive_simps map_step_simps: "map_step M (OpCreate m now) a M'" "map_step M (OpGet k) a M'" "map_step M (OpDelete k) a M'"

inductive map_run :: "(string \<rightharpoonup> string) \<Rightarrow> (mem_op \<times> mem_answer) list \<Rightarrow> (string \<rightharpoonup> string) \<Rightarrow> bool" where
  stop: "map_run M [] M"
| more: "map_step M x a M1 \<Longrightarrow> map_run M1 tr M' \<Longrightarrow> map_run M ((x, a) # tr) M'"

inductive_simps map_run_simps [simp]: "map_run M [] M'" "map_run M ((x, a) # tr) M'"

text \<open>What the specification promises to a caller: a memory that was created is found until it is deleted.\<close>

lemma map_run_append: "map_run M (tr1 @ tr2) M' \<longleftrightarrow> (\<exists>M1. map_run M tr1 M1 \<and> map_run M1 tr2 M')"
proof (induction tr1 arbitrary: M)
  case (Cons y ys)
  then show ?case by (cases y) (simp, blast)
qed simp

lemma map_step_keeps: "map_step M x a M1 \<Longrightarrow> M k = Some t \<Longrightarrow> (x, a) \<noteq> (OpDelete k, Deleted) \<Longrightarrow> M1 k = Some t"
  by (induction rule: map_step.induct) auto

lemma map_run_keeps:
  "map_run M tr M' \<Longrightarrow> M k = Some t \<Longrightarrow> (OpDelete k, Deleted) \<notin> set tr \<Longrightarrow> M' k = Some t"
  by (induction rule: map_run.induct) (auto dest: map_step_keeps)

lemma map_step_absent: "map_step M x a M1 \<Longrightarrow> M k = None \<Longrightarrow> \<forall>m now t. (x, a) \<noteq> (OpCreate m now, Created k t) \<Longrightarrow> M1 k = None"
  by (induction rule: map_step.induct) auto

lemma map_run_absent:
  "map_run M tr M' \<Longrightarrow> M k = None \<Longrightarrow> \<forall>m now t. (OpCreate m now, Created k t) \<notin> set tr \<Longrightarrow> M' k = None"
proof (induction rule: map_run.induct)
  case (more M x a M1 tr M')
  have "M1 k = None" by (rule map_step_absent [OF more.hyps(1) more.prems(1)]) (use more.prems(2) in auto)
  with more show ?case by simp
qed simp

lemma created_found:
  assumes "map_run M (tr1 @ (OpCreate m now, Created k t) # tr2 @ [(OpGet k, a)]) M'" "(OpDelete k, Deleted) \<notin> set tr2"
  shows "a = Found k (mText m)"
proof -
  obtain M1 M2 where "map_run (M1(k \<mapsto> mText m)) tr2 M2" "map_step M2 (OpGet k) a M'"
    using assms(1) by (auto simp: map_run_append map_step_simps)
  with map_run_keeps [of _ tr2 M2 k] assms(2) show ?thesis by (auto simp: map_step_simps)
qed

lemma deleted_missing:
  assumes "map_run M (tr1 @ (OpDelete k, a0) # tr2 @ [(OpGet k, a)]) M'" "\<forall>m now t. (OpCreate m now, Created k t) \<notin> set tr2"
  shows "a = Missing"
proof -
  obtain M0 M1 M2 where d: "map_step M0 (OpDelete k) a0 M1" "map_run M1 tr2 M2" "map_step M2 (OpGet k) a M'"
    using assms(1) by (auto simp: map_run_append)
  have "M1 k = None" using d(1) by (auto simp: map_step_simps)
  then have "M2 k = None" by (rule map_run_absent [OF d(2) _ assms(2)])
  with d(3) show ?thesis by (simp add: map_step_simps)
qed

section \<open>The service\<close>

text \<open>An error that is a missing memory counts as such; any other is a failure.\<close>

definition answer_error :: "err \<Rightarrow> mem_answer" where
  "answer_error e = (if Is e ErrNotFound then Missing else Failed e)"

fun serve_op :: "('l, 't, 's) Service \<Rightarrow> ctx \<Rightarrow> mem_op \<Rightarrow> ('l, 't, 's) world \<Rightarrow> mem_answer \<times> ('l, 't, 's) world" where
  "serve_op sv cx (OpCreate m now) w = (case CreateMemory sv cx now m w of
     (Inl e, w') \<Rightarrow> (answer_error e, w') | (Inr m', w') \<Rightarrow> (Created (mID m') (mText m'), w'))"
| "serve_op sv cx (OpGet k) w = (case GetMemory (\<lambda>_. None) (\<lambda>_. None) sv cx k w of
     (Inl e, w') \<Rightarrow> (answer_error e, w') | (Inr m, w') \<Rightarrow> (Found (mID m) (mText m), w'))"
| "serve_op sv cx (OpDelete k) w = (case DeleteMemory sv cx k w of
     (Inl e, w') \<Rightarrow> (answer_error e, w') | (Inr _, w') \<Rightarrow> (Deleted, w'))"

fun serve_all :: "('l, 't, 's) Service \<Rightarrow> (ctx \<times> mem_op) list \<Rightarrow> ('l, 't, 's) world \<Rightarrow> (mem_op \<times> mem_answer) list \<times> ('l, 't, 's) world" where
  "serve_all sv [] w = ([], w)"
| "serve_all sv ((cx, x) # xs) w = (case serve_op sv cx x w of (a, w1) \<Rightarrow>
     case serve_all sv xs w1 of (tr, w2) \<Rightarrow> ((x, a) # tr, w2))"

text \<open>The text a track is read as: that of its document with the least identifier.\<close>

definition text_of :: "DocStatusResponse list \<Rightarrow> string" where
  "text_of ds = dsContentSummary (hd (if length ds > 1 then sortDocsByID ds else ds))"

text \<open>The memories in a world, by the documents its client has for each track.\<close>

definition memories :: "('l \<Rightarrow> string \<rightharpoonup> DocStatusResponse list) \<Rightarrow> ('l, 't, 's) world \<Rightarrow> string \<rightharpoonup> string" where
  "memories docs w = map_option text_of \<circ> docs (wLR w)"

lemma memories_None: "memories docs w k = None \<longleftrightarrow> docs (wLR w) k = None"
  by (simp add: memories_def)

lemma on_lr_same: "m (wLR w) = (r, wLR w) \<Longrightarrow> on_lr m w = (r, w)"
  by (simp add: on_lr_def)

section \<open>Contracts\<close>

text \<open>A tombstone store that answers while it is alive.\<close>

locale live_tombstoner = tombstoner T dead
  for T :: "'t Tombstoner" and dead :: "'t \<Rightarrow> string set" +
  fixes alive :: "'t \<Rightarrow> bool"
  assumes mark_live: "alive s \<Longrightarrow> \<exists>s'. Mark T k s = (Inr (), s') \<and> alive s'"
    and isdeleted_live: "alive s \<Longrightarrow> \<exists>b s'. IsDeleted T k s = (Inr b, s') \<and> alive s'"

text \<open>
  A client whose documents are those of the tracks it issued: an insert issues a new track with one document,
  asking for a track gives its documents or 404, and deleting all documents of a track removes it.
\<close>

locale memory_client =
  fixes L :: "ctx \<Rightarrow> 'l Client" and ok :: "'l \<Rightarrow> bool" and docs :: "'l \<Rightarrow> string \<rightharpoonup> DocStatusResponse list"
    and issued :: "'l \<Rightarrow> string set"
  assumes docs_issued: "ok l \<Longrightarrow> docs l t = Some ds \<Longrightarrow> t \<in> issued l \<and> ds \<noteq> []"
    and insert_ok: "ok l \<Longrightarrow> \<exists>resp l' d. InsertText (L cx) rq l = (Inr resp, l') \<and> ok l' \<and> irStatus resp = ''success'' \<and> irTrackID resp \<noteq> ''''
      \<and> irTrackID resp \<notin> issued l \<and> insert (irTrackID resp) (issued l) \<subseteq> issued l'
      \<and> docs l' = (docs l)(irTrackID resp \<mapsto> [d]) \<and> dsContentSummary d = itText rq"
    and track_some: "ok l \<Longrightarrow> docs l t = Some ds \<Longrightarrow> \<exists>ts. TrackStatus (L cx) t l = (Inr ts, l) \<and> tsDocuments ts = ds"
    and track_none: "ok l \<Longrightarrow> docs l t = None \<Longrightarrow> \<exists>b p. TrackStatus (L cx) t l = (Inl (HTTPError 404 b p), l)"
    and delete_ok: "ok l \<Longrightarrow> docs l t = Some ds \<Longrightarrow> \<exists>resp l'.
      DeleteDocs (L cx) \<lparr>ddDocIDs = map dsID ds, ddDeleteFile = False, ddDeleteLLMCache = False\<rparr> l = (Inr resp, l') \<and> ok l'
      \<and> drStatus resp = ''deletion_started'' \<and> issued l' = issued l \<and> docs l' = (docs l)(t := None)"

locale memory_backend = memory_client L ok docs issued + live_tombstoner T dead alive
  for L :: "ctx \<Rightarrow> 'l Client" and ok :: "'l \<Rightarrow> bool" and docs :: "'l \<Rightarrow> string \<rightharpoonup> DocStatusResponse list" and issued :: "'l \<Rightarrow> string set"
    and T :: "'t Tombstoner" and dead :: "'t \<Rightarrow> string set" and alive :: "'t \<Rightarrow> bool"
begin

text \<open>Tombstones are only on tracks that were issued and whose documents are gone.\<close>

definition tidy :: "('l, 't, 's) world \<Rightarrow> bool" where
  "tidy w \<longleftrightarrow> ok (wLR w) \<and> alive (wTomb w) \<and> dead (wTomb w) \<subseteq> issued (wLR w) - dom (docs (wLR w))"

lemma tidyD: "tidy w \<Longrightarrow> ok (wLR w)" "tidy w \<Longrightarrow> alive (wTomb w)" "tidy w \<Longrightarrow> k \<in> dead (wTomb w) \<Longrightarrow> k \<in> issued (wLR w) \<and> docs (wLR w) k = None"
  by (auto simp: tidy_def)

lemma memories_incOp [simp]: "memories docs (incOp op e w) = memories docs w" "tidy (incOp op e w) = tidy w"
  by (simp_all add: memories_def tidy_def)

lemma create_refines:
  assumes "svLR sv = L" "tidy w" "CreateMemory sv cx now m w = (r, w')"
  shows "\<exists>m'. r = Inr m' \<and> mText m' = mText m \<and> memories docs w (mID m') = None \<and> memories docs w' = (memories docs w)(mID m' \<mapsto> mText m) \<and> tidy w'"
proof -
  obtain resp l' d where ins: "InsertText (L cx) (ToInsertText m) (wLR w) = (Inr resp, l')" "ok l'" "irStatus resp = ''success''"
    "irTrackID resp \<noteq> ''''" "irTrackID resp \<notin> issued (wLR w)" "insert (irTrackID resp) (issued (wLR w)) \<subseteq> issued l'"
    "docs l' = (docs (wLR w))(irTrackID resp \<mapsto> [d])" "dsContentSummary d = mText m"
    using insert_ok [OF tidyD(1) [OF assms(2)], of cx "ToInsertText m"] by (auto simp: ToInsertText_def)
  have new: "docs (wLR w) (irTrackID resp) = None" using docs_issued [OF tidyD(1) [OF assms(2)]] ins(5) by (cases "docs (wLR w) (irTrackID resp)") auto
  have r: "r = Inr (m\<lparr>mID := irTrackID resp, mCreatedAt := now\<rparr>)" "w' = incOp ''create'' None (w\<lparr>wLR := l'\<rparr>)"
    using assms(1,3) ins by (simp_all add: CreateMemory_def on_lr_def)
  have "memories docs w' = (memories docs w)(irTrackID resp \<mapsto> mText m)"
    using ins(7,8) by (auto simp: r(2) memories_def text_of_def fun_eq_iff)
  moreover have "tidy w'" using assms(2) ins new by (auto simp: r(2) tidy_def)
  ultimately show ?thesis using new r by (simp add: memories_None)
qed

lemma check_live:
  assumes "svTomb sv = Some T" "tidy w"
  obtains w1 where "checkTomb sv k w = (Inr (k \<in> dead (wTomb w)), w1)" "memories docs w1 = memories docs w" "tidy w1" "wLR w1 = wLR w"
proof -
  obtain b s where d: "IsDeleted T k (wTomb w) = (Inr b, s)" "alive s" using isdeleted_live [OF tidyD(2) [OF assms(2)]] by blast
  with isdeleted_ok [OF d(1)] assms show thesis
    by (intro that [of "w\<lparr>wTomb := s\<rparr>"]) (auto simp: checkTomb_def on_tomb_def mapErr_def memories_def tidy_def)
qed

lemma get_refines:
  assumes "svLR sv = L" "svTomb sv = Some T" "tidy w" "GetMemory p pn sv cx k w = (r, w')"
  shows "memories docs w' = memories docs w \<and> tidy w' \<and> (case memories docs w k of
      None \<Rightarrow> \<exists>e. r = Inl e \<and> Is e ErrNotFound
    | Some t \<Rightarrow> \<exists>m. r = Inr m \<and> mID m = k \<and> mText m = t)"
proof -
  obtain w1 where c: "checkTomb sv k w = (Inr (k \<in> dead (wTomb w)), w1)" and w1: "memories docs w1 = memories docs w" "tidy w1" "wLR w1 = wLR w"
    using check_live [OF assms(2,3)] by blast
  show ?thesis
  proof (cases "docs (wLR w) k")
    case None
    obtain b p where "TrackStatus (L cx) k (wLR w) = (Inl (HTTPError 404 b p), wLR w)" using track_none [OF tidyD(1) [OF assms(3)] None] by blast
    then have t: "on_lr (TrackStatus (L cx) k) w1 = (Inl (HTTPError 404 b p), w1)" using w1(3) by (intro on_lr_same) simp
    show ?thesis
      using assms(1,4) c w1 t memories_None [of docs w k] None
      by (cases "k \<in> dead (wTomb w)") (auto simp: GetMemory_def wrapUpstream_def AsBusy_def Is_def)
  next
    case (Some ds)
    then have "k \<notin> dead (wTomb w)" "ds \<noteq> []" using tidyD [OF assms(3)] docs_issued by fastforce+
    obtain ts where ts: "TrackStatus (L cx) k (wLR w) = (Inr ts, wLR w)" "tsDocuments ts = ds" using track_some [OF tidyD(1) [OF assms(3)] Some] by blast
    then have t: "on_lr (TrackStatus (L cx) k) w1 = (Inr ts, w1)" using w1(3) by (intro on_lr_same) simp
    have "length (if length ds > 1 then sortDocsByID ds else ds) = length ds" by (simp add: sortDocsByID_def)
    with \<open>ds \<noteq> []\<close> obtain d ds' where s: "(if length ds > 1 then sortDocsByID ds else ds) = d # ds'" by (metis length_0_conv neq_Nil_conv)
    then have "memories docs w k = Some (dsContentSummary d)" using Some by (simp add: memories_def text_of_def)
    moreover have "r = Inr (fst (FromDocStatus p pn k d))" "w' = incOp ''get'' None w1"
      using assms(1,4) c \<open>k \<notin> dead (wTomb w)\<close> t s [folded ts(2)] by (simp_all add: GetMemory_def)
    ultimately show ?thesis using w1 by (simp add: FromDocStatus_def Let_def)
  qed
qed

lemma delete_refines:
  assumes "svLR sv = L" "svTomb sv = Some T" "tidy w" "DeleteMemory sv cx k w = (r, w')"
  shows "tidy w' \<and> memories docs w' = (memories docs w)(k := None) \<and> (case memories docs w k of
      None \<Rightarrow> \<exists>e. r = Inl e \<and> Is e ErrNotFound
    | Some t \<Rightarrow> r = Inr ())"
proof (cases "docs (wLR w) k")
  case None
  obtain b p where "TrackStatus (L cx) k (wLR w) = (Inl (HTTPError 404 b p), wLR w)" using track_none [OF tidyD(1) [OF assms(3)] None] by blast
  then have "r = Inl (wrapUpstream (HTTPError 404 b p))" "w' = incOp ''delete'' (Some (wrapUpstream (HTTPError 404 b p))) w"
    using assms(1,4) by (simp_all add: DeleteMemory_def deleteMemoryRaw_def on_lr_def)
  with None assms(3) show ?thesis by (simp add: memories_None [THEN iffD2] wrapUpstream_def AsBusy_def Is_def fun_upd_idem)
next
  case (Some ds)
  have ds: "ds \<noteq> []" using docs_issued [OF tidyD(1) [OF assms(3)] Some] by blast
  obtain ts where t: "TrackStatus (L cx) k (wLR w) = (Inr ts, wLR w)" "tsDocuments ts = ds" using track_some [OF tidyD(1) [OF assms(3)] Some] by blast
  obtain s where m: "Mark T k (wTomb w) = (Inr (), s)" "alive s" using mark_live [OF tidyD(2) [OF assms(3)]] by blast
  obtain resp l' where d: "DeleteDocs (L cx) \<lparr>ddDocIDs = map dsID ds, ddDeleteFile = False, ddDeleteLLMCache = False\<rparr> (wLR w) = (Inr resp, l')"
    "ok l'" "drStatus resp = ''deletion_started''" "issued l' = issued (wLR w)" "docs l' = (docs (wLR w))(k := None)"
    using delete_ok [OF tidyD(1) [OF assms(3)] Some] by blast
  have r: "r = Inr ()" "w' = incOp ''delete'' None (w\<lparr>wTomb := s, wLR := l'\<rparr>)"
    using assms(1,2,4) t m(1) d(1,3) ds by (simp_all add: DeleteMemory_def deleteMemoryRaw_def on_lr_def markTomb_def on_tomb_def mapErr_def)
  have "tidy w'" using assms(3) mark_ok [OF m(1)] m(2) d docs_issued [OF tidyD(1) [OF assms(3)] Some] by (auto simp: r(2) tidy_def)
  with Some d(5) r show ?thesis by (auto simp: memories_def fun_eq_iff)
qed

lemma serve_step:
  assumes "svLR sv = L" "svTomb sv = Some T" "tidy w" "serve_op sv cx x w = (a, w')"
  shows "map_step (memories docs w) x a (memories docs w') \<and> tidy w'"
proof (cases x)
  case (OpCreate m now)
  obtain r w1 where c: "CreateMemory sv cx now m w = (r, w1)" by fastforce
  with create_refines [OF assms(1,3) c] assms(4) show ?thesis by (auto simp: OpCreate intro: map_step.create)
next
  case (OpGet k)
  obtain r w1 where c: "GetMemory (\<lambda>_. None) (\<lambda>_. None) sv cx k w = (r, w1)" by fastforce
  with get_refines [OF assms(1,2,3) c] assms(4) show ?thesis
    by (cases "memories docs w k") (auto simp: OpGet answer_error_def intro: map_step.intros)
next
  case (OpDelete k)
  obtain r w1 where c: "DeleteMemory sv cx k w = (r, w1)" by fastforce
  with delete_refines [OF assms(1,2,3) c] assms(4) show ?thesis
    by (cases "memories docs w k") (auto simp: OpDelete answer_error_def fun_upd_idem intro: map_step.intros)
qed

lemma serve_run:
  assumes "svLR sv = L" "svTomb sv = Some T" "tidy w" "serve_all sv xs w = (tr, w')"
  shows "map_run (memories docs w) tr (memories docs w') \<and> tidy w'"
  using assms(3,4)
proof (induction xs arbitrary: w tr)
  case Nil
  then show ?case by (auto intro: map_run.stop)
next
  case (Cons y ys)
  obtain cx x where y: "y = (cx, x)" by fastforce
  obtain a w1 where s: "serve_op sv cx x w = (a, w1)" by fastforce
  with Cons.prems(2) obtain tr' where n: "serve_all sv ys w1 = (tr', w')" "tr = (x, a) # tr'" by (auto simp: y split: prod.splits)
  have "map_step (memories docs w) x a (memories docs w1)" "tidy w1" using serve_step [OF assms(1,2) Cons.prems(1) s] by blast+
  with Cons.IH [OF _ n(1)] n(2) show ?case by (auto intro: map_run.more)
qed

end

section \<open>The tombstone table\<close>

interpretation lts: live_tombstoner "TombstoneStore_ops now" tombs healthy for now
  by unfold_locales
     (auto simp: TombstoneStore_ops_def TS_Mark_def TS_IsDeleted_def on_tombs_def mapErr_def healthy_def db_exec_def db_query_def db_call_def next_outcome_def)

end
