(* ===== verification/Lightrag_Fake.thy ===== *)
theory Lightrag_Fake
  imports Memory_Map Http_Request "HOL-Library.AList"
begin

text \<open>
  The in-memory LightRAG of \<^verbatim>\<open>internal/lightrag/fake\<close>, which stands in for the service in the tests of the
  memory service and of the ingest pool.  Every method runs under one mutex, so a method is a function on the
  state.  The text of the current time and the order in which Go ranges over the map of edges are parameters.
  The last sections state what a client must promise for the memory service to be a map from identifiers to
  texts, and show that the fake promises it.
\<close>

section \<open>State\<close>

record docState =
  dcDoc :: DocStatusResponse
  dcTrackID :: string

text \<open>The maps that are only looked up are functions; the two that are ranged over are association lists.\<close>

record fake =
  fkDocs :: "string \<rightharpoonup> docState"
  fkTracks :: "(string \<times> string list) list"
  fkEntities :: "string \<rightharpoonup> amap"
  fkEdges :: "(string \<times> amap) list"
  fkExtraEdges :: "GraphEdge list"
  fkLabels :: "string list"
  fkQueryRes :: QueryResponse
  fkDataRes :: QueryDataResponse
  fkLastReq :: QueryRequest
  fkNextID :: nat
  fkInsertStatus :: string
  fkInsertRespOverride :: bool
  fkInsertRespStatus :: string
  fkInsertRespTrackID :: string
  fkLeaveEdgesOnDelete :: bool

definition DocStatusProcessed :: string where "DocStatusProcessed = ''processed''"

definition fake_New :: fake where
  "fake_New = \<lparr>fkDocs = Map.empty, fkTracks = [], fkEntities = Map.empty, fkEdges = [], fkExtraEdges = [], fkLabels = [],
     fkQueryRes = \<lparr>qsResponse = '''', qsReferences = []\<rparr>,
     fkDataRes = \<lparr>qdStatus = '''', qdMessage = '''', qdData = Map.empty, qdMetadata = Map.empty\<rparr>,
     fkLastReq = zeroQueryRequest, fkNextID = 0, fkInsertStatus = DocStatusProcessed, fkInsertRespOverride = False,
     fkInsertRespStatus = '''', fkInsertRespTrackID = '''', fkLeaveEdgesOnDelete = False\<rparr>"

section \<open>Helpers\<close>

definition edgeKey :: "string \<Rightarrow> string \<Rightarrow> string" where
  "edgeKey src tgt = src @ ''||'' @ tgt"

text \<open>Split at the first \<^verbatim>\<open>||\<close>.\<close>

fun parseEdgeKey :: "string \<Rightarrow> string \<times> string" where
  "parseEdgeKey [] = ([], [])"
| "parseEdgeKey (c # k) = (if HasPrefix (c # k) ''||'' then ([], drop 2 (c # k)) else case parseEdgeKey k of (s, t) \<Rightarrow> (c # s, t))"

definition appendUnique :: "string list \<Rightarrow> string \<Rightarrow> string list" where
  "appendUnique s v = (if v \<in> set s then s else s @ [v])"

definition removeLabel :: "string list \<Rightarrow> string \<Rightarrow> string list" where
  "removeLabel s v = filter (\<lambda>x. x \<noteq> v) s"

definition renameLabel :: "string list \<Rightarrow> string \<Rightarrow> string \<Rightarrow> string list" where
  "renameLabel s from to = map (\<lambda>x. if x = from then to else x) s"

definition fake_containsFold :: "string \<Rightarrow> string \<Rightarrow> bool" where
  "fake_containsFold s sub = str_contains (ToLower s) (ToLower sub)"

definition nextStr :: "string \<Rightarrow> fake \<Rightarrow> string \<times> fake" where
  "nextStr prefix c = (let c1 = c\<lparr>fkNextID := fkNextID c + 1\<rparr> in (prefix @ ''-'' @ dec (fkNextID c1), c1))"

section \<open>Set-up\<close>

definition SetInsertStatus :: "string \<Rightarrow> fake \<Rightarrow> fake" where
  "SetInsertStatus s c = c\<lparr>fkInsertStatus := s\<rparr>"

definition SetLeaveEdgesOnDelete :: "bool \<Rightarrow> fake \<Rightarrow> fake" where
  "SetLeaveEdgesOnDelete v c = c\<lparr>fkLeaveEdgesOnDelete := v\<rparr>"

definition SetInsertResponse :: "string \<Rightarrow> string \<Rightarrow> fake \<Rightarrow> fake" where
  "SetInsertResponse status trackID c = c\<lparr>fkInsertRespOverride := True, fkInsertRespStatus := status, fkInsertRespTrackID := trackID\<rparr>"

definition SeedEntity :: "string \<Rightarrow> amap \<Rightarrow> fake \<Rightarrow> fake" where
  "SeedEntity name data c = c\<lparr>fkEntities := (fkEntities c)(name \<mapsto> data), fkLabels := appendUnique (fkLabels c) name\<rparr>"

definition SeedEdge :: "string \<Rightarrow> string \<Rightarrow> amap \<Rightarrow> fake \<Rightarrow> fake" where
  "SeedEdge src tgt data c = c\<lparr>fkEdges := AList.update (edgeKey src tgt) data (fkEdges c)\<rparr>"

definition SeedQueryResponse :: "QueryResponse \<Rightarrow> fake \<Rightarrow> fake" where
  "SeedQueryResponse r c = c\<lparr>fkQueryRes := r\<rparr>"

definition SeedQueryDataResponse :: "QueryDataResponse \<Rightarrow> fake \<Rightarrow> fake" where
  "SeedQueryDataResponse r c = c\<lparr>fkDataRes := r\<rparr>"

definition SeedLabels :: "string list \<Rightarrow> fake \<Rightarrow> fake" where
  "SeedLabels ls c = c\<lparr>fkLabels := ls\<rparr>"

definition track_ids :: "fake \<Rightarrow> string \<Rightarrow> string list" where
  "track_ids c t = (case map_of (fkTracks c) t of None \<Rightarrow> [] | Some ids \<Rightarrow> ids)"

fun SeedMultiDocTrack :: "string \<Rightarrow> DocStatusResponse list \<Rightarrow> fake \<Rightarrow> fake" where
  "SeedMultiDocTrack t [] c = c"
| "SeedMultiDocTrack t (d # ds) c = SeedMultiDocTrack t ds
     (c\<lparr>fkDocs := (fkDocs c)(dsID d \<mapsto> \<lparr>dcDoc = d\<lparr>dsTrackID := t\<rparr>, dcTrackID = t\<rparr>),
        fkTracks := AList.update t (track_ids c t @ [dsID d]) (fkTracks c)\<rparr>)"

definition SeedMultiRelationEdges :: "string \<Rightarrow> string \<Rightarrow> string \<Rightarrow> string \<Rightarrow> fake \<Rightarrow> fake" where
  "SeedMultiRelationEdges src tgt rel1 rel2 c =
     (let data = (\<lambda>rel. [''keywords'' \<mapsto> AStr rel, ''src_id'' \<mapsto> AStr src, ''tgt_id'' \<mapsto> AStr tgt]) in
      c\<lparr>fkEdges := AList.update (edgeKey src tgt) (data rel1) (fkEdges c),
        fkExtraEdges := fkExtraEdges c @ [\<lparr>geID = '''', geSource = src, geTarget = tgt, geType = '''', geProperties = data rel2\<rparr>]\<rparr>)"

definition LastQuery :: "fake \<Rightarrow> QueryRequest" where
  "LastQuery c = fkLastReq c"

text \<open>In the order of the list; Go ranges over the tracks in any order.\<close>

definition LookupTracksForDoc :: "string \<Rightarrow> fake \<Rightarrow> string list" where
  "LookupTracksForDoc docID c = concat (map (\<lambda>(tid, ids). replicate (count_list ids docID) tid) (fkTracks c))"

section \<open>Documents\<close>

definition fake_InsertText :: "string \<Rightarrow> InsertTextRequest \<Rightarrow> (fake, err, InsertResponse) call" where
  "fake_InsertText now req c =
     (if fkInsertRespOverride c
      then (Inr \<lparr>irStatus = fkInsertRespStatus c, irMessage = ''override'', irTrackID = fkInsertRespTrackID c\<rparr>, c)
      else case nextStr ''track'' c of (trackID, c1) \<Rightarrow> (case nextStr ''doc'' c1 of (docID, c2) \<Rightarrow>
        (let status = (if fkInsertStatus c2 = '''' then DocStatusProcessed else fkInsertStatus c2);
             d = \<lparr>dsID = docID, dsContentSummary = itText req, dsContentLength = int (length (itText req)), dsStatus = status,
                  dsCreatedAt = now, dsUpdatedAt = now, dsTrackID = trackID, dsChunksCount = 0, dsErrorMsg = '''',
                  dsMetadata = Map.empty, dsFilePath = itFileSource req\<rparr>
         in (Inr \<lparr>irStatus = ''success'', irMessage = ''submitted'', irTrackID = trackID\<rparr>,
             c2\<lparr>fkDocs := (fkDocs c2)(docID \<mapsto> \<lparr>dcDoc = d, dcTrackID = trackID\<rparr>),
                fkTracks := AList.update trackID (track_ids c2 trackID @ [docID]) (fkTracks c2)\<rparr>))))"

definition zeroDoc :: DocStatusResponse where
  "zeroDoc = \<lparr>dsID = '''', dsContentSummary = '''', dsContentLength = 0, dsStatus = '''', dsCreatedAt = '''', dsUpdatedAt = '''',
     dsTrackID = '''', dsChunksCount = 0, dsErrorMsg = '''', dsMetadata = Map.empty, dsFilePath = ''''\<rparr>"

definition doc_of :: "fake \<Rightarrow> string \<Rightarrow> DocStatusResponse" where
  "doc_of c i = (case fkDocs c i of None \<Rightarrow> zeroDoc | Some s \<Rightarrow> dcDoc s)"

fun status_summary :: "DocStatusResponse list \<Rightarrow> (string \<times> int) list \<Rightarrow> (string \<times> int) list" where
  "status_summary [] m = m"
| "status_summary (d # ds) m = status_summary ds
     (AList.update (dsStatus d) ((case map_of m (dsStatus d) of None \<Rightarrow> 0 | Some n \<Rightarrow> n) + 1) m)"

definition fake_TrackStatus :: "string \<Rightarrow> (fake, err, TrackStatusResponse) call" where
  "fake_TrackStatus trackID c = (case map_of (fkTracks c) trackID of
     None \<Rightarrow> (Inl (HTTPError 404 ''not found'' (''/documents/track_status/'' @ trackID)), c)
   | Some docIDs \<Rightarrow> (let docs = map (doc_of c) docIDs in
       (Inr \<lparr>tsTrackID = trackID, tsDocuments = docs, tsTotalCount = int (length docIDs), tsStatusSummary = status_summary docs []\<rparr>, c)))"

definition delete_doc :: "string \<Rightarrow> fake \<Rightarrow> fake" where
  "delete_doc i c =
     (let t = (case fkDocs c i of None \<Rightarrow> '''' | Some s \<Rightarrow> dcTrackID s);
          c1 = c\<lparr>fkDocs := (fkDocs c)(i := None)\<rparr>
      in if t = '''' then c1
         else let filtered = filter (\<lambda>x. x \<noteq> i) (track_ids c t) in
           c1\<lparr>fkTracks := (if filtered = [] then AList.delete t (fkTracks c) else AList.update t filtered (fkTracks c))\<rparr>)"

definition fake_DeleteDocs :: "DeleteDocRequest \<Rightarrow> (fake, err, DeleteDocByIdResponse) call" where
  "fake_DeleteDocs req c = (case find (\<lambda>i. fkDocs c i = None) (ddDocIDs req) of
     Some i \<Rightarrow> (Inl (HTTPError 404 (''doc not found: '' @ i) ''/documents/delete_document''), c)
   | None \<Rightarrow> (Inr \<lparr>drStatus = ''deletion_started'', drMessage = ''deleted'', drDocID = (case ddDocIDs req of [] \<Rightarrow> '''' | i # _ \<Rightarrow> i)\<rparr>,
       fold delete_doc (ddDocIDs req) c))"

section \<open>Queries\<close>

definition fake_Query :: "QueryRequest \<Rightarrow> (fake, err, QueryResponse) call" where
  "fake_Query req c = (Inr (fkQueryRes c), c\<lparr>fkLastReq := req\<rparr>)"

definition fake_QueryData :: "QueryRequest \<Rightarrow> (fake, err, QueryDataResponse) call" where
  "fake_QueryData req c = (let cp = fkDataRes c in
     (if qdStatus cp \<noteq> ''success'' then Inl (LogicalError ''query_data'' (qdStatus cp) (qdMessage cp)) else Inr cp, c\<lparr>fkLastReq := req\<rparr>))"

section \<open>Entities and relations\<close>

definition fake_EntityExists :: "string \<Rightarrow> (fake, err, bool) call" where
  "fake_EntityExists name c = (Inr (fkEntities c name \<noteq> None), c)"

definition fake_CreateEntity :: "EntityCreateRequest \<Rightarrow> (fake, err, EntityResponse) call" where
  "fake_CreateEntity req c =
     (if fkEntities c (ecEntityName req) \<noteq> None
      then (Inl (HTTPError 400 ''duplicate entity'' ''/graph/entity/create''), c)
      else let data = (ecEntityData req)(''entity_name'' \<mapsto> AStr (ecEntityName req)) in
        (Inr \<lparr>erStatus = ''success'', erMessage = ''created'', erData = data, erOperationSummary = Map.empty\<rparr>,
         c\<lparr>fkEntities := (fkEntities c)(ecEntityName req \<mapsto> data), fkLabels := appendUnique (fkLabels c) (ecEntityName req)\<rparr>))"

text \<open>The name after an update, or nothing when the request renames without being allowed to.\<close>

definition final_name :: "EntityUpdateRequest \<Rightarrow> string option" where
  "final_name req = (case euUpdatedData req ''entity_name'' of
     Some (AStr s) \<Rightarrow> if s \<noteq> '''' \<and> s \<noteq> euEntityName req then (if euAllowRename req then Some s else None) else Some (euEntityName req)
   | _ \<Rightarrow> Some (euEntityName req))"

definition fake_UpdateEntity :: "EntityUpdateRequest \<Rightarrow> (fake, err, EntityResponse) call" where
  "fake_UpdateEntity req c = (case fkEntities c (euEntityName req) of
     None \<Rightarrow> (Inl (HTTPError 404 ''not found'' ''/graph/entity/edit''), c)
   | Some cur \<Rightarrow> (case final_name req of
       None \<Rightarrow> (Inl (HTTPError 400 ''rename not allowed'' ''/graph/entity/edit''), c)
     | Some n \<Rightarrow>
         (let data = (cur ++ (euUpdatedData req)(''entity_name'' := None))(''entity_name'' \<mapsto> AStr n);
              c1 = (if n = euEntityName req then c\<lparr>fkEntities := (fkEntities c)(n \<mapsto> data)\<rparr>
                    else c\<lparr>fkEntities := (fkEntities c)(euEntityName req := None, n \<mapsto> data),
                           fkLabels := renameLabel (fkLabels c) (euEntityName req) n\<rparr>)
          in (Inr \<lparr>erStatus = ''success'', erMessage = ''updated'', erData = data, erOperationSummary = Map.empty\<rparr>, c1))))"

definition incident :: "string \<Rightarrow> string \<Rightarrow> bool" where
  "incident name k = (case parseEdgeKey k of (src, tgt) \<Rightarrow> src = name \<or> tgt = name)"

definition fake_DeleteEntity :: "DeleteEntityRequest \<Rightarrow> (fake, err, unit) call" where
  "fake_DeleteEntity req c =
     (if fkEntities c (deEntityName req) = None then (Inl (HTTPError 404 ''not found'' ''/documents/delete_entity''), c)
      else (Inr (), c\<lparr>fkEntities := (fkEntities c)(deEntityName req := None), fkLabels := removeLabel (fkLabels c) (deEntityName req),
        fkEdges := (if fkLeaveEdgesOnDelete c then fkEdges c else filter (\<lambda>(k, _). \<not> incident (deEntityName req) k) (fkEdges c))\<rparr>))"

definition fake_LabelSearch :: "string \<Rightarrow> (fake, err, string list) call" where
  "fake_LabelSearch q c = (Inr (filter (\<lambda>l. q = '''' \<or> fake_containsFold l q) (fkLabels c)), c)"

text \<open>\<open>visit\<close> is the order Go visits the edges in.\<close>

definition edge_nodes :: "string \<Rightarrow> fake \<Rightarrow> string \<Rightarrow> GraphNode list" where
  "edge_nodes lbl c k = (case parseEdgeKey k of (src, tgt) \<Rightarrow>
     let other = (if tgt = lbl then src else tgt) in
     case fkEntities c other of None \<Rightarrow> [] | Some d \<Rightarrow> [\<lparr>gnID = other, gnLabels = [other], gnProperties = d\<rparr>])"

definition fake_Graph :: "((string \<times> amap) list \<Rightarrow> (string \<times> amap) list) \<Rightarrow> string \<Rightarrow> int \<Rightarrow> int \<Rightarrow> (fake, err, KnowledgeGraph) call" where
  "fake_Graph visit lbl depth nodes c = (case fkEntities c lbl of
     None \<Rightarrow> (Inl (HTTPError 404 ''label not found'' ''/graphs''), c)
   | Some data \<Rightarrow>
       (let es = filter (\<lambda>(k, _). incident lbl k) (visit (fkEdges c)) in
        (Inr \<lparr>kgNodes = \<lparr>gnID = lbl, gnLabels = [lbl], gnProperties = data\<rparr> # concat (map (edge_nodes lbl c \<circ> fst) es),
              kgEdges = map (\<lambda>(k, props). case parseEdgeKey k of (src, tgt) \<Rightarrow>
                    \<lparr>geID = '''', geSource = src, geTarget = tgt, geType = '''', geProperties = props\<rparr>) es
                @ map (\<lambda>e. e\<lparr>geID := '''', geType := ''''\<rparr>) (filter (\<lambda>e. geSource e = lbl \<or> geTarget e = lbl) (fkExtraEdges c))\<rparr>, c)))"

definition fake_CreateRelation :: "RelationCreateRequest \<Rightarrow> (fake, err, RelationResponse) call" where
  "fake_CreateRelation req c =
     (if fkEntities c (rcSourceEntity req) = None then (Inl (HTTPError 400 ''source not found'' ''/graph/relation/create''), c)
      else if fkEntities c (rcTargetEntity req) = None then (Inl (HTTPError 400 ''target not found'' ''/graph/relation/create''), c)
      else let data = (rcRelationData req)(''src_id'' \<mapsto> AStr (rcSourceEntity req), ''tgt_id'' \<mapsto> AStr (rcTargetEntity req)) in
        (Inr \<lparr>rrStatus = ''success'', rrMessage = ''created'', rrData = data\<rparr>,
         c\<lparr>fkEdges := AList.update (edgeKey (rcSourceEntity req) (rcTargetEntity req)) data (fkEdges c)\<rparr>))"

definition fake_DeleteRelation :: "DeleteRelationRequest \<Rightarrow> (fake, err, unit) call" where
  "fake_DeleteRelation req c = (let key = edgeKey (dlSourceEntity req) (dlTargetEntity req) in
     if map_of (fkEdges c) key = None then (Inl (HTTPError 404 ''not found'' ''/documents/delete_relation''), c)
     else (Inr (), c\<lparr>fkEdges := AList.delete key (fkEdges c)\<rparr>))"

definition fake_Health :: "(fake, err, unit) call" where
  "fake_Health c = (Inr (), c)"

definition fake_ops :: "string \<Rightarrow> ((string \<times> amap) list \<Rightarrow> (string \<times> amap) list) \<Rightarrow> fake Client" where
  "fake_ops now visit =
     \<lparr>InsertText = fake_InsertText now, TrackStatus = fake_TrackStatus, DeleteDocs = fake_DeleteDocs, LRQuery = fake_Query,
      LRQueryData = fake_QueryData, EntityExists = fake_EntityExists, CreateEntity = fake_CreateEntity, UpdateEntity = fake_UpdateEntity,
      DeleteEntity = fake_DeleteEntity, LabelSearch = fake_LabelSearch, Graph = fake_Graph visit, CreateRelation = fake_CreateRelation,
      DeleteRelation = fake_DeleteRelation, Health = fake_Health\<rparr>"

section \<open>Documents and tracks agree\<close>

definition fake_docs :: "fake \<Rightarrow> string \<rightharpoonup> DocStatusResponse list" where
  "fake_docs c t = map_option (map (doc_of c)) (map_of (fkTracks c) t)"

definition names :: "string \<Rightarrow> nat \<Rightarrow> string set" where
  "names prefix n = (\<lambda>i. prefix @ ''-'' @ dec i) ` {0<..n}"

definition track_ok :: "fake \<Rightarrow> string \<Rightarrow> string list \<Rightarrow> bool" where
  "track_ok c t ids \<longleftrightarrow> t \<in> names ''track'' (fkNextID c) \<and> ids \<noteq> [] \<and> distinct ids
     \<and> (\<forall>i\<in>set ids. \<exists>s. fkDocs c i = Some s \<and> dcTrackID s = t \<and> dsID (dcDoc s) = i)"

definition fake_ok :: "fake \<Rightarrow> bool" where
  "fake_ok c \<longleftrightarrow> \<not> fkInsertRespOverride c \<and> dom (fkDocs c) \<subseteq> names ''doc'' (fkNextID c)
     \<and> (\<forall>t ids. map_of (fkTracks c) t = Some ids \<longrightarrow> track_ok c t ids)"

lemma names_new: "0 < k \<Longrightarrow> prefix @ ''-'' @ dec (n + k) \<notin> names prefix n"
proof
  assume "0 < k" "prefix @ ''-'' @ dec (n + k) \<in> names prefix n"
  then obtain i where "i \<le> n" "dec (n + k) = dec i" by (auto simp: names_def)
  with \<open>0 < k\<close> dec_digits [of i] dec_digits [of "n + k"] show False by simp
qed

lemma names_mono: "m \<le> n \<Longrightarrow> names prefix m \<subseteq> names prefix n"
  by (auto simp: names_def)

lemma names_here: "0 < k \<Longrightarrow> k \<le> n \<Longrightarrow> prefix @ ''-'' @ dec k \<in> names prefix n"
  by (auto simp: names_def)

lemma names_nonempty: "'''' \<notin> names prefix n"
  by (auto simp: names_def)

lemma track_okD: "fake_ok c \<Longrightarrow> map_of (fkTracks c) t = Some ids \<Longrightarrow> track_ok c t ids"
  by (simp add: fake_ok_def)

lemma doc_ids: "track_ok c t ids \<Longrightarrow> map dsID (map (doc_of c) ids) = ids"
  by (auto simp: track_ok_def doc_of_def intro!: map_idI split: option.splits)

text \<open>The identifiers and the document of an insert.\<close>

definition new_track :: "fake \<Rightarrow> string" where
  "new_track c = ''track-'' @ dec (fkNextID c + 1)"

definition new_doc :: "fake \<Rightarrow> string" where
  "new_doc c = ''doc-'' @ dec (fkNextID c + 2)"

definition inserted_doc :: "string \<Rightarrow> InsertTextRequest \<Rightarrow> fake \<Rightarrow> DocStatusResponse" where
  "inserted_doc now rq c = \<lparr>dsID = new_doc c, dsContentSummary = itText rq, dsContentLength = int (length (itText rq)),
     dsStatus = (if fkInsertStatus c = '''' then DocStatusProcessed else fkInsertStatus c), dsCreatedAt = now, dsUpdatedAt = now,
     dsTrackID = new_track c, dsChunksCount = 0, dsErrorMsg = '''', dsMetadata = Map.empty, dsFilePath = itFileSource rq\<rparr>"

definition insert_doc :: "DocStatusResponse \<Rightarrow> fake \<Rightarrow> fake" where
  "insert_doc d c = c\<lparr>fkNextID := fkNextID c + 2, fkDocs := (fkDocs c)(new_doc c \<mapsto> \<lparr>dcDoc = d, dcTrackID = new_track c\<rparr>),
     fkTracks := AList.update (new_track c) [new_doc c] (fkTracks c)\<rparr>"

lemma insert_fresh:
  assumes "fake_ok c"
  shows "new_track c \<notin> names ''track'' (fkNextID c)" "map_of (fkTracks c) (new_track c) = None" "fkDocs c (new_doc c) = None"
proof -
  have new: "new_track c \<notin> names ''track'' (fkNextID c)" "new_doc c \<notin> names ''doc'' (fkNextID c)"
    using names_new [of 1 "''track''" "fkNextID c"] names_new [of 2 "''doc''" "fkNextID c"] by (simp_all add: new_track_def new_doc_def)
  show "new_track c \<notin> names ''track'' (fkNextID c)" by (rule new)
  show "fkDocs c (new_doc c) = None" using assms(1) new(2) by (auto simp: fake_ok_def)
  show "map_of (fkTracks c) (new_track c) = None"
    using track_okD [OF assms(1), of "new_track c"] new(1) by (cases "map_of (fkTracks c) (new_track c)") (auto simp: track_ok_def)
qed

lemma insert_run:
  assumes "fake_ok c"
  shows "fake_InsertText now rq c =
    (Inr \<lparr>irStatus = ''success'', irMessage = ''submitted'', irTrackID = new_track c\<rparr>, insert_doc (inserted_doc now rq c) c)"
  using assms(1) insert_fresh(2) [OF assms]
  by (simp add: fake_InsertText_def fake_ok_def nextStr_def Let_def track_ids_def inserted_doc_def insert_doc_def new_track_def new_doc_def)

lemma insert_keeps:
  assumes ok: "fake_ok c" and d: "dsID d = new_doc c"
  shows "fake_ok (insert_doc d c)" and "fake_docs (insert_doc d c) = (fake_docs c)(new_track c \<mapsto> [d])"
proof -
  let ?n = "fkNextID c" and ?c = "insert_doc d c"
  have c': "fkTracks ?c = AList.update (new_track c) [new_doc c] (fkTracks c)" "fkNextID ?c = ?n + 2"
    "fkDocs ?c = (fkDocs c)(new_doc c \<mapsto> \<lparr>dcDoc = d, dcTrackID = new_track c\<rparr>)" by (simp_all add: insert_doc_def)
  have other: "new_doc c \<notin> set ids" if "map_of (fkTracks c) t = Some ids" for t ids
    using track_okD [OF ok that] insert_fresh(3) [OF ok] by (auto simp: track_ok_def)
  have same: "map (doc_of ?c) ids = map (doc_of c) ids" if "map_of (fkTracks c) t = Some ids" for t ids
    using other [OF that] by (auto simp: doc_of_def c')
  show "fake_docs ?c = (fake_docs c)(new_track c \<mapsto> [d])"
  proof
    fix t
    show "fake_docs ?c t = ((fake_docs c)(new_track c \<mapsto> [d])) t"
      using same [of t] by (cases "map_of (fkTracks c) t") (auto simp: fake_docs_def c' update_conv' doc_of_def)
  qed
  have "track_ok ?c t ids" if "map_of (fkTracks ?c) t = Some ids" for t ids
  proof (cases "t = new_track c")
    case True
    with that d show ?thesis using names_here [of "?n + 1" "?n + 2" "''track''"] by (auto simp: track_ok_def c' update_conv' new_track_def)
  next
    case False
    with that have m: "map_of (fkTracks c) t = Some ids" by (simp add: c' update_conv')
    with track_okD [OF ok m] other [OF m] names_mono [of ?n "?n + 2" "''track''"] show ?thesis by (fastforce simp: track_ok_def c')
  qed
  moreover have "dom (fkDocs ?c) \<subseteq> names ''doc'' (?n + 2)"
    using ok names_mono [of ?n "?n + 2" "''doc''"] names_here [of "?n + 2" "?n + 2" "''doc''"] by (auto simp: fake_ok_def c' new_doc_def)
  ultimately show "fake_ok ?c" using ok by (simp add: fake_ok_def c') (simp add: insert_doc_def)
qed

text \<open>Deleting documents of one track shortens its list, and removes the track with the last of them.\<close>

definition shrink :: "string set \<Rightarrow> string list \<Rightarrow> string list option" where
  "shrink X ids = (let rest = filter (\<lambda>i. i \<notin> X) ids in if rest = [] then None else Some rest)"

lemma delete_docs_of_track:
  assumes "distinct xs" "t \<noteq> ''''" "map_of (fkTracks c) t \<noteq> Some []"
    and "\<forall>i\<in>set xs. \<exists>s. fkDocs c i = Some s \<and> dcTrackID s = t"
  shows "map_of (fkTracks (fold delete_doc xs c)) = (map_of (fkTracks c))(t := shrink (set xs) (track_ids c t))
    \<and> fkDocs (fold delete_doc xs c) = (\<lambda>i. if i \<in> set xs then None else fkDocs c i)
    \<and> fkNextID (fold delete_doc xs c) = fkNextID c \<and> fkInsertRespOverride (fold delete_doc xs c) = fkInsertRespOverride c"
  using assms(1,3,4)
proof (induction xs arbitrary: c)
  case Nil
  then show ?case by (auto simp: shrink_def track_ids_def fun_eq_iff split: option.splits)
next
  case (Cons i xs)
  let ?c = "delete_doc i c" and ?rest = "filter (\<lambda>x. x \<noteq> i) (track_ids c t)"
  have m: "map_of (fkTracks ?c) = (map_of (fkTracks c))(t := if ?rest = [] then None else Some ?rest)"
    and d: "fkDocs ?c = (fkDocs c)(i := None)" "fkNextID ?c = fkNextID c" "fkInsertRespOverride ?c = fkInsertRespOverride c"
    using Cons.prems assms(2) by (auto simp: delete_doc_def Let_def update_conv' delete_conv')
  have "track_ids ?c t = ?rest" by (simp add: track_ids_def m)
  moreover have "map_of (fkTracks ?c) t \<noteq> Some []" by (simp add: m)
  moreover have "\<forall>j\<in>set xs. \<exists>s. fkDocs ?c j = Some s \<and> dcTrackID s = t" using Cons.prems by (auto simp: d)
  ultimately have "map_of (fkTracks (fold delete_doc xs ?c)) = (map_of (fkTracks ?c))(t := shrink (set xs) ?rest)"
    "fkDocs (fold delete_doc xs ?c) = (\<lambda>j. if j \<in> set xs then None else fkDocs ?c j)"
    "fkNextID (fold delete_doc xs ?c) = fkNextID ?c" "fkInsertRespOverride (fold delete_doc xs ?c) = fkInsertRespOverride ?c"
    using Cons.IH [of ?c] Cons.prems(1) by auto
  moreover have "shrink (set xs) ?rest = shrink (set (i # xs)) (track_ids c t)"
    by (simp add: shrink_def Let_def conj_commute)
  ultimately show ?case by (auto simp: m d)
qed

lemma delete_keeps:
  assumes ok: "fake_ok c" and t: "map_of (fkTracks c) t = Some ids"
  defines "c' \<equiv> fold delete_doc ids c"
  shows "fake_ok c'" and "fake_docs c' = (fake_docs c)(t := None)" and "fkNextID c' = fkNextID c"
proof -
  note T = track_okD [OF ok t, unfolded track_ok_def]
  have "t \<noteq> ''''" using T names_nonempty by metis
  then have "map_of (fkTracks c') = (map_of (fkTracks c))(t := shrink (set ids) (track_ids c t))"
    and d: "fkDocs c' = (\<lambda>i. if i \<in> set ids then None else fkDocs c i)"
    and n: "fkNextID c' = fkNextID c" and ov: "fkInsertRespOverride c' = fkInsertRespOverride c"
    using delete_docs_of_track [of ids t c] T t unfolding c'_def by auto
  moreover have "shrink (set ids) (track_ids c t) = None" by (simp add: shrink_def track_ids_def t)
  ultimately have m: "map_of (fkTracks c') = (map_of (fkTracks c))(t := None)" by simp
  have apart: "set js \<inter> set ids = {}" if "map_of (fkTracks c) u = Some js" "u \<noteq> t" for u js
    using T track_okD [OF ok that(1)] that(2) by (fastforce simp: track_ok_def)
  then have same: "map (doc_of c') js = map (doc_of c) js" if "map_of (fkTracks c) u = Some js" "u \<noteq> t" for u js
    using that by (fastforce simp: doc_of_def d)
  show "fake_docs c' = (fake_docs c)(t := None)"
  proof
    fix u show "fake_docs c' u = ((fake_docs c)(t := None)) u"
      using same [of u] by (cases "map_of (fkTracks c) u") (auto simp: fake_docs_def m)
  qed
  have "track_ok c' u js" if "map_of (fkTracks c') u = Some js" for u js
    using that track_okD [OF ok, of u js] apart [of u js] by (fastforce simp: m track_ok_def d n split: if_splits)
  then show "fake_ok c'" using ok by (auto simp: fake_ok_def d n ov split: if_splits)
  show "fkNextID c' = fkNextID c" by (rule n)
qed

text \<open>The fake keeps the contract of a client.\<close>

interpretation fmc: memory_client "\<lambda>cx. fake_ops (now cx) (visit cx)" fake_ok fake_docs "\<lambda>c. names ''track'' (fkNextID c)"
  for now :: "ctx \<Rightarrow> string" and visit :: "ctx \<Rightarrow> (string \<times> amap) list \<Rightarrow> (string \<times> amap) list"
proof (unfold_locales, goal_cases)
  case (1 c t ds)
  then obtain ids where t: "map_of (fkTracks c) t = Some ids" "ds = map (doc_of c) ids" by (auto simp: fake_docs_def)
  show ?case using track_okD [OF 1(1) t(1)] t(2) by (simp add: track_ok_def)
next
  case (2 c cx rq)
  have d: "dsID (inserted_doc (now cx) rq c) = new_doc c" "dsContentSummary (inserted_doc (now cx) rq c) = itText rq" by (simp_all add: inserted_doc_def)
  have "insert (new_track c) (names ''track'' (fkNextID c)) \<subseteq> names ''track'' (fkNextID (insert_doc (inserted_doc (now cx) rq c) c))"
    using names_mono [of "fkNextID c" "fkNextID c + 2" "''track''"] names_here [of "fkNextID c + 1" "fkNextID c + 2" "''track''"]
    by (simp add: insert_doc_def new_track_def)
  moreover have "new_track c \<noteq> ''''" by (simp add: new_track_def)
  ultimately show ?case
    using insert_run [OF 2, of "now cx" rq] insert_fresh(1) [OF 2] insert_keeps [OF 2 d(1)] d(2) by (simp add: fake_ops_def) blast
next
  case (3 c t ds cx)
  then show ?case by (auto simp: fake_ops_def fake_docs_def fake_TrackStatus_def Let_def)
next
  case (4 c t cx)
  then show ?case by (simp add: fake_ops_def fake_docs_def fake_TrackStatus_def)
next
  case (5 c t ds cx)
  then obtain ids where t: "map_of (fkTracks c) t = Some ids" "ds = map (doc_of c) ids" by (auto simp: fake_docs_def)
  have ids: "map dsID ds = ids" using doc_ids track_okD [OF 5(1) t(1)] t(2) by simp
  have "find (\<lambda>i. fkDocs c i = None) ids = None" using track_okD [OF 5(1) t(1)] by (fastforce simp: find_None_iff track_ok_def)
  with delete_keeps [OF 5(1) t(1)] show ?case by (simp add: fake_ops_def fake_DeleteDocs_def ids)
qed

interpretation fmb: memory_backend "\<lambda>cx. fake_ops (now cx) (visit cx)" fake_ok fake_docs "\<lambda>c. names ''track'' (fkNextID c)"
    "TombstoneStore_ops clock" tombs healthy
  for now :: "ctx \<Rightarrow> string" and visit :: "ctx \<Rightarrow> (string \<times> amap) list \<Rightarrow> (string \<times> amap) list" and clock :: Time
  by unfold_locales

section \<open>The memory service over the fake\<close>

lemma fake_New_ok: "fake_ok fake_New" "fake_docs fake_New = Map.empty"
  by (simp_all add: fake_ok_def fake_New_def fake_docs_def fun_eq_iff)

text \<open>
  C4: the memory service is a map.  Over the in-memory LightRAG and a tombstone table that answers, every
  sequence of creates, reads and deletes, each under its own context, is a run of the map specification: a create
  returns an identifier that was not in use and stores the text under it, a read returns the stored text or reports the
  memory missing, a delete removes exactly its memory, and no call fails otherwise.
\<close>

theorem memory_is_a_map:
  assumes "fake_ok (wLR w)" "healthy (wTomb w)" "tombs (wTomb w) \<subseteq> names ''track'' (fkNextID (wLR w)) - dom (fake_docs (wLR w))"
    and "serve_all (pg_service (\<lambda>cx. fake_ops (now cx) (visit cx)) clock b) xs w = (tr, w')"
  shows "map_run (memories fake_docs w) tr (memories fake_docs w')"
  using fmb.serve_run [OF _ _ _ assms(4)] assms(1-3) by (simp add: fmb.tidy_def)

definition fresh_world :: "(fake, tomb_conn, source_conn) world" where
  "fresh_world = \<lparr>wLR = fake_New, wTomb = \<lparr>tables = \<lparr>deleted_memories = [], tomb_created = 0\<rparr>, script = []\<rparr>, wSrc = \<lparr>tables = [], script = []\<rparr>, wOps = [], wLog = []\<rparr>"

definition demo_ops :: "(ctx \<times> mem_op) list" where
  "demo_ops = map (Pair cx0) [OpCreate \<lparr>mID = '''', mText = ''hello'', mMetadata = Map.empty, mCreatedAt = 0\<rparr> 7, OpGet ''track-1'', OpDelete ''track-1'', OpGet ''track-1'']"

theorem memory_is_a_map_witness:
  "\<exists>tr w'. serve_all (pg_service (\<lambda>cx. fake_ops '''' id) 0 0) demo_ops fresh_world = (tr, w')
     \<and> map snd tr = [Created ''track-1'' ''hello'', Found ''track-1'' ''hello'', Deleted, Missing]
     \<and> map_run Map.empty tr (memories fake_docs w')"
proof -
  obtain tr w' where run: "serve_all (pg_service (\<lambda>cx. fake_ops '''' id) 0 0) demo_ops fresh_world = (tr, w')" by fastforce
  have "map snd (fst (serve_all (pg_service (\<lambda>cx. fake_ops '''' id) 0 0) demo_ops fresh_world)) =
      [Created ''track-1'' ''hello'', Found ''track-1'' ''hello'', Deleted, Missing]" by code_simp
  moreover have "fake_ok (wLR fresh_world)" "healthy (wTomb fresh_world)" "tombs (wTomb fresh_world) = {}" "memories fake_docs fresh_world = Map.empty"
    using fake_New_ok by (simp_all add: fresh_world_def healthy_def tombs_def memories_def fun_eq_iff)
  ultimately show ?thesis using memory_is_a_map [OF _ _ _ run] run by auto
qed

text \<open>
  What a caller sees over the fake, whatever else is called in between: a created memory is read back until it is deleted, and
  a deleted one is missing as long as its identifier is not handed out again.
\<close>

lemma read_your_writes:
  assumes "fake_ok (wLR w)" "healthy (wTomb w)" "tombs (wTomb w) \<subseteq> names ''track'' (fkNextID (wLR w)) - dom (fake_docs (wLR w))"
    and "serve_all (pg_service (\<lambda>cx. fake_ops (now cx) (visit cx)) clock b) xs w = (tr1 @ (x, a0) # tr2 @ [(OpGet k, a)], w')"
  shows "x = OpCreate m t0 \<Longrightarrow> a0 = Created k t \<Longrightarrow> (OpDelete k, Deleted) \<notin> set tr2 \<Longrightarrow> a = Found k (mText m)"
    and "x = OpDelete k \<Longrightarrow> \<forall>m t0 t. (OpCreate m t0, Created k t) \<notin> set tr2 \<Longrightarrow> a = Missing"
proof -
  have run: "map_run (memories fake_docs w) (tr1 @ (x, a0) # tr2 @ [(OpGet k, a)]) (memories fake_docs w')"
    using fmb.serve_run [OF _ _ _ assms(4)] assms(1-3) by (simp add: fmb.tidy_def)
  show "x = OpCreate m t0 \<Longrightarrow> a0 = Created k t \<Longrightarrow> (OpDelete k, Deleted) \<notin> set tr2 \<Longrightarrow> a = Found k (mText m)"
    using created_found run by blast
  show "x = OpDelete k \<Longrightarrow> \<forall>m t0 t. (OpCreate m t0, Created k t) \<notin> set tr2 \<Longrightarrow> a = Missing"
    using deleted_missing run by blast
qed

section \<open>Edges of the service over the fake\<close>

lemma parse_edgeKey: "CHR ''|'' \<notin> set src \<Longrightarrow> parseEdgeKey (edgeKey src tgt) = (src, tgt)"
proof (induction src)
  case Nil
  then show ?case by (simp add: edgeKey_def HasPrefix_def)
next
  case (Cons c s)
  have "parseEdgeKey (s @ ''||'' @ tgt) = (s, tgt)" using Cons by (simp add: edgeKey_def)
  moreover have "\<not> HasPrefix (c # s @ ''||'' @ tgt) ''||''" using Cons.prems by (auto simp: HasPrefix_def)
  ultimately show ?case by (simp add: edgeKey_def)
qed

text \<open>Every entity is a label.  The operations on entities keep this.\<close>

definition labelled :: "fake \<Rightarrow> bool" where
  "labelled c \<longleftrightarrow> dom (fkEntities c) \<subseteq> set (fkLabels c)"

lemma labelled_kept:
  assumes "labelled c"
  shows "labelled (SeedEntity name data c)"
    and "labelled (snd (fake_CreateEntity rq1 c))" and "labelled (snd (fake_UpdateEntity rq2 c))" and "labelled (snd (fake_DeleteEntity rq3 c))"
  using assms
  by (auto simp: labelled_def SeedEntity_def appendUnique_def fake_CreateEntity_def fake_UpdateEntity_def renameLabel_def
      fake_DeleteEntity_def removeLabel_def Let_def split: option.splits if_splits)

lemma fake_graph_same: "Graph (fake_ops now visit) l d n c = (fst (fake_Graph visit l d n c), c)"
  by (auto simp: fake_ops_def fake_Graph_def Let_def split: option.splits)

lemma edges_loop_fake:
  assumes "svLR sv cx = fake_ops now visit"
  shows "\<exists>es w'. edges_loop sv cx ls out w = (Inr es, w')"
proof (induction ls arbitrary: out w)
  case (Cons l ls)
  show ?case
    using Cons.IH
    by (simp add: assms fake_ops_def fake_Graph_def on_lr_def isNotFoundHTTP_def Let_def split: option.split)
qed simp

lemma graph_edge:
  assumes "fkEntities c l \<noteq> None" "(k, props) \<in> set (visit (fkEdges c))" "parseEdgeKey k = (l, tgt)"
  shows "\<exists>g. fst (fake_Graph visit l d n c) = Inr g \<and> \<lparr>geID = '''', geSource = l, geTarget = tgt, geType = '''', geProperties = props\<rparr> \<in> set (kgEdges g)"
proof -
  let ?f = "\<lambda>(k, props). case parseEdgeKey k of (src, tgt) \<Rightarrow> \<lparr>geID = '''', geSource = src, geTarget = tgt, geType = '''', geProperties = props\<rparr>"
  have "(k, props) \<in> set (filter (\<lambda>(k, _). incident l k) (visit (fkEdges c)))" using assms by (simp add: incident_def)
  then have "?f (k, props) \<in> ?f ` set (filter (\<lambda>(k, _). incident l k) (visit (fkEdges c)))" by (rule imageI)
  then show ?thesis using assms(1,3) by (auto simp: fake_Graph_def Let_def)
qed

lemma listed_edge:
  assumes "gRelation e \<noteq> ''''" "gProperties e ''keywords'' = None"
  shows "dedupKey (EdgeFromGraphEdge \<lparr>geID = '''', geSource = gFrom e, geTarget = gTo e, geType = '''',
      geProperties = (rcRelationData (RelationCreatePayload e))(''src_id'' \<mapsto> x, ''tgt_id'' \<mapsto> y)\<rparr>) =
    dedupKey (e\<lparr>gID := EncodeEdgeID (gFrom e) (gTo e)\<rparr>)"
  using assms by (simp add: dedupKey_def EdgeFromGraphEdge_def RelationCreatePayload_def stringProp_def str_or_empty_def map_add_def Let_def)

text \<open>
  A created edge is listed.  Over the fake, once \<^verbatim>\<open>CreateEdge\<close> succeeded, \<^verbatim>\<open>ListEdges\<close> succeeds and has the returned edge,
  whatever order the edges are visited in, provided that the relation is not empty, no property is called
  keywords and the source name has no bar.
\<close>

theorem created_edge_listed:
  assumes sv: "svLR sv = (\<lambda>cx. fake_ops (now cx) (visit cx))" and visit: "\<And>xs. set (visit cx' xs) = set xs"
    and "labelled (wLR w)" "gRelation e \<noteq> ''''" "gProperties e ''keywords'' = None" "CHR ''|'' \<notin> set (gFrom e)"
    and create: "CreateEdge sv cx e w = (Inr e', w1)"
  shows "\<exists>es w2. ListEdges sv cx' w1 = (Inr es, w2) \<and> distinct (map dedupKey es) \<and> dedupKey e' \<in> dedupKey ` set es"
proof -
  let ?rq = "RelationCreatePayload e" and ?c = "wLR w1"
  let ?data = "(rcRelationData ?rq)(''src_id'' \<mapsto> AStr (gFrom e), ''tgt_id'' \<mapsto> AStr (gTo e))"
  have rq: "rcSourceEntity ?rq = gFrom e" "rcTargetEntity ?rq = gTo e" by (simp_all add: RelationCreatePayload_def)
  obtain r c1 where m: "fake_CreateRelation ?rq (wLR w) = (r, c1)" by fastforce
  then have r: "r \<noteq> Inl x" for x using create by (auto simp: CreateEdge_def sv fake_ops_def on_lr_def split: sum.splits)
  then have src: "fkEntities (wLR w) (gFrom e) \<noteq> None" and c1: "c1 = (wLR w)\<lparr>fkEdges := AList.update (edgeKey (gFrom e) (gTo e)) ?data (fkEdges (wLR w))\<rparr>"
    using m by (auto simp: fake_CreateRelation_def rq Let_def split: if_splits)
  have w1: "?c = c1" "e' = e\<lparr>gID := EncodeEdgeID (gFrom e) (gTo e)\<rparr>"
    using create m r by (auto simp: CreateEdge_def sv fake_ops_def on_lr_def split: sum.splits)
  have lab: "gFrom e \<in> set (fkLabels ?c)" using assms(3) src by (auto simp: labelled_def w1 c1)
  have labels: "LabelSearch (svLR sv cx') '''' ?c = (Inr (fkLabels ?c), ?c)" by (simp add: sv fake_ops_def fake_LabelSearch_def)
  obtain es w2 where l: "ListEdges sv cx' w1 = (Inr es, w2)"
    using edges_loop_fake [of sv cx' "now cx'" "visit cx'" "fkLabels ?c" "[]" w1] labels by (auto simp: ListEdges_def on_lr_same sv)
  define ans where "ans lbl = fst (fake_Graph (visit cx') lbl 1 0 ?c)" for lbl
  have "Graph (svLR sv cx') lbl 1 0 ?c = (ans lbl, ?c)" for lbl by (simp add: sv fake_graph_same ans_def)
  from list_edges_complete [OF this labels l] have es: "distinct (map dedupKey es)" "dedupKey ` set es =
      (\<Union>lbl\<in>set (fkLabels ?c). case ans lbl of Inl _ \<Rightarrow> {} | Inr k \<Rightarrow> (dedupKey \<circ> EdgeFromGraphEdge) ` set (kgEdges k))" by blast+
  let ?ge = "\<lparr>geID = '''', geSource = gFrom e, geTarget = gTo e, geType = '''', geProperties = ?data\<rparr>"
  have "map_of (fkEdges ?c) (edgeKey (gFrom e) (gTo e)) = Some ?data" by (simp add: w1 c1 update_conv')
  then have here: "(edgeKey (gFrom e) (gTo e), ?data) \<in> set (visit cx' (fkEdges ?c))" using visit map_of_SomeD by metis
  have "fkEntities ?c (gFrom e) \<noteq> None" using src by (simp add: w1 c1)
  from graph_edge [where visit = "visit cx'", OF this here parse_edgeKey [OF assms(6)], of 1 0] obtain k where "ans (gFrom e) = Inr k" "?ge \<in> set (kgEdges k)"
    unfolding ans_def by blast
  moreover have "dedupKey (EdgeFromGraphEdge ?ge) = dedupKey e'" using listed_edge [OF assms(4,5)] w1(2) by simp
  ultimately have "dedupKey e' \<in> dedupKey ` set es" unfolding es(2) using lab by (force simp: image_iff)
  with l es(1) show ?thesis by blast
qed

text \<open>A bar at the end of the source name moves into the target.\<close>

lemma bar_edge_misread: "parseEdgeKey (edgeKey ''a|'' ''b'') = (''a'', ''|b'')"
  by code_simp

end
