(* ===== verification/Lightrag_Metrics.thy ===== *)
theory Lightrag_Metrics
  imports Lightrag_Http
begin

text \<open>
  The counters of the LightRAG client (\<^verbatim>\<open>internal/lightrag/metrics.go\<close>): the operations, the series that exist from the start,
  and that every call of a client method is counted once, under its operation and with its true outcome.  The one
  exception is a \<^verbatim>\<open>DeleteDocs\<close> whose context ends while it waits for the pipeline.
\<close>

section \<open>Operations and series\<close>

definition OpInsertText :: string where "OpInsertText = ''insert_text''"
definition OpTrackStatus :: string where "OpTrackStatus = ''track_status''"
definition OpDeleteDocs :: string where "OpDeleteDocs = ''delete_docs''"
definition OpQuery :: string where "OpQuery = ''query''"
definition OpQueryData :: string where "OpQueryData = ''query_data''"
definition OpEntityExists :: string where "OpEntityExists = ''entity_exists''"
definition OpCreateEntity :: string where "OpCreateEntity = ''create_entity''"
definition OpUpdateEntity :: string where "OpUpdateEntity = ''update_entity''"
definition OpDeleteEntity :: string where "OpDeleteEntity = ''delete_entity''"
definition OpLabelSearch :: string where "OpLabelSearch = ''label_search''"
definition OpGraph :: string where "OpGraph = ''graph''"
definition OpCreateRelation :: string where "OpCreateRelation = ''create_relation''"
definition OpDeleteRelation :: string where "OpDeleteRelation = ''delete_relation''"
definition OpHealth :: string where "OpHealth = ''health''"

lemmas op_defs = OpInsertText_def OpTrackStatus_def OpDeleteDocs_def OpQuery_def OpQueryData_def OpEntityExists_def OpCreateEntity_def
  OpUpdateEntity_def OpDeleteEntity_def OpLabelSearch_def OpGraph_def OpCreateRelation_def OpDeleteRelation_def OpHealth_def

definition allOps :: "string list" where
  "allOps = [OpInsertText, OpTrackStatus, OpDeleteDocs, OpQuery, OpQueryData, OpEntityExists, OpCreateEntity, OpUpdateEntity,
     OpDeleteEntity, OpLabelSearch, OpGraph, OpCreateRelation, OpDeleteRelation, OpHealth]"

text \<open>The series of the call counter that exist, with value 0, before the first call.\<close>

definition call_series :: "(string \<times> string) list" where
  "call_series = List.product allOps [''success'', ''error'']"

definition incError :: "string \<Rightarrow> net \<Rightarrow> net" where
  "incError op n = n\<lparr>hCalls := hCalls n @ [(op, ''error'')]\<rparr>"

lemma bad_mode_counts: "snd (bad_mode op req n) = incError op n"
  by (simp add: bad_mode_def incError_def)

section \<open>Every call is counted\<close>

definition outcome :: "err + 'a \<Rightarrow> string" where
  "outcome r = (case r of Inl _ \<Rightarrow> ''error'' | Inr _ \<Rightarrow> ''success'')"

definition counted :: "string \<Rightarrow> (net, err, 'a) call \<Rightarrow> bool" where
  "counted op m \<longleftrightarrow> (\<forall>n. hCalls (snd (m n)) = hCalls n @ [(op, outcome (fst (m n)))])"

lemma roundTrip_calls: "roundTrip srv cx bad rq want zero n = (r, n') \<Longrightarrow> hCalls n' = hCalls n"
  using roundTrip_advanced [of n srv cx bad rq want zero] by (simp add: advanced_def)

lemma http_do_calls [simp]:
  "hCalls (snd (http_do c cx op rq want zero n)) = hCalls n @ [(op, outcome (fst (http_do c cx op rq want zero n)))]"
  by (auto simp: http_do_def do_call_def observe_call_def outcome_def dest!: roundTrip_calls split: prod.splits)

lemma http_do_counted: "counted op (http_do c cx op rq want zero)"
  by (simp add: counted_def)

lemma query_counted: "counted OpQuery (HTTP_Query c cx req)"
  by (simp add: counted_def HTTP_Query_def bad_mode_def OpQuery_def) (simp add: outcome_def)

lemma query_data_counted: "counted OpQueryData (HTTP_QueryData c cx req)"
  by (auto simp: counted_def HTTP_QueryData_def bad_mode_def outcome_def OpQueryData_def observe_call_def Let_def
      dest!: roundTrip_calls split: prod.splits sum.splits)

lemma sleep_calls: "sleep cx d n = (e, n') \<Longrightarrow> hCalls n' = hCalls n"
  by (auto simp: sleep_def split: option.splits)

text \<open>A delete is counted once, or not at all when its context ends during a wait.\<close>

definition counted_once :: "net \<Rightarrow> (err + 'a) \<times> net \<Rightarrow> bool" where
  "counted_once n y \<longleftrightarrow> (case y of (r, n') \<Rightarrow> hCalls n' = hCalls n @ [(OpDeleteDocs, outcome r)] \<or> isl r \<and> hCalls n' = hCalls n)"

lemma delete_loop_counted:
  assumes "delete_loop c cx rq deadline start attempt delay n = Some y"
  shows "counted_once n y"
proof (rule delete_loop.raw_induct [where P = "\<lambda>c cx rq deadline start attempt delay n y. counted_once n y", OF _ assms], goal_cases)
  case (1 loop c cx rq deadline start attempt delay n y)
  obtain r1 n1 where rt: "roundTrip (hcServer c) cx (hcBadURL c) rq (Some (decDelete (hcCodec c))) zeroDelete n = (r1, n1)" by fastforce
  obtain e n2 where sl: "sleep cx delay n1 = (e, n2)" by fastforce
  have same: "counted_once n2 y \<Longrightarrow> counted_once n y" using roundTrip_calls [OF rt] sleep_calls [OF sl] by (simp add: counted_once_def)
  show ?case
    using 1(2) same [OF 1(1)] roundTrip_calls [OF rt] sleep_calls [OF sl] unfolding rt prod.case sl
    by (auto simp: counted_once_def observe_call_def outcome_def OpDeleteDocs_def Let_def split: sum.splits if_splits option.splits)
qed

lemma delete_counted: "counted_once n (HTTP_DeleteDocs c cx req n)"
proof -
  obtain y where "HTTP_DeleteDocs_opt c cx req n = Some y" "HTTP_DeleteDocs c cx req n = y"
    using delete_loop_returns [of retryBaseDelay c cx "delete ''/documents/delete_document'' (encDelete (hcCodec c) req)"
      "delete_deadline cx n" "hClock n" 1 n] by (auto simp: HTTP_DeleteDocs_opt_def HTTP_DeleteDocs_def http_consts)
  then show ?thesis using delete_loop_counted by (simp add: HTTP_DeleteDocs_opt_def)
qed

text \<open>The methods that are one request each, with the operation they are counted under.\<close>

lemma methods_counted:
  "counted OpInsertText (HTTP_InsertText c cx a1)" "counted OpTrackStatus (HTTP_TrackStatus c cx a2)" "counted OpEntityExists (HTTP_EntityExists c cx a3)"
  "counted OpCreateEntity (HTTP_CreateEntity c cx a4)" "counted OpUpdateEntity (HTTP_UpdateEntity c cx a5)"
  "counted OpDeleteEntity (HTTP_DeleteEntity c cx a6)" "counted OpLabelSearch (HTTP_LabelSearch c cx a7)" "counted OpGraph (HTTP_Graph c cx a8 d k)"
  "counted OpCreateRelation (HTTP_CreateRelation c cx a9)" "counted OpDeleteRelation (HTTP_DeleteRelation c cx a10)" "counted OpHealth (HTTP_Health c cx)"
  by (simp_all add: counted_def op_defs HTTP_InsertText_def HTTP_TrackStatus_def HTTP_EntityExists_def HTTP_CreateEntity_def HTTP_UpdateEntity_def
      HTTP_DeleteEntity_def HTTP_LabelSearch_def HTTP_Graph_def HTTP_CreateRelation_def HTTP_DeleteRelation_def HTTP_Health_def)

section \<open>A client in use\<close>

text \<open>The requests to a client, and the world after them.\<close>

datatype lr_request = ReqInsert InsertTextRequest | ReqTrack string | ReqDelete DeleteDocRequest | ReqQuery QueryRequest | ReqQueryData QueryRequest
  | ReqExists string | ReqCreateEntity EntityCreateRequest | ReqUpdateEntity EntityUpdateRequest | ReqDeleteEntity DeleteEntityRequest
  | ReqLabels string | ReqGraph string int int | ReqCreateRelation RelationCreateRequest | ReqDeleteRelation DeleteRelationRequest | ReqHealth

fun lr_serve :: "'l Client \<Rightarrow> lr_request \<Rightarrow> 'l \<Rightarrow> 'l" where
  "lr_serve L (ReqInsert q) l = snd (InsertText L q l)"
| "lr_serve L (ReqTrack t) l = snd (TrackStatus L t l)"
| "lr_serve L (ReqDelete q) l = snd (DeleteDocs L q l)"
| "lr_serve L (ReqQuery q) l = snd (LRQuery L q l)"
| "lr_serve L (ReqQueryData q) l = snd (LRQueryData L q l)"
| "lr_serve L (ReqExists t) l = snd (EntityExists L t l)"
| "lr_serve L (ReqCreateEntity q) l = snd (CreateEntity L q l)"
| "lr_serve L (ReqUpdateEntity q) l = snd (UpdateEntity L q l)"
| "lr_serve L (ReqDeleteEntity q) l = snd (DeleteEntity L q l)"
| "lr_serve L (ReqLabels t) l = snd (LabelSearch L t l)"
| "lr_serve L (ReqGraph t d k) l = snd (Graph L t d k l)"
| "lr_serve L (ReqCreateRelation q) l = snd (CreateRelation L q l)"
| "lr_serve L (ReqDeleteRelation q) l = snd (DeleteRelation L q l)"
| "lr_serve L ReqHealth l = snd (Health L l)"

definition grows :: "net \<Rightarrow> net \<Rightarrow> bool" where
  "grows n n' \<longleftrightarrow> (\<exists>xs. hCalls n' = hCalls n @ xs \<and> length xs \<le> 1 \<and> set xs \<subseteq> set call_series)"

lemma in_series: "op \<in> set allOps \<Longrightarrow> (op, outcome r) \<in> set call_series"
  by (simp add: call_series_def outcome_def split: sum.split)

lemma counted_grows: "counted op m \<Longrightarrow> op \<in> set allOps \<Longrightarrow> grows n (snd (m n))"
  using in_series [of op "fst (m n)"] by (auto simp: counted_def grows_def)

lemma once_grows: "counted_once n y \<Longrightarrow> grows n (snd y)"
  using in_series [of OpDeleteDocs "fst y"] by (cases y) (auto simp: counted_once_def grows_def allOps_def)

lemma serve_grows: "grows n (lr_serve (HTTPClient_ops c cx) q n)"
  by (cases q) (simp_all add: HTTPClient_ops_def allOps_def once_grows [OF delete_counted]
      counted_grows [OF query_counted] counted_grows [OF query_data_counted] methods_counted [THEN counted_grows])

text \<open>
  Whatever requests a client serves, it counts at most one call for each of them, and only in series that exist from the start, so a scrape never
  sees a new series appear.
\<close>

theorem series_fixed:
  "length (hCalls (fold (\<lambda>(cx, q). lr_serve (HTTPClient_ops c cx) q) qs n)) \<le> length (hCalls n) + length qs
   \<and> set (hCalls (fold (\<lambda>(cx, q). lr_serve (HTTPClient_ops c cx) q) qs n)) \<subseteq> set (hCalls n) \<union> set call_series"
proof (induction qs arbitrary: n)
  case (Cons y qs)
  obtain cx q where y: "y = (cx, q)" by fastforce
  have "grows n (lr_serve (HTTPClient_ops c cx) q n)" by (rule serve_grows)
  then obtain xs where "hCalls (lr_serve (HTTPClient_ops c cx) q n) = hCalls n @ xs" "length xs \<le> 1" "set xs \<subseteq> set call_series" by (auto simp: grows_def)
  with Cons.IH [of "lr_serve (HTTPClient_ops c cx) q n"] show ?case by (auto simp: y)
qed simp

end
