(* ===== verification/Migrate_Stub.thy ===== *)
theory Migrate_Stub
  imports PG_Migrate
begin

text \<open>
  The statements of the migration runner as text (\<^verbatim>\<open>internal/pgmigrate/pgmigrate.go\<close>) and the stub database that the
  migration tests run it against (\<^verbatim>\<open>internal/pgmigrate/pgmigratetest/stub.go\<close>).  The stub knows the statements of the
  runner by their tags, keeps the tracker rows, answers the probes from a table and records every statement.
  \<open>text_Run\<close> is the runner over any driver; the locale \<open>tracker_driver\<close> states what a driver promises, and the stub
  interprets it.  The last section compares the run on the stub with the run on a PostgreSQL database of \<open>PG_Migrate\<close>.
  The text of the bodies and of the probe queries is a parameter; the pool is capped at one connection, so the
  stub is one connection.
\<close>

section \<open>The statements of the runner\<close>

definition newline :: string where "newline = [CHR 0x0A]"

definition AppliedCheckTag :: string where "AppliedCheckTag = StatementTag @ ''applied check''"

definition StampTag :: string where "StampTag = StatementTag @ ''stamp''"

definition ProbeTag :: "string \<Rightarrow> string" where "ProbeTag name = StatementTag @ ''baseline probe '' @ name"

text \<open>In milliseconds.\<close>

definition migrationLockTimeout :: nat where "migrationLockTimeout = 5 * 60 * 1000"

definition migrationStatementTimeout :: nat where "migrationStatementTimeout = 30 * 60 * 1000"

definition sessionTimeoutsSQL :: string where
  "sessionTimeoutsSQL = StatementTag @ ''session timeouts'' @ newline @ ''SET LOCAL lock_timeout = '' @ dec migrationLockTimeout @ '';'' @ newline
     @ ''SET LOCAL statement_timeout = '' @ dec migrationStatementTimeout @ '';''"

definition bootstrapSQL :: "string \<Rightarrow> string" where
  "bootstrapSQL t = StatementTag @ ''bootstrap tracker'' @ newline @ ''CREATE TABLE IF NOT EXISTS '' @ t @ '' ('' @ newline
     @ ''    name       TEXT PRIMARY KEY,'' @ newline @ ''    applied_at TIMESTAMPTZ NOT NULL DEFAULT now()'' @ newline @ '')''"

definition appliedSQL :: "string \<Rightarrow> string" where
  "appliedSQL t = AppliedCheckTag @ newline @ ''SELECT EXISTS (SELECT 1 FROM '' @ t @ '' WHERE name = $1)''"

definition stampSQL :: "string \<Rightarrow> string" where
  "stampSQL t = StampTag @ newline @ ''INSERT INTO '' @ t @ '' (name) VALUES ($1) ON CONFLICT (name) DO NOTHING''"

definition probeSQL :: "string \<Rightarrow> string \<Rightarrow> string" where
  "probeSQL name query = ProbeTag name @ newline @ query"

text \<open>The text of a migration: its body, and the query of its probe.\<close>

record sql_text =
  stBody :: "Migration \<Rightarrow> string"
  stQuery :: "Migration \<Rightarrow> string"

definition Runner_SQL :: "sql_text \<Rightarrow> Runner \<Rightarrow> string" where
  "Runner_SQL T r = join newline (map (stBody T) (rnMigrations r))"

section \<open>The runner over a driver\<close>

datatype driver_value = VString string | VOther string

record 's sql_driver =
  sqBegin :: "('s, err, unit) call"
  sqExec :: "string \<Rightarrow> driver_value list \<Rightarrow> ('s, err, unit) call"
  sqQueryRow :: "string \<Rightarrow> driver_value list \<Rightarrow> ('s, err, bool) call"
  sqCommit :: "('s, err, unit) call"
  sqRollback :: "('s, err, unit) call"

text \<open>The deferred rollback reaches the driver only when the transaction has not been committed.\<close>

definition rollback_on_error :: "'s sql_driver \<Rightarrow> ('s, err, 'a) call \<Rightarrow> ('s, err, 'a) call" where
  "rollback_on_error D f s = (case f s of (Inl e, s') \<Rightarrow> (Inl e, snd (sqRollback D s')) | (Inr x, s') \<Rightarrow> (Inr x, s'))"

definition text_applied :: "'s sql_driver \<Rightarrow> string \<Rightarrow> string \<Rightarrow> ('s, err, bool) call" where
  "text_applied D t name = sqQueryRow D (appliedSQL t) [VString name]"

definition text_probe :: "'s sql_driver \<Rightarrow> sql_text \<Rightarrow> Migration \<Rightarrow> bool \<Rightarrow> ('s, err, bool) call" where
  "text_probe D T m baselining = (if baselining \<and> mgAlreadyApplied m \<noteq> None
     then bindE (mapErr (Wrap ''baseline probe'') (sqQueryRow D (probeSQL (mgName m) (stQuery T m)) [])) (\<lambda>present. returnE (\<not> present))
     else returnE True)"

definition text_apply :: "'s sql_driver \<Rightarrow> sql_text \<Rightarrow> string \<Rightarrow> Migration \<Rightarrow> bool \<Rightarrow> ('s, err, bool) call" where
  "text_apply D T t m baselining =
     bindE (mapErr (Wrap ''begin'') (sqBegin D)) (\<lambda>_.
     bindE (rollback_on_error D
       (bindE (mapErr (Wrap ''session timeouts'') (sqExec D sessionTimeoutsSQL [])) (\<lambda>_.
        bindE (text_probe D T m baselining) (\<lambda>execute.
        bindE (if execute then mapErr (Wrap ''exec'') (sqExec D (stBody T m) []) else returnE ()) (\<lambda>_.
        bindE (mapErr (Wrap ''record'') (sqExec D (stampSQL t) [VString (mgName m)])) (\<lambda>_. returnE execute)))))) (\<lambda>execute.
     bindE (mapErr (Wrap ''commit'') (sqCommit D)) (\<lambda>_. returnE execute)))"

fun text_run_from :: "'s sql_driver \<Rightarrow> sql_text \<Rightarrow> string \<Rightarrow> bool \<Rightarrow> Migration list \<Rightarrow> ('s, err, unit) call" where
  "text_run_from D T t baselining [] = returnE ()"
| "text_run_from D T t baselining (m # ms) =
     bindE (mapErr (Wrap (''pgmigrate '' @ t @ '': check '' @ mgName m)) (text_applied D t (mgName m))) (\<lambda>applied.
     if applied then text_run_from D T t baselining ms
     else bindE (mapErr (Wrap (''pgmigrate '' @ t @ '': apply '' @ mgName m)) (text_apply D T t m baselining)) (\<lambda>executed.
       text_run_from D T t (if executed then False else baselining) ms))"

definition tagged :: "string \<Rightarrow> bool" where
  "tagged q = HasPrefix (TrimSpace q) StatementTag"

definition text_Run :: "'s sql_driver \<Rightarrow> sql_text \<Rightarrow> Runner \<Rightarrow> ('s, err, unit) call" where
  "text_Run D T r =
     (if \<not> safeTrackerName (rnTracker r) then failE (Opaque (''pgmigrate: unsafe tracker table name '' @ quoteq (rnTracker r)))
      else case find (\<lambda>m. tagged (stBody T m)) (rnMigrations r) of
        Some m \<Rightarrow> failE (Opaque (''pgmigrate '' @ rnTracker r @ '': migration '' @ mgName m @ '' starts with the reserved runner tag '' @ quoteq StatementTag))
      | None \<Rightarrow>
          bindE (mapErr (Wrap (''pgmigrate '' @ rnTracker r @ '': create tracker'')) (sqExec D (bootstrapSQL (rnTracker r)) [])) (\<lambda>_.
          text_run_from D T (rnTracker r) True (rnMigrations r)))"

section \<open>The stub\<close>

record Recorder =
  rcApplied :: "string \<Rightarrow> bool"
  rcAppliedOrder :: "string list"
  rcProbes :: "string \<Rightarrow> bool"
  rcProbedOrder :: "string list"
  rcStmts :: "string list"
  rcFailOn :: "(string \<times> err) list"

text \<open>The one connection, with the names stamped in its open transaction.\<close>

record stub_conn =
  cnR :: Recorder
  cnTx :: "string list option"

definition stub_New :: stub_conn where
  "stub_New = \<lparr>cnR = \<lparr>rcApplied = (\<lambda>_. False), rcAppliedOrder = [], rcProbes = (\<lambda>_. False), rcProbedOrder = [], rcStmts = [], rcFailOn = []\<rparr>, cnTx = None\<rparr>"

definition SetProbe :: "string \<Rightarrow> bool \<Rightarrow> Recorder \<Rightarrow> Recorder" where
  "SetProbe name present r = r\<lparr>rcProbes := (rcProbes r)(name := present)\<rparr>"

text \<open>The fragments are an association list in the order in which Go ranges over the map.\<close>

definition FailOn :: "string \<Rightarrow> err \<Rightarrow> Recorder \<Rightarrow> Recorder" where
  "FailOn fragment e r = r\<lparr>rcFailOn := AList.update fragment e (rcFailOn r)\<rparr>"

definition Reset :: "Recorder \<Rightarrow> Recorder" where
  "Reset r = r\<lparr>rcStmts := []\<rparr>"

definition Statements :: "Recorder \<Rightarrow> string list" where
  "Statements r = rcStmts r"

definition MigrationStatements :: "Recorder \<Rightarrow> string list" where
  "MigrationStatements r = filter (\<lambda>s. \<not> tagged s) (Statements r)"

definition Applied :: "Recorder \<Rightarrow> string list" where
  "Applied r = rcAppliedOrder r"

definition Probed :: "Recorder \<Rightarrow> string list" where
  "Probed r = rcProbedOrder r"

definition ToUpper :: "string \<Rightarrow> string" where
  "ToUpper = map (\<lambda>c. let n = of_char c :: nat in if 97 \<le> n \<and> n \<le> 122 then char_of (n - 32) else c)"

definition transactionUnsafe :: "string list" where
  "transactionUnsafe = [''CONCURRENTLY'', ''VACUUM'', ''ALTER SYSTEM'']"

text \<open>The fragment for which the test fails.\<close>

definition RequireTransactionSafe :: "string \<Rightarrow> string option" where
  "RequireTransactionSafe sql = find (str_contains (ToUpper sql)) transactionUnsafe"

definition rec_record :: "string \<Rightarrow> Recorder \<Rightarrow> Recorder" where
  "rec_record q r = r\<lparr>rcStmts := rcStmts r @ [q]\<rparr>"

definition errFor :: "string \<Rightarrow> Recorder \<Rightarrow> err option" where
  "errFor q r = map_option snd (find (\<lambda>(frag, e). str_contains q frag) (rcFailOn r))"

definition isApplied :: "string \<Rightarrow> Recorder \<Rightarrow> bool" where
  "isApplied name r = rcApplied r name"

text \<open>The answer to a probe, or nothing when the statement is not a probe.\<close>

definition rec_probe :: "string \<Rightarrow> Recorder \<Rightarrow> bool option \<times> Recorder" where
  "rec_probe q0 r = (let q = TrimSpace q0; prefix = ProbeTag '''' in
     if \<not> HasPrefix q prefix then (None, r)
     else let name = TrimSpace (takeWhile (\<lambda>c. c \<noteq> CHR 0x0A) (drop (length prefix) q)) in
       (Some (rcProbes r name), r\<lparr>rcProbedOrder := rcProbedOrder r @ [name]\<rparr>))"

fun rec_commit :: "string list \<Rightarrow> Recorder \<Rightarrow> Recorder" where
  "rec_commit [] r = r"
| "rec_commit (n # ns) r = rec_commit ns
     (if rcApplied r n then r else r\<lparr>rcApplied := (rcApplied r)(n := True), rcAppliedOrder := rcAppliedOrder r @ [n]\<rparr>)"

definition stringArg :: "driver_value list \<Rightarrow> err + string" where
  "stringArg args = (case args of
     [VString s] \<Rightarrow> Inr s
   | [VOther ty] \<Rightarrow> Inl (Opaque (''pgmigratetest: expected a string argument, got '' @ ty))
   | _ \<Rightarrow> Inl (Opaque (''pgmigratetest: expected exactly one argument, got '' @ dec (length args))))"

record boolRows =
  brV :: bool
  brDone :: bool

definition rows_Next :: "boolRows \<Rightarrow> bool option \<times> boolRows" where
  "rows_Next r = (if brDone r then (None, r) else (Some (brV r), r\<lparr>brDone := True\<rparr>))"

text \<open>\<open>cx\<close> is the error of the context.\<close>

definition stub_BeginTx :: "err option \<Rightarrow> (stub_conn, err, unit) call" where
  "stub_BeginTx cx c = (case cx of Some e \<Rightarrow> (Inl e, c) | None \<Rightarrow> (Inr (), c\<lparr>cnTx := Some []\<rparr>))"

definition stub_ExecContext :: "err option \<Rightarrow> string \<Rightarrow> driver_value list \<Rightarrow> (stub_conn, err, unit) call" where
  "stub_ExecContext cx q args c = (case cx of Some e \<Rightarrow> (Inl e, c) | None \<Rightarrow>
     let c1 = c\<lparr>cnR := rec_record q (cnR c)\<rparr> in
     case errFor q (cnR c1) of Some e \<Rightarrow> (Inl e, c1) | None \<Rightarrow>
       if HasPrefix (TrimSpace q) StampTag then
         (case stringArg args of
            Inl e \<Rightarrow> (Inl e, c1)
          | Inr name \<Rightarrow> (case cnTx c1 of
              None \<Rightarrow> (Inl (Opaque (''pgmigratetest: tracker insert for '' @ quoteq name @ '' was issued outside a transaction'')), c1)
            | Some pending \<Rightarrow> (Inr (), c1\<lparr>cnTx := Some (pending @ [name])\<rparr>)))
       else (Inr (), c1))"

definition stub_QueryContext :: "err option \<Rightarrow> string \<Rightarrow> driver_value list \<Rightarrow> (stub_conn, err, boolRows) call" where
  "stub_QueryContext cx q args c = (case cx of Some e \<Rightarrow> (Inl e, c) | None \<Rightarrow>
     let c1 = c\<lparr>cnR := rec_record q (cnR c)\<rparr> in
     case errFor q (cnR c1) of Some e \<Rightarrow> (Inl e, c1) | None \<Rightarrow>
       if HasPrefix (TrimSpace q) AppliedCheckTag then
         (case stringArg args of
            Inl e \<Rightarrow> (Inl e, c1)
          | Inr name \<Rightarrow> (Inr \<lparr>brV = isApplied name (cnR c1), brDone = False\<rparr>, c1))
       else (case rec_probe q (cnR c1) of
          (Some present, r) \<Rightarrow> (Inr \<lparr>brV = present, brDone = False\<rparr>, c1\<lparr>cnR := r\<rparr>)
        | (None, r) \<Rightarrow> (Inl (Opaque (''pgmigratetest: unexpected query '' @ quoteq q)), c1)))"

text \<open>\<^verbatim>\<open>QueryRowContext(..).Scan\<close> of the standard library: the first row, or an error.\<close>

definition stub_QueryRow :: "err option \<Rightarrow> string \<Rightarrow> driver_value list \<Rightarrow> (stub_conn, err, bool) call" where
  "stub_QueryRow cx q args c = (case stub_QueryContext cx q args c of
     (Inl e, c') \<Rightarrow> (Inl e, c')
   | (Inr rows, c') \<Rightarrow> (case fst (rows_Next rows) of None \<Rightarrow> (Inl ErrNoRows, c') | Some v \<Rightarrow> (Inr v, c')))"

definition tx_Commit :: "(stub_conn, err, unit) call" where
  "tx_Commit c = (Inr (), c\<lparr>cnR := rec_commit (case cnTx c of None \<Rightarrow> [] | Some pending \<Rightarrow> pending) (cnR c), cnTx := None\<rparr>)"

definition tx_Rollback :: "(stub_conn, err, unit) call" where
  "tx_Rollback c = (Inr (), c\<lparr>cnTx := None\<rparr>)"

definition stub_driver :: "err option \<Rightarrow> stub_conn sql_driver" where
  "stub_driver cx = \<lparr>sqBegin = stub_BeginTx cx, sqExec = stub_ExecContext cx, sqQueryRow = stub_QueryRow cx, sqCommit = tx_Commit, sqRollback = tx_Rollback\<rparr>"

section \<open>Tags\<close>

lemma trim_tagged:
  assumes "p \<noteq> []" "\<not> is_space (hd p)" "\<not> is_space (last p)"
  shows "TrimSpace (p @ s) = p @ rev (dropWhile is_space (rev s))"
proof -
  have d: "dropWhile is_space (p @ s) = p @ s" "dropWhile is_space (rev p) = rev p"
    using assms by (cases p; simp) (use assms in \<open>simp add: dropWhile_eq_self_iff hd_rev\<close>)
  have "dropWhile is_space (rev s @ rev p) = dropWhile is_space (rev s) @ rev p"
  proof (cases "\<forall>c\<in>set s. is_space c")
    case True
    then have "dropWhile is_space (rev s) = []" "dropWhile is_space (rev s @ rev p) = dropWhile is_space (rev p)"
      by (simp, intro dropWhile_append2) simp
    with d(2) show ?thesis by simp
  next
    case False
    then obtain c where "c \<in> set (rev s)" "\<not> is_space c" by auto
    then show ?thesis by (rule dropWhile_append1)
  qed
  with d show ?thesis by (simp add: TrimSpace_def)
qed

lemma prefix_own [simp]: "HasPrefix (p @ s) p"
  by (simp add: HasPrefix_def)

lemma prefix_append: "HasPrefix x (p @ q) \<Longrightarrow> HasPrefix x p"
  unfolding HasPrefix_def by (metis append_eq_conv_conj take_take length_append le_add1 min_def take_eq_Nil)

lemma has_tag:
  assumes "p \<noteq> []" "\<not> is_space (last p)"
  shows "HasPrefix (TrimSpace (StatementTag @ p @ s)) (StatementTag @ p)"
proof -
  have "\<not> is_space (hd (StatementTag @ p))" by (simp add: StatementTag_def is_space_def)
  with trim_tagged [of "StatementTag @ p" s] assms show ?thesis using prefix_own [of "StatementTag @ p"] by simp
qed

lemma own_tagged: "p \<noteq> [] \<Longrightarrow> \<not> is_space (last p) \<Longrightarrow> tagged (StatementTag @ p @ s)"
  unfolding tagged_def by (rule prefix_append [OF has_tag])

text \<open>A name without white space.\<close>

definition plain :: "string \<Rightarrow> bool" where
  "plain n \<longleftrightarrow> n \<noteq> '''' \<and> list_all (\<lambda>c. \<not> is_space c) n"

lemma plain_trim: "plain n \<Longrightarrow> TrimSpace n = n"
  using trim_tagged [of n "[]"] by (auto simp: plain_def list_all_iff)

lemma own_statements:
  shows "tagged sessionTimeoutsSQL" "tagged (bootstrapSQL t)" "tagged (appliedSQL t)" "tagged (stampSQL t)"
    and "plain n \<Longrightarrow> tagged (probeSQL n q)"
proof -
  show "tagged sessionTimeoutsSQL" unfolding sessionTimeoutsSQL_def by (rule own_tagged) (simp_all add: is_space_def)
  show "tagged (bootstrapSQL t)" unfolding bootstrapSQL_def by (rule own_tagged) (simp_all add: is_space_def)
  show "tagged (appliedSQL t)" unfolding appliedSQL_def AppliedCheckTag_def append_assoc by (rule own_tagged) (simp_all add: is_space_def)
  show "tagged (stampSQL t)" unfolding stampSQL_def StampTag_def append_assoc by (rule own_tagged) (simp_all add: is_space_def)
  show "tagged (probeSQL n q)" if "plain n"
  proof -
    have "\<not> is_space (last (''baseline probe '' @ n))" using that by (auto simp: plain_def list_all_iff)
    then show ?thesis using own_tagged [of "''baseline probe '' @ n"] by (simp add: probeSQL_def ProbeTag_def)
  qed
qed

text \<open>Only a stamp starts with the tag of a stamp.\<close>

lemma no_stamp:
  shows "\<not> HasPrefix (TrimSpace sessionTimeoutsSQL) StampTag" "\<not> HasPrefix (TrimSpace (bootstrapSQL t)) StampTag"
    and "\<not> tagged q \<Longrightarrow> \<not> HasPrefix (TrimSpace q) StampTag"
proof -
  show "\<not> HasPrefix (TrimSpace sessionTimeoutsSQL) StampTag"
    using trim_tagged [of "StatementTag @ ''session timeouts''"]
    by (simp add: sessionTimeoutsSQL_def StampTag_def StatementTag_def HasPrefix_def is_space_def)
  show "\<not> HasPrefix (TrimSpace (bootstrapSQL t)) StampTag"
    using trim_tagged [of "StatementTag @ ''bootstrap tracker''"]
    by (simp add: bootstrapSQL_def StampTag_def StatementTag_def HasPrefix_def is_space_def)
  show "\<not> tagged q \<Longrightarrow> \<not> HasPrefix (TrimSpace q) StampTag"
    by (auto simp: tagged_def StampTag_def dest: prefix_append)
qed

section \<open>What a driver promises\<close>

text \<open>The tracker rows, the stamps of the open transaction, the answers to probes and the statements issued.\<close>

record tracker_view =
  vwRows :: "string list"
  vwPending :: "string list option"
  vwProbes :: "string \<Rightarrow> bool"
  vwLog :: "string list"

definition logged :: "string \<Rightarrow> tracker_view \<Rightarrow> tracker_view" where
  "logged q v = v\<lparr>vwLog := vwLog v @ [q]\<rparr>"

definition add_row :: "string \<Rightarrow> string list \<Rightarrow> string list" where
  "add_row n rows = (if n \<in> set rows then rows else rows @ [n])"

text \<open>\<open>quiet\<close> describes the states in which no call fails.\<close>

locale tracker_driver =
  fixes D :: "'s sql_driver" and view :: "'s \<Rightarrow> tracker_view" and quiet :: "'s \<Rightarrow> bool"
  assumes begin_ok: "quiet s \<Longrightarrow> \<exists>s'. sqBegin D s = (Inr (), s') \<and> quiet s' \<and> view s' = (view s)\<lparr>vwPending := Some []\<rparr>"
    and exec_ok: "quiet s \<Longrightarrow> \<not> HasPrefix (TrimSpace q) StampTag \<Longrightarrow> \<exists>s'. sqExec D q [] s = (Inr (), s') \<and> quiet s' \<and> view s' = logged q (view s)"
    and stamp_ok: "quiet s \<Longrightarrow> vwPending (view s) = Some ps \<Longrightarrow> \<exists>s'. sqExec D (stampSQL t) [VString n] s = (Inr (), s') \<and> quiet s'
      \<and> view s' = logged (stampSQL t) ((view s)\<lparr>vwPending := Some (ps @ [n])\<rparr>)"
    and check_ok: "quiet s \<Longrightarrow> \<exists>s'. sqQueryRow D (appliedSQL t) [VString n] s = (Inr (n \<in> set (vwRows (view s))), s') \<and> quiet s'
      \<and> view s' = logged (appliedSQL t) (view s)"
    and probe_ok: "quiet s \<Longrightarrow> plain n \<Longrightarrow> \<exists>s'. sqQueryRow D (probeSQL n q) [] s = (Inr (vwProbes (view s) n), s') \<and> quiet s'
      \<and> view s' = logged (probeSQL n q) (view s)"
    and commit_ok: "quiet s \<Longrightarrow> vwPending (view s) = Some ps \<Longrightarrow> \<exists>s'. sqCommit D s = (Inr (), s') \<and> quiet s'
      \<and> view s' = (view s)\<lparr>vwRows := fold add_row ps (vwRows (view s)), vwPending := None\<rparr>"

text \<open>The migrations a run executes, from the tracker rows and the answers to the probes.\<close>

fun plan :: "bool \<Rightarrow> string list \<Rightarrow> (string \<Rightarrow> bool) \<Rightarrow> Migration list \<Rightarrow> Migration list" where
  "plan b rows probes [] = []"
| "plan b rows probes (m # ms) =
     (if mgName m \<in> set rows then plan b rows probes ms
      else if b \<and> mgAlreadyApplied m \<noteq> None \<and> probes (mgName m) then plan b (add_row (mgName m) rows) probes ms
      else m # plan False (add_row (mgName m) rows) probes ms)"

definition rows_after :: "string list \<Rightarrow> Migration list \<Rightarrow> string list" where
  "rows_after rows ms = fold (add_row \<circ> mgName) ms rows"

lemma set_rows_after: "set (rows_after rows ms) = set rows \<union> mgName ` set ms"
  by (induction ms arbitrary: rows) (auto simp: rows_after_def add_row_def)

lemma plan_done: "mgName ` set ms \<subseteq> set rows \<Longrightarrow> plan b rows probes ms = []"
  by (induction ms) auto

lemma rows_after_done: "mgName ` set ms \<subseteq> set rows \<Longrightarrow> rows_after rows ms = rows"
  by (induction ms) (auto simp: rows_after_def add_row_def)

lemma plan_rows: "(\<forall>m\<in>set ms. mgName m \<in> set rows \<longleftrightarrow> mgName m \<in> set rows') \<Longrightarrow> plan b rows probes ms = plan b rows' probes ms"
  by (induction ms arbitrary: b rows rows') (auto simp: add_row_def)

definition body_ok :: "sql_text \<Rightarrow> Migration \<Rightarrow> bool" where
  "body_ok T m \<longleftrightarrow> plain (mgName m) \<and> \<not> tagged (stBody T m)"

definition executes :: "bool \<Rightarrow> (string \<Rightarrow> bool) \<Rightarrow> Migration \<Rightarrow> bool" where
  "executes b probes m \<longleftrightarrow> \<not> (b \<and> mgAlreadyApplied m \<noteq> None \<and> probes (mgName m))"

context tracker_driver
begin

lemma probe_step:
  assumes "quiet s" "plain (mgName m)"
  shows "\<exists>s' qs. text_probe D T m b s = (Inr (executes b (vwProbes (view s)) m), s') \<and> quiet s'
    \<and> view s' = (view s)\<lparr>vwLog := vwLog (view s) @ qs\<rparr> \<and> filter (\<lambda>q. \<not> tagged q) qs = []"
proof (cases "b \<and> mgAlreadyApplied m \<noteq> None")
  case True
  obtain s' where "sqQueryRow D (probeSQL (mgName m) (stQuery T m)) [] s = (Inr (vwProbes (view s) (mgName m)), s')" "quiet s'"
    "view s' = logged (probeSQL (mgName m) (stQuery T m)) (view s)" using probe_ok [OF assms] by blast
  with True own_statements(5) [OF assms(2)] show ?thesis
    by (intro exI [of _ s'] exI [of _ "[probeSQL (mgName m) (stQuery T m)]"])
      (simp add: text_probe_def executes_def bindE_def mapErr_def returnE_def logged_def)
next
  case False
  then show ?thesis using assms(1) by (intro exI [of _ s] exI [of _ "[]"]) (auto simp: text_probe_def executes_def returnE_def)
qed

text \<open>One migration that is not in the tracker yet.\<close>

lemma apply_step:
  assumes q: "quiet s" and pend: "vwPending (view s) = None" and m: "body_ok T m" "mgName m \<notin> set (vwRows (view s))"
    and ex_def: "ex = executes b (vwProbes (view s)) m"
  shows "\<exists>s' qs. text_apply D T t m b s = (Inr ex, s') \<and> quiet s'
    \<and> view s' = (view s)\<lparr>vwRows := add_row (mgName m) (vwRows (view s)), vwLog := vwLog (view s) @ qs\<rparr>
    \<and> filter (\<lambda>q. \<not> tagged q) qs = (if ex then [stBody T m] else [])"
proof -
  let ?v = "view s"
  obtain s1 where s1: "sqBegin D s = (Inr (), s1)" "quiet s1" "view s1 = ?v\<lparr>vwPending := Some []\<rparr>" using begin_ok [OF q] by blast
  obtain s2 where s2: "sqExec D sessionTimeoutsSQL [] s1 = (Inr (), s2)" "quiet s2" "view s2 = logged sessionTimeoutsSQL (view s1)"
    using exec_ok [OF s1(2) no_stamp(1)] by blast
  obtain s3 ps where s3: "text_probe D T m b s2 = (Inr ex, s3)" "quiet s3" "view s3 = (view s2)\<lparr>vwLog := vwLog (view s2) @ ps\<rparr>"
    "filter (\<lambda>q. \<not> tagged q) ps = []"
    using probe_step [OF s2(2), of m T b] m(1) by (auto simp: ex_def s1 s2 body_ok_def logged_def)
  obtain s4 where s4: "(if ex then mapErr (Wrap ''exec'') (sqExec D (stBody T m) []) else returnE ()) s3 = (Inr (), s4)" "quiet s4"
    "view s4 = (if ex then logged (stBody T m) (view s3) else view s3)"
    using exec_ok [OF s3(2) no_stamp(3), of "stBody T m"] m(1) s3(2) by (cases ex) (auto simp: mapErr_def returnE_def body_ok_def)
  have "vwPending (view s4) = Some []" by (simp add: s4 s3 s2 s1 logged_def)
  from stamp_ok [OF s4(2) this] obtain s5 where s5: "sqExec D (stampSQL t) [VString (mgName m)] s4 = (Inr (), s5)" "quiet s5"
    "view s5 = logged (stampSQL t) ((view s4)\<lparr>vwPending := Some [mgName m]\<rparr>)" by fastforce
  have "vwPending (view s5) = Some [mgName m]" by (simp add: s5 logged_def)
  from commit_ok [OF s5(2) this] obtain s6 where s6: "sqCommit D s5 = (Inr (), s6)" "quiet s6"
    "view s6 = (view s5)\<lparr>vwRows := fold add_row [mgName m] (vwRows (view s5)), vwPending := None\<rparr>" by blast
  have "text_apply D T t m b s = (Inr ex, s6)"
    using s4(1) by (simp add: text_apply_def rollback_on_error_def bindE_def mapErr_def returnE_def s1(1) s2(1) s3(1) s5(1) s6(1) split: if_splits)
  moreover have "view s6 = ?v\<lparr>vwRows := add_row (mgName m) (vwRows ?v), vwLog := vwLog ?v @ ([sessionTimeoutsSQL] @ ps
      @ (if ex then [stBody T m] else []) @ [stampSQL t])\<rparr>"
    using pend by (simp add: s6 s5 s4 s3 s2 s1 logged_def)
  moreover have "filter (\<lambda>q. \<not> tagged q) ([sessionTimeoutsSQL] @ ps @ (if ex then [stBody T m] else []) @ [stampSQL t]) = (if ex then [stBody T m] else [])"
    using s3(4) m(1) own_statements(1,4) by (simp add: body_ok_def)
  ultimately show ?thesis using s6(2) by blast
qed

lemma text_run_from_plan:
  assumes "quiet s" "vwPending (view s) = None" "list_all (body_ok T) ms"
  shows "\<exists>s' qs. text_run_from D T t b ms s = (Inr (), s') \<and> quiet s'
    \<and> view s' = (view s)\<lparr>vwRows := rows_after (vwRows (view s)) ms, vwLog := vwLog (view s) @ qs\<rparr>
    \<and> filter (\<lambda>q. \<not> tagged q) qs = map (stBody T) (plan b (vwRows (view s)) (vwProbes (view s)) ms)"
  using assms
proof (induction ms arbitrary: b s)
  case Nil
  then show ?case by (intro exI [of _ s] exI [of _ "[]"]) (simp add: returnE_def rows_after_def)
next
  case (Cons m ms)
  let ?n = "mgName m" and ?v = "view s"
  obtain s1 where s1: "text_applied D t ?n s = (Inr (?n \<in> set (vwRows ?v)), s1)" "quiet s1" "view s1 = logged (appliedSQL t) ?v"
    using check_ok [OF Cons.prems(1)] by (auto simp: text_applied_def)
  show ?case
  proof (cases "?n \<in> set (vwRows ?v)")
    case True
    from Cons.IH [OF s1(2), of b] Cons.prems obtain s' qs where r: "text_run_from D T t b ms s1 = (Inr (), s')" "quiet s'"
      "view s' = (view s1)\<lparr>vwRows := rows_after (vwRows (view s1)) ms, vwLog := vwLog (view s1) @ qs\<rparr>"
      "filter (\<lambda>q. \<not> tagged q) qs = map (stBody T) (plan b (vwRows (view s1)) (vwProbes (view s1)) ms)" by (auto simp: s1 logged_def)
    then show ?thesis using True s1 own_statements(3) [of t]
      by (intro exI [of _ s'] exI [of _ "appliedSQL t # qs"]) (simp add: bindE_def mapErr_def logged_def rows_after_def add_row_def)
  next
    case False
    let ?ex = "executes b (vwProbes ?v) m"
    obtain s2 ps where s2: "text_apply D T t m b s1 = (Inr ?ex, s2)" "quiet s2"
      "view s2 = (view s1)\<lparr>vwRows := add_row ?n (vwRows (view s1)), vwLog := vwLog (view s1) @ ps\<rparr>"
      "filter (\<lambda>q. \<not> tagged q) ps = (if ?ex then [stBody T m] else [])"
      using apply_step [OF s1(2) _ _ _ refl, where T = T and m = m and b = b and t = t] Cons.prems False by (auto simp: s1 logged_def)
    from Cons.IH [OF s2(2), of "if ?ex then False else b"] Cons.prems obtain s' qs where
      r: "text_run_from D T t (if ?ex then False else b) ms s2 = (Inr (), s')" "quiet s'"
      "view s' = (view s2)\<lparr>vwRows := rows_after (vwRows (view s2)) ms, vwLog := vwLog (view s2) @ qs\<rparr>"
      "filter (\<lambda>q. \<not> tagged q) qs = map (stBody T) (plan (if ?ex then False else b) (vwRows (view s2)) (vwProbes (view s2)) ms)"
      by (auto simp: s2 s1 logged_def)
    have "text_run_from D T t b (m # ms) s = (Inr (), s')" using False r(1) by (simp add: bindE_def mapErr_def s1(1) s2(1))
    moreover have "filter (\<lambda>q. \<not> tagged q) (appliedSQL t # ps @ qs) = map (stBody T) (plan b (vwRows ?v) (vwProbes ?v) (m # ms))"
      using False s2(4) r(4) own_statements(3) [of t] by (auto simp: s2(3) s1(3) logged_def executes_def)
    ultimately show ?thesis using r(2,3)
      by (intro exI [of _ s'] exI [of _ "appliedSQL t # ps @ qs"]) (simp add: s2(3) s1(3) logged_def rows_after_def)
  qed
qed

lemma text_Run_plan:
  assumes "quiet s" "vwPending (view s) = None" "safeTrackerName (rnTracker r)" "list_all (body_ok T) (rnMigrations r)"
  shows "\<exists>s' qs. text_Run D T r s = (Inr (), s') \<and> quiet s'
    \<and> view s' = (view s)\<lparr>vwRows := rows_after (vwRows (view s)) (rnMigrations r), vwLog := vwLog (view s) @ qs\<rparr>
    \<and> filter (\<lambda>q. \<not> tagged q) qs = map (stBody T) (plan True (vwRows (view s)) (vwProbes (view s)) (rnMigrations r))"
proof -
  let ?b = "bootstrapSQL (rnTracker r)"
  obtain s1 where s1: "sqExec D ?b [] s = (Inr (), s1)" "quiet s1" "view s1 = logged ?b (view s)"
    using exec_ok [OF assms(1) no_stamp(2)] by blast
  from text_run_from_plan [OF s1(2) _ assms(4), of "rnTracker r" True] assms(2) obtain s' qs where
    r: "text_run_from D T (rnTracker r) True (rnMigrations r) s1 = (Inr (), s')" "quiet s'"
    "view s' = (view s1)\<lparr>vwRows := rows_after (vwRows (view s1)) (rnMigrations r), vwLog := vwLog (view s1) @ qs\<rparr>"
    "filter (\<lambda>q. \<not> tagged q) qs = map (stBody T) (plan True (vwRows (view s1)) (vwProbes (view s1)) (rnMigrations r))"
    by (auto simp: s1 logged_def)
  have "find (\<lambda>m. tagged (stBody T m)) (rnMigrations r) = None" using assms(4) by (auto simp: find_None_iff body_ok_def list_all_iff)
  then have "text_Run D T r s = (Inr (), s')" using assms(3) s1(1) r(1) by (simp add: text_Run_def bindE_def mapErr_def)
  with r own_statements(2) show ?thesis
    by (intro exI [of _ s'] exI [of _ "?b # qs"]) (simp add: s1(3) logged_def)
qed

end

section \<open>The stub keeps the promises\<close>

definition stub_view :: "stub_conn \<Rightarrow> tracker_view" where
  "stub_view c = \<lparr>vwRows = rcAppliedOrder (cnR c), vwPending = cnTx c, vwProbes = rcProbes (cnR c), vwLog = rcStmts (cnR c)\<rparr>"

definition recorder_ok :: "Recorder \<Rightarrow> bool" where
  "recorder_ok r \<longleftrightarrow> distinct (rcAppliedOrder r) \<and> (\<forall>n. rcApplied r n \<longleftrightarrow> n \<in> set (rcAppliedOrder r))"

definition stub_quiet :: "stub_conn \<Rightarrow> bool" where
  "stub_quiet c \<longleftrightarrow> rcFailOn (cnR c) = [] \<and> recorder_ok (cnR c)"

lemma commit_rows:
  "recorder_ok r \<Longrightarrow> recorder_ok (rec_commit ns r) \<and> rcAppliedOrder (rec_commit ns r) = fold add_row ns (rcAppliedOrder r)
   \<and> rcProbes (rec_commit ns r) = rcProbes r \<and> rcStmts (rec_commit ns r) = rcStmts r \<and> rcFailOn (rec_commit ns r) = rcFailOn r"
proof (induction ns arbitrary: r)
  case (Cons n ns)
  let ?r = "if rcApplied r n then r else r\<lparr>rcApplied := (rcApplied r)(n := True), rcAppliedOrder := rcAppliedOrder r @ [n]\<rparr>"
  have "recorder_ok ?r" "rcAppliedOrder ?r = add_row n (rcAppliedOrder r)" using Cons.prems by (auto simp: recorder_ok_def add_row_def)
  with Cons.IH [of ?r] show ?case by simp
qed simp

text \<open>The rows in the order of the recorder and its set of names agree in every state, failing or not.\<close>

lemma stub_keeps_ok:
  assumes "recorder_ok (cnR c)"
  shows "recorder_ok (cnR (snd (stub_BeginTx cx c)))" "recorder_ok (cnR (snd (stub_ExecContext cx q args c)))"
    "recorder_ok (cnR (snd (stub_QueryRow cx q args c)))" "recorder_ok (cnR (snd (tx_Commit c)))" "recorder_ok (cnR (snd (tx_Rollback c)))"
proof -
  have [simp]: "recorder_ok (r\<lparr>rcStmts := x\<rparr>) = recorder_ok r" "recorder_ok (r\<lparr>rcProbedOrder := x\<rparr>) = recorder_ok r" for r x
    by (simp_all add: recorder_ok_def)
  show "recorder_ok (cnR (snd (stub_BeginTx cx c)))" "recorder_ok (cnR (snd (stub_ExecContext cx q args c)))" "recorder_ok (cnR (snd (tx_Rollback c)))"
    "recorder_ok (cnR (snd (stub_QueryRow cx q args c)))"
    using assms by (auto simp: stub_BeginTx_def stub_ExecContext_def tx_Rollback_def stub_QueryRow_def stub_QueryContext_def rec_record_def
        rec_probe_def Let_def split: option.split sum.split prod.split if_split)
  show "recorder_ok (cnR (snd (tx_Commit c)))" using commit_rows [OF assms] by (simp add: tx_Commit_def)
qed

lemma probe_name:
  assumes "plain n"
  shows "rec_probe (probeSQL n q) r = (Some (rcProbes r n), r\<lparr>rcProbedOrder := rcProbedOrder r @ [n]\<rparr>)"
    and "\<not> HasPrefix (TrimSpace (probeSQL n q)) AppliedCheckTag"
proof -
  let ?rest = "rev (dropWhile is_space (rev (newline @ q)))"
  have "\<not> is_space (last (ProbeTag n))" "\<not> is_space (hd (ProbeTag n))" "ProbeTag n \<noteq> []"
    using assms by (auto simp: ProbeTag_def plain_def list_all_iff StatementTag_def is_space_def)
  then have t: "TrimSpace (probeSQL n q) = ProbeTag n @ ?rest" unfolding probeSQL_def by (intro trim_tagged)
  have split: "ProbeTag n = ProbeTag '''' @ n" by (simp add: ProbeTag_def)
  have rest: "takeWhile (\<lambda>c. c \<noteq> CHR 0x0A) ?rest = []"
  proof (cases "\<forall>c\<in>set q. is_space c")
    case True
    then have "\<forall>c\<in>set (rev q @ [CHR 0x0A]). is_space c" by (simp add: is_space_def)
    then have "?rest = []" unfolding newline_def rev_append rev.simps append_Nil by (simp only: dropWhile_eq_Nil_conv rev_is_Nil_conv)
    then show ?thesis by (simp only: takeWhile.simps)
  next
    case False
    then obtain c where "c \<in> set (rev q)" "\<not> is_space c" by auto
    then have "dropWhile is_space (rev q @ [CHR 0x0A]) = dropWhile is_space (rev q) @ [CHR 0x0A]" by (rule dropWhile_append1)
    then show ?thesis by (simp add: newline_def)
  qed
  have "\<forall>c\<in>set n. c \<noteq> CHR 0x0A" using assms by (auto simp: plain_def list_all_iff is_space_def)
  then have name: "takeWhile (\<lambda>c. c \<noteq> CHR 0x0A) (n @ ?rest) = n" using rest by (subst takeWhile_append2) auto
  show "rec_probe (probeSQL n q) r = (Some (rcProbes r n), r\<lparr>rcProbedOrder := rcProbedOrder r @ [n]\<rparr>)"
    unfolding rec_probe_def t using name by (simp add: split plain_trim [OF assms] Let_def)
  show "\<not> HasPrefix (TrimSpace (probeSQL n q)) AppliedCheckTag"
    unfolding t by (simp add: HasPrefix_def ProbeTag_def AppliedCheckTag_def StatementTag_def)
qed

lemma stub_tags: "HasPrefix (TrimSpace (stampSQL t)) StampTag" "HasPrefix (TrimSpace (appliedSQL t)) AppliedCheckTag"
  using has_tag [of "''stamp''"] has_tag [of "''applied check''"]
  by (simp_all add: stampSQL_def appliedSQL_def StampTag_def AppliedCheckTag_def is_space_def)

lemmas stub_ops = stub_driver_def stub_BeginTx_def stub_ExecContext_def stub_QueryRow_def stub_QueryContext_def rows_Next_def
  tx_Commit_def errFor_def stringArg_def isApplied_def rec_record_def stub_view_def logged_def

interpretation sd: tracker_driver "stub_driver None" stub_view stub_quiet
proof unfold_locales
  fix s :: stub_conn and q t n :: string and ps
  assume ok: "stub_quiet s"
  then have r: "recorder_ok (cnR s)" "rcFailOn (cnR s) = []" by (auto simp: stub_quiet_def)
  show "\<exists>s'. sqBegin (stub_driver None) s = (Inr (), s') \<and> stub_quiet s' \<and> stub_view s' = (stub_view s)\<lparr>vwPending := Some []\<rparr>"
    using r by (simp add: stub_ops stub_quiet_def)
  show "\<exists>s'. sqExec (stub_driver None) q [] s = (Inr (), s') \<and> stub_quiet s' \<and> stub_view s' = logged q (stub_view s)"
    if "\<not> HasPrefix (TrimSpace q) StampTag" using that r by (simp add: stub_ops stub_quiet_def recorder_ok_def)
  show "\<exists>s'. sqExec (stub_driver None) (stampSQL t) [VString n] s = (Inr (), s') \<and> stub_quiet s'
      \<and> stub_view s' = logged (stampSQL t) ((stub_view s)\<lparr>vwPending := Some (ps @ [n])\<rparr>)" if "vwPending (stub_view s) = Some ps"
    using that r stub_tags(1) by (simp add: stub_ops stub_quiet_def recorder_ok_def)
  show "\<exists>s'. sqQueryRow (stub_driver None) (appliedSQL t) [VString n] s = (Inr (n \<in> set (vwRows (stub_view s))), s') \<and> stub_quiet s'
      \<and> stub_view s' = logged (appliedSQL t) (stub_view s)"
    using r stub_tags(2) by (simp add: stub_ops stub_quiet_def recorder_ok_def)
  show "\<exists>s'. sqQueryRow (stub_driver None) (probeSQL n q) [] s = (Inr (vwProbes (stub_view s) n), s') \<and> stub_quiet s'
      \<and> stub_view s' = logged (probeSQL n q) (stub_view s)" if "plain n"
    using r probe_name [OF that] by (simp add: stub_ops stub_quiet_def recorder_ok_def)
  show "\<exists>s'. sqCommit (stub_driver None) s = (Inr (), s') \<and> stub_quiet s'
      \<and> stub_view s' = (stub_view s)\<lparr>vwRows := fold add_row ps (vwRows (stub_view s)), vwPending := None\<rparr>" if "vwPending (stub_view s) = Some ps"
    using that r commit_rows [OF r(1), of ps] by (simp add: stub_ops stub_quiet_def)
qed

section \<open>The stub against PostgreSQL\<close>

lemma mg_apply_row:
  assumes ap: "mg_apply t m b c = (Inr ex, c')" and ns: "trackers (tables c) t = Some ns"
  shows "trackers (tables c') t = Some (add_row (mgName m) ns)"
    "executed (tables c') = executed (tables c) @ (if ex then [(t, mgName m)] else [])" "\<not> ex \<Longrightarrow> schema_of (tables c') = schema_of (tables c)"
    "ex \<longleftrightarrow> (case mgAlreadyApplied m of Some p \<Rightarrow> \<not> b \<or> \<not> p (schema_of (tables c)) | None \<Rightarrow> True)"
proof -
  from ap obtain xs where "trackers (tables c) t = Some xs"
    "trackers (tables c') = (trackers (tables c))(t \<mapsto> (if mgName m \<in> set xs then xs else xs @ [mgName m]))"
    "if ex then run_body (mgSQL m) (schema_of (tables c)) = Inr (schema_of (tables c')) \<and> executed (tables c') = executed (tables c) @ [(t, mgName m)]
     else schema_of (tables c') = schema_of (tables c) \<and> executed (tables c') = executed (tables c)"
    and ex: "ex \<longleftrightarrow> (case mgAlreadyApplied m of Some p \<Rightarrow> \<not> b \<or> \<not> p (schema_of (tables c)) | None \<Rightarrow> True)"
    by (rule mg_apply_Inr)
  with ns show "trackers (tables c') t = Some (add_row (mgName m) ns)" "\<not> ex \<Longrightarrow> schema_of (tables c') = schema_of (tables c)"
    "executed (tables c') = executed (tables c) @ (if ex then [(t, mgName m)] else [])" by (simp_all add: add_row_def split: if_splits)
  show "ex \<longleftrightarrow> (case mgAlreadyApplied m of Some p \<Rightarrow> \<not> b \<or> \<not> p (schema_of (tables c)) | None \<Rightarrow> True)" by (rule ex)
qed

lemma run_from_plan:
  assumes "run_from t b ms c = (Inr (), c')" "trackers (tables c) t = Some ns"
    and "b \<Longrightarrow> \<forall>m\<in>set ms. \<forall>p. mgAlreadyApplied m = Some p \<longrightarrow> p (schema_of (tables c)) = probes (mgName m)"
  shows "executed (tables c') = executed (tables c) @ map (\<lambda>m. (t, mgName m)) (plan b ns probes ms) \<and> trackers (tables c') t = Some (rows_after ns ms)"
  using assms
proof (induction ms arbitrary: b c ns)
  case Nil
  then show ?case by (simp add: returnE_def rows_after_def)
next
  case (Cons m ms)
  obtain ap c1 where a: "mg_applied t (mgName m) c = (Inr ap, c1)"
    and rest: "(if ap then run_from t b ms else bindE (mapErr (Wrap (''pgmigrate '' @ t @ '': apply '' @ mgName m)) (mg_apply t m b)) (\<lambda>executed.
       run_from t (if executed then False else b) ms)) c1 = (Inr (), c')"
    using Cons.prems(1) unfolding run_from.simps bindE_eq_Inr [of "mapErr _ (mg_applied _ _)"] mapErr_eq_Inr by blast
  have c1: "tables c1 = tables c" "ap \<longleftrightarrow> mgName m \<in> set ns" using mg_applied_Inr [OF a] Cons.prems(2) by (auto simp: stamped_def)
  show ?case
  proof (cases ap)
    case True
    with Cons.IH [of b c1 ns] Cons.prems rest c1 show ?thesis by (simp add: rows_after_def add_row_def)
  next
    case False
    then obtain ex c2 where ap: "mg_apply t m b c1 = (Inr ex, c2)" and r: "run_from t (if ex then False else b) ms c2 = (Inr (), c')"
      using rest by (auto simp: bindE_eq_Inr mapErr_eq_Inr)
    note c2 = mg_apply_row [OF ap, unfolded c1(1), OF Cons.prems(2)]
    have ex: "ex \<longleftrightarrow> \<not> (b \<and> mgAlreadyApplied m \<noteq> None \<and> probes (mgName m))" using c2(4) Cons.prems(3) by (auto split: option.splits)
    have "executed (tables c') = executed (tables c2) @ map (\<lambda>m. (t, mgName m)) (plan (if ex then False else b) (add_row (mgName m) ns) probes ms)
        \<and> trackers (tables c') t = Some (rows_after (add_row (mgName m) ns) ms)"
      by (rule Cons.IH [OF r c2(1)]) (use Cons.prems(3) c2(3) in \<open>simp split: if_splits\<close>)
    moreover have "plan b ns probes (m # ms) = (if ex then [m] else []) @ plan (if ex then False else b) (add_row (mgName m) ns) probes ms"
      using False c1(2) ex by auto
    ultimately show ?thesis using c2(2) by (simp add: rows_after_def del: plan.simps)
  qed
qed

text \<open>
  C32: tests on the stub say what happens on PostgreSQL.  Let the runner succeed on a database, and let the stub have
  the same tracker rows and answer the probes as the database does.  Then the runner succeeds on the stub, and the
  migration statements the stub records are exactly the bodies executed on the database, in order; both have
  recorded every migration.  A second run on the stub records no migration statement and no new row.
\<close>

theorem stub_faithful:
  assumes run: "Run r c = (Inr (), c')" and stub: "stub_quiet s" "cnTx s = None" and bodies: "list_all (body_ok T) (rnMigrations r)"
    and rows: "\<forall>m\<in>set (rnMigrations r). mgName m \<in> set (Applied (cnR s)) \<longleftrightarrow> stamped (tables c) (rnTracker r) (mgName m)"
    and probes: "\<forall>m\<in>set (rnMigrations r). \<forall>p. mgAlreadyApplied m = Some p \<longrightarrow> p (schema_of (tables c)) = rcProbes (cnR s) (mgName m)"
  shows "\<exists>s' es. text_Run (stub_driver None) T r s = (Inr (), s')
    \<and> executed (tables c') = executed (tables c) @ map (\<lambda>m. (rnTracker r, mgName m)) es
    \<and> MigrationStatements (cnR s') = MigrationStatements (cnR s) @ map (stBody T) es
    \<and> (\<forall>n\<in>set (Names r). n \<in> set (Applied (cnR s')) \<and> stamped (tables c') (rnTracker r) n)
    \<and> (\<exists>s''. text_Run (stub_driver None) T r (s'\<lparr>cnR := Reset (cnR s')\<rparr>) = (Inr (), s'')
         \<and> MigrationStatements (cnR s'') = [] \<and> Applied (cnR s'') = Applied (cnR s'))"
proof -
  let ?t = "rnTracker r" and ?ms = "rnMigrations r" and ?rows = "rcAppliedOrder (cnR s)" and ?pr = "rcProbes (cnR s)"
  obtain c1 where safe: "safeTrackerName ?t" and boot: "bootstrap ?t c = (Inr (), c1)" and from1: "run_from ?t True ?ms c1 = (Inr (), c')"
    using run by (auto simp: Run_def failE_def bindE_eq_Inr mapErr_eq_Inr split: if_splits option.splits)
  define ns where "ns = (case trackers (tables c) ?t of None \<Rightarrow> [] | Some xs \<Rightarrow> xs)"
  have c1: "trackers (tables c1) ?t = Some ns" "schema_of (tables c1) = schema_of (tables c)" "executed (tables c1) = executed (tables c)"
    using db_exec_Inr [OF boot [unfolded bootstrap_def], symmetric] by (simp_all add: ns_def split: option.splits)
  have same: "plan True ns ?pr ?ms = plan True ?rows ?pr ?ms"
    using rows by (intro plan_rows) (auto simp: Applied_def stamped_def ns_def split: option.splits)
  have db: "executed (tables c') = executed (tables c) @ map (\<lambda>m. (?t, mgName m)) (plan True ?rows ?pr ?ms)" "trackers (tables c') ?t = Some (rows_after ns ?ms)"
    using run_from_plan [OF from1 c1(1), of ?pr] probes same by (auto simp: c1)
  obtain s' qs where s': "text_Run (stub_driver None) T r s = (Inr (), s')" "stub_quiet s'"
    "stub_view s' = (stub_view s)\<lparr>vwRows := rows_after ?rows ?ms, vwLog := rcStmts (cnR s) @ qs\<rparr>"
    "filter (\<lambda>q. \<not> tagged q) qs = map (stBody T) (plan True ?rows ?pr ?ms)"
    using sd.text_Run_plan [OF stub(1) _ safe bodies] stub(2) by (auto simp: stub_view_def)
  have v: "rcAppliedOrder (cnR s') = rows_after ?rows ?ms" "cnTx s' = None" "rcStmts (cnR s') = rcStmts (cnR s) @ qs" using s'(3) stub(2) by (simp_all add: stub_view_def)
  let ?r = "s'\<lparr>cnR := Reset (cnR s')\<rparr>"
  have known: "mgName ` set ?ms \<subseteq> set (rcAppliedOrder (cnR ?r))" using v(1) by (simp add: Reset_def set_rows_after)
  have "stub_quiet ?r" "vwPending (stub_view ?r) = None" using s'(2) v(2) by (simp_all add: stub_quiet_def recorder_ok_def Reset_def stub_view_def)
  from sd.text_Run_plan [OF this safe bodies] obtain s'' qs' where s'': "text_Run (stub_driver None) T r ?r = (Inr (), s'')"
    "stub_view s'' = (stub_view ?r)\<lparr>vwRows := rcAppliedOrder (cnR s'), vwLog := qs'\<rparr>" "filter (\<lambda>q. \<not> tagged q) qs' = []"
    using plan_done [OF known] rows_after_done [OF known] by (auto simp: stub_view_def Reset_def)
  have "MigrationStatements (cnR s'') = []" "Applied (cnR s'') = Applied (cnR s')"
    using s''(2,3) by (simp_all add: stub_view_def MigrationStatements_def Statements_def Applied_def)
  moreover have "MigrationStatements (cnR s') = MigrationStatements (cnR s) @ map (stBody T) (plan True ?rows ?pr ?ms)"
    using v(3) s'(4) by (simp add: MigrationStatements_def Statements_def)
  moreover have "\<forall>n\<in>set (Names r). n \<in> set (Applied (cnR s')) \<and> stamped (tables c') ?t n"
    using v(1) db(2) by (simp add: Names_def Applied_def stamped_def set_rows_after)
  ultimately show ?thesis using s'(1) s''(1) db(1) by blast
qed

text \<open>The ingest schema at its first stage, without tracker rows: the first migration is stamped, the second one runs.\<close>

definition legacy_ingest :: migrate_conn where
  "legacy_ingest = \<lparr>tables = \<lparr>schema_of = (case run_body (mgSQL (hd (rnMigrations ingest_runner))) [] of Inl _ \<Rightarrow> [] | Inr s \<Rightarrow> s),
     trackers = Map.empty, executed = []\<rparr>, script = []\<rparr>"

definition legacy_stub :: stub_conn where
  "legacy_stub = stub_New\<lparr>cnR := SetProbe ''0001_jobs'' True (cnR stub_New)\<rparr>"

definition demo_text :: sql_text where
  "demo_text = \<lparr>stBody = mgText, stQuery = (\<lambda>_. ''SELECT true'')\<rparr>"

theorem stub_faithful_witness:
  "\<exists>c' s' (es :: Migration list). Run ingest_runner legacy_ingest = (Inr (), c') \<and> text_Run (stub_driver None) demo_text ingest_runner legacy_stub = (Inr (), s')
     \<and> map mgName es = [''0002_job_item_payload'', ''0003_item_track_id''] \<and> MigrationStatements (cnR s') = map mgText es"
proof -
  let ?c = "snd (Run ingest_runner legacy_ingest)"
  have "fst (Run ingest_runner legacy_ingest) = Inr ()" and ex: "executed (tables ?c) = map (Pair ''ingest_schema_migrations'') [''0002_job_item_payload'', ''0003_item_track_id'']"
    by code_simp+
  then have run: "Run ingest_runner legacy_ingest = (Inr (), ?c)" by (simp add: prod_eq_iff)
  have names: "map mgName (rnMigrations ingest_runner) = [''0001_jobs'', ''0002_job_item_payload'', ''0003_item_track_id'']" by code_simp
  have stub: "stub_quiet legacy_stub" "cnTx legacy_stub = None" "Applied (cnR legacy_stub) = []" "MigrationStatements (cnR legacy_stub) = []" "executed (tables legacy_ingest) = []"
    by (simp_all add: legacy_ingest_def) (simp_all add: legacy_stub_def stub_New_def SetProbe_def stub_quiet_def recorder_ok_def Applied_def MigrationStatements_def Statements_def)
  have mgt: "stBody demo_text = mgText" by (simp add: demo_text_def)
  have bodies: "list_all (body_ok demo_text) (rnMigrations ingest_runner)" by code_simp
  have rows: "\<forall>m\<in>set (rnMigrations ingest_runner). mgName m \<in> set (Applied (cnR legacy_stub)) \<longleftrightarrow> stamped (tables legacy_ingest) (rnTracker ingest_runner) (mgName m)"
    by (simp add: stub(3) stamped_def legacy_ingest_def)
  have "list_all (\<lambda>m. case mgAlreadyApplied m of None \<Rightarrow> True | Some p \<Rightarrow> p (schema_of (tables legacy_ingest)) = rcProbes (cnR legacy_stub) (mgName m)) (rnMigrations ingest_runner)"
    by code_simp
  then have probes: "\<forall>m\<in>set (rnMigrations ingest_runner). \<forall>p. mgAlreadyApplied m = Some p \<longrightarrow> p (schema_of (tables legacy_ingest)) = rcProbes (cnR legacy_stub) (mgName m)"
    by (auto simp: list_all_iff)
  obtain s' and es :: "Migration list" where s': "text_Run (stub_driver None) demo_text ingest_runner legacy_stub = (Inr (), s')"
    "executed (tables ?c) = map (\<lambda>m. (rnTracker ingest_runner, mgName m)) es" "MigrationStatements (cnR s') = map mgText es"
    using stub_faithful [OF run stub(1,2) bodies rows probes, unfolded stub(4,5) append_Nil mgt] by blast
  have "map mgName es = map snd (executed (tables ?c))" unfolding s'(2) by (simp add: comp_def)
  then have "map mgName es = [''0002_job_item_payload'', ''0003_item_track_id'']" unfolding ex by simp
  with run s'(1,3) show ?thesis by (intro exI conjI)
qed

end
