(* ===== verification/Migrate_Race.thy ===== *)
theory Migrate_Race
  imports PG_Migrate
begin

text \<open>
  Replicas that migrate the same database at the same time (\<^verbatim>\<open>internal/pgmigrate/pgmigrate.go\<close>).  Nothing
  locks the runner: between the applied check of a replica and its transaction, and between the
  baseline probe and the statements that take the table locks, other replicas may commit.  The steps
  of a replica are therefore the check, the probe, and the body with the tracker row and the commit;
  the last takes effect at the commit, because the statements of a body lock the tables they change and
  nobody sees the rows of an open transaction.  A replica that is killed makes no further step.
\<close>

section \<open>The two halves of a migration's transaction\<close>

definition mg_probe :: "string \<Rightarrow> Migration \<Rightarrow> bool \<Rightarrow> (migrate_conn, err, bool) call" where
  "mg_probe t m baselining =
     bindE (mapErr (Wrap ''begin'') (db_query (\<lambda>_. ()))) (\<lambda>_.
     bindE (mapErr (Wrap ''session timeouts'') (db_query (\<lambda>_. ()))) (\<lambda>_.
     case mgAlreadyApplied m of
       Some probe \<Rightarrow> if baselining then bindE (mapErr (Wrap ''baseline probe'') (db_query (\<lambda>d. probe (schema_of d)))) (\<lambda>present. returnE (\<not> present))
         else returnE True
     | None \<Rightarrow> returnE True))"

definition mg_finish :: "string \<Rightarrow> Migration \<Rightarrow> bool \<Rightarrow> (migrate_conn, err, unit) call" where
  "mg_finish t m execute c = (case
     bindE (if execute then mapErr (Wrap ''exec'') (exec_sql t m) else returnE ()) (\<lambda>_.
     bindE (mapErr (Wrap ''record'') (stamp t (mgName m))) (\<lambda>_. mapErr (Wrap ''commit'') commit)) c of
       (Inl e, c') \<Rightarrow> (Inl e, c'\<lparr>tables := tables c\<rparr>)
     | (Inr x, c') \<Rightarrow> (Inr x, c'))"

lemma db_query_tables: "db_query q c = (r, c') \<Longrightarrow> tables c' = tables c"
  by (cases r) (auto dest: db_query_Inl db_query_Inr)

lemma mg_probe_tables: "mg_probe t m b c = (r, c') \<Longrightarrow> tables c' = tables c"
  unfolding mg_probe_def
  by (auto simp: bindE_def mapErr_def returnE_def split: prod.splits sum.splits option.splits if_splits dest!: db_query_tables)

lemma mg_finish_Inl: "mg_finish t m ex c = (Inl e, c') \<Longrightarrow> tables c' = tables c"
  by (auto simp: mg_finish_def split: prod.splits sum.splits)

lemma mg_finish_Inr:
  assumes "mg_finish t m ex c = (Inr (), c')"
  obtains ns where "trackers (tables c) t = Some ns"
    "trackers (tables c') = (trackers (tables c))(t \<mapsto> (if mgName m \<in> set ns then ns else ns @ [mgName m]))"
    "executed (tables c') = executed (tables c) @ (if ex then [(t, mgName m)] else [])"
proof -
  obtain c1 c2 where x: "(if ex then mapErr (Wrap ''exec'') (exec_sql t m) else returnE ()) c = (Inr (), c1)"
    and s: "stamp t (mgName m) c1 = (Inr (), c2)" and k: "commit c2 = (Inr (), c')"
    using assms by (auto simp: mg_finish_def bindE_eq_Inr mapErr_eq_Inr split: prod.splits sum.splits)
  have "executed (tables c1) = executed (tables c) @ (if ex then [(t, mgName m)] else []) \<and> trackers (tables c1) = trackers (tables c)"
  proof (cases ex)
    case True
    then have "exec_sql t m c = (Inr (), c1)" using x by (simp add: mapErr_eq_Inr)
    note q = db_call_Inr [OF this [unfolded exec_sql_def]]
    then obtain s where "run_body (mgSQL m) (schema_of (tables c)) = Inr s" by (auto split: sum.splits)
    with q have "tables c1 = (tables c)\<lparr>schema_of := s, executed := executed (tables c) @ [(t, mgName m)]\<rparr>" by simp
    with True show ?thesis by simp
  qed (use x in \<open>simp add: returnE_def\<close>)
  moreover obtain ns where "trackers (tables c1) t = Some ns"
    "tables c2 = (if mgName m \<in> set ns then tables c1 else (tables c1)\<lparr>trackers := (trackers (tables c1))(t \<mapsto> ns @ [mgName m])\<rparr>)"
    using db_call_Inr [OF s [unfolded stamp_def]] by (auto split: option.splits)
  moreover have "tables c' = tables c2" using k by (rule commit_tables)
  ultimately show thesis using that [of ns] by (auto simp: fun_upd_idem split: if_splits)
qed

text \<open>Left alone, the two halves are the transaction of \<open>mg_apply\<close>.\<close>

lemma mg_apply_halves:
  "mg_apply t m b c = bindE (mg_probe t m b) (\<lambda>ex. bindE (mg_finish t m ex) (\<lambda>_. returnE ex)) c"
proof -
  obtain r0 c0 where q0: "db_query (\<lambda>_. ()) c = (r0, c0)" by fastforce
  obtain r1 c1 where q1: "db_query (\<lambda>_. ()) c0 = (r1, c1)" by fastforce
  let ?probe = "case mgAlreadyApplied m of
       Some probe \<Rightarrow> if b then bindE (mapErr (Wrap ''baseline probe'') (db_query (\<lambda>d. probe (schema_of d)))) (\<lambda>present. returnE (\<not> present))
         else returnE True
     | None \<Rightarrow> returnE True"
  obtain r2 c2 where q2: "?probe c1 = (r2, c2)" by fastforce
  have t: "tables c0 = tables c" "tables c1 = tables c0" "tables c2 = tables c1"
    using q0 q1 q2 by (auto simp: bindE_def mapErr_def returnE_def split: prod.splits sum.splits option.splits if_splits
        dest!: db_query_tables)
  have same: "c1\<lparr>tables := tables c0\<rparr> = c1" "c2\<lparr>tables := tables c0\<rparr> = c2" using t by simp_all
  show ?thesis
  proof (cases "isl r0 \<or> isl r1 \<or> isl r2")
    case True
    then show ?thesis
      using q0 q1 q2 same
      by (cases r0; cases r1; cases r2) (auto simp: mg_apply_def mg_probe_def with_tx_def bindE_def mapErr_def)
  next
    case False
    then obtain u v ex where r: "r0 = Inr u" "r1 = Inr v" "r2 = Inr ex" by (cases r0; cases r1; cases r2) auto
    let ?body = "bindE (if ex then mapErr (Wrap ''exec'') (exec_sql t m) else returnE ()) (\<lambda>_. mapErr (Wrap ''record'') (stamp t (mgName m)))"
    obtain x c3 where x: "?body c2 = (x, c3)" by fastforce
    obtain y c4 where y: "commit c3 = (y, c4)" by fastforce
    have "mg_probe t m b c = (Inr ex, c2)" using q0 q1 q2 r by (simp add: mg_probe_def bindE_def mapErr_def)
    then show ?thesis using q0 q1 q2 r x y t
      by (cases x; cases y) (auto simp: mg_apply_def mg_finish_def with_tx_def bindE_def mapErr_def returnE_def split: prod.splits sum.splits)
  qed
qed

section \<open>Replicas\<close>

datatype replica_pc =
    RCheck bool "Migration list"
  | RBegin bool Migration "Migration list"
  | RExec bool bool Migration "Migration list"
  | RDone
  | RFailed

text \<open>One step of the loop of \<^verbatim>\<open>Run\<close>; the connection carries how the calls of the step will go.\<close>

fun replica_step :: "string \<Rightarrow> replica_pc \<Rightarrow> migrate_conn \<Rightarrow> replica_pc \<times> migrate_conn" where
  "replica_step t (RCheck b []) c = (RDone, c)"
| "replica_step t (RCheck b (m # ms)) c = (case mg_applied t (mgName m) c of
     (Inl e, c') \<Rightarrow> (RFailed, c')
   | (Inr applied, c') \<Rightarrow> (if applied then RCheck b ms else RBegin b m ms, c'))"
| "replica_step t (RBegin b m ms) c = (case mg_probe t m b c of
     (Inl e, c') \<Rightarrow> (RFailed, c')
   | (Inr ex, c') \<Rightarrow> (RExec b ex m ms, c'))"
| "replica_step t (RExec b ex m ms) c = (case mg_finish t m ex c of
     (Inl e, c') \<Rightarrow> (RFailed, c')
   | (Inr _, c') \<Rightarrow> (RCheck (if ex then False else b) ms, c'))"
| "replica_step t RDone c = (RDone, c)"
| "replica_step t RFailed c = (RFailed, c)"

definition replica_start :: "Runner \<Rightarrow> migrate_conn \<Rightarrow> replica_pc \<times> migrate_conn" where
  "replica_start r c =
     (if \<not> safeTrackerName (rnTracker r) \<or> find (\<lambda>m. HasPrefix (TrimSpace (mgText m)) StatementTag) (rnMigrations r) \<noteq> None
      then (RFailed, c)
      else case bootstrap (rnTracker r) c of (Inl e, c') \<Rightarrow> (RFailed, c') | (Inr _, c') \<Rightarrow> (RCheck True (rnMigrations r), c'))"

text \<open>A replica that moves alone does what \<open>Run\<close> does.\<close>

lemma replica_alone:
  "\<exists>n. ((\<lambda>(pc, c). replica_step t pc c) ^^ n) (RCheck b ms, c) =
     (if isl (fst (run_from t b ms c)) then RFailed else RDone, snd (run_from t b ms c))"
proof (induction ms arbitrary: b c)
  case Nil
  show ?case by (rule exI [of _ 1]) (simp add: returnE_def)
next
  case (Cons m ms)
  let ?s = "\<lambda>(pc, c). replica_step t pc c"
  obtain ra c1 where a: "mg_applied t (mgName m) c = (ra, c1)" by fastforce
  have step: "\<exists>n. (?s ^^ n) (RCheck b (m # ms), c) = z" if "\<exists>n. (?s ^^ n) (?s (RCheck b (m # ms), c)) = z" for z
    using that by (metis funpow_Suc_right comp_apply)
  show ?case
  proof (cases ra)
    case (Inl e)
    with a show ?thesis by (intro exI [of _ 1]) (simp add: bindE_def mapErr_def)
  next
    case (Inr ap)
    show ?thesis
    proof (cases ap)
      case True
      with a Inr Cons.IH [of b c1] show ?thesis by (intro step) (simp add: bindE_def mapErr_def)
    next
      case False
      obtain rp c2 where p: "mg_probe t m b c1 = (rp, c2)" by fastforce
      show ?thesis
      proof (cases rp)
        case (Inl e)
        with a Inr False p \<open>ra = Inr ap\<close> show ?thesis
          by (intro step exI [of _ 1]) (simp add: bindE_def mapErr_def mg_apply_halves)
      next
        case rp: (Inr ex)
        obtain rf c3 where f: "mg_finish t m ex c2 = (rf, c3)" by fastforce
        show ?thesis
        proof (cases rf)
          case (Inl e)
          with a \<open>ra = Inr ap\<close> False p rp f show ?thesis
            by (intro step exI [of _ 2]) (simp add: bindE_def mapErr_def mg_apply_halves numeral_2_eq_2)
        next
          case rf: (Inr u)
          obtain n where n: "(?s ^^ n) (RCheck (if ex then False else b) ms, c3) =
              (if isl (fst (run_from t (if ex then False else b) ms c3)) then RFailed else RDone, snd (run_from t (if ex then False else b) ms c3))"
            using Cons.IH by blast
          have "(?s ^^ Suc (Suc n)) (RBegin b m ms, c1) = (?s ^^ n) (RCheck (if ex then False else b) ms, c3)"
            using p rp f rf by (simp add: funpow_Suc_right del: funpow.simps)
          with n a \<open>ra = Inr ap\<close> False p rp f rf show ?thesis
            by (intro step exI [of _ "Suc (Suc n)"]) (simp add: bindE_def mapErr_def mg_apply_halves returnE_def del: funpow.simps)
        qed
      qed
    qed
  qed
qed

text \<open>Nothing else moves while it runs: a whole start is \<open>Run\<close>.\<close>

lemma start_alone:
  "\<exists>n. ((\<lambda>(pc, c). replica_step (rnTracker r) pc c) ^^ n) (replica_start r c) =
     (if isl (fst (Run r c)) then RFailed else RDone, snd (Run r c))"
proof (cases "\<not> safeTrackerName (rnTracker r) \<or> find (\<lambda>m. HasPrefix (TrimSpace (mgText m)) StatementTag) (rnMigrations r) \<noteq> None")
  case True
  then show ?thesis by (intro exI [of _ 0]) (auto simp: replica_start_def Run_def failE_def)
next
  case False
  obtain y c1 where b: "bootstrap (rnTracker r) c = (y, c1)" by fastforce
  show ?thesis
  proof (cases y)
    case (Inl e)
    with b False show ?thesis by (intro exI [of _ 0]) (simp add: replica_start_def Run_def bindE_def mapErr_def)
  next
    case (Inr u)
    with b False replica_alone [of "rnTracker r" True "rnMigrations r" c1] show ?thesis
      by (simp add: replica_start_def Run_def bindE_def mapErr_def)
  qed
qed

section \<open>Races\<close>

record replica =
  rpTracker :: string
  rpPC :: replica_pc

record cluster =
  clDB :: migrate_db
  clReplicas :: "replica list"

text \<open>Each action brings its own failures of the database.\<close>

datatype race_action = Launch Runner "err option list" | Move nat "err option list"

fun race_step :: "race_action \<Rightarrow> cluster \<Rightarrow> cluster" where
  "race_step (Launch r fs) cl = (case replica_start r \<lparr>tables = clDB cl, script = fs\<rparr> of
     (pc, c) \<Rightarrow> \<lparr>clDB = tables c, clReplicas = clReplicas cl @ [\<lparr>rpTracker = rnTracker r, rpPC = pc\<rparr>]\<rparr>)"
| "race_step (Move i fs) cl =
     (if i < length (clReplicas cl)
      then (let rp = clReplicas cl ! i in
        case replica_step (rpTracker rp) (rpPC rp) \<lparr>tables = clDB cl, script = fs\<rparr> of
          (pc, c) \<Rightarrow> \<lparr>clDB = tables c, clReplicas = (clReplicas cl)[i := rp\<lparr>rpPC := pc\<rparr>]\<rparr>)
      else cl)"

definition race :: "race_action list \<Rightarrow> cluster \<Rightarrow> cluster" where
  "race as cl = fold race_step as cl"

subsection \<open>What a step does\<close>

text \<open>The migrations a replica may still execute, and the one it has found missing.\<close>

fun todo :: "replica_pc \<Rightarrow> string list" where
  "todo (RCheck b ms) = map mgName ms"
| "todo (RBegin b m ms) = mgName m # map mgName ms"
| "todo (RExec b ex m ms) = mgName m # map mgName ms"
| "todo RDone = []"
| "todo RFailed = []"

fun pending :: "string \<Rightarrow> replica_pc \<Rightarrow> bool" where
  "pending n (RBegin b m ms) = (mgName m = n)"
| "pending n (RExec b ex m ms) = (mgName m = n)"
| "pending n _ = False"

definition rows_distinct :: "migrate_db \<Rightarrow> bool" where
  "rows_distinct d \<longleftrightarrow> (\<forall>t ns. trackers d t = Some ns \<longrightarrow> distinct ns)"

text \<open>
  The effect of a step of a replica with tracker \<open>t\<close> on the database: it executes the bodies \<open>xs\<close>, one or
  none, records them, loses no record, and repeats no tracker row.
\<close>

definition effect :: "string \<Rightarrow> replica_pc \<Rightarrow> migrate_db \<Rightarrow> replica_pc \<Rightarrow> migrate_db \<Rightarrow> string list \<Rightarrow> bool" where
  "effect t pc d pc' d' xs \<longleftrightarrow> executed d' = executed d @ map (Pair t) xs
     \<and> (\<forall>n. count_list xs n + count_list (todo pc') n \<le> count_list (todo pc) n)
     \<and> (\<forall>n\<in>set xs. pending n pc \<and> stamped d' t n)
     \<and> (\<forall>u n. stamped d u n \<longrightarrow> stamped d' u n)
     \<and> (rows_distinct d \<longrightarrow> rows_distinct d')
     \<and> (\<forall>n. pending n pc' \<longrightarrow> pending n pc \<or> \<not> stamped d t n)"

lemma effect_idle:
  "(\<And>n. count_list (todo pc') n \<le> count_list (todo pc) n) \<Longrightarrow> (\<And>n. pending n pc' \<Longrightarrow> pending n pc \<or> \<not> stamped d t n)
   \<Longrightarrow> effect t pc d pc' d []"
  by (simp add: effect_def)

lemma step_effect:
  assumes "replica_step t pc c = (pc', c')"
  shows "\<exists>xs. effect t pc (tables c) pc' (tables c') xs"
proof (cases "(t, pc, c)" rule: replica_step.cases)
  case (2 t b m ms c)
  obtain r c1 where a: "mg_applied t (mgName m) c = (r, c1)" by fastforce
  then have "tables c1 = tables c" "r = Inr False \<Longrightarrow> \<not> stamped (tables c) t (mgName m)"
    by (cases r; auto dest: mg_applied_Inl mg_applied_Inr)+
  with 2 a assms show ?thesis by (intro exI [of _ "[]"]) (cases r; auto intro!: effect_idle split: if_splits)
next
  case (3 t b m ms c)
  obtain r c1 where a: "mg_probe t m b c = (r, c1)" by fastforce
  with 3 assms mg_probe_tables [OF a] show ?thesis by (intro exI [of _ "[]"]) (cases r; auto intro!: effect_idle)
next
  case (4 t b ex m ms c)
  obtain r c1 where a: "mg_finish t m ex c = (r, c1)" by fastforce
  show ?thesis
  proof (cases r)
    case (Inl e)
    with 4 a assms mg_finish_Inl show ?thesis by (intro exI [of _ "[]"]) (fastforce intro!: effect_idle)
  next
    case (Inr u)
    then have f: "mg_finish t m ex c = (Inr (), c1)" using a by simp
    then obtain ns where ns: "trackers (tables c) t = Some ns"
      "trackers (tables c1) = (trackers (tables c))(t \<mapsto> (if mgName m \<in> set ns then ns else ns @ [mgName m]))"
      "executed (tables c1) = executed (tables c) @ (if ex then [(t, mgName m)] else [])"
      by (rule mg_finish_Inr)
    have "stamped (tables c1) t (mgName m)" "\<And>u n. stamped (tables c) u n \<Longrightarrow> stamped (tables c1) u n"
      using ns(1,2) by (auto simp: stamped_def)
    moreover have "rows_distinct (tables c) \<Longrightarrow> rows_distinct (tables c1)" using ns(1,2) by (auto simp: rows_distinct_def)
    ultimately have "effect t (RExec b ex m ms) (tables c) (RCheck (if ex then False else b) ms) (tables c1) (if ex then [mgName m] else [])"
      using ns(3) by (auto simp: effect_def)
    with 4 f assms show ?thesis by auto
  qed
qed (use assms in \<open>auto intro!: exI [of _ "[]"] effect_idle\<close>)

lemma start_effect:
  assumes "replica_start r c = (pc, c')"
  shows "executed (tables c') = executed (tables c) \<and> stamped (tables c') = stamped (tables c)
    \<and> (rows_distinct (tables c) \<longrightarrow> rows_distinct (tables c')) \<and> count_list (todo pc) n \<le> count_list (Names r) n \<and> \<not> pending n pc"
proof -
  obtain y c1 where b: "bootstrap (rnTracker r) c = (y, c1)" by fastforce
  have "tables c1 = tables c \<or> trackers (tables c) (rnTracker r) = None
      \<and> tables c1 = (tables c)\<lparr>trackers := (trackers (tables c))(rnTracker r \<mapsto> [])\<rparr>"
    using b by (cases y) (auto simp: bootstrap_def dest!: db_exec_Inl db_exec_Inr split: option.splits)
  then have "executed (tables c1) = executed (tables c) \<and> stamped (tables c1) = stamped (tables c) \<and> (rows_distinct (tables c) \<longrightarrow> rows_distinct (tables c1))"
    by (auto simp: stamped_def rows_distinct_def fun_eq_iff split: option.splits if_splits)
  with assms b show ?thesis by (cases y) (auto simp: replica_start_def Names_def split: if_splits)
qed

subsection \<open>What every race keeps\<close>

definition weight :: "string \<Rightarrow> string \<Rightarrow> cluster \<Rightarrow> nat" where
  "weight t n cl = sum_list (map (\<lambda>rp. if rpTracker rp = t then count_list (todo (rpPC rp)) n else 0) (clReplicas cl))"

definition budget :: "string \<Rightarrow> string \<Rightarrow> race_action \<Rightarrow> nat" where
  "budget t n a = (case a of Launch r fs \<Rightarrow> if rnTracker r = t then count_list (Names r) n else 0 | Move i fs \<Rightarrow> 0)"

definition recorded :: "migrate_db \<Rightarrow> bool" where
  "recorded d \<longleftrightarrow> (\<forall>(t, n)\<in>set (executed d). stamped d t n)"

text \<open>A migration that is recorded and that no replica is about to execute.\<close>

definition settled :: "string \<Rightarrow> string \<Rightarrow> cluster \<Rightarrow> bool" where
  "settled t n cl \<longleftrightarrow> stamped (clDB cl) t n \<and> \<not> (\<exists>rp\<in>set (clReplicas cl). rpTracker rp = t \<and> pending n (rpPC rp))"

lemma count_list_Pair: "count_list (map (Pair u) xs) (t, n) = (if u = t then count_list xs n else 0)"
  by (induction xs) auto

lemma race_step_keeps:
  fixes a cl
  defines "cl' \<equiv> race_step a cl"
  shows "(recorded (clDB cl) \<longrightarrow> recorded (clDB cl')) \<and> (rows_distinct (clDB cl) \<longrightarrow> rows_distinct (clDB cl'))
    \<and> count_list (executed (clDB cl')) (t, n) + weight t n cl' \<le> count_list (executed (clDB cl)) (t, n) + weight t n cl + budget t n a
    \<and> (settled t n cl \<longrightarrow> settled t n cl' \<and> count_list (executed (clDB cl')) (t, n) = count_list (executed (clDB cl)) (t, n))"
proof (cases a)
  case (Launch r fs)
  obtain pc c where s: "replica_start r \<lparr>tables = clDB cl, script = fs\<rparr> = (pc, c)" by fastforce
  have cl': "cl' = \<lparr>clDB = tables c, clReplicas = clReplicas cl @ [\<lparr>rpTracker = rnTracker r, rpPC = pc\<rparr>]\<rparr>"
    using s by (simp add: cl'_def Launch)
  show ?thesis using start_effect [OF s, of n]
    by (auto simp: cl' Launch recorded_def settled_def weight_def budget_def)
next
  case (Move i fs)
  show ?thesis
  proof (cases "i < length (clReplicas cl)")
    case False
    then show ?thesis by (simp add: cl'_def Move budget_def)
  next
    case True
    let ?rp = "clReplicas cl ! i"
    obtain pc c where s: "replica_step (rpTracker ?rp) (rpPC ?rp) \<lparr>tables = clDB cl, script = fs\<rparr> = (pc, c)" by fastforce
    have cl': "cl' = \<lparr>clDB = tables c, clReplicas = (clReplicas cl)[i := ?rp\<lparr>rpPC := pc\<rparr>]\<rparr>"
      using s True by (simp add: cl'_def Move Let_def)
    obtain xs where e: "effect (rpTracker ?rp) (rpPC ?rp) (clDB cl) pc (tables c) xs" using step_effect [OF s] by auto
    let ?w = "\<lambda>rp. if rpTracker rp = t then count_list (todo (rpPC rp)) n else 0"
    have in_rp: "?rp \<in> set (clReplicas cl)" using True by simp
    have "weight t n cl' = weight t n cl + ?w (?rp\<lparr>rpPC := pc\<rparr>) - ?w ?rp"
      using True by (simp add: weight_def cl' map_update sum_list_update)
    moreover have "?w ?rp \<le> weight t n cl"
      unfolding weight_def using in_rp by (intro member_le_sum_list) auto
    ultimately have w: "weight t n cl' + ?w ?rp = weight t n cl + ?w (?rp\<lparr>rpPC := pc\<rparr>)" by linarith
    have x: "executed (clDB cl') = executed (clDB cl) @ map (Pair (rpTracker ?rp)) xs" using e by (simp add: effect_def cl')
    have "count_list xs n + count_list (todo pc) n \<le> count_list (todo (rpPC ?rp)) n" using e by (simp add: effect_def)
    with w x have c1: "count_list (executed (clDB cl')) (t, n) + weight t n cl' \<le> count_list (executed (clDB cl)) (t, n) + weight t n cl"
      by (auto simp: count_list_Pair split: if_splits)
    have st: "stamped (clDB cl') u k" if "stamped (clDB cl) u k" for u k using e that by (simp add: effect_def cl')
    have c2: "recorded (clDB cl) \<Longrightarrow> recorded (clDB cl')" using e st by (auto simp: recorded_def x) (auto simp: effect_def cl')
    have c3: "rows_distinct (clDB cl) \<Longrightarrow> rows_distinct (clDB cl')" using e by (simp add: effect_def cl')
    have c4: "settled t n cl' \<and> count_list (executed (clDB cl')) (t, n) = count_list (executed (clDB cl)) (t, n)" if s: "settled t n cl"
    proof -
      have np: "rpTracker ?rp = t \<Longrightarrow> \<not> pending n (rpPC ?rp)" using s in_rp by (auto simp: settled_def)
      then have "rpTracker ?rp = t \<Longrightarrow> n \<notin> set xs" using e by (auto simp: effect_def)
      then have "count_list (executed (clDB cl')) (t, n) = count_list (executed (clDB cl)) (t, n)" by (simp add: x count_list_Pair count_notin)
      moreover have "\<not> (rpTracker ?rp = t \<and> pending n pc)" using e np s by (auto simp: effect_def settled_def)
      then have "settled t n cl'" using s st by (auto simp: settled_def cl' dest!: set_update_subset_insert [THEN subsetD])
      ultimately show ?thesis by blast
    qed
    show ?thesis using c1 c2 c3 c4 by (simp add: Move budget_def)
  qed
qed

lemma race_keeps:
  "(recorded (clDB cl) \<longrightarrow> recorded (clDB (race as cl))) \<and> (rows_distinct (clDB cl) \<longrightarrow> rows_distinct (clDB (race as cl)))
    \<and> count_list (executed (clDB (race as cl))) (t, n) + weight t n (race as cl)
        \<le> count_list (executed (clDB cl)) (t, n) + weight t n cl + sum_list (map (budget t n) as)
    \<and> (settled t n cl \<longrightarrow> count_list (executed (clDB (race as cl))) (t, n) = count_list (executed (clDB cl)) (t, n))"
proof (induction as arbitrary: cl)
  case Nil
  show ?case by (simp add: race_def)
next
  case (Cons a as)
  have "race (a # as) cl = race as (race_step a cl)" by (simp add: race_def)
  with Cons.IH [of "race_step a cl"] race_step_keeps [of cl a t n] show ?case by auto
qed

section \<open>Properties\<close>

lemma sequential_run_once: "run_once (tables c) \<Longrightarrow> run_once (tables (fold (\<lambda>r c. snd (Run r c)) rs c))"
proof (induction rs arbitrary: c)
  case (Cons r rs)
  have "run_once (tables (snd (Run r c)))" using run_once_Run [of r c "fst (Run r c)" "snd (Run r c)"] Cons.prems by simp
  with Cons.IH show ?case by simp
qed simp

text \<open>How many of the actions start a replica of the runner with the tracker \<open>t\<close>.\<close>

definition launches :: "string \<Rightarrow> race_action list \<Rightarrow> nat" where
  "launches t as = length (filter (\<lambda>a. case a of Launch r fs \<Rightarrow> rnTracker r = t | Move i fs \<Rightarrow> False) as)"

lemma count_list_distinct: "distinct xs \<Longrightarrow> count_list xs n \<le> 1"
  by (induction xs) (auto simp: count_notin)

lemma budget_launches:
  assumes "\<And>r fs. Launch r fs \<in> set as \<Longrightarrow> distinct (Names r)"
  shows "sum_list (map (budget t n) as) \<le> launches t as"
  using assms
proof (induction as)
  case (Cons a as)
  have "budget t n a \<le> (case a of Launch r fs \<Rightarrow> if rnTracker r = t then 1 else 0 | Move i fs \<Rightarrow> 0)"
    using Cons.prems [of "case a of Launch r fs \<Rightarrow> r | Move i fs \<Rightarrow> undefined"] count_list_distinct [of _ n]
    by (cases a) (auto simp: budget_def)
  moreover have "sum_list (map (budget t n) as) \<le> launches t as" using Cons by auto
  ultimately show ?case by (cases a) (simp_all add: launches_def split: if_splits)
qed (simp add: launches_def)

text \<open>
  C30: two kinds of starts on a database where nothing was executed yet, with the database failing
  at any call.  Starts one after the other, of any runners and in any number, execute no migration body twice, and
  every body that took effect is recorded.  Replicas that race, their checks, probes and transactions interleaved
  in any way, some of them killed, keep less: every body that took effect is recorded, no tracker row is
  repeated, a body takes effect at most once for each start of its runner (which names each of its migrations once), and it
  never takes effect again once it is recorded and no replica is between its check and its commit of that migration.
\<close>

theorem migrations_recorded:
  assumes "executed d = []" "rows_distinct d" and "\<forall>r fs. Launch r fs \<in> set as \<longrightarrow> distinct (Names r)"
  shows "(let d' = tables (fold (\<lambda>r c. snd (Run r c)) rs \<lparr>tables = d, script = fs\<rparr>) in
      distinct (executed d') \<and> (\<forall>(t, n)\<in>set (executed d'). stamped d' t n))
    \<and> (let cl = race as \<lparr>clDB = d, clReplicas = []\<rparr> in
      (\<forall>(t, n)\<in>set (executed (clDB cl)). stamped (clDB cl) t n) \<and> rows_distinct (clDB cl)
      \<and> count_list (executed (clDB cl)) (t, n) \<le> launches t as
      \<and> (stamped (clDB cl) t n \<and> \<not> (\<exists>rp\<in>set (clReplicas cl). rpTracker rp = t \<and> pending n (rpPC rp)) \<longrightarrow>
           (\<forall>bs. count_list (executed (clDB (race bs cl))) (t, n) = count_list (executed (clDB cl)) (t, n))))"
proof -
  have "run_once d" using assms(1) by (simp add: run_once_def)
  with sequential_run_once [of "\<lparr>tables = d, script = fs\<rparr>" rs]
  have "run_once (tables (fold (\<lambda>r c. snd (Run r c)) rs \<lparr>tables = d, script = fs\<rparr>))" by simp
  then have s: "let d' = tables (fold (\<lambda>r c. snd (Run r c)) rs \<lparr>tables = d, script = fs\<rparr>) in
      distinct (executed d') \<and> (\<forall>(t, n)\<in>set (executed d'). stamped d' t n)" unfolding run_once_def Let_def .
  have w: "recorded d" "weight t n \<lparr>clDB = d, clReplicas = []\<rparr> = 0" using assms(1) by (simp_all add: recorded_def weight_def)
  have b: "sum_list (map (budget t n) as) \<le> launches t as" by (rule budget_launches) (use assms(3) in blast)
  show ?thesis
    using s race_keeps [of "\<lparr>clDB = d, clReplicas = []\<rparr>" as t n] race_keeps [of "race as \<lparr>clDB = d, clReplicas = []\<rparr>" _ t n] w b assms(1,2)
    by (simp add: Let_def recorded_def settled_def)
qed

text \<open>Two replicas that take turns, step by step, on an empty database.\<close>

definition empty_db :: migrate_db where
  "empty_db = \<lparr>schema_of = [], trackers = Map.empty, executed = []\<rparr>"

definition both :: "nat \<Rightarrow> race_action list" where
  "both k = concat (replicate k [Move 0 [], Move 1 []])"

theorem migrations_recorded_witness:
  "count_list (executed (clDB (race (Launch codegraph_runner [] # Launch codegraph_runner [Some ErrBadConn] # both 19) \<lparr>clDB = empty_db, clReplicas = []\<rparr>)))
     (''codegraph_schema_migrations'', ''0005_audit_fixes'') \<le> 2"
proof -
  let ?as = "Launch codegraph_runner [] # Launch codegraph_runner [Some ErrBadConn] # both 19"
  have n: "distinct (Names codegraph_runner)" "launches ''codegraph_schema_migrations'' ?as = 2" by code_simp+
  have "\<forall>r fs. Launch r fs \<in> set ?as \<longrightarrow> distinct (Names r)" using n(1) by (auto simp: both_def)
  moreover have "executed empty_db = []" "rows_distinct empty_db" by (simp_all add: empty_db_def rows_distinct_def)
  ultimately show ?thesis
    using migrations_recorded [of empty_db ?as "[]" "[]" "''codegraph_schema_migrations''" "''0005_audit_fixes''"] n(2)
    by (simp add: Let_def)
qed

text \<open>
  The race that the comment on the stamp in \<^verbatim>\<open>apply\<close> calls benign only for re-runnable bodies is not
  prevented by the probes: a replica that has executed an earlier migration no longer asks them.  Two
  replicas that start together on an empty database and take turns both execute every code graph migration,
  the primary key rebuild of 0005 included, and both report success.
\<close>

theorem racing_replicas_repeat:
  "let cl = race (Launch codegraph_runner [] # Launch codegraph_runner [] # both 19) \<lparr>clDB = empty_db, clReplicas = []\<rparr> in
   executed (clDB cl) = concat (map (\<lambda>n. replicate 2 (rnTracker codegraph_runner, n)) (Names codegraph_runner))
   \<and> list_all (\<lambda>rp. case rpPC rp of RDone \<Rightarrow> True | _ \<Rightarrow> False) (clReplicas cl)
   \<and> trackers (clDB cl) (rnTracker codegraph_runner) = Some (Names codegraph_runner)
   \<and> schema_of (clDB cl) = stage (rnMigrations codegraph_runner) 6"
  by code_simp

end
